(* ===== verification/Zk_Prelude.thy ===== *)
theory Zk_Prelude
  imports "HOL-Library.Word"
begin

unbundle bit_operations_syntax

text \<open>
  Shared vocabulary of the development: the machine integers of the source, the
  state-and-result monad in which fallible stateful Rust code is translated, its
  weakest-precondition rules, and the checked, saturating and overflowing integer
  operations of the Rust standard library together with the \<open>unat\<close> facts the
  component proofs rely on.
\<close>

section \<open>Machine integers\<close>

type_synonym u8 = "8 word"
type_synonym u16 = "16 word"
type_synonym u32 = "32 word"
type_synonym u64 = "64 word"
type_synonym u256 = "256 word"
type_synonym b160 = "160 word"

text \<open>
  A \<open>usize\<close> is a natural number below \<open>2 ^ W\<close>, where \<open>W\<close> is the pointer width of the
  build target: 64 for the sequencer build, 32 for the RISC-V build.
\<close>

definition usize_max :: "nat \<Rightarrow> nat" where
  "usize_max W = 2 ^ W - 1"

named_theorems unat_simps \<open>reading word operations as operations on natural numbers\<close>
named_theorems wp_intro \<open>weakest preconditions of the operations of the model\<close>

section \<open>Fallible state-passing code\<close>

text \<open>
  \<open>Err e\<close> is the value \<open>Err(e)\<close> of a Rust \<open>Result\<close>. \<open>Panic\<close> stands for everything the
  program must never do: a failed \<open>assert!\<close>, an \<open>expect\<close> or \<open>unwrap\<close> on the wrong
  variant, an arithmetic operator that overflows, and an unchecked access outside its
  bounds or to uninitialised memory. The state that a failing operation leaves behind is
  part of the result, as in the source, where \<open>&mut\<close> arguments keep what was written
  before the early return.
\<close>

datatype 'e fault = Err 'e | Panic

type_synonym ('s, 'e, 'a) rs = "'s \<Rightarrow> ('e fault + 'a) \<times> 's"

definition ret :: "'a \<Rightarrow> ('s, 'e, 'a) rs" where
  "ret x s = (Inr x, s)"

definition throw :: "'e \<Rightarrow> ('s, 'e, 'a) rs" where
  "throw e s = (Inl (Err e), s)"

definition panic :: "('s, 'e, 'a) rs" where
  "panic s = (Inl Panic, s)"

text \<open>Sequencing with the \<open>?\<close> operator: the first failure ends the computation.\<close>

definition and_then :: "('s, 'e, 'a) rs \<Rightarrow> ('a \<Rightarrow> ('s, 'e, 'b) rs) \<Rightarrow> ('s, 'e, 'b) rs" where
  "and_then m f s = (case m s of (Inl e, t) \<Rightarrow> (Inl e, t) | (Inr x, t) \<Rightarrow> f x t)"

definition read_st :: "('s \<Rightarrow> 'a) \<Rightarrow> ('s, 'e, 'a) rs" where
  "read_st f s = (Inr (f s), s)"

definition modify_st :: "('s \<Rightarrow> 's) \<Rightarrow> ('s, 'e, unit) rs" where
  "modify_st f s = (Inr (), f s)"

definition assert_that :: "bool \<Rightarrow> ('s, 'e, unit) rs" where
  "assert_that b = (if b then ret () else panic)"

definition ok_or :: "'a option \<Rightarrow> 'e \<Rightarrow> ('s, 'e, 'a) rs" where
  "ok_or x e = (case x of Some y \<Rightarrow> ret y | None \<Rightarrow> throw e)"

definition expect :: "'a option \<Rightarrow> ('s, 'e, 'a) rs" where
  "expect x = (case x of Some y \<Rightarrow> ret y | None \<Rightarrow> panic)"

text \<open>\<open>expect\<close> on a result.\<close>

definition expect_ok :: "('s, 'e, 'a) rs \<Rightarrow> ('s, 'f, 'a) rs" where
  "expect_ok m s = (case m s of (Inr x, t) \<Rightarrow> (Inr x, t) | (Inl _, t) \<Rightarrow> (Inl Panic, t))"

text \<open>
  Running an operation of a component inside a larger state: \<open>get\<close> and \<open>put\<close> select the
  component, \<open>conv\<close> is the \<open>From\<close> conversion that \<open>?\<close> applies to its error.
\<close>

definition on_part ::
    "('s \<Rightarrow> 'p) \<Rightarrow> ('p \<Rightarrow> 's \<Rightarrow> 's) \<Rightarrow> ('e \<Rightarrow> 'f) \<Rightarrow> ('p, 'e, 'a) rs \<Rightarrow> ('s, 'f, 'a) rs" where
  "on_part get put conv m s =
     (case m (get s) of
        (Inl (Err e), p) \<Rightarrow> (Inl (Err (conv e)), put p s)
      | (Inl Panic, p) \<Rightarrow> (Inl Panic, put p s)
      | (Inr x, p) \<Rightarrow> (Inr x, put p s))"

lemma and_then_assoc: "and_then (and_then m f) g = and_then m (\<lambda>x. and_then (f x) g)"
  by (auto simp: and_then_def fun_eq_iff split: prod.splits sum.splits)

lemma and_then_ret: "and_then (ret x) f = f x"
  by (simp add: and_then_def ret_def fun_eq_iff)

subsection \<open>Weakest preconditions\<close>

text \<open>
  \<open>wp m Q E s\<close>: started in \<open>s\<close>, \<open>m\<close> does not panic, a normal result satisfies \<open>Q\<close> and an
  error satisfies \<open>E\<close>.
\<close>

definition wp :: "('s, 'e, 'a) rs \<Rightarrow> ('a \<Rightarrow> 's \<Rightarrow> bool) \<Rightarrow> ('e \<Rightarrow> 's \<Rightarrow> bool) \<Rightarrow> 's \<Rightarrow> bool" where
  "wp m Q E s \<longleftrightarrow>
     (case m s of
        (Inl Panic, _) \<Rightarrow> False
      | (Inl (Err e), t) \<Rightarrow> E e t
      | (Inr x, t) \<Rightarrow> Q x t)"

lemma wp_ret [simp]: "wp (ret x) Q E = Q x"
  by (simp add: fun_eq_iff wp_def ret_def)

lemma wp_throw [simp]: "wp (throw e) Q E = E e"
  by (simp add: fun_eq_iff wp_def throw_def)

lemma wp_panic [simp]: "wp panic Q E s = False"
  by (simp add: wp_def panic_def)

lemma wp_and_then [simp]: "wp (and_then m f) Q E = wp m (\<lambda>x. wp (f x) Q E) E"
  by (auto simp: fun_eq_iff wp_def and_then_def split: prod.splits sum.splits fault.splits)

lemma wp_read_st [simp]: "wp (read_st f) Q E = (\<lambda>s. Q (f s) s)"
  by (simp add: fun_eq_iff wp_def read_st_def)

lemma wp_modify_st [simp]: "wp (modify_st f) Q E = (\<lambda>s. Q () (f s))"
  by (simp add: fun_eq_iff wp_def modify_st_def)

lemma wp_assert_that [simp]: "wp (assert_that b) Q E s = (b \<and> Q () s)"
  by (simp add: assert_that_def)

lemma wp_ok_or [simp]:
  "wp (ok_or x e) Q E s = (case x of Some y \<Rightarrow> Q y s | None \<Rightarrow> E e s)"
  by (simp add: ok_or_def split: option.splits)

lemma wp_expect [simp]: "wp (expect x) Q E s = (\<exists>y. x = Some y \<and> Q y s)"
  by (simp add: expect_def split: option.splits)

lemma wp_expect_ok [simp]: "wp (expect_ok m) Q E = wp m Q (\<lambda>_ _. False)"
  by (auto simp: fun_eq_iff wp_def expect_ok_def split: prod.splits sum.splits fault.splits)

lemma wp_on_part [simp]:
  "wp (on_part get put conv m) Q E s =
     wp m (\<lambda>x p. Q x (put p s)) (\<lambda>e p. E (conv e) (put p s)) (get s)"
  by (auto simp: wp_def on_part_def split: prod.splits sum.splits fault.splits)

lemma wp_if [simp]:
  "wp (if b then m else n) Q E s = (if b then wp m Q E s else wp n Q E s)"
  by simp

lemma wp_mono:
  assumes "wp m Q E s"
    and "\<And>x t. Q x t \<Longrightarrow> Q' x t" and "\<And>e t. E e t \<Longrightarrow> E' e t"
  shows "wp m Q' E' s"
  using assms by (auto simp: wp_def split: prod.splits sum.splits fault.splits)

lemma wp_conj:
  assumes "wp m Q E s" and "wp m Q' E' s"
  shows "wp m (\<lambda>x t. Q x t \<and> Q' x t) (\<lambda>e t. E e t \<and> E' e t) s"
  using assms by (auto simp: wp_def split: prod.splits sum.splits fault.splits)

lemma wp_result:
  assumes "wp m Q E s"
  shows "(\<exists>x t. m s = (Inr x, t) \<and> Q x t) \<or> (\<exists>e t. m s = (Inl (Err e), t) \<and> E e t)"
  using assms by (auto simp: wp_def split: prod.splits sum.splits fault.splits)

lemma wp_total: "wp m Q (\<lambda>_ _. False) s \<Longrightarrow> \<exists>x t. m s = (Inr x, t) \<and> Q x t"
  by (drule wp_result) simp

lemma wp_no_panic: "wp m Q E s \<Longrightarrow> fst (m s) \<noteq> Inl Panic"
  by (auto simp: wp_def split: prod.splits sum.splits fault.splits)

text \<open>
  \<open>returns m Q s\<close>: if \<open>m\<close> returns a value, the value and the state satisfy \<open>Q\<close>; for code that checks
  what it was given and gives up on everything else.
\<close>

definition returns :: "('s, 'e, 'a) rs \<Rightarrow> ('a \<Rightarrow> 's \<Rightarrow> bool) \<Rightarrow> 's \<Rightarrow> bool" where
  "returns m Q s \<longleftrightarrow> (\<forall>x t. m s = (Inr x, t) \<longrightarrow> Q x t)"

lemma returnsD: "returns m Q s \<Longrightarrow> m s = (Inr x, t) \<Longrightarrow> Q x t"
  by (simp add: returns_def)

lemma returns_simps [simp]:
  "returns (ret x) Q = Q x" "returns (throw e) Q s = True" "returns panic Q s = True"
  "returns (and_then m f) R = returns m (\<lambda>x. returns (f x) R)"
  "returns (read_st g) P = (\<lambda>s. P (g s) s)" "returns (modify_st h) U = (\<lambda>s. U () (h s))"
  "returns (assert_that b) U = (\<lambda>s. b \<longrightarrow> U () s)" "returns (expect y) Q = (\<lambda>s. \<forall>z. y = Some z \<longrightarrow> Q z s)"
  by (auto simp: fun_eq_iff returns_def ret_def throw_def panic_def and_then_def read_st_def modify_st_def assert_that_def expect_def
      split: prod.splits sum.splits option.splits)

lemma returns_if [simp]: "returns (if b then m else n) Q s = (if b then returns m Q s else returns n Q s)"
  by simp

lemma returns_mono: "returns m Q s \<Longrightarrow> (\<And>x t. Q x t \<Longrightarrow> R x t) \<Longrightarrow> returns m R s"
  by (simp add: returns_def)

lemma returns_conj: "returns m Q s \<Longrightarrow> returns m R s \<Longrightarrow> returns m (\<lambda>x t. Q x t \<and> R x t) s"
  by (simp add: returns_def)

section \<open>Integer operations of the standard library\<close>

definition checked_add :: "'a::len word \<Rightarrow> 'a word \<Rightarrow> 'a word option" where
  "checked_add a b = (if unat a + unat b < 2 ^ LENGTH('a) then Some (a + b) else None)"

definition checked_sub :: "'a::len word \<Rightarrow> 'a word \<Rightarrow> 'a word option" where
  "checked_sub a b = (if b \<le> a then Some (a - b) else None)"

definition checked_mul :: "'a::len word \<Rightarrow> 'a word \<Rightarrow> 'a word option" where
  "checked_mul a b = (if unat a * unat b < 2 ^ LENGTH('a) then Some (a * b) else None)"

definition saturating_add :: "'a::len word \<Rightarrow> 'a word \<Rightarrow> 'a word" where
  "saturating_add a b = (case checked_add a b of Some c \<Rightarrow> c | None \<Rightarrow> - 1)"

definition saturating_sub :: "'a::len word \<Rightarrow> 'a word \<Rightarrow> 'a word" where
  "saturating_sub a b = (case checked_sub a b of Some c \<Rightarrow> c | None \<Rightarrow> 0)"

definition saturating_mul :: "'a::len word \<Rightarrow> 'a word \<Rightarrow> 'a word" where
  "saturating_mul a b = (case checked_mul a b of Some c \<Rightarrow> c | None \<Rightarrow> - 1)"

definition overflowing_add :: "'a::len word \<Rightarrow> 'a word \<Rightarrow> 'a word \<times> bool" where
  "overflowing_add a b = (a + b, a + b < a)"

definition overflowing_sub :: "'a::len word \<Rightarrow> 'a word \<Rightarrow> 'a word \<times> bool" where
  "overflowing_sub a b = (a - b, a < b)"

definition abs_diff :: "'a::len word \<Rightarrow> 'a word \<Rightarrow> 'a word" where
  "abs_diff a b = (if a < b then b - a else a - b)"

definition next_multiple_of :: "nat \<Rightarrow> nat \<Rightarrow> nat" where
  "next_multiple_of n k = (if n mod k = 0 then n else n + (k - n mod k))"

lemma unat_lt [simp]: "unat (a :: 'a::len word) < 2 ^ LENGTH('a)"
  by (rule unsigned_less)

lemma unat_max_word: "unat (- 1 :: 'a::len word) = 2 ^ LENGTH('a) - 1"
  by (simp only: unsigned_minus_1_eq_mask mask_eq_exp_minus_1)

lemma unat_sub_le [unat_simps]: "b \<le> a \<Longrightarrow> unat (a - b) = unat a - unat b"
  by (simp add: unat_sub)

lemma checked_add_Some [unat_simps]:
  fixes a b :: "'a::len word"
  shows "checked_add a b = Some c \<longleftrightarrow> unat c = unat a + unat b"
proof
  assume "checked_add a b = Some c"
  then show "unat c = unat a + unat b"
    by (auto simp: checked_add_def unat_add_lem[symmetric] split: if_splits)
next
  assume eq: "unat c = unat a + unat b"
  then have "unat a + unat b < 2 ^ LENGTH('a)" using unat_lt [of c] by simp
  moreover from this have "unat (a + b) = unat c" by (simp add: unat_add_lem[symmetric] eq)
  ultimately show "checked_add a b = Some c" by (simp add: checked_add_def word_unat_eq_iff)
qed

lemma checked_add_None [unat_simps]:
  fixes a b :: "'a::len word"
  shows "checked_add a b = None \<longleftrightarrow> 2 ^ LENGTH('a) \<le> unat a + unat b"
  by (auto simp: checked_add_def)

lemma checked_sub_Some [unat_simps]:
  "checked_sub a b = Some c \<longleftrightarrow> b \<le> a \<and> unat c = unat a - unat b"
  by (auto simp: checked_sub_def word_unat_eq_iff unat_sub)

lemma checked_sub_None [unat_simps]: "checked_sub a b = None \<longleftrightarrow> unat a < unat b"
  by (auto simp: checked_sub_def word_le_nat_alt)

lemma checked_mul_Some [unat_simps]:
  fixes a b :: "'a::len word"
  shows "checked_mul a b = Some c \<longleftrightarrow> unat c = unat a * unat b"
proof
  assume "checked_mul a b = Some c"
  then show "unat c = unat a * unat b"
    by (auto simp: checked_mul_def unat_mult_lem[symmetric] split: if_splits)
next
  assume eq: "unat c = unat a * unat b"
  then have "unat a * unat b < 2 ^ LENGTH('a)" using unat_lt [of c] by simp
  moreover from this have "unat (a * b) = unat c" by (simp add: unat_mult_lem[symmetric] eq)
  ultimately show "checked_mul a b = Some c" by (simp add: checked_mul_def word_unat_eq_iff)
qed

lemma checked_mul_None [unat_simps]:
  fixes a b :: "'a::len word"
  shows "checked_mul a b = None \<longleftrightarrow> 2 ^ LENGTH('a) \<le> unat a * unat b"
  by (auto simp: checked_mul_def)

lemma unat_saturating_add [unat_simps]:
  fixes a b :: "'a::len word"
  shows "unat (saturating_add a b) = min (unat a + unat b) (2 ^ LENGTH('a) - 1)"
proof (cases "checked_add a b")
  case None
  then have "2 ^ LENGTH('a) \<le> unat a + unat b" by (simp add: checked_add_None)
  with None show ?thesis by (simp add: saturating_add_def unat_max_word)
next
  case (Some c)
  then have "unat c = unat a + unat b" by (simp add: checked_add_Some)
  with Some show ?thesis using unat_lt [of c] by (simp add: saturating_add_def)
qed

lemma unat_saturating_mul [unat_simps]:
  fixes a b :: "'a::len word"
  shows "unat (saturating_mul a b) = min (unat a * unat b) (2 ^ LENGTH('a) - 1)"
proof (cases "checked_mul a b")
  case None
  then have "2 ^ LENGTH('a) \<le> unat a * unat b" by (simp add: checked_mul_None)
  with None show ?thesis by (simp add: saturating_mul_def unat_max_word)
next
  case (Some c)
  then have "unat c = unat a * unat b" by (simp add: checked_mul_Some)
  with Some show ?thesis using unat_lt [of c] by (simp add: saturating_mul_def)
qed

lemma unat_saturating_sub [unat_simps]: "unat (saturating_sub a b) = unat a - unat b"
  by (auto simp: saturating_sub_def checked_sub_def unat_sub word_le_nat_alt)

lemma unat_abs_diff [unat_simps]:
  "unat (abs_diff a b) = max (unat a) (unat b) - min (unat a) (unat b)"
proof -
  have "a < b \<longleftrightarrow> unat a < unat b" by (simp add: word_less_nat_alt)
  then show ?thesis by (auto simp: abs_diff_def unat_sub word_le_nat_alt)
qed

lemma next_multiple_of_dvd: "0 < k \<Longrightarrow> k dvd next_multiple_of n k"
proof -
  assume k: "0 < k"
  have "n + (k - n mod k) = (n div k) * k + (n mod k + (k - n mod k))"
    by (metis add.assoc div_mult_mod_eq)
  also have "\<dots> = (n div k) * k + k" using k by (simp add: mod_less_divisor less_imp_le_nat)
  finally have "k dvd n + (k - n mod k)" by simp
  then show ?thesis by (auto simp: next_multiple_of_def mod_eq_0_iff_dvd)
qed

lemma next_multiple_of_ge: "n \<le> next_multiple_of n k"
  by (simp add: next_multiple_of_def)

lemma next_multiple_of_less: "0 < k \<Longrightarrow> next_multiple_of n k < n + k"
  by (auto simp: next_multiple_of_def)

lemma next_multiple_of_least:
  assumes "0 < k" and "k dvd m" and "n \<le> m"
  shows "next_multiple_of n k \<le> m"
proof (rule ccontr)
  assume "\<not> next_multiple_of n k \<le> m"
  then have lt: "m < next_multiple_of n k" by simp
  have "next_multiple_of n k - m < k"
    using next_multiple_of_less [OF assms(1), of n] assms(3) lt by linarith
  moreover have "k dvd next_multiple_of n k - m"
    using next_multiple_of_dvd [OF assms(1)] assms(2) by (rule dvd_diff_nat)
  ultimately show False using lt by (auto dest: dvd_imp_le)
qed

end
