(* ===== verification/Resources.thy ===== *)
theory Resources
  imports Zk_Prelude
begin

text \<open>
  The double resource accounting: ergs (the execution environment's resource, 256 ergs
  to one unit of EVM gas) and the native resource that models proving cost. The trait
  \<open>Resource\<close> of \<^verbatim>\<open>zk_ee/src/system/resources.rs\<close> is the locale \<open>resource\<close>; its
  implementors \<open>Ergs\<close>, \<open>DecreasingNative\<close> and \<open>BaseResources\<close> (the latter two in
  \<^verbatim>\<open>zk_ee/src/reference_implementations/mod.rs\<close>) interpret it. Both integer fields are
  \<open>u64\<close>; \<open>+=\<close> and \<open>-=\<close> that would overflow are \<open>Panic\<close>.
\<close>

section \<open>Errors\<close>

datatype runtime_error = OutOfNativeResources | OutOfErgs

datatype system_error = LeafDefect string | LeafRuntime runtime_error

section \<open>The trait\<close>

locale resource =
  fixes empty :: 'r
    and has_enough :: "'r \<Rightarrow> 'r \<Rightarrow> bool"
    and charge :: "'r \<Rightarrow> ('r, system_error, unit) rs"
    and reclaim_withheld :: "'r \<Rightarrow> ('r, system_error, unit) rs"
    and le :: "'r \<Rightarrow> 'r \<Rightarrow> bool"
  assumes le_refl: "le r r"
    and le_trans: "le a b \<Longrightarrow> le b c \<Longrightarrow> le a c"
    and charge_no_panic: "fst (charge c r) \<noteq> Inl Panic"
    and charge_ok: "fst (charge c r) = Inr () \<longleftrightarrow> has_enough r c"
    and charge_le: "le (snd (charge c r)) r"
    and charge_empty: "charge empty r = (Inr (), r)"
    and reclaim_after_charge:
      "has_enough r c \<Longrightarrow> reclaim_withheld c (snd (charge c r)) = (Inr (), r)"
begin

text \<open>A sequence of charges, each with \<open>?\<close>.\<close>

fun charge_all :: "'r list \<Rightarrow> ('r, system_error, unit) rs" where
  "charge_all [] = ret ()"
| "charge_all (c # cs) = and_then (charge c) (\<lambda>_. charge_all cs)"

fun reclaim_all :: "'r list \<Rightarrow> ('r, system_error, unit) rs" where
  "reclaim_all [] = ret ()"
| "reclaim_all (c # cs) = and_then (reclaim_all cs) (\<lambda>_. reclaim_withheld c)"

lemma wp_charge: "wp (charge c) (\<lambda>_ t. le t r) (\<lambda>_ t. le t r) r"
  using charge_no_panic [of c r] charge_le [of c r]
  by (auto simp: wp_def split: prod.splits sum.splits fault.splits)

lemma charge_all_le: "wp (charge_all cs) (\<lambda>_ t. le t r) (\<lambda>_ t. le t r) r"
proof (induction cs arbitrary: r)
  case Nil
  then show ?case by (simp add: le_refl)
next
  case (Cons c cs)
  show ?case
    unfolding charge_all.simps wp_and_then
  proof (rule wp_mono [OF wp_charge])
    fix x t assume t: "le t r"
    show "wp (charge_all cs) (\<lambda>_ t. le t r) (\<lambda>_ t. le t r) t"
      by (rule wp_mono [OF Cons.IH]) (use t le_trans in blast)+
  qed
qed

text \<open>What a run of charges took is exactly what gives the resource back.\<close>

lemma reclaim_charge_all:
  "charge_all cs r = (Inr (), t) \<Longrightarrow> reclaim_all cs t = (Inr (), r)"
proof (induction cs arbitrary: r)
  case Nil
  then show ?case by (simp add: ret_def)
next
  case (Cons c cs)
  from Cons.prems obtain u where u: "charge c r = (Inr (), u)" and "charge_all cs u = (Inr (), t)"
    by (auto simp: and_then_def split: prod.splits sum.splits)
  then have "reclaim_all cs t = (Inr (), u)" by (blast intro: Cons.IH)
  moreover have "has_enough r c" using charge_ok [of c r] u by simp
  then have "reclaim_withheld c u = (Inr (), r)" using reclaim_after_charge u by fastforce
  ultimately show ?case by (simp add: and_then_def)
qed

end

section \<open>Ergs\<close>

type_synonym ergs = u64

definition ergs_empty :: ergs where
  "ergs_empty = 0"

definition ergs_is_empty :: "ergs \<Rightarrow> bool" where
  "ergs_is_empty e \<longleftrightarrow> e = 0"

definition ergs_has_enough :: "ergs \<Rightarrow> ergs \<Rightarrow> bool" where
  "ergs_has_enough e to_spend \<longleftrightarrow> to_spend \<le> e"

definition ergs_charge :: "ergs \<Rightarrow> (ergs, system_error, unit) rs" where
  "ergs_charge to_charge e =
     (if e < to_charge then (Inl (Err (LeafRuntime OutOfErgs)), 0)
      else (Inr (), e - to_charge))"

definition ergs_charge_unchecked :: "ergs \<Rightarrow> (ergs, 'e, unit) rs" where
  "ergs_charge_unchecked to_charge e =
     (case checked_sub e to_charge of Some x \<Rightarrow> (Inr (), x) | None \<Rightarrow> (Inl Panic, e))"

definition ergs_reclaim :: "ergs \<Rightarrow> (ergs, 'e, unit) rs" where
  "ergs_reclaim to_reclaim e =
     (case checked_add e to_reclaim of Some x \<Rightarrow> (Inr (), x) | None \<Rightarrow> (Inl Panic, e))"

definition ergs_reclaim_withheld :: "ergs \<Rightarrow> (ergs, system_error, unit) rs" where
  "ergs_reclaim_withheld to_reclaim e =
     (case checked_add e to_reclaim of Some x \<Rightarrow> (Inr (), x) | None \<Rightarrow> (Inl Panic, e))"

definition ergs_diff :: "ergs \<Rightarrow> ergs \<Rightarrow> ergs" where
  "ergs_diff e other = abs_diff e other"

definition ergs_times :: "ergs \<Rightarrow> u64 \<Rightarrow> ergs option" where
  "ergs_times e coeff = checked_mul e coeff"

section \<open>The native resource\<close>

type_synonym decreasing_native = u64

definition native_empty :: decreasing_native where
  "native_empty = 0"

definition native_is_empty :: "decreasing_native \<Rightarrow> bool" where
  "native_is_empty n \<longleftrightarrow> n = 0"

definition native_has_enough :: "decreasing_native \<Rightarrow> decreasing_native \<Rightarrow> bool" where
  "native_has_enough n to_spend \<longleftrightarrow> to_spend \<le> n"

definition native_charge :: "decreasing_native \<Rightarrow> (decreasing_native, system_error, unit) rs" where
  "native_charge to_charge n =
     (if n < to_charge then (Inl (Err (LeafRuntime OutOfNativeResources)), 0)
      else (Inr (), n - to_charge))"

definition native_charge_unchecked ::
    "decreasing_native \<Rightarrow> (decreasing_native, 'e, unit) rs" where
  "native_charge_unchecked to_charge n =
     (case checked_sub n to_charge of Some x \<Rightarrow> (Inr (), x) | None \<Rightarrow> (Inl Panic, n))"

text \<open>
  \<open>reclaim\<close> only gives the native resource back to a frame that holds none
  (\<open>assert!(self.0 == 0 || to_reclaim.0 == 0)\<close>).
\<close>

definition native_reclaim :: "decreasing_native \<Rightarrow> (decreasing_native, 'e, unit) rs" where
  "native_reclaim to_reclaim n =
     (if \<not> (n = 0 \<or> to_reclaim = 0) then (Inl Panic, n)
      else case checked_add n to_reclaim of Some x \<Rightarrow> (Inr (), x) | None \<Rightarrow> (Inl Panic, n))"

definition native_reclaim_withheld ::
    "decreasing_native \<Rightarrow> (decreasing_native, system_error, unit) rs" where
  "native_reclaim_withheld to_reclaim n =
     (case checked_add n to_reclaim of Some x \<Rightarrow> (Inr (), x) | None \<Rightarrow> (Inl Panic, n))"

definition native_diff :: "decreasing_native \<Rightarrow> decreasing_native \<Rightarrow> decreasing_native" where
  "native_diff n other = abs_diff n other"

section \<open>Both together\<close>

record base_resources =
  ergs :: ergs
  native :: decreasing_native

definition resources_empty :: base_resources where
  "resources_empty = \<lparr>ergs = ergs_empty, native = native_empty\<rparr>"

definition resources_infinite :: base_resources where
  "resources_infinite = \<lparr>ergs = - 1, native = - 1\<rparr>"

definition resources_is_empty :: "base_resources \<Rightarrow> bool" where
  "resources_is_empty r \<longleftrightarrow> ergs_is_empty (ergs r) \<and> native_is_empty (native r)"

definition resources_has_enough :: "base_resources \<Rightarrow> base_resources \<Rightarrow> bool" where
  "resources_has_enough r to_spend \<longleftrightarrow>
     ergs_has_enough (ergs r) (ergs to_spend) \<and> native_has_enough (native r) (native to_spend)"

text \<open>
  Native first. When it fails, the ergs are charged as well and only the native error is
  reported.
\<close>

definition resources_charge :: "base_resources \<Rightarrow> (base_resources, system_error, unit) rs" where
  "resources_charge to_charge r =
     (case native_charge (native to_charge) (native r) of
        (Inl e, n) \<Rightarrow>
          (Inl e, r\<lparr>native := n, ergs := snd (ergs_charge (ergs to_charge) (ergs r))\<rparr>)
      | (Inr _, n) \<Rightarrow>
          (case ergs_charge (ergs to_charge) (ergs r) of
             (x, g) \<Rightarrow> (x, r\<lparr>native := n, ergs := g\<rparr>)))"

definition on_ergs :: "(ergs, 'e, 'a) rs \<Rightarrow> (base_resources, 'e, 'a) rs" where
  "on_ergs = on_part ergs (\<lambda>g r. r\<lparr>ergs := g\<rparr>) (\<lambda>e. e)"

definition on_native ::
    "(decreasing_native, 'e, 'a) rs \<Rightarrow> (base_resources, 'e, 'a) rs" where
  "on_native = on_part native (\<lambda>n r. r\<lparr>native := n\<rparr>) (\<lambda>e. e)"

definition resources_charge_unchecked ::
    "base_resources \<Rightarrow> (base_resources, 'e, unit) rs" where
  "resources_charge_unchecked to_charge =
     and_then (on_ergs (ergs_charge_unchecked (ergs to_charge))) (\<lambda>_.
     on_native (native_charge_unchecked (native to_charge)))"

definition resources_reclaim :: "base_resources \<Rightarrow> (base_resources, 'e, unit) rs" where
  "resources_reclaim to_reclaim =
     and_then (on_ergs (ergs_reclaim (ergs to_reclaim))) (\<lambda>_.
     on_native (native_reclaim (native to_reclaim)))"

definition resources_reclaim_withheld ::
    "base_resources \<Rightarrow> (base_resources, system_error, unit) rs" where
  "resources_reclaim_withheld to_reclaim =
     and_then (on_ergs (ergs_reclaim (ergs to_reclaim))) (\<lambda>_.
     on_native (native_reclaim_withheld (native to_reclaim)))"

definition resources_diff :: "base_resources \<Rightarrow> base_resources \<Rightarrow> base_resources" where
  "resources_diff r other =
     \<lparr>ergs = ergs_diff (ergs r) (ergs other), native = native_diff (native r) (native other)\<rparr>"

definition from_ergs :: "ergs \<Rightarrow> base_resources" where
  "from_ergs e = \<lparr>ergs = e, native = native_empty\<rparr>"

definition from_native :: "decreasing_native \<Rightarrow> base_resources" where
  "from_native n = \<lparr>ergs = 0, native = n\<rparr>"

definition from_ergs_and_native :: "ergs \<Rightarrow> decreasing_native \<Rightarrow> base_resources" where
  "from_ergs_and_native e n = \<lparr>ergs = e, native = n\<rparr>"

definition add_ergs :: "ergs \<Rightarrow> (base_resources, 'e, unit) rs" where
  "add_ergs to_add r =
     (case checked_add (ergs r) to_add of
        Some x \<Rightarrow> (Inr (), r\<lparr>ergs := x\<rparr>)
      | None \<Rightarrow> (Inl Panic, r))"

definition exhaust_ergs :: "base_resources \<Rightarrow> base_resources" where
  "exhaust_ergs r = r\<lparr>ergs := 0\<rparr>"

text \<open>\<open>give_native_to r other\<close> returns the two resources as the call leaves them.\<close>

definition give_native_to :: "base_resources \<Rightarrow> base_resources \<Rightarrow> base_resources \<times> base_resources" where
  "give_native_to r other = (r\<lparr>native := native_empty\<rparr>, other\<lparr>native := native r\<rparr>)"

text \<open>\<open>take\<close>: the value that is returned and the emptied one that is left behind.\<close>

definition take_resources :: "base_resources \<Rightarrow> base_resources \<times> base_resources" where
  "take_resources r = (r, resources_empty)"

definition with_infinite_ergs ::
    "(base_resources, 'e, 'a) rs \<Rightarrow> (base_resources, 'e, 'a) rs" where
  "with_infinite_ergs f r =
     (case f (r\<lparr>ergs := - 1\<rparr>) of (x, s) \<Rightarrow> (x, s\<lparr>ergs := ergs r\<rparr>))"

section \<open>The implementors satisfy the trait\<close>

lemma add_sub_back: "b \<le> a \<Longrightarrow> checked_add (a - b) b = Some a"
  by (simp add: checked_add_Some unat_sub word_le_nat_alt)

interpretation er: resource ergs_empty ergs_has_enough ergs_charge ergs_reclaim_withheld "(\<le>)"
  by unfold_locales
     (auto simp: ergs_charge_def ergs_has_enough_def ergs_empty_def ergs_reclaim_withheld_def
        add_sub_back word_sub_le_iff split: if_splits)

interpretation na: resource native_empty native_has_enough native_charge native_reclaim_withheld "(\<le>)"
  by unfold_locales
     (auto simp: native_charge_def native_has_enough_def native_empty_def
        native_reclaim_withheld_def add_sub_back word_sub_le_iff split: if_splits)

definition res_le :: "base_resources \<Rightarrow> base_resources \<Rightarrow> bool" where
  "res_le a b \<longleftrightarrow> ergs a \<le> ergs b \<and> native a \<le> native b"

lemma resources_charge_cases:
  "resources_charge c r =
     (if native r < native c then
        (Inl (Err (LeafRuntime OutOfNativeResources)),
         \<lparr>ergs = saturating_sub (ergs r) (ergs c), native = 0\<rparr>)
      else if ergs r < ergs c then
        (Inl (Err (LeafRuntime OutOfErgs)), \<lparr>ergs = 0, native = native r - native c\<rparr>)
      else (Inr (), \<lparr>ergs = ergs r - ergs c, native = native r - native c\<rparr>))"
  by (cases r)
     (auto simp: resources_charge_def native_charge_def ergs_charge_def saturating_sub_def
        checked_sub_def)

interpretation re: resource resources_empty resources_has_enough resources_charge
    resources_reclaim_withheld res_le
proof
  fix c r :: base_resources
  assume "resources_has_enough r c"
  then have le: "ergs c \<le> ergs r" "native c \<le> native r"
    by (auto simp: resources_has_enough_def ergs_has_enough_def native_has_enough_def)
  then show "resources_reclaim_withheld c (snd (resources_charge c r)) = (Inr (), r)"
    by (cases r) (auto simp: resources_charge_cases resources_reclaim_withheld_def and_then_def
          on_ergs_def on_native_def on_part_def ergs_reclaim_def native_reclaim_withheld_def
          add_sub_back)
qed (auto simp: resources_charge_cases res_le_def resources_has_enough_def ergs_has_enough_def
      native_has_enough_def resources_empty_def ergs_empty_def native_empty_def word_sub_le_iff
      saturating_sub_def checked_sub_def split: if_splits)

section \<open>Properties\<close>

lemma wp_resources_charge [wp_intro]:
  assumes "\<And>t. ergs c \<le> ergs r \<Longrightarrow> native c \<le> native r \<Longrightarrow>
      t = \<lparr>ergs = ergs r - ergs c, native = native r - native c\<rparr> \<Longrightarrow> Q () t"
    and "\<And>e t. res_le t r \<Longrightarrow> E e t"
  shows "wp (resources_charge c) Q E r"
proof (cases "resources_has_enough r c")
  case True
  then have le: "ergs c \<le> ergs r" "native c \<le> native r"
    by (auto simp: resources_has_enough_def ergs_has_enough_def native_has_enough_def)
  with assms(1) [OF le] show ?thesis by (simp add: wp_def resources_charge_cases leD)
next
  case False
  then show ?thesis
    by (auto simp: wp_def resources_charge_cases not_less resources_has_enough_def
          ergs_has_enough_def native_has_enough_def res_le_def saturating_sub_def checked_sub_def
          word_sub_le_iff intro!: assms(2))
qed

text \<open>C20: A charge takes both costs at once. In every outcome the ergs and the native
  resource that are left are the old amounts less the costs, cut off at zero; the call
  reports out-of-native whenever the native resource does not cover its cost (also when
  the ergs do not), else out-of-ergs when the ergs do not, and succeeds only when both do.\<close>

theorem resources_charge_spec:
  "\<exists>t. resources_charge c r =
         (if unat (native r) < unat (native c) then Inl (Err (LeafRuntime OutOfNativeResources))
          else if unat (ergs r) < unat (ergs c) then Inl (Err (LeafRuntime OutOfErgs))
          else Inr (), t)
     \<and> unat (ergs t) = unat (ergs r) - unat (ergs c)
     \<and> unat (native t) = unat (native r) - unat (native c)"
  by (auto simp: resources_charge_cases word_less_nat_alt unat_simps word_le_nat_alt)


text \<open>C22: Whatever a successful sequence of two charges took, withholding the two amounts
  back (in either bookkeeping order of the frames) restores both resources exactly.\<close>

theorem charge_reclaim_withheld_roundtrip:
  assumes "and_then (resources_charge a) (\<lambda>_. resources_charge b) r = (Inr (), t)"
  shows "and_then (resources_reclaim_withheld b) (\<lambda>_. resources_reclaim_withheld a) t = (Inr (), r)"
  using re.reclaim_charge_all [of "[a, b]" r t] assms
  by (simp add: and_then_def ret_def split: prod.splits sum.splits)

theorem charge_reclaim_withheld_roundtrip_witness:
  "and_then (resources_reclaim_withheld \<lparr>ergs = 2, native = 7\<rparr>)
     (\<lambda>_. resources_reclaim_withheld \<lparr>ergs = 3, native = 0\<rparr>) \<lparr>ergs = 5, native = 1\<rparr>
   = (Inr (), \<lparr>ergs = 10, native = 8\<rparr>)"
  by (rule charge_reclaim_withheld_roundtrip)
     (simp add: and_then_def resources_charge_cases)

end
