(* ===== verification/History_Map.thy ===== *)
theory History_Map
  imports Zk_Prelude
begin

text \<open>
  The revertible key-value map under every cache of the system,
  \<^verbatim>\<open>zk_ee/src/common_structs/history_map/\<close>: \<open>mod.rs\<close>, \<open>element_pool.rs\<close> and
  \<open>element_with_history.rs\<close>, with \<^verbatim>\<open>zk_ee/src/utils/stack_linked_list.rs\<close> read as a list.

  The model keeps the pointers of the source: a history record is a cell of an explicit
  heap, an element holds the addresses of its initial, first and head records, and the
  pool of recycled records is a chain of cells through the same \<open>previous\<close> fields.
  Dereferencing an address that holds no cell is \<open>Panic\<close>, so the theorems that exclude
  \<open>Panic\<close> are memory safety of the \<open>unsafe\<close> blocks. The operations are then shown to
  implement plain lists of (snapshot id, value) per key.
\<close>

section \<open>Records and their pool\<close>

type_synonym addr = nat
type_synonym snapshot_id = nat
type_synonym internal_error = string

record 'v history_record =
  touch_ss_id :: snapshot_id
  val :: 'v
  previous :: "addr option"

text \<open>
  The pool owns the allocator: \<open>cells\<close> is the memory it has handed out and \<open>brk\<close> the next
  fresh address.
\<close>

record 'v element_pool =
  pool_head :: "addr option"
  pool_last :: "addr option"
  cells :: "addr \<rightharpoonup> 'v history_record"
  brk :: addr

definition pool_new :: "'v element_pool" where
  "pool_new = \<lparr>pool_head = None, pool_last = None, cells = Map.empty, brk = 0\<rparr>"

definition deref :: "addr \<Rightarrow> ('v element_pool, 'e, 'v history_record) rs" where
  "deref a = and_then (read_st cells) (\<lambda>h. expect (h a))"

definition assign :: "addr \<Rightarrow> 'v history_record \<Rightarrow> ('v element_pool, 'e, unit) rs" where
  "assign a r = and_then (deref a) (\<lambda>_. modify_st (\<lambda>p. p\<lparr>cells := (cells p)(a \<mapsto> r)\<rparr>))"

definition box_new :: "'v history_record \<Rightarrow> ('v element_pool, 'e, addr) rs" where
  "box_new r p = (Inr (brk p), p\<lparr>cells := (cells p)(brk p \<mapsto> r), brk := brk p + 1\<rparr>)"

definition create_element ::
    "'v \<Rightarrow> addr option \<Rightarrow> snapshot_id \<Rightarrow> ('v element_pool, 'e, addr) rs" where
  "create_element v prev ss =
     and_then (read_st pool_head) (\<lambda>hd.
       case hd of
         None \<Rightarrow> box_new \<lparr>touch_ss_id = ss, val = v, previous = prev\<rparr>
       | Some elem \<Rightarrow>
           and_then (deref elem) (\<lambda>r.
           and_then (modify_st (\<lambda>p. p\<lparr>pool_head := previous r\<rparr>)) (\<lambda>_.
           and_then (if previous r = None then modify_st (\<lambda>p. p\<lparr>pool_last := None\<rparr>) else ret ()) (\<lambda>_.
           and_then (assign elem \<lparr>touch_ss_id = ss, val = v, previous = prev\<rparr>) (\<lambda>_.
           ret elem)))))"

definition reuse_memory :: "addr \<Rightarrow> addr \<Rightarrow> ('v element_pool, 'e, unit) rs" where
  "reuse_memory chain_head chain_tail =
     and_then (read_st pool_last) (\<lambda>l.
     and_then
       (case l of
          None \<Rightarrow> modify_st (\<lambda>p. p\<lparr>pool_head := Some chain_head\<rparr>)
        | Some tail \<Rightarrow> and_then (deref tail) (\<lambda>r. assign tail (r\<lparr>previous := Some chain_head\<rparr>))) (\<lambda>_.
     and_then (deref chain_tail) (\<lambda>r.
     and_then (assign chain_tail (r\<lparr>previous := None\<rparr>)) (\<lambda>_.
     modify_st (\<lambda>p. p\<lparr>pool_last := Some chain_tail\<rparr>)))))"

section \<open>An element with its history\<close>

record 'kp element =
  key_properties :: 'kp
  initial :: addr
  first :: addr
  head :: addr

definition element_new :: "'kp \<Rightarrow> 'v \<Rightarrow> ('v element_pool, 'e, 'kp element) rs" where
  "element_new kp initial_value =
     and_then (create_element initial_value None 0) (\<lambda>elem.
     ret \<lparr>key_properties = kp, initial = elem, first = elem, head = elem\<rparr>)"

definition add_new_record :: "addr \<Rightarrow> 'kp element \<Rightarrow> 'kp element" where
  "add_new_record new_element e =
     (let e = e\<lparr>head := new_element\<rparr> in
      if initial e = first e then e\<lparr>first := new_element\<rparr> else e)"

text \<open>
  The loop of \<open>rollback\<close>, from the head towards older records. \<open>None\<close> is a loop that does
  not end, \<open>Some None\<close> one that fails its \<open>expect\<close> or follows a dangling link.
\<close>

partial_function (option) find_first_removed ::
    "(addr \<rightharpoonup> 'v history_record) \<Rightarrow> snapshot_id \<Rightarrow> addr \<Rightarrow> addr option option" where
  "find_first_removed h snap a =
     (case h a of
        None \<Rightarrow> Some None
      | Some r \<Rightarrow>
          (case previous r of
             None \<Rightarrow> Some None
           | Some n_lnk \<Rightarrow>
               (case h n_lnk of
                  None \<Rightarrow> Some None
                | Some n \<Rightarrow>
                    if touch_ss_id n \<le> snap then Some (Some a)
                    else find_first_removed h snap n_lnk)))"

definition element_rollback ::
    "'kp element \<Rightarrow> snapshot_id \<Rightarrow> ('v element_pool, 'e, 'kp element) rs" where
  "element_rollback e snap =
     and_then (deref (head e)) (\<lambda>hd.
     if touch_ss_id hd \<le> snap then ret e
     else
       and_then (read_st cells) (\<lambda>h.
       and_then (expect (find_first_removed h snap (head e))) (\<lambda>found.
       and_then (expect found) (\<lambda>first_removed.
       and_then (deref first_removed) (\<lambda>r.
       and_then (assign first_removed (r\<lparr>previous := None\<rparr>)) (\<lambda>_.
       and_then (expect (previous r)) (\<lambda>new_head.
       and_then (reuse_memory (head e) first_removed) (\<lambda>_.
       ret (let e = (if first_removed = first e then e\<lparr>first := new_head\<rparr> else e)
            in e\<lparr>head := new_head\<rparr>)))))))))"

definition get_initial_and_last_values ::
    "'kp element \<Rightarrow> ('v element_pool, 'e, ('v \<times> 'v) option) rs" where
  "get_initial_and_last_values e =
     and_then (deref (head e)) (\<lambda>entry.
     case previous entry of
       None \<Rightarrow> ret None
     | Some _ \<Rightarrow> and_then (deref (initial e)) (\<lambda>i. ret (Some (val i, val entry))))"

definition element_commit :: "'kp element \<Rightarrow> ('v element_pool, 'e, 'kp element) rs" where
  "element_commit e =
     (if head e = initial e then ret e
      else if head e = first e then ret e
      else
        and_then (deref (head e)) (\<lambda>head_mut.
        and_then (assign (head e) (head_mut\<lparr>previous := Some (initial e)\<rparr>)) (\<lambda>_.
        and_then (expect (previous head_mut)) (\<lambda>last_removed.
        and_then (reuse_memory last_removed (first e)) (\<lambda>_.
        ret (e\<lparr>first := head e\<rparr>))))))"

section \<open>The map\<close>

text \<open>
  \<open>btree\<close> with the three fields of \<open>HistoryMapState\<close> and the pool. The stack of pending
  updates has its top first.
\<close>

record ('k, 'v, 'kp) history_map =
  btree :: "'k \<rightharpoonup> 'kp element"
  next_snapshot_id :: snapshot_id
  frozen_snapshot_id :: snapshot_id
  pending_updated_elements :: "('k \<times> snapshot_id) list"
  records_memory_pool :: "'v element_pool"

definition hm_new :: "('k, 'v, 'kp) history_map" where
  "hm_new = \<lparr>btree = Map.empty, next_snapshot_id = 1, frozen_snapshot_id = 0,
     pending_updated_elements = [], records_memory_pool = pool_new\<rparr>"

definition on_pool :: "('v element_pool, 'e, 'a) rs \<Rightarrow> (('k, 'v, 'kp) history_map, 'e, 'a) rs" where
  "on_pool = on_part records_memory_pool (\<lambda>p m. m\<lparr>records_memory_pool := p\<rparr>) (\<lambda>e. e)"

definition put_element :: "'k \<Rightarrow> 'kp element \<Rightarrow> (('k, 'v, 'kp) history_map, 'e, unit) rs" where
  "put_element k e = modify_st (\<lambda>m. m\<lparr>btree := (btree m)(k \<mapsto> e)\<rparr>)"

text \<open>
  \<open>get_or_insert\<close>: the callback runs only for a vacant entry; it works on the state \<open>'x\<close> it
  captures.
\<close>

definition hm_get_or_insert ::
    "'k \<Rightarrow> ('x, 'e, 'v \<times> 'kp) rs \<Rightarrow> (('k, 'v, 'kp) history_map \<times> 'x, 'e, unit) rs" where
  "hm_get_or_insert key spawn_v =
     and_then (read_st (\<lambda>s. btree (fst s) key)) (\<lambda>entry.
     case entry of
       Some _ \<Rightarrow> ret ()
     | None \<Rightarrow>
         and_then (on_part snd (\<lambda>x s. (fst s, x)) (\<lambda>e. e) spawn_v) (\<lambda>(v, a).
         on_part fst (\<lambda>m s. (m, snd s)) (\<lambda>e. e)
           (and_then (on_pool (element_new a v)) (\<lambda>e. put_element key e))))"

text \<open>\<open>snapshot\<close>: the counter is a \<open>usize\<close> of pointer width \<open>W\<close>.\<close>

definition hm_snapshot ::
    "nat \<Rightarrow> (('k, 'v, 'kp) history_map, internal_error, snapshot_id) rs" where
  "hm_snapshot W =
     and_then (read_st next_snapshot_id) (\<lambda>i.
     and_then (assert_that (i < usize_max W)) (\<lambda>_.
     and_then (modify_st (\<lambda>m. m\<lparr>next_snapshot_id := i + 1\<rparr>)) (\<lambda>_.
     ret i)))"

fun rollback_pending ::
    "snapshot_id \<Rightarrow> ('k \<times> snapshot_id) list \<Rightarrow> (('k, 'v, 'kp) history_map, 'e, unit) rs" where
  "rollback_pending snap [] = modify_st (\<lambda>m. m\<lparr>pending_updated_elements := []\<rparr>)"
| "rollback_pending snap ((key, update_snapshot_id) # rest) =
     (if update_snapshot_id \<le> snap then
        modify_st (\<lambda>m. m\<lparr>pending_updated_elements := (key, update_snapshot_id) # rest\<rparr>)
      else
        and_then (read_st (\<lambda>m. btree m key)) (\<lambda>e.
        and_then (expect e) (\<lambda>item.
        and_then (on_pool (element_rollback item snap)) (\<lambda>item.
        and_then (put_element key item) (\<lambda>_.
        rollback_pending snap rest)))))"

definition below_frozen :: internal_error where
  "below_frozen = ''History map: rollback below frozen snapshot''"

definition non_existent :: internal_error where
  "non_existent = ''History map: rollback to non-existent snapshot''"

definition hm_rollback ::
    "snapshot_id \<Rightarrow> (('k, 'v, 'kp) history_map, internal_error, unit) rs" where
  "hm_rollback snap =
     and_then (read_st (\<lambda>m. m)) (\<lambda>m.
     if snap < frozen_snapshot_id m then throw below_frozen
     else if next_snapshot_id m \<le> snap then throw non_existent
     else rollback_pending snap (pending_updated_elements m))"

fun commit_pending ::
    "('k \<times> snapshot_id) list \<Rightarrow> (('k, 'v, 'kp) history_map, 'e, unit) rs" where
  "commit_pending [] = ret ()"
| "commit_pending ((key, _) # rest) =
     and_then (read_st (\<lambda>m. btree m key)) (\<lambda>e.
     and_then (expect e) (\<lambda>item.
     and_then (on_pool (element_commit item)) (\<lambda>item.
     and_then (put_element key item) (\<lambda>_.
     commit_pending rest))))"

definition hm_commit :: "nat \<Rightarrow> (('k, 'v, 'kp) history_map, internal_error, unit) rs" where
  "hm_commit W =
     and_then (hm_snapshot W) (\<lambda>i.
     and_then (modify_st (\<lambda>m. m\<lparr>frozen_snapshot_id := i\<rparr>)) (\<lambda>_.
     and_then (read_st pending_updated_elements) (\<lambda>ps.
     and_then (commit_pending ps) (\<lambda>_.
     modify_st (\<lambda>m. m\<lparr>pending_updated_elements := []\<rparr>)))))"

text \<open>
  \<open>HistoryMapItemRefMut::update\<close> on the item of \<open>key\<close>. The callback works on the value in
  place: what it wrote before an error stays in the record of the current snapshot, while
  a fresh record is dropped by the early return.
\<close>

definition hm_update ::
    "'k \<Rightarrow> ('v, 'e, unit) rs \<Rightarrow> (('k, 'v, 'kp) history_map, 'e, unit) rs" where
  "hm_update key f =
     and_then (read_st (\<lambda>m. (btree m key, next_snapshot_id m))) (\<lambda>(entry, next_id).
     and_then (expect entry) (\<lambda>history.
     and_then (on_pool (deref (head history))) (\<lambda>last_record.
     if touch_ss_id last_record = next_id then
       on_pool (and_then (assign (head history) (last_record\<lparr>val := snd (f (val last_record))\<rparr>))
         (\<lambda>_ p. (fst (f (val last_record)), p)))
     else
       and_then (on_pool (create_element (val last_record) (Some (head history)) next_id)) (\<lambda>new.
       and_then (on_pool (and_then (deref new) (\<lambda>r.
         and_then (assign new (r\<lparr>val := snd (f (val r))\<rparr>)) (\<lambda>_ p. (fst (f (val r)), p))))) (\<lambda>_.
       and_then (put_element key (add_new_record new history)) (\<lambda>_.
       modify_st (\<lambda>m. m\<lparr>pending_updated_elements := (key, next_id) # pending_updated_elements m\<rparr>)))))))"

text \<open>\<open>key_properties_mut\<close>.\<close>

definition hm_set_key_properties ::
    "'k \<Rightarrow> ('kp \<Rightarrow> 'kp) \<Rightarrow> (('k, 'v, 'kp) history_map, 'e, unit) rs" where
  "hm_set_key_properties key g =
     and_then (read_st (\<lambda>m. btree m key)) (\<lambda>entry.
     and_then (expect entry) (\<lambda>e.
     put_element key (e\<lparr>key_properties := g (key_properties e)\<rparr>)))"

text \<open>\<open>current\<close>, \<open>initial\<close> and \<open>get_initial_and_last_values\<close> of the item of \<open>key\<close>.\<close>

definition hm_current :: "'k \<Rightarrow> (('k, 'v, 'kp) history_map, internal_error, 'v) rs" where
  "hm_current key =
     and_then (read_st (\<lambda>m. btree m key)) (\<lambda>entry.
     and_then (expect entry) (\<lambda>e.
     and_then (on_pool (deref (head e))) (\<lambda>r. ret (val r))))"

definition hm_initial :: "'k \<Rightarrow> (('k, 'v, 'kp) history_map, internal_error, 'v) rs" where
  "hm_initial key =
     and_then (read_st (\<lambda>m. btree m key)) (\<lambda>entry.
     and_then (expect entry) (\<lambda>e.
     and_then (on_pool (deref (initial e))) (\<lambda>r. ret (val r))))"

definition hm_get_initial_and_last_values ::
    "'k \<Rightarrow> (('k, 'v, 'kp) history_map, internal_error, ('v \<times> 'v) option) rs" where
  "hm_get_initial_and_last_values key =
     and_then (read_st (\<lambda>m. btree m key)) (\<lambda>entry.
     and_then (expect entry) (\<lambda>e. on_pool (get_initial_and_last_values e)))"

text \<open>
  The three walks of the map. \<open>BTreeMap\<close> iterates in key order; the callbacks work on the
  state \<open>'x\<close> they capture.
\<close>

definition hm_keys :: "('k::linorder, 'v, 'kp) history_map \<Rightarrow> 'k list" where
  "hm_keys m = sorted_list_of_set (dom (btree m))"

fun apply_to_updated ::
    "('v \<Rightarrow> 'v \<Rightarrow> 'k \<Rightarrow> ('x, 'e, unit) rs) \<Rightarrow> 'k list \<Rightarrow> (('k, 'v, 'kp) history_map \<times> 'x, 'e, unit) rs" where
  "apply_to_updated do_fn [] = ret ()"
| "apply_to_updated do_fn (k # ks) =
     and_then (on_part fst (\<lambda>m s. (m, snd s)) (\<lambda>e. e)
       (and_then (read_st (\<lambda>m. btree m k)) (\<lambda>entry.
        and_then (expect entry) (\<lambda>v. on_pool (get_initial_and_last_values v))))) (\<lambda>vs.
     and_then
       (case vs of
          None \<Rightarrow> ret ()
        | Some (i, l) \<Rightarrow> on_part snd (\<lambda>x s. (fst s, x)) (\<lambda>e. e) (do_fn i l k)) (\<lambda>_.
     apply_to_updated do_fn ks))"

definition apply_to_all_updated_elements ::
    "('v \<Rightarrow> 'v \<Rightarrow> 'k::linorder \<Rightarrow> ('x, 'e, unit) rs) \<Rightarrow>
     (('k, 'v, 'kp) history_map \<times> 'x, 'e, unit) rs" where
  "apply_to_all_updated_elements do_fn =
     and_then (read_st (\<lambda>s. hm_keys (fst s))) (\<lambda>ks. apply_to_updated do_fn ks)"

text \<open>\<open>for_each_range\<close> with included bounds; the callback is an operation on the item of its key.\<close>

fun for_each_key ::
    "('k \<Rightarrow> (('k, 'v, 'kp) history_map, internal_error, unit) rs) \<Rightarrow> 'k list \<Rightarrow>
     (('k, 'v, 'kp) history_map, internal_error, unit) rs" where
  "for_each_key do_fn [] = ret ()"
| "for_each_key do_fn (k # ks) = and_then (do_fn k) (\<lambda>_. for_each_key do_fn ks)"

definition for_each_range ::
    "'k::linorder \<Rightarrow> 'k \<Rightarrow> ('k \<Rightarrow> (('k, 'v, 'kp) history_map, internal_error, unit) rs) \<Rightarrow>
     (('k, 'v, 'kp) history_map, internal_error, unit) rs" where
  "for_each_range lower upper do_fn =
     and_then (read_st (\<lambda>m. filter (\<lambda>k. lower \<le> k \<and> k \<le> upper) (hm_keys m))) (\<lambda>ks. for_each_key do_fn ks)"

definition iter_altered_since_commit :: "('k, 'v, 'kp) history_map \<Rightarrow> 'k list" where
  "iter_altered_since_commit m = map fst (pending_updated_elements m)"

text \<open>
  \<open>apply_to_last_record_of_pending_changes\<close>: the callback holds \<open>&initial\<close>, \<open>&mut current\<close> and
  \<open>&mut key_properties\<close> at once, so the two records must not be the same cell; it works on the
  state \<open>'x\<close> it captures.
\<close>

type_synonym ('k, 'v, 'kp, 'x) pending_fn =
  "'k \<Rightarrow> 'v history_record \<Rightarrow> ('v history_record \<times> 'kp) \<times> 'x \<Rightarrow>
     (internal_error fault + unit) \<times> ('v history_record \<times> 'kp) \<times> 'x"

definition on_map :: "('m, 'e, 'a) rs \<Rightarrow> ('m \<times> 'x, 'e, 'a) rs" where
  "on_map = on_part fst (\<lambda>m s. (m, snd s)) (\<lambda>e. e)"

fun apply_to_pending ::
    "('k, 'v, 'kp, 'x) pending_fn \<Rightarrow> ('k \<times> snapshot_id) list \<Rightarrow>
     (('k, 'v, 'kp) history_map \<times> 'x, internal_error, unit) rs" where
  "apply_to_pending do_fn [] = ret ()"
| "apply_to_pending do_fn ((k, _) # ps) =
     and_then (read_st (\<lambda>s. btree (fst s) k)) (\<lambda>entry.
     and_then (expect entry) (\<lambda>record.
     and_then (assert_that (initial record \<noteq> head record)) (\<lambda>_.
     and_then (on_map (on_pool (deref (initial record)))) (\<lambda>i.
     and_then (on_map (on_pool (deref (head record)))) (\<lambda>current.
     and_then (read_st (\<lambda>s. do_fn k i ((current, key_properties record), snd s))) (\<lambda>(res, (r, kp), x).
     and_then (on_map (on_pool (assign (head record) r))) (\<lambda>_.
     and_then (on_map (put_element k (record\<lparr>key_properties := kp\<rparr>))) (\<lambda>_.
     and_then (modify_st (\<lambda>s. (fst s, x))) (\<lambda>_.
     and_then (Pair res) (\<lambda>_.
     apply_to_pending do_fn ps))))))))))"

definition apply_to_last_record_of_pending_changes where
  "apply_to_last_record_of_pending_changes do_fn =
     and_then (read_st (\<lambda>s. pending_updated_elements (fst s))) (\<lambda>ps. apply_to_pending do_fn ps)"

section \<open>Dropping\<close>

text \<open>
  The \<open>Drop\<close> implementations of an element and of the pool walk the chain and free every
  record. Freeing a record that is not allocated is \<open>Some None\<close>; \<open>None\<close> is an endless walk.
\<close>

partial_function (option) drop_chain ::
    "(addr \<rightharpoonup> 'v history_record) \<Rightarrow> addr \<Rightarrow> (addr \<rightharpoonup> 'v history_record) option option" where
  "drop_chain h a =
     (case h a of
        None \<Rightarrow> Some None
      | Some elem \<Rightarrow>
          (case previous elem of
             None \<Rightarrow> Some (Some (h(a := None)))
           | Some n \<Rightarrow> drop_chain (h(a := None)) n))"

definition element_drop ::
    "'kp element \<Rightarrow> (addr \<rightharpoonup> 'v history_record) \<Rightarrow> (addr \<rightharpoonup> 'v history_record) option option" where
  "element_drop e h = drop_chain h (head e)"

definition pool_drop ::
    "'v element_pool \<Rightarrow> (addr \<rightharpoonup> 'v history_record) \<Rightarrow> (addr \<rightharpoonup> 'v history_record) option option" where
  "pool_drop p h = (case pool_head p of None \<Rightarrow> Some (Some h) | Some a \<Rightarrow> drop_chain h a)"

fun elements_drop ::
    "('k, 'v, 'kp) history_map \<Rightarrow> 'k list \<Rightarrow> (addr \<rightharpoonup> 'v history_record) \<Rightarrow>
     (addr \<rightharpoonup> 'v history_record) option option" where
  "elements_drop m [] h = Some (Some h)"
| "elements_drop m (k # ks) h =
     (case btree m k of
        None \<Rightarrow> Some None
      | Some e \<Rightarrow>
          (case element_drop e h of
             Some (Some h') \<Rightarrow> elements_drop m ks h'
           | r \<Rightarrow> r))"

text \<open>Fields are dropped in declaration order: the elements, then the pool.\<close>

definition hm_drop ::
    "('k::linorder, 'v, 'kp) history_map \<Rightarrow> (addr \<rightharpoonup> 'v history_record) option option" where
  "hm_drop m =
     (case elements_drop m (hm_keys m) (cells (records_memory_pool m)) of
        Some (Some h) \<Rightarrow> pool_drop (records_memory_pool m) h
      | r \<Rightarrow> r)"

section \<open>Sequences of operations\<close>

text \<open>
  What a client can do with a map: the public operations, on items that \<open>get_mut\<close> finds.
\<close>

datatype ('k, 'v, 'kp) hm_op =
    GetOrInsert 'k 'v 'kp
  | Update 'k "'v \<Rightarrow> (internal_error fault + unit) \<times> 'v"
  | KeyPropertiesMut 'k "'kp \<Rightarrow> 'kp"
  | Snapshot
  | Rollback snapshot_id
  | Commit

definition hm_get_mut ::
    "'k \<Rightarrow> (('k, 'v, 'kp) history_map, 'e, unit) rs \<Rightarrow> (('k, 'v, 'kp) history_map, 'e, unit) rs" where
  "hm_get_mut key item_op =
     and_then (read_st (\<lambda>m. btree m key)) (\<lambda>entry. if entry = None then ret () else item_op)"

fun hm_exec :: "nat \<Rightarrow> ('k, 'v, 'kp) hm_op \<Rightarrow> (('k, 'v, 'kp) history_map, internal_error, unit) rs" where
  "hm_exec W (GetOrInsert k v kp) =
     on_part (\<lambda>m. (m, ())) (\<lambda>s _. fst s) (\<lambda>e. e) (hm_get_or_insert k (ret (v, kp)))"
| "hm_exec W (Update k f) = hm_get_mut k (hm_update k f)"
| "hm_exec W (KeyPropertiesMut k g) = hm_get_mut k (hm_set_key_properties k g)"
| "hm_exec W Snapshot = and_then (hm_snapshot W) (\<lambda>_. ret ())"
| "hm_exec W (Rollback i) = hm_rollback i"
| "hm_exec W Commit = hm_commit W"

text \<open>A callback that panics is the client's; all others are allowed.\<close>

fun callback_total :: "('k, 'v, 'kp) hm_op \<Rightarrow> bool" where
  "callback_total (Update k f) \<longleftrightarrow> (\<forall>v. fst (f v) \<noteq> Inl Panic)"
| "callback_total _ \<longleftrightarrow> True"

text \<open>
  The states a client can bring the map into; an operation that returned an error leaves a
  state like any other.
\<close>

inductive hm_reachable :: "nat \<Rightarrow> ('k, 'v, 'kp) history_map \<Rightarrow> bool" for W where
  hm_reach_new: "hm_reachable W hm_new"
| hm_reach_step: "hm_reachable W m \<Longrightarrow> callback_total op \<Longrightarrow> next_snapshot_id m < usize_max W \<Longrightarrow>
    snd (hm_exec W op m) = m' \<Longrightarrow> hm_reachable W m'"

text \<open>
  The states between a snapshot and its rollback: nothing is committed, and nested
  rollbacks stay at or above the snapshot \<open>i\<close>.
\<close>

fun above :: "snapshot_id \<Rightarrow> ('k, 'v, 'kp) hm_op \<Rightarrow> bool" where
  "above i Commit \<longleftrightarrow> False"
| "above i (Rollback j) \<longleftrightarrow> i \<le> j"
| "above i _ \<longleftrightarrow> True"

inductive hm_since ::
    "nat \<Rightarrow> snapshot_id \<Rightarrow> ('k, 'v, 'kp) history_map \<Rightarrow> ('k, 'v, 'kp) history_map \<Rightarrow> bool" for W i m where
  hm_since_refl: "hm_since W i m m"
| hm_since_step: "hm_since W i m m1 \<Longrightarrow> callback_total op \<Longrightarrow> above i op \<Longrightarrow>
    next_snapshot_id m1 < usize_max W \<Longrightarrow> snd (hm_exec W op m1) = m2 \<Longrightarrow> hm_since W i m m2"

section \<open>Chains of records\<close>

text \<open>\<open>seg h p as q\<close>: from link \<open>p\<close>, the \<open>previous\<close> fields visit exactly \<open>as\<close> and end in link \<open>q\<close>.\<close>

fun seg :: "(addr \<rightharpoonup> 'v history_record) \<Rightarrow> addr option \<Rightarrow> addr list \<Rightarrow> addr option \<Rightarrow> bool" where
  "seg h p [] q \<longleftrightarrow> p = q"
| "seg h p (a # as) q \<longleftrightarrow> p = Some a \<and> (\<exists>r. h a = Some r \<and> seg h (previous r) as q)"

lemma seg_append: "seg h p (as @ bs) q \<longleftrightarrow> (\<exists>m. seg h p as m \<and> seg h m bs q)"
  by (induction as arbitrary: p) auto

lemma seg_cong:
  "(\<And>a. a \<in> set as \<Longrightarrow> h a = h' a) \<Longrightarrow> seg h p as q = seg h' p as q"
  by (induction as arbitrary: p) auto

lemma seg_upd [simp]: "a \<notin> set as \<Longrightarrow> seg (h(a \<mapsto> r)) p as q = seg h p as q"
  by (rule seg_cong) auto

lemma seg_live: "seg h p as q \<Longrightarrow> a \<in> set as \<Longrightarrow> h a \<noteq> None"
  by (induction as arbitrary: p) auto

lemma seg_hd: "seg h (Some a) as None \<Longrightarrow> as \<noteq> [] \<and> hd as = a"
  by (cases as) auto

text \<open>Redirecting the last link of a chain.\<close>

lemma seg_relink:
  assumes "seg h p (as @ [a]) q" and "a \<notin> set as" and "h a = Some r"
  shows "seg (h(a \<mapsto> r\<lparr>previous := q'\<rparr>)) p (as @ [a]) q'"
  using assms by (auto simp: seg_append)

definition pool_ok :: "'v element_pool \<Rightarrow> addr list \<Rightarrow> bool" where
  "pool_ok p F \<longleftrightarrow>
     seg (cells p) (pool_head p) F None \<and>
     pool_last p = (if F = [] then None else Some (last F)) \<and>
     distinct F \<and> (\<forall>a r. cells p a = Some r \<longrightarrow> a < brk p)"

text \<open>What a record says, without its link.\<close>

definition entry_at :: "(addr \<rightharpoonup> 'v history_record) \<Rightarrow> addr \<Rightarrow> snapshot_id \<times> 'v" where
  "entry_at h a = (touch_ss_id (the (h a)), val (the (h a)))"

definition element_ok :: "(addr \<rightharpoonup> 'v history_record) \<Rightarrow> 'kp element \<Rightarrow> addr list \<Rightarrow> bool" where
  "element_ok h e as \<longleftrightarrow>
     as \<noteq> [] \<and> seg h (Some (head e)) as None \<and> distinct as \<and>
     initial e = last as \<and> first e = last (last as # butlast as)"

lemma element_ok_cong:
  "(\<And>a. a \<in> set as \<Longrightarrow> h a = h' a) \<Longrightarrow> element_ok h e as = element_ok h' e as"
  using seg_cong [of as h h'] by (auto simp: element_ok_def)

lemma element_ok_live: "element_ok h e as \<Longrightarrow> a \<in> set as \<Longrightarrow> h a \<noteq> None"
  unfolding element_ok_def using seg_live by blast

lemma element_ok_head: "element_ok h e as \<Longrightarrow> head e = hd as \<and> as \<noteq> []"
  using seg_hd by (fastforce simp: element_ok_def)

lemma wp_deref [simp]: "wp (deref a) Q E p = (\<exists>r. cells p a = Some r \<and> Q r p)"
  by (simp add: deref_def)

lemma wp_assign [simp]:
  "wp (assign a r) Q E p = (cells p a \<noteq> None \<and> Q () (p\<lparr>cells := (cells p)(a \<mapsto> r)\<rparr>))"
  by (auto simp: assign_def)

lemma wp_box_new [simp]:
  "wp (box_new r) Q E p = Q (brk p) (p\<lparr>cells := (cells p)(brk p \<mapsto> r), brk := brk p + 1\<rparr>)"
  by (simp add: wp_def box_new_def)

lemma wp_create_element [wp_intro]:
  assumes ok: "pool_ok p F"
    and post: "\<And>a p' F'. pool_ok p' F' \<Longrightarrow> set F' \<subseteq> set F \<Longrightarrow> a \<notin> set F' \<Longrightarrow>
      a \<in> set F \<or> cells p a = None \<Longrightarrow>
      cells p' = (cells p)(a \<mapsto> \<lparr>touch_ss_id = ss, val = v, previous = prev\<rparr>) \<Longrightarrow> Q a p'"
  shows "wp (create_element v prev ss) Q E p"
proof (cases F)
  case Nil
  have fresh: "cells p (brk p) = None"
    using ok by (metis less_irrefl not_None_eq pool_ok_def)
  show ?thesis
    using ok fresh Nil
    by (auto simp: create_element_def pool_ok_def less_Suc_eq intro!: post [of _ "[]"])
next
  case (Cons a G)
  then obtain r where r: "pool_head p = Some a" "cells p a = Some r" "seg (cells p) (previous r) G None"
    and "a \<notin> set G" "distinct G"
    using ok by (auto simp: pool_ok_def)
  moreover have "previous r = None \<longleftrightarrow> G = []" using r(3) by (cases G) auto
  ultimately show ?thesis
    using ok Cons by (auto simp: create_element_def pool_ok_def intro!: post [of _ G])
qed

lemma wp_reuse_memory [wp_intro]:
  assumes ok: "pool_ok p F" and as: "seg (cells p) (Some a) as q" "as \<noteq> []" "b = last as"
    and dis: "distinct as" "set as \<inter> set F = {}"
    and post: "\<And>p'. pool_ok p' (F @ as) \<Longrightarrow>
      (\<And>c. c \<notin> set F \<union> set as \<Longrightarrow> cells p' c = cells p c) \<Longrightarrow>
      (\<And>c. entry_at (cells p') c = entry_at (cells p) c) \<Longrightarrow> Q () p'"
  shows "wp (reuse_memory a b) Q E p"
proof -
  obtain bs where bs: "as = bs @ [b]" using as by (metis append_butlast_last_id)
  obtain rb where rb: "cells p b = Some rb" using as(1) bs by (auto simp: seg_append)
  have brk: "\<And>c r. cells p c = Some r \<Longrightarrow> c < brk p" using ok by (simp add: pool_ok_def)
  show ?thesis
  proof (cases F rule: rev_cases)
    case Nil
    have "seg ((cells p)(b \<mapsto> rb\<lparr>previous := None\<rparr>)) (Some a) as None"
      using as(1) rb dis unfolding bs by (intro seg_relink) auto
    then have "Q () (p\<lparr>pool_head := Some a, cells := (cells p)(b \<mapsto> rb\<lparr>previous := None\<rparr>),
        pool_last := Some b\<rparr>)"
      using Nil as(2,3) rb dis(1) brk by (intro post) (auto simp: pool_ok_def entry_at_def)
    moreover have "pool_last p = None" using ok Nil by (simp add: pool_ok_def)
    ultimately show ?thesis using rb by (simp add: reuse_memory_def)
  next
    case (snoc G t)
    obtain rt where rt: "cells p t = Some rt" using ok snoc by (auto simp: pool_ok_def seg_append)
    let ?h = "(cells p)(t \<mapsto> rt\<lparr>previous := Some a\<rparr>)"
    let ?h' = "?h(b \<mapsto> rb\<lparr>previous := None\<rparr>)"
    have ne: "t \<noteq> b" "t \<notin> set as" "b \<notin> set F" "t \<notin> set G" using dis snoc bs ok by (auto simp: pool_ok_def)
    have "seg ?h (pool_head p) (G @ [t]) (Some a)"
      using ok snoc rt ne by (intro seg_relink) (auto simp: pool_ok_def)
    then have "seg ?h' (pool_head p) F (Some a)" using ne snoc by simp
    moreover have "seg ?h (Some a) as q" using as ne by simp
    then have "seg ?h' (Some a) as None"
      using rb ne dis unfolding bs by (intro seg_relink) auto
    ultimately have 3: "seg ?h' (pool_head p) (F @ as) None" by (auto simp: seg_append)
    have "distinct (F @ as)" using ok dis by (auto simp: pool_ok_def)
    with 3 have "Q () (p\<lparr>cells := ?h', pool_last := Some b\<rparr>)"
      using snoc as(2,3) rb rt ne brk by (intro post) (auto simp: pool_ok_def entry_at_def)
    moreover have "pool_last p = Some t" using ok snoc by (simp add: pool_ok_def)
    ultimately show ?thesis using rb rt ne(1) by (simp add: reuse_memory_def)
  qed
qed

lemma find_first_removed_last:
  assumes "seg h (Some a) (a # rem @ n # rest) None"
    and "\<forall>x \<in> set rem. snap < fst (entry_at h x)" and "fst (entry_at h n) \<le> snap"
  shows "find_first_removed h snap a = Some (Some (last (a # rem)))"
  using assms
proof (induction rem arbitrary: a)
  case Nil
  then show ?case
    by (auto simp: find_first_removed.simps [of h snap a] entry_at_def)
next
  case (Cons b rem)
  then have "find_first_removed h snap b = Some (Some (last (b # rem)))" by auto
  with Cons.prems show ?case
    by (auto simp: find_first_removed.simps [of h snap a] entry_at_def)
qed

text \<open>Cutting the newest records \<open>rem\<close> off an element and recycling them.\<close>

lemma wp_element_rollback [wp_intro]:
  assumes ok: "pool_ok p F" and e: "element_ok (cells p) e (rem @ keep)" and keep: "keep \<noteq> []"
    and rem: "\<forall>x \<in> set rem. snap < fst (entry_at (cells p) x)"
    and stop: "fst (entry_at (cells p) (hd keep)) \<le> snap"
    and dis: "set (rem @ keep) \<inter> set F = {}"
    and post: "\<And>e' p'. pool_ok p' (F @ rem) \<Longrightarrow> element_ok (cells p') e' keep \<Longrightarrow>
      (\<And>c. c \<notin> set F \<union> set rem \<Longrightarrow> cells p' c = cells p c) \<Longrightarrow>
      (\<And>c. entry_at (cells p') c = entry_at (cells p) c) \<Longrightarrow>
      key_properties e' = key_properties e \<Longrightarrow> Q e' p'"
  shows "wp (element_rollback e snap) Q E p"
proof (cases rem rule: rev_cases)
  case Nil
  with e keep obtain r where "cells p (head e) = Some r" "head e = hd keep"
    by (cases keep) (auto simp: element_ok_def)
  moreover have "Q e p" using Nil ok e by (intro post) auto
  ultimately show ?thesis using stop by (simp add: element_rollback_def entry_at_def)
next
  case (snoc bs b)
  obtain n rest where n: "keep = n # rest" using keep by (cases keep) auto
  have "rem \<noteq> []" using snoc by simp
  then obtain a rem' where rem_a: "rem = a # rem'" by (cases rem) auto
  have seg_e: "seg (cells p) (Some (head e)) (rem @ keep) None" and dist: "distinct (rem @ keep)"
    using e by (auto simp: element_ok_def)
  then have hd_a: "head e = a" using rem_a by (auto dest: seg_hd)
  have b: "last (a # rem') = b" using rem_a snoc by (metis last_snoc)
  obtain rb where rb: "cells p b = Some rb" "previous rb = Some n"
    and seg_keep: "seg (cells p) (Some n) keep None" and seg_rem: "seg (cells p) (Some a) rem (Some n)"
    using seg_e snoc n hd_a by (auto simp: seg_append)
  have found: "find_first_removed (cells p) snap a = Some (Some b)"
    using find_first_removed_last [of "cells p" a rem' n rest snap] seg_e rem stop n rem_a hd_a b by simp
  obtain ra where ra: "cells p a = Some ra" "snap < touch_ss_id ra"
    using seg_rem rem rem_a by (auto simp: entry_at_def)
  let ?p = "p\<lparr>cells := (cells p)(b \<mapsto> rb\<lparr>previous := None\<rparr>)\<rparr>"
  let ?e = "let e = (if b = first e then e\<lparr>first := n\<rparr> else e) in e\<lparr>head := n\<rparr>"
  have b_in: "b \<in> set rem" "b \<notin> set F" "b \<notin> set keep" using snoc dis dist by auto
  have ok': "pool_ok ?p F" using ok b_in rb by (auto simp: pool_ok_def)
  have seg': "seg (cells ?p) (Some a) rem None"
    using seg_relink [of "cells p" "Some a" bs b "Some n" rb None] seg_rem rb(1) snoc dist by simp
  have "butlast rest \<noteq> [] \<Longrightarrow> last (butlast rest) \<in> set rest"
    by (blast intro: in_set_butlastD last_in_set)
  then have e': "element_ok (cells p) ?e keep"
    using e seg_keep b_in dist n snoc
    by (auto simp: element_ok_def Let_def butlast_append last_append split: if_splits)
  have ent: "entry_at (cells ?p) c = entry_at (cells p) c" for c using rb by (simp add: entry_at_def)
  have "wp (reuse_memory a b) (\<lambda>_. Q ?e) E ?p"
  proof (rule wp_reuse_memory [OF ok' seg'])
    fix p' assume p': "pool_ok p' (F @ rem)" "\<And>c. c \<notin> set F \<union> set rem \<Longrightarrow> cells p' c = cells ?p c"
      "\<And>c. entry_at (cells p') c = entry_at (cells ?p) c"
    have same: "cells p' c = cells p c" if "c \<notin> set F \<union> set rem" for c
      using p'(2) [OF that] that b_in by (auto split: if_splits)
    moreover have "element_ok (cells p') ?e keep"
      using e' by (subst element_ok_cong [of keep "cells p'" "cells p"]) (use same dis dist in auto)
    ultimately show "Q ?e p'" using p'(1,3) ent by (intro post) auto
  qed (use snoc dis dist in auto)
  then show ?thesis
    using ra rb found hd_a by (simp add: element_rollback_def Let_def)
qed

text \<open>Keeping only the newest and the initial record, recycling those between.\<close>

definition squash :: "'a list \<Rightarrow> 'a list" where
  "squash xs = (if length xs \<le> 2 then xs else [hd xs, last xs])"

lemma wp_element_commit [wp_intro]:
  assumes ok: "pool_ok p F" and e: "element_ok (cells p) e as" and dis: "set as \<inter> set F = {}"
    and post: "\<And>e' p' rem. pool_ok p' (F @ rem) \<Longrightarrow> element_ok (cells p') e' (squash as) \<Longrightarrow>
      set rem \<subseteq> set as - set (squash as) \<Longrightarrow>
      (\<And>c. c \<notin> set F \<union> set as \<Longrightarrow> cells p' c = cells p c) \<Longrightarrow>
      (\<And>c. entry_at (cells p') c = entry_at (cells p) c) \<Longrightarrow>
      key_properties e' = key_properties e \<Longrightarrow> Q e' p'"
  shows "wp (element_commit e) Q E p"
proof (cases "length as \<le> 2")
  case True
  then have "as = [head e] \<or> (\<exists>b. as = [head e, b])"
    using element_ok_head [OF e] by (cases as rule: list.exhaust [case_names Nil Cons])
      (auto simp: le_Suc_eq length_Suc_conv numeral_2_eq_2)
  then have "head e = initial e \<or> head e = first e" using e by (auto simp: element_ok_def)
  moreover have "Q e p" using ok e True by (intro post [of _ "[]"]) (auto simp: squash_def)
  ultimately show ?thesis by (auto simp: element_commit_def)
next
  case False
  then obtain a c bs b where as: "as = a # c # bs @ [b]"
    by (cases as; cases "tl as"; cases "tl (tl as)" rule: rev_cases) auto
  let ?mid = "c # bs"
  have dist: "distinct as" and hd_a: "head e = a" "initial e = b" "first e = last ?mid"
    using e as by (auto simp: element_ok_def)
  obtain ra where ra: "cells p a = Some ra" "previous ra = Some c"
    and mid: "seg (cells p) (Some c) ?mid (Some b)" and b: "seg (cells p) (Some b) [b] None"
    using e as by (auto simp: element_ok_def seg_append)
  let ?p = "p\<lparr>cells := (cells p)(a \<mapsto> ra\<lparr>previous := Some b\<rparr>)\<rparr>"
  let ?e = "e\<lparr>first := head e\<rparr>"
  have nmid: "a \<notin> set ?mid" "b \<notin> set ?mid" "a \<noteq> b" using dist as by auto
  have ok': "pool_ok ?p F" using ok ra dis as by (auto simp: pool_ok_def)
  have e': "element_ok (cells ?p) ?e [a, b]"
    using e b nmid as by (auto simp: element_ok_def)
  have ent: "entry_at (cells ?p) c = entry_at (cells p) c" for c using ra by (simp add: entry_at_def)
  have "wp (reuse_memory c (first e)) (\<lambda>_. Q ?e) E ?p"
  proof (rule wp_reuse_memory [OF ok', of c ?mid "Some b"])
    fix p' assume p': "pool_ok p' (F @ ?mid)" "\<And>x. x \<notin> set F \<union> set ?mid \<Longrightarrow> cells p' x = cells ?p x"
      "\<And>c. entry_at (cells p') c = entry_at (cells ?p) c"
    have "element_ok (cells p') ?e (squash as)"
      using e' element_ok_cong [of "[a, b]" "cells p'" "cells ?p" ?e] p'(2) nmid dis as
      by (auto simp: squash_def)
    then show "Q ?e p'"
      using p' ent nmid as by (intro post [of p' ?mid]) (auto simp: squash_def)
  qed (use mid nmid hd_a dis dist as in auto)
  then show ?thesis
    using ra hd_a nmid by (auto simp: element_commit_def)
qed

end
