(* ===== verification/History_Map_Spec.thy ===== *)
theory History_Map_Spec
  imports History_Map
begin

text \<open>
  The specification of the revertible map as plain lists of (snapshot id, value) per key,
  the proof that the pointer program of \<open>History_Map\<close> implements it, and what follows for
  the clients: rollback restores, commit keeps, nothing panics.
\<close>

section \<open>The map as lists of entries\<close>

text \<open>
  \<open>hm_ok m L F\<close>: the element of key \<open>k\<close> is the chain \<open>L k\<close> (empty for an absent key), the pool
  is the chain \<open>F\<close>, and no record belongs to two of them.
\<close>

definition hm_ok :: "('k, 'v, 'kp) history_map \<Rightarrow> ('k \<Rightarrow> addr list) \<Rightarrow> addr list \<Rightarrow> bool" where
  "hm_ok m L F \<longleftrightarrow>
     pool_ok (records_memory_pool m) F \<and>
     (\<forall>k. btree m k = None \<longrightarrow> L k = []) \<and>
     (\<forall>k e. btree m k = Some e \<longrightarrow> element_ok (cells (records_memory_pool m)) e (L k)) \<and>
     (\<forall>k. set (L k) \<inter> set F = {}) \<and>
     (\<forall>k k'. k \<noteq> k' \<longrightarrow> set (L k) \<inter> set (L k') = {})"

definition hm_hist ::
    "('k, 'v, 'kp) history_map \<Rightarrow> ('k \<Rightarrow> addr list) \<Rightarrow> 'k \<Rightarrow> (snapshot_id \<times> 'v) list" where
  "hm_hist m L k = map (entry_at (cells (records_memory_pool m))) (L k)"

text \<open>The specification: per key the entries from newest to initial.\<close>

record ('k, 'v, 'kp) spec_map =
  hist :: "'k \<Rightarrow> (snapshot_id \<times> 'v) list"
  props :: "'k \<rightharpoonup> 'kp"
  next_id :: snapshot_id
  frozen_id :: snapshot_id
  pend :: "('k \<times> snapshot_id) list"

definition hm_rel :: "('k, 'v, 'kp) history_map \<Rightarrow> ('k, 'v, 'kp) spec_map \<Rightarrow> bool" where
  "hm_rel m A \<longleftrightarrow>
     (\<exists>L F. hm_ok m L F \<and> hist A = hm_hist m L) \<and>
     props A = (\<lambda>k. map_option key_properties (btree m k)) \<and>
     next_id A = next_snapshot_id m \<and> frozen_id A = frozen_snapshot_id m \<and>
     pend A = pending_updated_elements m"

definition newer :: "snapshot_id \<Rightarrow> snapshot_id \<times> 'v \<Rightarrow> bool" where
  "newer i x \<longleftrightarrow> i < fst x"

definition spec_insert :: "'k \<Rightarrow> 'v \<Rightarrow> 'kp \<Rightarrow> ('k, 'v, 'kp) spec_map \<Rightarrow> ('k, 'v, 'kp) spec_map" where
  "spec_insert k v kp A = A\<lparr>hist := (hist A)(k := [(0, v)]), props := (props A)(k \<mapsto> kp)\<rparr>"

definition spec_write :: "'k \<Rightarrow> 'v \<Rightarrow> ('k, 'v, 'kp) spec_map \<Rightarrow> ('k, 'v, 'kp) spec_map" where
  "spec_write k v A =
     (if fst (hd (hist A k)) = next_id A
      then A\<lparr>hist := (hist A)(k := (next_id A, v) # tl (hist A k))\<rparr>
      else A\<lparr>hist := (hist A)(k := (next_id A, v) # hist A k), pend := (k, next_id A) # pend A\<rparr>)"

definition spec_snapshot :: "('k, 'v, 'kp) spec_map \<Rightarrow> ('k, 'v, 'kp) spec_map" where
  "spec_snapshot A = A\<lparr>next_id := next_id A + 1\<rparr>"

definition spec_rollback :: "snapshot_id \<Rightarrow> ('k, 'v, 'kp) spec_map \<Rightarrow> ('k, 'v, 'kp) spec_map" where
  "spec_rollback i A =
     A\<lparr>hist := \<lambda>k. dropWhile (newer i) (hist A k), pend := dropWhile (newer i \<circ> prod.swap) (pend A)\<rparr>"

definition spec_commit :: "('k, 'v, 'kp) spec_map \<Rightarrow> ('k, 'v, 'kp) spec_map" where
  "spec_commit A =
     A\<lparr>hist := \<lambda>k. squash (hist A k), frozen_id := next_id A, next_id := next_id A + 1, pend := []\<rparr>"

definition spec_set_props :: "'k \<Rightarrow> ('kp \<Rightarrow> 'kp) \<Rightarrow> ('k, 'v, 'kp) spec_map \<Rightarrow> ('k, 'v, 'kp) spec_map" where
  "spec_set_props k g A = A\<lparr>props := (props A)(k := map_option g (props A k))\<rparr>"

text \<open>
  The invariant: snapshot ids fall strictly from the newest entry to the initial one,
  which has id 0; the stack of pending updates lists exactly the entries above the frozen
  snapshot, newest on top; and at most one entry besides the initial one is frozen.
\<close>

definition desc :: "(snapshot_id \<times> 'v) list \<Rightarrow> bool" where
  "desc xs \<longleftrightarrow> sorted_wrt (\<lambda>x y. fst y < fst x) xs \<and> (xs \<noteq> [] \<longrightarrow> fst (last xs) = 0)"

definition key_wf ::
    "snapshot_id \<Rightarrow> snapshot_id \<Rightarrow> ('k \<times> snapshot_id) list \<Rightarrow> 'k \<Rightarrow> (snapshot_id \<times> 'v) list \<Rightarrow> bool" where
  "key_wf nxt frozen ps k xs \<longleftrightarrow>
     desc xs \<and> (\<forall>i \<in> fst ` set xs. i \<le> nxt) \<and>
     (\<forall>i. (k, i) \<in> set ps \<longleftrightarrow> frozen < i \<and> i \<in> fst ` set xs) \<and>
     length (filter (\<lambda>x. fst x \<le> frozen) xs) \<le> 2"

definition spec_wf :: "('k, 'v, 'kp) spec_map \<Rightarrow> bool" where
  "spec_wf A \<longleftrightarrow>
     frozen_id A < next_id A \<and> sorted_wrt (\<lambda>x y. snd y \<le> snd x) (pend A) \<and>
     (\<forall>k. key_wf (next_id A) (frozen_id A) (pend A) k (hist A k))"

lemma spec_wfD:
  assumes "spec_wf A"
  shows "frozen_id A < next_id A" and "sorted_wrt (\<lambda>x y. snd y \<le> snd x) (pend A)"
    and "key_wf (next_id A) (frozen_id A) (pend A) k (hist A k)" and "desc (hist A k)"
  using assms by (auto simp: spec_wf_def key_wf_def)

subsection \<open>Facts about descending lists\<close>

lemma desc_dropWhile: "desc xs \<Longrightarrow> dropWhile (newer i) xs = filter (\<lambda>x. fst x \<le> i) xs"
proof (induction xs)
  case (Cons x xs)
  then have IH: "dropWhile (newer i) xs = filter (\<lambda>x. fst x \<le> i) xs"
    by (cases xs) (auto simp: desc_def)
  have "filter (\<lambda>x. fst x \<le> i) xs = xs" if "fst x \<le> i"
    using Cons.prems that by (intro filter_True) (force simp: desc_def)
  with IH show ?case by (simp add: newer_def [of i x])
qed simp

lemma desc_nonempty: "desc xs \<Longrightarrow> xs \<noteq> [] \<Longrightarrow> dropWhile (newer i) xs \<noteq> []"
  by (metis desc_def dropWhile_eq_Nil_conv last_in_set newer_def not_less_zero)

lemma last_dropWhile: "dropWhile P xs \<noteq> [] \<Longrightarrow> last (dropWhile P xs) = last xs"
  by (induction xs) auto

lemma desc_drop: "desc xs \<Longrightarrow> desc (dropWhile (newer i) xs)"
  using desc_nonempty [of xs i] last_dropWhile [of "newer i" xs]
  by (cases "xs = []") (auto simp: desc_dropWhile desc_def sorted_wrt_filter)

lemma desc_squash: "desc xs \<Longrightarrow> desc (squash xs)"
  by (cases xs; cases "tl xs") (simp_all add: squash_def desc_def split: if_splits)

lemma hd_squash [simp]: "hd (squash xs) = hd xs"
  by (simp add: squash_def)

lemma last_squash [simp]: "xs \<noteq> [] \<Longrightarrow> last (squash xs) = last xs"
  by (simp add: squash_def)

lemma squash_Nil [simp]: "squash xs = [] \<longleftrightarrow> xs = []"
  by (auto simp: squash_def)

lemma squash_idem [simp]: "squash (squash xs) = squash xs"
  by (simp add: squash_def)

lemma squash_map: "squash (map f xs) = map f (squash xs)"
  by (cases xs) (auto simp: squash_def last_map)

lemma set_squash: "set (squash xs) \<subseteq> set xs"
  by (cases xs) (auto simp: squash_def)

lemma length_squash: "length (squash xs) \<le> 2"
  by (simp add: squash_def)

subsection \<open>The specification keeps its invariant\<close>

lemma spec_wf_insert:
  assumes "spec_wf A" and "hist A k = []"
  shows "spec_wf (spec_insert k v kp A)"
  using assms spec_wfD(3) [OF assms(1), of k]
  by (auto simp: spec_wf_def spec_insert_def key_wf_def desc_def)

lemma spec_wf_snapshot: "spec_wf A \<Longrightarrow> spec_wf (spec_snapshot A)"
  by (auto simp: spec_wf_def spec_snapshot_def key_wf_def intro: le_SucI)

lemma spec_wf_set_props: "spec_wf A \<Longrightarrow> spec_wf (spec_set_props k g A)"
  by (simp add: spec_wf_def spec_set_props_def)

lemma key_wf_overwrite:
  "key_wf n f ps k ((n, v) # xs) \<Longrightarrow> key_wf n f ps k ((n, v') # xs)"
  by (cases xs) (auto simp: key_wf_def desc_def)

lemma key_wf_push:
  "key_wf n f ps k (x # xs) \<Longrightarrow> fst x \<noteq> n \<Longrightarrow> f < n \<Longrightarrow>
   key_wf n f ((k, n) # ps) k ((n, v) # x # xs)"
  by (auto simp: key_wf_def desc_def)

lemma key_wf_other: "k \<noteq> k' \<Longrightarrow> key_wf n f ((k, i) # ps) k' xs = key_wf n f ps k' xs"
  by (simp add: key_wf_def)

lemma spec_wf_write:
  assumes wf: "spec_wf A" and "hist A k \<noteq> []"
  shows "spec_wf (spec_write k v A)"
proof -
  obtain x xs where x: "hist A k = x # xs" using assms(2) by (cases "hist A k") auto
  have k: "key_wf (next_id A) (frozen_id A) (pend A) k (x # xs)" using spec_wfD(3) [OF wf, of k] x by simp
  have pend: "\<forall>(k, i) \<in> set (pend A). i \<le> next_id A"
  proof clarify
    fix k i assume "(k, i) \<in> set (pend A)"
    then show "i \<le> next_id A" using spec_wfD(3) [OF wf, of k] unfolding key_wf_def by blast
  qed
  show ?thesis
  proof (cases "fst x = next_id A")
    case True
    with k have "key_wf (next_id A) (frozen_id A) (pend A) k ((next_id A, v) # xs)"
      by (cases x) (simp add: key_wf_overwrite)
    with wf x True show ?thesis by (simp add: spec_wf_def spec_write_def)
  next
    case False
    with key_wf_push [OF k] wf x pend show ?thesis
      by (auto simp: spec_wf_def spec_write_def key_wf_other)
  qed
qed

lemma sorted_dropWhile:
  "sorted_wrt (\<lambda>x y. snd y \<le> snd x) ps \<Longrightarrow>
   dropWhile (newer i \<circ> prod.swap) ps = filter (\<lambda>x. snd x \<le> i) ps"
proof (induction ps)
  case (Cons x ps)
  have "filter (\<lambda>x. snd x \<le> i) ps = ps" if "snd x \<le> i"
    using Cons.prems that by (intro filter_True) force
  with Cons show ?case by (simp add: newer_def [of i "prod.swap x"])
qed simp

lemma spec_wf_rollback:
  assumes wf: "spec_wf A" and i: "frozen_id A \<le> i"
  shows "spec_wf (spec_rollback i A)"
proof -
  have "key_wf (next_id A) (frozen_id A) (filter (\<lambda>x. snd x \<le> i) (pend A)) k
      (dropWhile (newer i) (hist A k))" for k
  proof -
    let ?xs = "filter (\<lambda>x. fst x \<le> i) (hist A k)"
    have "desc ?xs" using desc_drop [OF spec_wfD(4) [OF wf]] by (metis desc_dropWhile spec_wfD(4) wf)
    moreover have "filter (\<lambda>x. fst x \<le> frozen_id A) ?xs = filter (\<lambda>x. fst x \<le> frozen_id A) (hist A k)"
      using i by (auto intro: filter_cong)
    ultimately show ?thesis
      using spec_wfD(3,4) [OF wf, of k] by (auto simp: desc_dropWhile key_wf_def)
  qed
  then show ?thesis
    using spec_wfD(1,2) [OF wf]
    by (simp add: spec_wf_def spec_rollback_def sorted_dropWhile sorted_wrt_filter)
qed

lemma spec_wf_commit:
  assumes "spec_wf A"
  shows "spec_wf (spec_commit A)"
proof -
  have "key_wf (next_id A + 1) (next_id A) [] k (squash (hist A k))" for k
  proof -
    have "\<forall>i \<in> fst ` set (hist A k). i \<le> next_id A" using spec_wfD(3) [OF assms, of k] by (simp add: key_wf_def)
    then have "\<forall>i \<in> fst ` set (squash (hist A k)). i \<le> next_id A" using set_squash [of "hist A k"] by blast
    moreover have "length (filter (\<lambda>x. fst x \<le> next_id A) (squash (hist A k))) \<le> 2"
      using length_squash by (rule le_trans [OF length_filter_le])
    ultimately show ?thesis
      using desc_squash [OF spec_wfD(4) [OF assms, of k]] by (auto simp: key_wf_def)
  qed
  then show ?thesis by (simp add: spec_wf_def spec_commit_def)
qed

text \<open>Only keys with pending updates have anything to squash or to drop.\<close>

lemma pending_newer:
  assumes "spec_wf A" and "x \<in> set (hist A k)" and "frozen_id A < fst x"
  shows "(k, fst x) \<in> set (pend A)"
  using spec_wfD(3) [OF assms(1), of k] assms(2,3) by (simp add: key_wf_def)

lemma squash_unless_pending:
  assumes "spec_wf A" and "k \<notin> fst ` set (pend A)"
  shows "squash (hist A k) = hist A k"
proof -
  have "fst x \<le> frozen_id A" if "x \<in> set (hist A k)" for x
    using pending_newer [OF assms(1) that] assms(2) by (force simp: not_le [symmetric])
  then have "filter (\<lambda>x. fst x \<le> frozen_id A) (hist A k) = hist A k" by simp
  then show ?thesis using spec_wfD(3) [OF assms(1), of k] by (simp add: key_wf_def squash_def)
qed

lemma dropWhile_unless_pending:
  assumes "spec_wf A" and "frozen_id A \<le> i" and "\<And>j. (k, j) \<in> set (pend A) \<Longrightarrow> j \<le> i"
  shows "dropWhile (newer i) (hist A k) = hist A k"
proof -
  have "fst x \<le> i" if "x \<in> set (hist A k)" for x
    using pending_newer [OF assms(1) that] assms(2,3) by (meson le_trans not_le)
  then show ?thesis
    by (simp add: desc_dropWhile [OF spec_wfD(4) [OF assms(1)]])
qed

section \<open>The operations implement the specification\<close>

lemma wp_on_pool [simp]:
  "wp (on_pool f) Q E m =
     wp f (\<lambda>x p. Q x (m\<lparr>records_memory_pool := p\<rparr>)) (\<lambda>e p. E e (m\<lparr>records_memory_pool := p\<rparr>))
       (records_memory_pool m)"
  by (simp add: on_pool_def)

lemma wp_put_element [simp]:
  "wp (put_element k e) Q E m = Q () (m\<lparr>btree := (btree m)(k \<mapsto> e)\<rparr>)"
  by (simp add: put_element_def)

lemma hm_okD:
  assumes "hm_ok m L F"
  shows "pool_ok (records_memory_pool m) F"
    and "btree m k = None \<Longrightarrow> L k = []"
    and "btree m k = Some e \<Longrightarrow> element_ok (cells (records_memory_pool m)) e (L k)"
    and "set (L k) \<inter> set F = {}"
    and "k \<noteq> k' \<Longrightarrow> set (L k) \<inter> set (L k') = {}"
    and "a \<in> set (L k) \<Longrightarrow> cells (records_memory_pool m) a \<noteq> None"
    and "L k = [] \<longleftrightarrow> btree m k = None"
proof -
  show A: "btree m k = None \<Longrightarrow> L k = []" for k using assms by (simp add: hm_ok_def)
  show B: "btree m k = Some e \<Longrightarrow> element_ok (cells (records_memory_pool m)) e (L k)" for k e
    using assms by (simp add: hm_ok_def)
  show "a \<in> set (L k) \<Longrightarrow> cells (records_memory_pool m) a \<noteq> None"
    by (cases "btree m k") (use A B [THEN element_ok_live] in \<open>fastforce+\<close>)
  show "L k = [] \<longleftrightarrow> btree m k = None"
    by (cases "btree m k") (use A B in \<open>auto simp: element_ok_def\<close>)
qed (use assms in \<open>simp_all add: hm_ok_def\<close>)

text \<open>
  An operation on the element of \<open>k\<close> may use the records of that element, those of the pool
  and unallocated memory; then every other element is as before.
\<close>

lemma hm_ok_change:
  assumes ok: "hm_ok m L F" and p': "pool_ok p' F'" and e': "element_ok (cells p') e' as"
    and dis: "set as \<inter> set F' = {}"
    and room: "set as \<union> set F' \<subseteq> set F \<union> set (L k) \<union> {a. cells (records_memory_pool m) a = None}"
    and same: "\<And>c. c \<notin> set F \<union> set (L k) \<Longrightarrow> cells (records_memory_pool m) c \<noteq> None \<Longrightarrow>
      cells p' c = cells (records_memory_pool m) c"
    and m': "btree m' = (btree m)(k \<mapsto> e')" "records_memory_pool m' = p'"
  shows "hm_ok m' (L(k := as)) F' \<and> hm_hist m' (L(k := as)) = (hm_hist m L)(k := map (entry_at (cells p')) as)"
proof -
  have out: "c \<notin> set F \<union> set (L k) \<and> cells (records_memory_pool m) c \<noteq> None"
    if "c \<in> set (L k')" "k' \<noteq> k" for c k'
    using that(1) hm_okD(4) [OF ok, of k'] hm_okD(5) [OF ok that(2)] hm_okD(6) [OF ok that(1)] by blast
  have keep: "cells p' c = cells (records_memory_pool m) c" if "c \<in> set (L k')" "k' \<noteq> k" for c k'
    using same out [OF that] by blast
  have "(btree m' k' = None \<longrightarrow> (L(k := as)) k' = []) \<and>
      (\<forall>e. btree m' k' = Some e \<longrightarrow> element_ok (cells p') e ((L(k := as)) k'))" for k'
  proof (cases "k' = k")
    case False
    then have "element_ok (cells p') e (L k') = element_ok (cells (records_memory_pool m)) e (L k')"
      if "btree m k' = Some e" for e
      by (intro element_ok_cong) (use keep in blast)
    with False show ?thesis using hm_okD(2,3) [OF ok, of k'] m' by simp
  qed (use e' m' in simp)
  moreover have apart: "set (L k') \<inter> set as = {}" "set (L k') \<inter> set F' = {}" if "k' \<noteq> k" for k'
    using room out [OF _ that] by blast+
  have "set ((L(k := as)) k') \<inter> set F' = {}" for k'
    using dis apart(2) by (cases "k' = k") simp_all
  moreover have "set ((L(k := as)) j) \<inter> set ((L(k := as)) j') = {}" if "j \<noteq> j'" for j j'
    using that apart(1) [of j] apart(1) [of j'] hm_okD(5) [OF ok that]
    by (cases "j = k"; cases "j' = k") (simp_all add: Int_commute)
  ultimately have "hm_ok m' (L(k := as)) F'" unfolding hm_ok_def m'(2) using p' by blast
  moreover have "map (entry_at (cells p')) (L k') = map (entry_at (cells (records_memory_pool m))) (L k')"
    if "k' \<noteq> k" for k' using keep that by (simp add: entry_at_def)
  then have "hm_hist m' (L(k := as)) = (hm_hist m L)(k := map (entry_at (cells p')) as)"
    using m' by (auto simp: hm_hist_def fun_eq_iff)
  ultimately show ?thesis ..
qed

lemma hm_relI:
  assumes "hm_ok m L F" and "hist A = hm_hist m L"
    and "\<And>k. props A k = map_option key_properties (btree m k)"
    and "next_id A = next_snapshot_id m" "frozen_id A = frozen_snapshot_id m"
    and "pend A = pending_updated_elements m"
  shows "hm_rel m A"
  using assms by (auto simp: hm_rel_def)

lemma hm_rel_new: "hm_rel hm_new \<lparr>hist = \<lambda>_. [], props = Map.empty, next_id = 1, frozen_id = 0, pend = []\<rparr>"
  by (rule hm_relI [of _ "\<lambda>_. []" "[]"])
     (simp_all add: hm_ok_def hm_new_def pool_ok_def pool_new_def hm_hist_def fun_eq_iff)

lemma spec_wf_new: "spec_wf \<lparr>hist = \<lambda>_. [], props = Map.empty, next_id = 1, frozen_id = 0, pend = []\<rparr>"
  by (simp add: spec_wf_def key_wf_def desc_def)

lemma hm_relE:
  assumes "hm_rel m A"
  obtains L F where "hm_ok m L F" "hist A = hm_hist m L"
  using assms by (auto simp: hm_rel_def)

lemma hm_rel_fields:
  assumes "hm_rel m A"
  shows "next_snapshot_id m = next_id A" "frozen_snapshot_id m = frozen_id A"
    "pending_updated_elements m = pend A" "map_option key_properties (btree m k) = props A k"
  using assms by (auto simp: hm_rel_def)

lemma hm_rel_absent:
  assumes "hm_rel m A"
  shows "btree m k = None \<longleftrightarrow> hist A k = []"
proof -
  obtain L F where "hm_ok m L F" "hist A = hm_hist m L" using assms by (rule hm_relE)
  then show ?thesis using hm_okD(7) [of m L F k] by (simp add: hm_hist_def)
qed

lemma hm_rel_getE:
  assumes "hm_rel m A" and "hist A k \<noteq> []"
  obtains L F e where "hm_ok m L F" "hist A = hm_hist m L" "btree m k = Some e"
    "element_ok (cells (records_memory_pool m)) e (L k)" "L k \<noteq> []" "head e = hd (L k)"
proof -
  obtain L F where L: "hm_ok m L F" "hist A = hm_hist m L" using assms(1) by (rule hm_relE)
  obtain e where e: "btree m k = Some e" using assms hm_rel_absent by (metis not_None_eq)
  note ok = hm_okD(3) [OF L(1) e]
  show ?thesis using that [OF L e ok] element_ok_head [OF ok] by blast
qed

subsection \<open>Reading\<close>

lemma wp_hm_current [wp_intro]:
  assumes "hm_rel m A" and "hist A k \<noteq> []"
  shows "wp (hm_current k) (\<lambda>v m'. v = snd (hd (hist A k)) \<and> m' = m) E m"
proof -
  obtain L F e where L: "hist A = hm_hist m L" "btree m k = Some e" "L k \<noteq> []" "head e = hd (L k)"
    and ok: "element_ok (cells (records_memory_pool m)) e (L k)"
    using hm_rel_getE [OF assms] by metis
  have "cells (records_memory_pool m) (head e) \<noteq> None"
    using element_ok_live [OF ok] L(3,4) by simp
  then show ?thesis using L by (auto simp: hm_current_def hm_hist_def entry_at_def hd_map)
qed

lemma wp_hm_initial [wp_intro]:
  assumes "hm_rel m A" and "hist A k \<noteq> []"
  shows "wp (hm_initial k) (\<lambda>v m'. v = snd (last (hist A k)) \<and> m' = m) E m"
proof -
  obtain L F e where L: "hist A = hm_hist m L" "btree m k = Some e" "L k \<noteq> []"
    and ok: "element_ok (cells (records_memory_pool m)) e (L k)"
    using hm_rel_getE [OF assms] by metis
  then have "initial e = last (L k)" by (simp add: element_ok_def)
  moreover have "cells (records_memory_pool m) (initial e) \<noteq> None"
    using element_ok_live [OF ok] L(3) calculation by simp
  ultimately show ?thesis using L by (auto simp: hm_initial_def hm_hist_def entry_at_def last_map)
qed

lemma wp_hm_get_initial_and_last_values [wp_intro]:
  assumes "hm_rel m A" and "hist A k \<noteq> []"
  shows "wp (hm_get_initial_and_last_values k)
    (\<lambda>v m'. m' = m \<and> v = (if tl (hist A k) = [] then None
       else Some (snd (last (hist A k)), snd (hd (hist A k))))) E m"
proof -
  obtain L F e where L: "hist A = hm_hist m L" "btree m k = Some e" "L k \<noteq> []" "head e = hd (L k)"
    and ok: "element_ok (cells (records_memory_pool m)) e (L k)"
    using hm_rel_getE [OF assms] by metis
  let ?h = "cells (records_memory_pool m)"
  obtain r where r: "?h (hd (L k)) = Some r" "previous r = None \<longleftrightarrow> tl (L k) = []"
    using ok L(3) by (cases "L k"; cases "tl (L k)") (auto simp: element_ok_def)
  moreover have "?h (last (L k)) \<noteq> None" and "initial e = last (L k)"
    using element_ok_live [OF ok] L(3) ok by (simp_all add: element_ok_def)
  ultimately show ?thesis
    using L by (auto simp: hm_get_initial_and_last_values_def get_initial_and_last_values_def
      hm_hist_def entry_at_def last_map hd_map map_tl [symmetric] split: option.splits)
qed

subsection \<open>Changing\<close>

lemma wp_hm_get_or_insert [wp_intro]:
  assumes rel: "hm_rel m A"
    and old: "hist A k \<noteq> [] \<Longrightarrow> Q () (m, x)"
    and new: "hist A k = [] \<Longrightarrow> wp spawn (\<lambda>(v, kp) x'. \<forall>m'. hm_rel m' (spec_insert k v kp A) \<longrightarrow> Q () (m', x'))
        (\<lambda>e x'. E e (m, x')) x"
  shows "wp (hm_get_or_insert k spawn) Q E (m, x)"
proof (cases "hist A k = []")
  case False
  then have "btree m k \<noteq> None" using hm_rel_absent [OF rel] by blast
  then show ?thesis using old [OF False] by (auto simp: hm_get_or_insert_def)
next
  case True
  then have none: "btree m k = None" using hm_rel_absent [OF rel] by blast
  obtain L F where L: "hm_ok m L F" "hist A = hm_hist m L" using rel by (rule hm_relE)
  have ins: "wp (element_new kp v) (\<lambda>e p. hm_rel (m\<lparr>records_memory_pool := p, btree := (btree m)(k \<mapsto> e)\<rparr>)
      (spec_insert k v kp A)) E' (records_memory_pool m)" for v kp and E' :: "'z \<Rightarrow> 'b element_pool \<Rightarrow> bool"
    unfolding element_new_def wp_and_then wp_ret
  proof (rule wp_create_element [OF hm_okD(1) [OF L(1)]])
    fix a p' F'
    let ?e = "\<lparr>key_properties = kp, initial = a, first = a, head = a\<rparr>"
    let ?m = "m\<lparr>records_memory_pool := p', btree := (btree m)(k \<mapsto> ?e)\<rparr>"
    assume a: "pool_ok p' F'" "set F' \<subseteq> set F" "a \<notin> set F'"
      "a \<in> set F \<or> cells (records_memory_pool m) a = None"
      "cells p' = (cells (records_memory_pool m))(a \<mapsto> \<lparr>touch_ss_id = 0, val = v, previous = None\<rparr>)"
    have "hm_ok ?m (L(k := [a])) F' \<and> hm_hist ?m (L(k := [a])) = (hm_hist m L)(k := map (entry_at (cells p')) [a])"
      by (rule hm_ok_change [OF L(1) a(1), of ?e]) (use a in \<open>auto simp: element_ok_def\<close>)
    then show "hm_rel ?m (spec_insert k v kp A)"
      using hm_rel_fields [OF rel] L(2) a(5)
      by (intro hm_relI [of _ "L(k := [a])" F']) (auto simp: spec_insert_def entry_at_def)
  qed
  show ?thesis
    using new [OF True] none
    by (auto simp: hm_get_or_insert_def split_beta elim!: wp_mono intro!: wp_mono [OF ins])
qed

lemma wp_hm_snapshot [wp_intro]:
  assumes rel: "hm_rel m A" and "next_id A < usize_max W"
    and "\<And>m'. hm_rel m' (spec_snapshot A) \<Longrightarrow> Q (next_id A) m'"
  shows "wp (hm_snapshot W) Q E m"
proof -
  obtain L F where L: "hm_ok m L F" "hist A = hm_hist m L" using rel by (rule hm_relE)
  let ?m = "m\<lparr>next_snapshot_id := next_snapshot_id m + 1\<rparr>"
  have "hm_ok ?m L F" "hm_hist ?m L = hm_hist m L" using L by (auto simp: hm_ok_def hm_hist_def)
  then have "hm_rel ?m (spec_snapshot A)"
    using hm_rel_fields [OF rel] L by (intro hm_relI [of _ L F]) (auto simp: spec_snapshot_def)
  then show ?thesis using assms hm_rel_fields [OF rel] by (simp add: hm_snapshot_def)
qed

lemma wp_hm_set_key_properties [wp_intro]:
  assumes rel: "hm_rel m A" and k: "hist A k \<noteq> []"
    and post: "\<And>m'. hm_rel m' (spec_set_props k g A) \<Longrightarrow> Q () m'"
  shows "wp (hm_set_key_properties k g) Q E m"
proof -
  obtain L F e where L: "hm_ok m L F" "hist A = hm_hist m L" "btree m k = Some e"
    and ok: "element_ok (cells (records_memory_pool m)) e (L k)" using hm_rel_getE [OF rel k] by metis
  let ?e = "e\<lparr>key_properties := g (key_properties e)\<rparr>"
  let ?m = "m\<lparr>btree := (btree m)(k \<mapsto> ?e)\<rparr>"
  have "element_ok (cells (records_memory_pool m)) ?e (L k)" using ok by (simp add: element_ok_def)
  from hm_ok_change [OF L(1) hm_okD(1) [OF L(1)] this, of k ?m]
  have "hm_ok ?m L F" "hm_hist ?m L = hm_hist m L"
    using hm_okD(4) [OF L(1)] by (auto simp: hm_hist_def)
  then have "hm_rel ?m (spec_set_props k g A)"
    using hm_rel_fields(1-3) [OF rel] L hm_rel_fields(4) [OF rel, symmetric]
    by (intro hm_relI [of _ L F]) (auto simp: spec_set_props_def)
  then show ?thesis using post L by (simp add: hm_set_key_properties_def)
qed

lemma wp_write_in_place:
  assumes rel: "hm_rel m A" and k: "hist A k \<noteq> []" and nxt: "fst (hd (hist A k)) = next_id A"
  obtains e r where "btree m k = Some e" "cells (records_memory_pool m) (head e) = Some r"
    "entry_at (cells (records_memory_pool m)) (head e) = hd (hist A k)"
    "\<And>v'. hm_rel (m\<lparr>records_memory_pool := records_memory_pool m
        \<lparr>cells := (cells (records_memory_pool m))(head e \<mapsto> r\<lparr>val := v'\<rparr>)\<rparr>\<rparr>) (spec_write k v' A)"
proof -
  obtain L F e where L: "hm_ok m L F" "hist A = hm_hist m L" "btree m k = Some e"
    and ok: "element_ok (cells (records_memory_pool m)) e (L k)" and hd: "L k \<noteq> []" "head e = hd (L k)"
    using hm_rel_getE [OF rel k] by metis
  let ?p = "records_memory_pool m"
  obtain a as where as: "L k = a # as" using hd by (cases "L k") auto
  then obtain r where r: "cells ?p a = Some r" using element_ok_live [OF ok] by fastforce
  have ha: "head e = a" "a \<notin> set as" "a \<notin> set F" using as hd ok hm_okD(4) [OF L(1), of k] by (auto simp: element_ok_def)
  have ent: "entry_at (cells ?p) a = hd (hist A k)" using L(2) as by (simp add: hm_hist_def)
  show thesis
  proof (rule that [of e r])
    fix v'
    let ?p' = "?p\<lparr>cells := (cells ?p)(a \<mapsto> r\<lparr>val := v'\<rparr>)\<rparr>"
    let ?m = "m\<lparr>records_memory_pool := ?p'\<rparr>"
    have p': "pool_ok ?p' F" using hm_okD(1) [OF L(1)] ha r by (auto simp: pool_ok_def)
    have e': "element_ok (cells ?p') e (L k)" using ok as ha r by (auto simp: element_ok_def)
    have L': "L(k := L k) = L" "(btree m)(k \<mapsto> e) = btree m" using L(3) by auto
    have ch: "hm_ok ?m L F \<and> hm_hist ?m L = (hm_hist m L)(k := map (entry_at (cells ?p')) (L k))"
      by (rule hm_ok_change [OF L(1) p' e', of k ?m, unfolded L'])
         (use as hm_okD(4) [OF L(1), of k] in auto)
    have "map (entry_at (cells ?p')) (L k) = (next_id A, v') # tl (hist A k)"
      using as L(2) ha(2) r nxt ent by (auto simp: hm_hist_def entry_at_def)
    then show "hm_rel (m\<lparr>records_memory_pool := ?p\<lparr>cells := (cells ?p)(head e \<mapsto> r\<lparr>val := v'\<rparr>)\<rparr>\<rparr>) (spec_write k v' A)"
      using ch hm_rel_fields [OF rel] L(2) nxt ha(1)
      by (intro hm_relI [of _ L F]) (auto simp: spec_write_def)
  qed (use L r ha ent in auto)
qed

lemma hm_rel_new_record:
  assumes rel: "hm_rel m A" and k: "hist A k \<noteq> []" and nxt: "fst (hd (hist A k)) \<noteq> next_id A"
    and L: "hm_ok m L F" "hist A = hm_hist m L" "btree m k = Some e"
    and p': "pool_ok p' F'" "set F' \<subseteq> set F" "a \<notin> set F'"
      "a \<in> set F \<or> cells (records_memory_pool m) a = None"
      "cells p' = (cells (records_memory_pool m))(a \<mapsto> \<lparr>touch_ss_id = next_id A, val = v', previous = Some (head e)\<rparr>)"
  shows "hm_rel (m\<lparr>records_memory_pool := p', btree := (btree m)(k \<mapsto> add_new_record a e),
      pending_updated_elements := (k, next_id A) # pend A\<rparr>) (spec_write k v' A)" (is "hm_rel ?m _")
    and "hm_rel (m\<lparr>records_memory_pool := p'\<rparr>) A" (is "hm_rel ?m' _")
proof -
  note ok = hm_okD(3) [OF L(1,3)]
  have aL: "a \<notin> set (L k)" using p'(4) hm_okD(4) [OF L(1), of k] hm_okD(6) [OF L(1), of a k] by blast
  have e1: "element_ok (cells p') e (L k)" using ok aL p'(5) by (auto simp: element_ok_def)
  obtain bs i where bs: "L k = bs @ [i]" using ok by (metis append_butlast_last_id element_ok_def)
  have e2: "element_ok (cells p') (add_new_record a e) (a # L k)"
    using e1 aL p'(5) bs
    by (cases "bs = []") (auto simp: element_ok_def add_new_record_def Let_def butlast_append)
  have same: "cells p' c = cells (records_memory_pool m) c"
    if "c \<notin> set F \<union> set (L k)" "cells (records_memory_pool m) c \<noteq> None" for c
    using that p'(4,5) by auto
  have F': "set (L k) \<inter> set F' = {}" using hm_okD(4) [OF L(1), of k] p'(2) by blast
  have old: "map (entry_at (cells p')) (L k) = hist A k"
    using aL p'(5) L(2) by (auto simp: hm_hist_def entry_at_def)
  have L': "L(k := L k) = L" "(btree m)(k \<mapsto> e) = btree m" using L(3) by auto
  have "hm_ok ?m (L(k := a # L k)) F' \<and> hm_hist ?m (L(k := a # L k)) = (hm_hist m L)(k := map (entry_at (cells p')) (a # L k))"
    by (rule hm_ok_change [OF L(1) p'(1) e2]) (use p' same F' in auto)
  then show "hm_rel ?m (spec_write k v' A)"
    using hm_rel_fields(1-3) [OF rel] hm_rel_fields(4) [OF rel, symmetric] L(2,3) nxt old p'(5)
    by (intro hm_relI [of _ "L(k := a # L k)" F'])
       (auto simp: spec_write_def entry_at_def add_new_record_def Let_def)
  have "hm_ok ?m' L F' \<and> hm_hist ?m' L = (hm_hist m L)(k := map (entry_at (cells p')) (L k))"
    by (rule hm_ok_change [OF L(1) p'(1) e1, of k ?m', unfolded L']) (use p' same F' in auto)
  then show "hm_rel ?m' A"
    using hm_rel_fields [OF rel] L(2) old by (intro hm_relI [of _ L F']) (auto simp: fun_eq_iff)
qed

lemma wp_result_only:
  "wp (Pair res) Q E s = (case res of Inl Panic \<Rightarrow> False | Inl (Err x) \<Rightarrow> E x s | Inr y \<Rightarrow> Q y s)"
  by (auto simp: wp_def split: sum.splits fault.splits)

lemma wp_hm_update [wp_intro]:
  assumes rel: "hm_rel m A" and k: "hist A k \<noteq> []"
    and f: "f (snd (hd (hist A k))) = (res, v')" and np: "res \<noteq> Inl Panic"
    and ok: "\<And>m'. res = Inr () \<Longrightarrow> hm_rel m' (spec_write k v' A) \<Longrightarrow> Q () m'"
    and err: "\<And>m' x. res = Inl (Err x) \<Longrightarrow>
      hm_rel m' (if fst (hd (hist A k)) = next_id A then spec_write k v' A else A) \<Longrightarrow> E x m'"
  shows "wp (hm_update k f) Q E m"
proof (cases "fst (hd (hist A k)) = next_id A")
  case True
  obtain e r where e: "btree m k = Some e" "cells (records_memory_pool m) (head e) = Some r"
    "entry_at (cells (records_memory_pool m)) (head e) = hd (hist A k)"
    and upd: "\<And>v'. hm_rel (m\<lparr>records_memory_pool := records_memory_pool m
        \<lparr>cells := (cells (records_memory_pool m))(head e \<mapsto> r\<lparr>val := v'\<rparr>)\<rparr>\<rparr>) (spec_write k v' A)"
    by (rule wp_write_in_place [OF rel k True]) blast
  have "touch_ss_id r = next_id A" "f (val r) = (res, v')" using e(2) e(3) [symmetric] f True by (auto simp: entry_at_def)
  then show ?thesis
    using e upd ok err np True hm_rel_fields(1) [OF rel]
    by (auto simp: hm_update_def wp_result_only split: sum.splits fault.splits)
next
  case False
  obtain L F e where L: "hm_ok m L F" "hist A = hm_hist m L" "btree m k = Some e"
    and el: "element_ok (cells (records_memory_pool m)) e (L k)" and hd: "L k \<noteq> []" "head e = hd (L k)"
    using hm_rel_getE [OF rel k] by metis
  have "cells (records_memory_pool m) (head e) \<noteq> None" using element_ok_live [OF el] hd by simp
  then obtain r where r: "cells (records_memory_pool m) (head e) = Some r" by blast
  have v: "touch_ss_id r = fst (hd (hist A k))" "val r = snd (hd (hist A k))"
    using r hd L(2) by (auto simp: hm_hist_def entry_at_def hd_map)
  note rec = hm_rel_new_record [OF rel k False L]
  show ?thesis
    unfolding hm_update_def
    apply (simp add: L(3) r v False hm_rel_fields [OF rel])
    apply (rule wp_create_element [OF hm_okD(1) [OF L(1)]])
    subgoal premises p for a p' F'
    proof -
      let ?p = "p'\<lparr>cells := (cells p')(a \<mapsto> \<lparr>touch_ss_id = next_id A, val = v', previous = Some (head e)\<rparr>)\<rparr>"
      have "pool_ok ?p F'" using p(1,3,5) by (auto simp: pool_ok_def)
      moreover have "cells ?p = (cells (records_memory_pool m))(a \<mapsto> \<lparr>touch_ss_id = next_id A, val = v', previous = Some (head e)\<rparr>)"
        using p(5) by simp
      ultimately show ?thesis
        using rec [OF _ p(2-4), of ?p v'] p(5) f ok err np False
        by (auto simp: wp_result_only hm_rel_fields [OF rel] split: sum.splits fault.splits)
    qed
    done
qed

lemma dropWhile_idem: "dropWhile P (dropWhile P xs) = dropWhile P xs"
  by (induction xs) auto

lemma split_at_sets:
  assumes "distinct xs"
  shows "set (takeWhile P xs) \<subseteq> set xs" and "set (dropWhile P xs) \<subseteq> set xs"
    and "set (takeWhile P xs) \<inter> set (dropWhile P xs) = {}"
  using assms by (induction xs) (auto dest: set_takeWhileD set_dropWhileD)

lemma hm_rel_upd_element:
  assumes rel: "hm_rel m A" and L: "hm_ok m L F" "hist A = hm_hist m L" "btree m k = Some e"
    and p': "pool_ok p' F'" and e': "element_ok (cells p') e' as" "key_properties e' = key_properties e"
    and sub: "set as \<union> set F' \<subseteq> set F \<union> set (L k)" "set as \<inter> set F' = {}" "set as \<subseteq> set (L k)"
    and same: "\<And>c. c \<notin> set F \<union> set (L k) \<Longrightarrow> cells p' c = cells (records_memory_pool m) c"
    and ent: "\<And>c. entry_at (cells p') c = entry_at (cells (records_memory_pool m)) c"
    and xs: "xs = map (entry_at (cells (records_memory_pool m))) as"
  shows "hm_rel (m\<lparr>records_memory_pool := p', btree := (btree m)(k \<mapsto> e')\<rparr>) (A\<lparr>hist := (hist A)(k := xs)\<rparr>)"
    (is "hm_rel ?m _")
proof -
  have "hm_ok ?m (L(k := as)) F' \<and> hm_hist ?m (L(k := as)) = (hm_hist m L)(k := map (entry_at (cells p')) as)"
    by (rule hm_ok_change [OF L(1) p' e'(1)]) (use sub same in auto)
  moreover have "map (entry_at (cells p')) as = xs" using ent xs by simp
  ultimately show ?thesis
    using hm_rel_fields(1-3) [OF rel] hm_rel_fields(4) [OF rel, symmetric] L(2,3) e'(2)
    by (intro hm_relI [of _ "L(k := as)" F']) (auto simp: fun_eq_iff)
qed

lemma wp_rollback_key:
  assumes rel: "hm_rel m A" and d: "desc (hist A k)" and k: "hist A k \<noteq> []"
    and post: "\<And>m'. hm_rel m' (A\<lparr>hist := (hist A)(k := dropWhile (newer snap) (hist A k))\<rparr>) \<Longrightarrow> Q m'"
  obtains e where "btree m k = Some e"
    "wp (element_rollback e snap) (\<lambda>e' p. Q (m\<lparr>records_memory_pool := p, btree := (btree m)(k \<mapsto> e')\<rparr>))
       E (records_memory_pool m)"
proof -
  obtain L F e where L: "hm_ok m L F" "hist A = hm_hist m L" "btree m k = Some e"
    and el: "element_ok (cells (records_memory_pool m)) e (L k)"
    using hm_rel_getE [OF rel k] by metis
  let ?h = "cells (records_memory_pool m)" and ?P = "\<lambda>a. newer snap (entry_at (cells (records_memory_pool m)) a)"
  let ?rem = "takeWhile ?P (L k)" and ?keep = "dropWhile ?P (L k)"
  have drop: "dropWhile (newer snap) (hist A k) = map (entry_at ?h) ?keep"
    using L(2) by (simp add: hm_hist_def dropWhile_map comp_def)
  then have keep: "?keep \<noteq> []" using desc_nonempty [OF d k, of snap] by auto
  note dis = hm_okD(4) [OF L(1), of k]
  have "distinct (L k)" using el by (simp add: element_ok_def)
  note sub = split_at_sets [OF this, of ?P]
  have "wp (element_rollback e snap) (\<lambda>e' p. Q (m\<lparr>records_memory_pool := p, btree := (btree m)(k \<mapsto> e')\<rparr>))
       E (records_memory_pool m)"
  proof (rule wp_element_rollback [OF hm_okD(1) [OF L(1)], of e ?rem ?keep])
    show "fst (entry_at ?h (hd ?keep)) \<le> snap"
      using hd_dropWhile [of ?P "L k"] keep by (auto simp: newer_def dropWhile_eq_Nil_conv)
    fix e' p'
    assume p': "pool_ok p' (F @ ?rem)" "element_ok (cells p') e' ?keep"
      "\<And>c. c \<notin> set F \<union> set ?rem \<Longrightarrow> cells p' c = ?h c"
      "\<And>c. entry_at (cells p') c = entry_at ?h c" "key_properties e' = key_properties e"
    show "Q (m\<lparr>records_memory_pool := p', btree := (btree m)(k \<mapsto> e')\<rparr>)"
      by (rule post, rule hm_rel_upd_element [OF rel L p'(1,2,5) _ _ _ _ p'(4) drop])
         (use sub p'(3) dis in auto)
  qed (use el keep dis in \<open>auto simp: newer_def dest: set_takeWhileD\<close>)
  with that L(3) show thesis by blast
qed

lemma wp_rollback_pending:
  assumes "hm_rel m A" and "\<And>k. desc (hist A k)" and "\<And>k i. (k, i) \<in> set ps \<Longrightarrow> hist A k \<noteq> []"
    and "\<And>m'. hm_rel m' (A\<lparr>hist := \<lambda>k. if k \<in> fst ` set (takeWhile (newer snap \<circ> prod.swap) ps)
         then dropWhile (newer snap) (hist A k) else hist A k,
         pend := dropWhile (newer snap \<circ> prod.swap) ps\<rparr>) \<Longrightarrow> Q () m'"
  shows "wp (rollback_pending snap ps) Q E m"
  using assms
proof (induction ps arbitrary: m A)
  case Nil
  from Nil(1) obtain L F where L: "hm_ok m L F" "hist A = hm_hist m L" by (rule hm_relE)
  show ?case
    using L hm_rel_fields [OF Nil(1)]
    by (auto intro!: Nil(4) hm_relI [of _ L F] simp: hm_ok_def hm_hist_def)
next
  case (Cons kj ps)
  obtain key j where kj: "kj = (key, j)" by fastforce
  show ?case
  proof (cases "j \<le> snap")
    case True
    from Cons.prems(1) obtain L F where L: "hm_ok m L F" "hist A = hm_hist m L" by (rule hm_relE)
    then show ?thesis
      using True kj hm_rel_fields [OF Cons.prems(1)]
      by (auto intro!: Cons.prems(4) hm_relI [of _ L F] simp: hm_ok_def hm_hist_def newer_def)
  next
    case False
    let ?A = "A\<lparr>hist := (hist A)(key := dropWhile (newer snap) (hist A key))\<rparr>"
    have nw: "newer snap (j, key)" using False by (simp add: newer_def)
    have key: "hist A key \<noteq> []" using Cons.prems(3) kj by auto
    have rest: "wp (rollback_pending snap ps) Q E m'" if "hm_rel m' ?A" for m'
    proof (rule Cons.IH [OF that])
      show "desc (hist ?A k)" for k using Cons.prems(2) by (simp add: desc_drop)
      show "hist ?A k \<noteq> []" if "(k, i) \<in> set ps" for k i
        using Cons.prems(3) [of k i] that desc_nonempty [OF Cons.prems(2) key] by simp
      fix m'
      assume rel: "hm_rel m' (?A\<lparr>hist := \<lambda>k. if k \<in> fst ` set (takeWhile (newer snap \<circ> prod.swap) ps)
         then dropWhile (newer snap) (hist ?A k) else hist ?A k,
         pend := dropWhile (newer snap \<circ> prod.swap) ps\<rparr>)"
      have e1: "(\<lambda>k. if k \<in> fst ` set (takeWhile (newer snap \<circ> prod.swap) ps)
            then dropWhile (newer snap) (hist ?A k) else hist ?A k) =
          (\<lambda>k. if k \<in> fst ` set (takeWhile (newer snap \<circ> prod.swap) (kj # ps))
            then dropWhile (newer snap) (hist A k) else hist A k)"
        by (simp add: fun_eq_iff dropWhile_idem kj nw)
      have e2: "dropWhile (newer snap \<circ> prod.swap) (kj # ps) = dropWhile (newer snap \<circ> prod.swap) ps"
        by (simp add: kj nw)
      show "Q () m'"
        by (rule Cons.prems(4), unfold e2, subst e1 [symmetric]) (use rel in simp)
    qed
    obtain e where "btree m key = Some e"
      "wp (element_rollback e snap) (\<lambda>e' p. wp (rollback_pending snap ps) Q E
         (m\<lparr>records_memory_pool := p, btree := (btree m)(key \<mapsto> e')\<rparr>)) (\<lambda>x p. E x (m\<lparr>records_memory_pool := p\<rparr>)) (records_memory_pool m)"
      by (rule wp_rollback_key [OF Cons.prems(1,2) key rest])
    then show ?thesis using False kj by simp
  qed
qed

lemma wp_hm_rollback [wp_intro]:
  assumes rel: "hm_rel m A" and wf: "spec_wf A"
    and ok: "\<And>m'. frozen_id A \<le> i \<Longrightarrow> i < next_id A \<Longrightarrow> hm_rel m' (spec_rollback i A) \<Longrightarrow> Q () m'"
    and err: "i < frozen_id A \<Longrightarrow> E below_frozen m"
      "frozen_id A \<le> i \<Longrightarrow> next_id A \<le> i \<Longrightarrow> E non_existent m"
  shows "wp (hm_rollback i) Q E m"
proof (cases "frozen_id A \<le> i \<and> i < next_id A")
  case True
  let ?P = "newer i \<circ> prod.swap"
  have "wp (rollback_pending i (pend A)) Q E m"
  proof (rule wp_rollback_pending [OF rel spec_wfD(4) [OF wf]])
    show "hist A k \<noteq> []" if "(k, j) \<in> set (pend A)" for k j
      using spec_wfD(3) [OF wf, of k] that by (auto simp: key_wf_def)
    fix m'
    assume m': "hm_rel m' (A\<lparr>hist := \<lambda>k. if k \<in> fst ` set (takeWhile ?P (pend A))
         then dropWhile (newer i) (hist A k) else hist A k, pend := dropWhile ?P (pend A)\<rparr>)"
    have "dropWhile (newer i) (hist A k) = hist A k" if k: "k \<notin> fst ` set (takeWhile ?P (pend A))" for k
    proof (rule dropWhile_unless_pending [OF wf])
      fix j assume "(k, j) \<in> set (pend A)"
      then have "(k, j) \<in> set (dropWhile ?P (pend A))"
        using k takeWhile_dropWhile_id [of ?P "pend A"] by (metis Un_iff fst_conv image_eqI set_append)
      then show "j \<le> i" using sorted_dropWhile [OF spec_wfD(2) [OF wf]] by simp
    qed (use True in simp)
    then have "(\<lambda>k. dropWhile (newer i) (hist A k)) =
        (\<lambda>k. if k \<in> fst ` set (takeWhile ?P (pend A)) then dropWhile (newer i) (hist A k) else hist A k)"
      by (auto simp: fun_eq_iff)
    then have "hm_rel m' (spec_rollback i A)" unfolding spec_rollback_def by (simp only: m')
    then show "Q () m'" using ok True by blast
  qed
  then show ?thesis using True hm_rel_fields [OF rel] by (simp add: hm_rollback_def)
next
  case False
  then show ?thesis using err hm_rel_fields [OF rel] by (auto simp: hm_rollback_def)
qed

lemma wp_commit_key:
  assumes rel: "hm_rel m A" and k: "hist A k \<noteq> []"
    and post: "\<And>m'. hm_rel m' (A\<lparr>hist := (hist A)(k := squash (hist A k))\<rparr>) \<Longrightarrow> Q m'"
  obtains e where "btree m k = Some e"
    "wp (element_commit e) (\<lambda>e' p. Q (m\<lparr>records_memory_pool := p, btree := (btree m)(k \<mapsto> e')\<rparr>))
       E (records_memory_pool m)"
proof -
  obtain L F e where L: "hm_ok m L F" "hist A = hm_hist m L" "btree m k = Some e"
    and el: "element_ok (cells (records_memory_pool m)) e (L k)"
    using hm_rel_getE [OF rel k] by metis
  let ?h = "cells (records_memory_pool m)"
  note dis = hm_okD(4) [OF L(1), of k]
  have sq: "squash (hist A k) = map (entry_at ?h) (squash (L k))" using L(2) by (simp add: hm_hist_def squash_map)
  have "wp (element_commit e) (\<lambda>e' p. Q (m\<lparr>records_memory_pool := p, btree := (btree m)(k \<mapsto> e')\<rparr>))
       E (records_memory_pool m)"
  proof (rule wp_element_commit [OF hm_okD(1) [OF L(1)] el dis])
    fix e' p' rem
    assume p': "pool_ok p' (F @ rem)" "element_ok (cells p') e' (squash (L k))"
      "set rem \<subseteq> set (L k) - set (squash (L k))"
      "\<And>c. c \<notin> set F \<union> set (L k) \<Longrightarrow> cells p' c = ?h c"
      "\<And>c. entry_at (cells p') c = entry_at ?h c" "key_properties e' = key_properties e"
    show "Q (m\<lparr>records_memory_pool := p', btree := (btree m)(k \<mapsto> e')\<rparr>)"
      by (rule post, rule hm_rel_upd_element [OF rel L p'(1,2,6) _ _ _ p'(4,5) sq])
         (use p'(3) dis set_squash [of "L k"] in auto)
  qed
  with that L(3) show thesis by blast
qed

lemma wp_commit_pending:
  assumes "hm_rel m A" and "\<And>k i. (k, i) \<in> set ps \<Longrightarrow> hist A k \<noteq> []"
    and "\<And>m'. hm_rel m' (A\<lparr>hist := \<lambda>k. if k \<in> fst ` set ps then squash (hist A k) else hist A k\<rparr>) \<Longrightarrow> Q () m'"
  shows "wp (commit_pending ps) Q E m"
  using assms
proof (induction ps arbitrary: m A)
  case Nil
  from Nil(1) show ?case by (auto intro!: Nil(3))
next
  case (Cons kj ps)
  obtain key j where kj: "kj = (key, j)" by fastforce
  let ?A = "A\<lparr>hist := (hist A)(key := squash (hist A key))\<rparr>"
  have key: "hist A key \<noteq> []" using Cons.prems(2) kj by auto
  have rest: "wp (commit_pending ps) Q E m'" if "hm_rel m' ?A" for m'
  proof (rule Cons.IH [OF that])
    show "hist ?A k \<noteq> []" if "(k, i) \<in> set ps" for k i
      using Cons.prems(2) [of k i] that key by simp
    fix m'
    assume rel: "hm_rel m' (?A\<lparr>hist := \<lambda>k. if k \<in> fst ` set ps then squash (hist ?A k) else hist ?A k\<rparr>)"
    have e1: "(\<lambda>k. if k \<in> fst ` set ps then squash (hist ?A k) else hist ?A k) =
        (\<lambda>k. if k \<in> fst ` set (kj # ps) then squash (hist A k) else hist A k)"
      by (simp add: fun_eq_iff kj)
    show "Q () m'"
      by (rule Cons.prems(3), subst e1 [symmetric]) (use rel in simp)
  qed
  obtain e where "btree m key = Some e"
    "wp (element_commit e) (\<lambda>e' p. wp (commit_pending ps) Q E
       (m\<lparr>records_memory_pool := p, btree := (btree m)(key \<mapsto> e')\<rparr>)) (\<lambda>x p. E x (m\<lparr>records_memory_pool := p\<rparr>)) (records_memory_pool m)"
    by (rule wp_commit_key [OF Cons.prems(1) key rest])
  then show ?case using kj by simp
qed

lemma wp_hm_commit [wp_intro]:
  assumes rel: "hm_rel m A" and wf: "spec_wf A" and W: "next_id A < usize_max W"
    and post: "\<And>m'. hm_rel m' (spec_commit A) \<Longrightarrow> Q () m'"
  shows "wp (hm_commit W) Q E m"
  unfolding hm_commit_def wp_and_then
proof (rule wp_hm_snapshot [OF rel W])
  fix m1 assume m1: "hm_rel m1 (spec_snapshot A)"
  let ?A = "spec_snapshot A" and ?m = "m1\<lparr>frozen_snapshot_id := next_id A\<rparr>"
  let ?B = "?A\<lparr>frozen_id := next_id A\<rparr>"
  obtain L F where L: "hm_ok m1 L F" "hist ?A = hm_hist m1 L" using m1 by (rule hm_relE)
  have rel': "hm_rel ?m ?B"
    using L hm_rel_fields [OF m1] by (intro hm_relI [of _ L F]) (auto simp: hm_ok_def hm_hist_def)
  have "wp (commit_pending (pend A)) (\<lambda>_. wp (modify_st (\<lambda>m. m\<lparr>pending_updated_elements := []\<rparr>)) Q E) E ?m"
  proof (rule wp_commit_pending [OF rel'])
    show "hist ?B k \<noteq> []" if "(k, i) \<in> set (pend A)" for k i
      using spec_wfD(3) [OF wf, of k] that by (auto simp: key_wf_def spec_snapshot_def)
    fix m'
    assume m': "hm_rel m' (?B\<lparr>hist := \<lambda>k. if k \<in> fst ` set (pend A) then squash (hist ?B k) else hist ?B k\<rparr>)"
    have "(\<lambda>k. if k \<in> fst ` set (pend A) then squash (hist ?B k) else hist ?B k) = (\<lambda>k. squash (hist A k))"
      using squash_unless_pending [OF wf] by (auto simp: fun_eq_iff spec_snapshot_def)
    with m' have m'': "hm_rel m' (?B\<lparr>hist := \<lambda>k. squash (hist A k)\<rparr>)" by simp
    obtain L F where L: "hm_ok m' L F" "hist (?B\<lparr>hist := \<lambda>k. squash (hist A k)\<rparr>) = hm_hist m' L"
      using m'' by (rule hm_relE)
    then have "hm_rel (m'\<lparr>pending_updated_elements := []\<rparr>) (spec_commit A)"
      using hm_rel_fields [OF m'']
      by (intro hm_relI [of _ L F]) (auto simp: hm_ok_def hm_hist_def spec_commit_def spec_snapshot_def)
    then show "wp (modify_st (\<lambda>m. m\<lparr>pending_updated_elements := []\<rparr>)) Q E m'" using post by simp
  qed
  then show "wp (modify_st (\<lambda>m. m\<lparr>frozen_snapshot_id := next_id A\<rparr>))
     (\<lambda>x. wp (read_st pending_updated_elements)
        (\<lambda>x. wp (commit_pending x) (\<lambda>x. wp (modify_st (\<lambda>m. m\<lparr>pending_updated_elements := []\<rparr>)) Q E) E) E) E m1"
    using hm_rel_fields [OF m1] by (simp add: spec_snapshot_def)
qed

section \<open>Every reachable map\<close>

definition hm_good :: "('k, 'v, 'kp) history_map \<Rightarrow> ('k, 'v, 'kp) spec_map \<Rightarrow> bool" where
  "hm_good m A \<longleftrightarrow> hm_rel m A \<and> spec_wf A"

text \<open>What an operation does to the specification; the result of a callback decides.\<close>

fun spec_exec :: "('k, 'v, 'kp) hm_op \<Rightarrow> ('k, 'v, 'kp) spec_map \<Rightarrow> ('k, 'v, 'kp) spec_map" where
  "spec_exec (GetOrInsert k v kp) A = (if hist A k = [] then spec_insert k v kp A else A)"
| "spec_exec (Update k f) A =
     (if hist A k = [] then A
      else case f (snd (hd (hist A k))) of (res, v) \<Rightarrow>
        if res = Inr () \<or> fst (hd (hist A k)) = next_id A then spec_write k v A else A)"
| "spec_exec (KeyPropertiesMut k g) A = (if hist A k = [] then A else spec_set_props k g A)"
| "spec_exec Snapshot A = spec_snapshot A"
| "spec_exec (Rollback i) A = (if frozen_id A \<le> i \<and> i < next_id A then spec_rollback i A else A)"
| "spec_exec Commit A = spec_commit A"

lemma spec_wf_exec: "spec_wf A \<Longrightarrow> spec_wf (spec_exec op A)"
  by (cases op) (auto simp: spec_wf_insert spec_wf_write spec_wf_set_props spec_wf_snapshot
      spec_wf_rollback spec_wf_commit split: prod.splits)

lemma wp_hm_get_mut:
  assumes "hm_rel m A" and "hist A k = [] \<Longrightarrow> Q () m" and "hist A k \<noteq> [] \<Longrightarrow> wp f Q E m"
  shows "wp (hm_get_mut k f) Q E m"
  using assms hm_rel_absent [OF assms(1)] by (auto simp: hm_get_mut_def)

lemma wp_hm_exec:
  assumes good: "hm_good m A" and total: "callback_total op" and W: "next_snapshot_id m < usize_max W"
  shows "wp (hm_exec W op) (\<lambda>_ m'. hm_good m' (spec_exec op A)) (\<lambda>_ m'. hm_good m' (spec_exec op A)) m"
proof -
  have rel: "hm_rel m A" and wf: "spec_wf A" and wf': "spec_wf (spec_exec op A)"
    using good spec_wf_exec by (auto simp: hm_good_def)
  have nxt: "next_id A < usize_max W" using W hm_rel_fields(1) [OF rel] by simp
  have "wp (hm_exec W op) (\<lambda>_ m'. hm_rel m' (spec_exec op A)) (\<lambda>_ m'. hm_rel m' (spec_exec op A)) m"
  proof (cases op)
    case (GetOrInsert k v kp)
    then show ?thesis using rel by (auto intro!: wp_hm_get_or_insert [OF rel])
  next
    case (Update k f)
    obtain res v' where f: "f (snd (hd (hist A k))) = (res, v')" by fastforce
    have "res \<noteq> Inl Panic" using total Update f by (metis callback_total.simps(1) fst_conv)
    then have "wp (hm_update k f) (\<lambda>_ m'. hm_rel m' (spec_exec op A)) (\<lambda>_ m'. hm_rel m' (spec_exec op A)) m"
      if "hist A k \<noteq> []"
      using that by (intro wp_hm_update [of m A k f, OF rel that f]) (auto simp: Update f split: if_splits)
    then show ?thesis using rel Update by (auto intro!: wp_hm_get_mut [OF rel])
  next
    case (KeyPropertiesMut k g)
    then show ?thesis
      using rel by (auto intro!: wp_hm_get_mut [OF rel] wp_hm_set_key_properties [OF rel])
  next
    case Snapshot
    then show ?thesis using nxt by (auto intro!: wp_hm_snapshot [OF rel])
  next
    case (Rollback i)
    then show ?thesis using rel by (auto intro!: wp_hm_rollback [OF rel wf])
  next
    case Commit
    then show ?thesis using nxt by (auto intro!: wp_hm_commit [OF rel wf])
  qed
  then show ?thesis by (rule wp_mono) (simp_all add: hm_good_def wf')
qed

lemma wp_snd: "wp f (\<lambda>_. P) (\<lambda>_. P) s \<Longrightarrow> P (snd (f s))"
  by (auto simp: wp_def split: prod.splits sum.splits fault.splits)

lemmas hm_exec_good = wp_hm_exec [THEN wp_snd]

lemma hm_reachable_good:
  assumes "hm_reachable W m"
  shows "\<exists>A. hm_good m A"
  using assms
proof induction
  case hm_reach_new
  then show ?case using hm_rel_new spec_wf_new by (auto simp: hm_good_def)
next
  case (hm_reach_step m op m')
  then show ?case using hm_exec_good by blast
qed

section \<open>What a snapshot protects\<close>

definition restores :: "snapshot_id \<Rightarrow> ('k, 'v, 'kp) spec_map \<Rightarrow> ('k, 'v, 'kp) spec_map \<Rightarrow> bool" where
  "restores i A B \<longleftrightarrow>
     i < next_id B \<and> frozen_id B \<le> i \<and>
     (\<forall>k. hist A k \<noteq> [] \<longrightarrow> dropWhile (newer i) (hist B k) = hist A k) \<and>
     (\<forall>k. hist A k = [] \<longrightarrow> hist B k \<noteq> [] \<longrightarrow> dropWhile (newer i) (hist B k) = [last (hist B k)])"

lemma restores_snapshot:
  assumes "spec_wf A"
  shows "restores (next_id A) A (spec_snapshot A)"
proof -
  have "dropWhile (newer (next_id A)) (hist A k) = hist A k" for k
    using spec_wfD(1) [OF assms] spec_wfD(3) [OF assms, of k] by (intro dropWhile_unless_pending [OF assms]) (auto simp: key_wf_def)
  then show ?thesis using spec_wfD(1) [OF assms] by (simp add: restores_def spec_snapshot_def)
qed

lemma dropWhile_write:
  assumes "i < next_id B" and "hist B k \<noteq> []"
  shows "dropWhile (newer i) (hist (spec_write k v B) j) = dropWhile (newer i) (hist B j)"
  using assms by (cases "hist B k") (auto simp: spec_write_def newer_def)

lemma last_write:
  assumes "spec_wf B" and "hist B k \<noteq> []"
  shows "last (hist (spec_write k v B) j) = last (hist B j)"
proof -
  have "tl (hist B k) \<noteq> []" if "fst (hd (hist B k)) = next_id B"
    using that spec_wfD(1) [OF assms(1)] spec_wfD(4) [OF assms(1), of k] assms(2)
    by (cases "hist B k") (auto simp: desc_def)
  then show ?thesis using assms(2) by (cases "hist B k") (auto simp: spec_write_def)
qed

lemma dropWhile_dropWhile_newer:
  "i \<le> j \<Longrightarrow> dropWhile (newer i) (dropWhile (newer j) xs) = dropWhile (newer i) xs"
  by (induction xs) (auto simp: newer_def)

lemma restores_exec:
  assumes r: "restores i A B" and wf: "spec_wf B" and op: "above i op"
  shows "restores i A (spec_exec op B)"
proof -
  have lt: "i < next_id B" "frozen_id B \<le> i" using r by (auto simp: restores_def)
  show ?thesis
  proof (cases op)
    case (GetOrInsert k v kp)
    then show ?thesis using r by (auto simp: restores_def spec_insert_def newer_def)
  next
    case (Update k f)
    have "restores i A (spec_write k v B)" if "hist B k \<noteq> []" for v
      using r dropWhile_write [OF lt(1) that] last_write [OF wf that] that
      by (auto simp: restores_def spec_write_def split: if_splits)
    then show ?thesis using r Update by (auto split: prod.splits)
  next
    case (Rollback j)
    have "hist B k \<noteq> []" if "dropWhile (newer j) (hist B k) \<noteq> []" for k using that by auto
    then show ?thesis
      using r Rollback op
      by (auto simp: restores_def spec_rollback_def dropWhile_dropWhile_newer last_dropWhile
          simp del: dropWhile_eq_Nil_conv)
  qed (use r op in \<open>auto simp: restores_def spec_set_props_def spec_snapshot_def\<close>)
qed

lemma hm_since_good:
  assumes "hm_since W i m m'" and "hm_good m B" and "restores i A B"
  shows "\<exists>C. hm_good m' C \<and> restores i A C"
  using assms
proof induction
  case (hm_since_step m1 op m2)
  then obtain C where "hm_good m1 C" "restores i A C" by blast
  then show ?case
    using hm_since_step hm_exec_good restores_exec by (metis hm_good_def)
qed blast

section \<open>Properties\<close>

lemma current_val:
  assumes "hm_rel m A" and "hist A k \<noteq> []"
  shows "hm_current k m = (Inr (snd (hd (hist A k))), m)"
  using wp_result [OF wp_hm_current [OF assms, of "\<lambda>_ _. False"]] by auto

lemma initial_val:
  assumes "hm_rel m A" and "hist A k \<noteq> []"
  shows "hm_initial k m = (Inr (snd (last (hist A k))), m)"
  using wp_result [OF wp_hm_initial [OF assms, of "\<lambda>_ _. False"]] by auto

lemma initial_and_last_val:
  assumes "hm_rel m A" and "hist A k \<noteq> []"
  shows "hm_get_initial_and_last_values k m =
    (Inr (if tl (hist A k) = [] then None else Some (snd (last (hist A k)), snd (hd (hist A k)))), m)"
  using wp_result [OF wp_hm_get_initial_and_last_values [OF assms, of "\<lambda>_ _. False"]] by auto

lemmas hm_observe = current_val initial_val initial_and_last_val

lemma snapshot_res:
  assumes "hm_snapshot W m = (Inr i, m1)" and "hm_good m A"
  shows "i = next_id A" and "hm_rel m1 (spec_snapshot A)"
proof -
  have rel: "hm_rel m A" using assms(2) by (simp add: hm_good_def)
  have "next_snapshot_id m < usize_max W" using assms(1)
    by (auto simp: hm_snapshot_def and_then_def read_st_def assert_that_def panic_def split: if_splits)
  then have "wp (hm_snapshot W) (\<lambda>j m'. j = next_id A \<and> hm_rel m' (spec_snapshot A)) (\<lambda>_ _. False) m"
    using hm_rel_fields(1) [OF rel] by (intro wp_hm_snapshot [OF rel]) auto
  then show "i = next_id A" "hm_rel m1 (spec_snapshot A)" using assms(1) by (auto simp: wp_def)
qed

text \<open>C4: Whatever a client did with a map before, no further operation panics: every
  pointer the \<open>unsafe\<close> blocks follow is allocated, every chain ends in the initial record
  of snapshot 0 so that the search loop of \<open>rollback\<close> ends and its \<open>expect\<close> holds, and every
  pending key is present (as long as the snapshot counter fits in \<open>usize\<close>).\<close>

theorem hm_never_panics:
  assumes "hm_reachable W m" and "callback_total op" and "next_snapshot_id m < usize_max W"
  shows "fst (hm_exec W op m) \<noteq> Inl Panic"
proof -
  obtain A where "hm_good m A" using hm_reachable_good [OF assms(1)] by blast
  from wp_hm_exec [OF this assms(2,3)] show ?thesis by (rule wp_no_panic)
qed

text \<open>C5: Rolling back to a snapshot always succeeds as long as nothing was committed since,
  whatever updates, insertions, nested snapshots and nested rollbacks (failed ones included)
  happened in between. Every key that was present at the snapshot has the value it had then,
  and a key inserted later has its initial value.\<close>

theorem hm_rollback_restores:
  assumes "hm_reachable W m" and "hm_snapshot W m = (Inr i, m1)" and "hm_since W i m1 m2"
  shows "\<exists>m3. hm_rollback i m2 = (Inr (), m3) \<and>
    (\<forall>k. btree m k \<noteq> None \<longrightarrow> fst (hm_current k m3) = fst (hm_current k m)) \<and>
    (\<forall>k. btree m k = None \<and> btree m2 k \<noteq> None \<longrightarrow> fst (hm_current k m3) = fst (hm_initial k m2))"
proof -
  obtain A where A: "hm_good m A" using hm_reachable_good [OF assms(1)] by blast
  have relA: "hm_rel m A" and wfA: "spec_wf A" using A by (auto simp: hm_good_def)
  note snap = snapshot_res [OF assms(2) A]
  have "hm_good m1 (spec_snapshot A)" using snap(2) spec_wf_snapshot [OF wfA] by (simp add: hm_good_def)
  then obtain C where C: "hm_rel m2 C" "spec_wf C" "restores i A C"
    using hm_since_good [OF assms(3)] restores_snapshot [OF wfA] snap(1) by (auto simp: hm_good_def)
  have "wp (hm_rollback i) (\<lambda>_ m'. hm_rel m' (spec_rollback i C)) (\<lambda>_ _. False) m2"
    using C(3) by (intro wp_hm_rollback [OF C(1,2)]) (auto simp: restores_def)
  then obtain m3 where m3: "hm_rollback i m2 = (Inr (), m3)" "hm_rel m3 (spec_rollback i C)"
    using wp_result by fastforce
  have "fst (hm_current k m3) = fst (hm_current k m)" if "btree m k \<noteq> None" for k
  proof -
    have "hist A k \<noteq> []" using that hm_rel_absent [OF relA] by simp
    moreover have "hist (spec_rollback i C) k = hist A k"
      using C(3) calculation by (simp add: restores_def spec_rollback_def)
    ultimately show ?thesis by (simp add: hm_observe(1) [OF m3(2)] hm_observe(1) [OF relA])
  qed
  moreover have "fst (hm_current k m3) = fst (hm_initial k m2)"
    if "btree m k = None" "btree m2 k \<noteq> None" for k
  proof -
    have "hist A k = []" "hist C k \<noteq> []" using that hm_rel_absent [OF relA] hm_rel_absent [OF C(1)] by auto
    moreover have "hist (spec_rollback i C) k = [last (hist C k)]"
      using C(3) calculation by (simp add: restores_def spec_rollback_def)
    ultimately show ?thesis by (simp add: hm_observe(1) [OF m3(2)] hm_observe(2) [OF C(1)])
  qed
  ultimately show ?thesis using m3(1) by blast
qed


text \<open>C10: After an update whose callback succeeded the item reads as what the callback wrote,
  its initial value is kept, and every other item reads as before.\<close>

theorem hm_update_then_read:
  assumes "hm_reachable W m" and "btree m k \<noteq> None" and "fst (hm_current k m) = Inr v"
    and "f v = (Inr (), v')"
  shows "\<exists>m'. hm_update k f m = (Inr (), m') \<and> fst (hm_current k m') = Inr v' \<and>
    fst (hm_initial k m') = fst (hm_initial k m) \<and>
    (\<forall>j. j \<noteq> k \<and> btree m j \<noteq> None \<longrightarrow> fst (hm_current j m') = fst (hm_current j m))"
proof -
  obtain A where rel: "hm_rel m A" and wf: "spec_wf A"
    using hm_reachable_good [OF assms(1)] by (auto simp: hm_good_def)
  have k: "hist A k \<noteq> []" using assms(2) hm_rel_absent [OF rel] by simp
  then have v: "snd (hd (hist A k)) = v" using assms(3) by (simp add: hm_observe(1) [OF rel k])
  have "wp (hm_update k f) (\<lambda>_ m'. hm_rel m' (spec_write k v' A)) (\<lambda>_ _. False) m"
    using assms(4) v by (intro wp_hm_update [of m A k f "Inr ()" v', OF rel k]) auto
  then obtain m' where m': "hm_update k f m = (Inr (), m')" "hm_rel m' (spec_write k v' A)"
    using wp_result by fastforce
  have h: "hist (spec_write k v' A) j \<noteq> [] \<longleftrightarrow> hist A j \<noteq> []" for j using k by (auto simp: spec_write_def)
  have "snd (hd (hist (spec_write k v' A) k)) = v'" by (simp add: spec_write_def)
  moreover have "hist (spec_write k v' A) j = hist A j" if "j \<noteq> k" for j using that by (simp add: spec_write_def)
  ultimately have "fst (hm_current k m') = Inr v'" "\<forall>j. j \<noteq> k \<and> btree m j \<noteq> None \<longrightarrow> fst (hm_current j m') = fst (hm_current j m)"
    using k h hm_rel_absent [OF rel] by (auto simp: hm_observe(1) [OF m'(2)] hm_observe(1) [OF rel])
  moreover have "fst (hm_initial k m') = fst (hm_initial k m)"
    using k h [of k] by (simp add: hm_observe(2) [OF m'(2)] hm_observe(2) [OF rel] last_write [OF wf k])
  ultimately show ?thesis using m'(1) by blast
qed

subsection \<open>Walks and destruction\<close>

text \<open>A callback that writes down what it is shown.\<close>

definition collect :: "'v \<Rightarrow> 'v \<Rightarrow> 'k \<Rightarrow> (('k \<times> 'v \<times> 'v) list, internal_error, unit) rs" where
  "collect i l k acc = (Inr (), acc @ [(k, i, l)])"

lemma apply_to_updated_collect:
  assumes rel: "hm_rel m A" and ks: "\<And>k. k \<in> set ks \<Longrightarrow> hist A k \<noteq> []"
  shows "apply_to_updated collect ks (m, acc) =
    (Inr (), m, acc @ map (\<lambda>k. (k, snd (last (hist A k)), snd (hd (hist A k))))
       (filter (\<lambda>k. tl (hist A k) \<noteq> []) ks))"
  using ks
proof (induction ks arbitrary: acc)
  case Nil
  then show ?case by (simp add: ret_def)
next
  case (Cons k ks)
  have "(and_then (read_st (\<lambda>m. btree m k)) (\<lambda>entry.
        and_then (expect entry) (\<lambda>v. on_pool (get_initial_and_last_values v)))) m =
     (Inr (if tl (hist A k) = [] then None else Some (snd (last (hist A k)), snd (hd (hist A k)))) :: internal_error fault + _, m)"
    using hm_observe(3) [OF rel, of k] Cons.prems by (simp add: hm_get_initial_and_last_values_def)
  then show ?case
    using Cons.IH Cons.prems
    by (auto simp: and_then_def [of "on_part _ _ _ _"] and_then_def [of "ret _"] on_part_def ret_def collect_def split: if_splits)
qed

lemma drop_chain_frees:
  assumes "seg h (Some a) as None" and "distinct as"
  shows "drop_chain h a = Some (Some (\<lambda>c. if c \<in> set as then None else h c))"
  using assms
proof (induction as arbitrary: a h)
  case (Cons b as)
  note IH = Cons.IH
  have b: "b = a" "a \<notin> set as" "distinct as" using Cons.prems by simp_all
  obtain r where r: "h a = Some r" "seg h (previous r) as None" using Cons.prems(1) by auto
  have seg': "seg (h(a := None)) (previous r) as None"
    using r(2) b(2) seg_cong [of as "h(a := None)" h] by (metis fun_upd_other)
  show ?case
  proof (cases as)
    case Nil
    then show ?thesis using r b by (simp add: drop_chain.simps [of h a] fun_eq_iff)
  next
    case (Cons c cs)
    then have c: "previous r = Some c" using r(2) by simp
    have "drop_chain (h(a := None)) c = Some (Some (\<lambda>x. if x \<in> set as then None else (h(a := None)) x))"
      by (rule IH [OF seg' [unfolded c] b(3)])
    with c show ?thesis using r b by (simp add: drop_chain.simps [of h a] fun_eq_iff)
  qed
qed simp

lemma elements_drop_frees:
  assumes ok: "hm_ok m L F" and ks: "distinct ks" "\<And>k. k \<in> set ks \<Longrightarrow> btree m k \<noteq> None"
    and h: "\<And>k c. k \<in> set ks \<Longrightarrow> c \<in> set (L k) \<Longrightarrow> h c = cells (records_memory_pool m) c"
  shows "elements_drop m ks h = Some (Some (\<lambda>c. if c \<in> (\<Union>k \<in> set ks. set (L k)) then None else h c))"
  using ks h
proof (induction ks arbitrary: h)
  case (Cons k ks)
  obtain e where e: "btree m k = Some e" using Cons.prems(2) [of k] by auto
  note el = hm_okD(3) [OF ok e]
  have "seg h (Some (head e)) (L k) None"
    using el Cons.prems(3) [of k] by (subst seg_cong [of _ _ "cells (records_memory_pool m)"]) (auto simp: element_ok_def)
  then have drop: "element_drop e h = Some (Some (\<lambda>c. if c \<in> set (L k) then None else h c))"
    using el by (simp add: element_drop_def drop_chain_frees element_ok_def)
  have "elements_drop m ks (\<lambda>c. if c \<in> set (L k) then None else h c) =
      Some (Some (\<lambda>c. if c \<in> (\<Union>k \<in> set ks. set (L k)) then None else (if c \<in> set (L k) then None else h c)))"
  proof (rule Cons.IH)
    show "(if c \<in> set (L k) then None else h c) = cells (records_memory_pool m) c"
      if "j \<in> set ks" "c \<in> set (L j)" for j c
    proof -
      have "k \<noteq> j" using that(1) Cons.prems(1) by auto
      then have "c \<notin> set (L k)" using hm_okD(5) [OF ok, of k j] that(2) by blast
      then show ?thesis using Cons.prems(3) [of j c] that by simp
    qed
  qed (use Cons.prems in auto)
  then show ?case using e drop by (auto simp: fun_eq_iff)
qed simp

lemma hm_rel_dom: "hm_rel m A \<Longrightarrow> dom (btree m) = {k. hist A k \<noteq> []}"
  unfolding dom_def by (simp add: hm_rel_absent)

lemma finite_reachable: "hm_reachable W m \<Longrightarrow> finite (dom (btree m))"
proof (induction rule: hm_reachable.induct)
  case hm_reach_new
  then show ?case by (simp add: hm_new_def)
next
  case (hm_reach_step m op m')
  obtain A where good: "hm_good m A" using hm_reachable_good [OF hm_reach_step(1)] by blast
  have dom: "dom (btree m) = {k. hist A k \<noteq> []}"
    using good by (simp add: hm_good_def hm_rel_dom)
  have "hm_good m' (spec_exec op A)"
    using hm_exec_good [OF good] hm_reach_step by blast
  then have "dom (btree m') = {k. hist (spec_exec op A) k \<noteq> []}"
    by (simp add: hm_good_def hm_rel_dom)
  moreover have "{k. hist (spec_exec op A) k \<noteq> []} \<subseteq> insert (case op of GetOrInsert k _ _ \<Rightarrow> k | _ \<Rightarrow> undefined) {k. hist A k \<noteq> []}"
    by (cases op) (auto simp: spec_insert_def spec_write_def spec_set_props_def spec_snapshot_def
      spec_rollback_def spec_commit_def split: prod.splits if_splits)
  ultimately show ?case using hm_reach_step.IH dom by (metis finite_insert finite_subset)
qed

lemma reachable_keys:
  assumes "hm_reachable W m" and "hm_rel m A"
  shows "distinct (hm_keys m)" and "set (hm_keys m) = {k. hist A k \<noteq> []}"
  using finite_reachable [OF assms(1)] hm_rel_dom [OF assms(2)] by (simp_all add: hm_keys_def)



text \<open>Overwriting the current record of an element in place.\<close>

definition spec_overwrite :: "'k \<Rightarrow> 'v \<Rightarrow> 'kp \<Rightarrow> ('k, 'v, 'kp) spec_map \<Rightarrow> ('k, 'v, 'kp) spec_map" where
  "spec_overwrite k v kp A =
     A\<lparr>hist := (hist A)(k := (fst (hd (hist A k)), v) # tl (hist A k)), props := (props A)(k \<mapsto> kp)\<rparr>"

lemma hm_rel_overwrite:
  assumes rel: "hm_rel m A" and k: "length (hist A k) \<ge> 2"
    and e: "btree m k = Some e" and r: "cells (records_memory_pool m) (head e) = Some r"
    and r': "touch_ss_id r' = touch_ss_id r" "previous r' = previous r"
  shows "initial e \<noteq> head e" and "cells (records_memory_pool m) (initial e) \<noteq> None"
    and "hm_rel (m\<lparr>records_memory_pool := (records_memory_pool m)
          \<lparr>cells := (cells (records_memory_pool m))(head e \<mapsto> r')\<rparr>,
          btree := (btree m)(k \<mapsto> e\<lparr>key_properties := kp\<rparr>)\<rparr>) (spec_overwrite k (val r') kp A)"
    (is "hm_rel ?m _")
proof -
  obtain L F where L: "hm_ok m L F" "hist A = hm_hist m L" using rel by (rule hm_relE)
  note ok = hm_okD(3) [OF L(1) e] and dis = hm_okD(4) [OF L(1), of k]
  have len: "length (L k) \<ge> 2" using k L(2) by (simp add: hm_hist_def)
  then obtain a b as where as: "L k = a # b # as" by (cases "L k"; cases "tl (L k)") auto
  have ha: "head e = a" "a \<notin> set (b # as)" "a \<notin> set F" "initial e = last (b # as)"
    using ok as element_ok_head [OF ok] dis by (auto simp: element_ok_def)
  show "initial e \<noteq> head e" using ha by (metis last_in_set list.distinct(1))
  show "cells (records_memory_pool m) (initial e) \<noteq> None"
    using element_ok_live [OF ok] ha(4) as by (metis last_in_set list.distinct(1) list.set_intros(2))
  let ?p = "records_memory_pool m"
  let ?p' = "?p\<lparr>cells := (cells ?p)(a \<mapsto> r')\<rparr>" and ?e = "e\<lparr>key_properties := kp\<rparr>"
  have p': "pool_ok ?p' F" using hm_okD(1) [OF L(1)] ha(3) r ha(1) by (auto simp: pool_ok_def)
  have e': "element_ok (cells ?p') ?e (L k)" using ok as ha r r' by (auto simp: element_ok_def)
  have L': "L(k := L k) = L" by simp
  have m: "?m = m\<lparr>records_memory_pool := ?p', btree := (btree m)(k \<mapsto> ?e)\<rparr>" using ha(1) by simp
  have ch: "hm_ok ?m L F \<and> hm_hist ?m L = (hm_hist m L)(k := map (entry_at (cells ?p')) (L k))"
    unfolding m by (rule hm_ok_change [OF L(1) p' e', of k, unfolded L']) (use as dis in auto)
  have "map (entry_at (cells ?p')) (L k) = (fst (hd (hist A k)), val r') # tl (hist A k)"
    using as ha r r' L(2) by (auto simp: hm_hist_def entry_at_def)
  then show "hm_rel ?m (spec_overwrite k (val r') kp A)"
    using ch L(2) hm_rel_fields(1-3) [OF rel] hm_rel_fields(4) [OF rel, symmetric]
    by (intro hm_relI [of _ L F]) (auto simp: spec_overwrite_def)
qed

lemma spec_overwrite_ends:
  assumes "length (hist A k) \<ge> 2"
  shows "length (hist (spec_overwrite k v kp A) j) = length (hist A j) \<and>
    (hist A j \<noteq> [] \<longrightarrow> last (hist (spec_overwrite k v kp A) j) = last (hist A j))"
  using assms by (cases "hist A k"; cases "tl (hist A k)") (auto simp: spec_overwrite_def)

lemma spec_wf_overwrite:
  assumes "spec_wf A" and "length (hist A k) \<ge> 2"
  shows "spec_wf (spec_overwrite k v kp A)"
proof -
  obtain x xs where xs: "hist A k = x # xs" using assms(2) by (cases "hist A k") auto
  have "key_wf n f ps k ((fst x, v) # xs) = key_wf n f ps k (x # xs)" for n f ps
    by (cases x) (auto simp: key_wf_def desc_def)
  then show ?thesis using assms(1) spec_wfD(3) [OF assms(1), of k] xs by (auto simp: spec_wf_def spec_overwrite_def)
qed

lemma pending_updated:
  assumes wf: "spec_wf A" and "(k, i) \<in> set (pend A)"
  shows "length (hist A k) \<ge> 2"
proof -
  have "frozen_id A < i" "i \<in> fst ` set (hist A k)" using spec_wfD(3) [OF wf, of k] assms(2) by (auto simp: key_wf_def)
  then show ?thesis using spec_wfD(4) [OF wf, of k] by (cases "hist A k"; cases "tl (hist A k)") (auto simp: desc_def)
qed

definition keeps_links :: "('k, 'v, 'kp, 'x) pending_fn \<Rightarrow> bool" where
  "keeps_links do_fn \<longleftrightarrow>
     (\<forall>k i r kp x. fst (do_fn k i ((r, kp), x)) \<noteq> Inl Panic \<and>
        touch_ss_id (fst (fst (snd (do_fn k i ((r, kp), x))))) = touch_ss_id r \<and>
        previous (fst (fst (snd (do_fn k i ((r, kp), x))))) = previous r)"

lemma wp_on_map [simp]:
  "wp (on_map f) Q E = (\<lambda>(m, x). wp f (\<lambda>y m. Q y (m, x)) (\<lambda>e m. E e (m, x)) m)"
  by (auto simp: on_map_def fun_eq_iff)

definition same_ends :: "('k, 'v, 'kp) spec_map \<Rightarrow> ('k, 'v, 'kp) history_map \<Rightarrow> bool" where
  "same_ends A m \<longleftrightarrow> (\<exists>A'. hm_rel m A' \<and> (\<forall>j. length (hist A' j) = length (hist A j) \<and>
     (hist A j \<noteq> [] \<longrightarrow> last (hist A' j) = last (hist A j))))"

lemma same_ends_trans:
  "(\<forall>j. length (hist B j) = length (hist A j) \<and> (hist A j \<noteq> [] \<longrightarrow> last (hist B j) = last (hist A j)))
   \<Longrightarrow> same_ends B m \<Longrightarrow> same_ends A m"
  unfolding same_ends_def by (metis length_0_conv)

lemma wp_apply_to_pending:
  assumes f: "keeps_links do_fn" and "hm_rel m A" and "\<And>k i. (k, i) \<in> set ps \<Longrightarrow> length (hist A k) \<ge> 2"
  shows "wp (apply_to_pending do_fn ps) (\<lambda>_ s. same_ends A (fst s)) (\<lambda>_ s. same_ends A (fst s)) (m, x)"
  using assms(2,3)
proof (induction ps arbitrary: m A x)
  case Nil
  then show ?case by (auto simp: same_ends_def)
next
  case (Cons kj ps)
  obtain k j where kj: "kj = (k, j)" by fastforce
  have k: "length (hist A k) \<ge> 2" using Cons.prems(2) [of k j] kj by simp
  then have "hist A k \<noteq> []" by auto
  then obtain L F e where L: "btree m k = Some e" "element_ok (cells (records_memory_pool m)) e (L k)" "L k \<noteq> []" "head e = hd (L k)"
    using hm_rel_getE [OF Cons.prems(1)] by metis
  then obtain r where r: "cells (records_memory_pool m) (head e) = Some r"
    using element_ok_live [of _ e "L k" "head e"] by auto
  note over = hm_rel_overwrite [OF Cons.prems(1) k L(1) r]
  obtain i where i: "cells (records_memory_pool m) (initial e) = Some i" using over(2) [OF refl refl] by blast
  obtain res r' kp x' where d: "do_fn k i ((r, key_properties e), x) = (res, (r', kp), x')" by (metis surj_pair)
  have keeps: "res \<noteq> Inl Panic" "touch_ss_id r' = touch_ss_id r" "previous r' = previous r"
    using f d by (metis fst_conv keeps_links_def snd_conv)+
  let ?m = "m\<lparr>records_memory_pool := (records_memory_pool m)\<lparr>cells := (cells (records_memory_pool m))(head e \<mapsto> r')\<rparr>,
          btree := (btree m)(k \<mapsto> e\<lparr>key_properties := kp\<rparr>)\<rparr>"
  obtain A' where A': "hm_rel ?m A'"
    "\<forall>j. length (hist A' j) = length (hist A j) \<and> (hist A j \<noteq> [] \<longrightarrow> last (hist A' j) = last (hist A j))"
    using over(3) [OF keeps(2,3)] spec_overwrite_ends [OF k] by blast
  have "wp (apply_to_pending do_fn ps) (\<lambda>_ s. same_ends A' (fst s)) (\<lambda>_ s. same_ends A' (fst s)) (?m, x')"
    using Cons.prems(2) A'(2) by (intro Cons.IH [OF A'(1)]) auto
  then have "wp (apply_to_pending do_fn ps) (\<lambda>_ s. same_ends A (fst s)) (\<lambda>_ s. same_ends A (fst s)) (?m, x')"
    by (rule wp_mono) (erule same_ends_trans [OF A'(2)])+
  moreover have "same_ends A ?m" using A' by (auto simp: same_ends_def)
  ultimately show ?case
    using L(1) r i d keeps(1) over(1) [OF refl refl] kj
    by (auto simp: wp_result_only split: sum.splits fault.splits)
qed

text \<open>C13: The walk that lets a callback rewrite the current record of every pending key
  while it reads the initial one never panics and never aliases the two records, as long
  as the callback leaves the links alone, and every initial value is kept.\<close>

theorem pending_walk_never_aliases:
  assumes "hm_reachable W m" and "keeps_links do_fn"
  shows "\<exists>res m' x'. apply_to_last_record_of_pending_changes do_fn (m, x) = (res, (m', x')) \<and> res \<noteq> Inl Panic \<and>
    (\<forall>k. btree m k \<noteq> None \<longrightarrow> fst (hm_initial k m') = fst (hm_initial k m))"
proof -
  obtain A where rel: "hm_rel m A" and wf: "spec_wf A"
    using hm_reachable_good [OF assms(1)] by (auto simp: hm_good_def)
  have "length (hist A k) \<ge> 2" if "(k, i) \<in> set (pend A)" for k i
    using pending_updated [OF wf that] .
  then have "wp (apply_to_last_record_of_pending_changes do_fn) (\<lambda>_ s. same_ends A (fst s)) (\<lambda>_ s. same_ends A (fst s)) (m, x)"
    using wp_apply_to_pending [OF assms(2) rel] hm_rel_fields(3) [OF rel]
    by (simp add: apply_to_last_record_of_pending_changes_def)
  moreover have "fst (hm_initial k m') = fst (hm_initial k m)" if se: "same_ends A m'" and kb: "btree m k \<noteq> None" for k m'
  proof -
    obtain A' where A': "hm_rel m' A'" "length (hist A' k) = length (hist A k)"
      "hist A k \<noteq> [] \<longrightarrow> last (hist A' k) = last (hist A k)" using se unfolding same_ends_def by blast
    have "hist A k \<noteq> []" using kb hm_rel_absent [OF rel] by simp
    moreover have "hist A' k \<noteq> []" using A'(2) calculation by auto
    ultimately show ?thesis using A'(3) by (simp add: hm_observe(2) [OF rel] hm_observe(2) [OF A'(1)])
  qed
  ultimately show ?thesis by (fastforce dest: wp_result)
qed

subsection \<open>A concrete map\<close>

text \<open>Key 1 is read as 10, a snapshot is taken, key 1 grows by 5 and key 2 is read as 20.\<close>

definition ex_map1 :: "(nat, nat, unit) history_map" where
  "ex_map1 = snd (hm_exec 32 (GetOrInsert 1 10 ()) hm_new)"

definition ex_map2 :: "(nat, nat, unit) history_map" where
  "ex_map2 = snd (hm_exec 32 Snapshot ex_map1)"

definition ex_map3 :: "(nat, nat, unit) history_map" where
  "ex_map3 = snd (hm_exec 32 (Update 1 (\<lambda>v. (Inr (), v + 5))) ex_map2)"

definition ex_map4 :: "(nat, nat, unit) history_map" where
  "ex_map4 = snd (hm_exec 32 (GetOrInsert 2 20 ()) ex_map3)"

lemmas hm_run_simps = and_then_def read_st_def modify_st_def ret_def throw_def panic_def
  assert_that_def expect_def on_part_def on_pool_def put_element_def hm_get_or_insert_def
  hm_get_mut_def hm_update_def hm_snapshot_def hm_rollback_def hm_set_key_properties_def
  element_new_def create_element_def box_new_def deref_def assign_def add_new_record_def
  hm_new_def pool_new_def usize_max_def Let_def

lemma ex_map1_eval: "ex_map1 = \<lparr>btree = [1 \<mapsto> \<lparr>key_properties = (), initial = 0, first = 0, head = 0\<rparr>],
    next_snapshot_id = 1, frozen_snapshot_id = 0, pending_updated_elements = [],
    records_memory_pool = \<lparr>pool_head = None, pool_last = None,
      cells = [0 \<mapsto> \<lparr>touch_ss_id = 0, val = 10, previous = None\<rparr>], brk = 1\<rparr>\<rparr>"
  by (simp add: ex_map1_def hm_run_simps)

lemma ex_map2_eval: "ex_map2 = ex_map1\<lparr>next_snapshot_id := 2\<rparr>"
  by (simp add: ex_map2_def ex_map1_eval hm_run_simps)

lemma ex_map3_eval: "ex_map3 = \<lparr>btree = [1 \<mapsto> \<lparr>key_properties = (), initial = 0, first = 1, head = 1\<rparr>],
    next_snapshot_id = 2, frozen_snapshot_id = 0, pending_updated_elements = [(1, 2)],
    records_memory_pool = \<lparr>pool_head = None, pool_last = None,
      cells = [0 \<mapsto> \<lparr>touch_ss_id = 0, val = 10, previous = None\<rparr>,
               1 \<mapsto> \<lparr>touch_ss_id = 2, val = 15, previous = Some 0\<rparr>], brk = 2\<rparr>\<rparr>"
  by (simp add: ex_map3_def ex_map2_eval ex_map1_eval hm_run_simps)

lemma ex_map4_eval: "ex_map4 = ex_map3\<lparr>btree := (btree ex_map3)(2 \<mapsto> \<lparr>key_properties = (), initial = 2, first = 2, head = 2\<rparr>),
    records_memory_pool := (records_memory_pool ex_map3)
      \<lparr>cells := (cells (records_memory_pool ex_map3))(2 \<mapsto> \<lparr>touch_ss_id = 0, val = 20, previous = None\<rparr>), brk := 3\<rparr>\<rparr>"
  by (simp add: ex_map4_def ex_map3_eval hm_run_simps)

lemmas ex_map_evals = ex_map1_eval ex_map2_eval ex_map3_eval ex_map4_eval

lemma ex_reach1: "hm_reachable 32 ex_map1"
  by (rule hm_reach_step [OF hm_reach_new _ _ ex_map1_def [symmetric]]) (simp_all add: hm_new_def usize_max_def)

lemma ex_reach2: "hm_reachable 32 ex_map2"
  by (rule hm_reach_step [OF ex_reach1 _ _ ex_map2_def [symmetric]]) (simp_all add: ex_map_evals usize_max_def)

lemma ex_reach3: "hm_reachable 32 ex_map3"
  by (rule hm_reach_step [OF ex_reach2 _ _ ex_map3_def [symmetric]]) (simp_all add: ex_map_evals usize_max_def)

lemma ex_reach4: "hm_reachable 32 ex_map4"
  by (rule hm_reach_step [OF ex_reach3 _ _ ex_map4_def [symmetric]]) (simp_all add: ex_map_evals usize_max_def)

lemma ex_since: "hm_since 32 1 ex_map2 ex_map4"
  by (rule hm_since_step [OF hm_since_step [OF hm_since_refl _ _ _ ex_map3_def [symmetric]] _ _ _ ex_map4_def [symmetric]])
     (simp_all add: ex_map_evals usize_max_def)

lemma ex_keys: "hm_keys ex_map4 = [1, 2]"
proof -
  have "dom (btree ex_map4) = {1, 2}" by (auto simp: ex_map_evals split: if_splits)
  then show ?thesis by (simp add: hm_keys_def)
qed

theorem hm_never_panics_witness: "fst (hm_exec 32 (Rollback 1) ex_map4) \<noteq> Inl Panic"
  by (rule hm_never_panics [OF ex_reach4]) (simp_all add: ex_map_evals usize_max_def)

theorem hm_rollback_restores_witness:
  "\<exists>m3. hm_rollback 1 ex_map4 = (Inr (), m3) \<and> fst (hm_current 1 ex_map4) = Inr 15 \<and>
     fst (hm_current 1 m3) = Inr 10 \<and> fst (hm_current 2 m3) = Inr 20"
proof -
  have "hm_snapshot 32 ex_map1 = (Inr 1, ex_map2)"
    by (simp add: hm_snapshot_def ex_map_evals hm_run_simps)
  from hm_rollback_restores [OF ex_reach1 this ex_since]
  obtain m3 where m3: "hm_rollback 1 ex_map4 = (Inr (), m3)"
    "\<forall>k. btree ex_map1 k \<noteq> None \<longrightarrow> fst (hm_current k m3) = fst (hm_current k ex_map1)"
    "\<forall>k. btree ex_map1 k = None \<and> btree ex_map4 k \<noteq> None \<longrightarrow> fst (hm_current k m3) = fst (hm_initial k ex_map4)"
    by blast
  have "fst (hm_current 1 m3) = Inr 10" "fst (hm_current 2 m3) = Inr 20"
    using m3(2,3) by (auto simp: ex_map_evals hm_current_def hm_initial_def hm_run_simps)
  moreover have "fst (hm_current 1 ex_map4) = Inr 15"
    by (simp add: ex_map_evals hm_current_def hm_run_simps)
  ultimately show ?thesis using m3(1) by blast
qed


theorem hm_update_then_read_witness:
  "\<exists>m'. hm_update 1 (\<lambda>v. (Inr (), 2 * v)) ex_map4 = (Inr () :: internal_error fault + unit, m') \<and>
     fst (hm_current 1 m') = Inr 30 \<and> fst (hm_current 2 m') = Inr 20"
proof -
  have pre: "btree ex_map4 1 \<noteq> None" "fst (hm_current 1 ex_map4) = Inr 15"
    by (simp_all add: ex_map_evals hm_current_def hm_run_simps)
  let ?f = "\<lambda>v :: nat. (Inr () :: internal_error fault + unit, 2 * v)"
  have "?f 15 = (Inr (), 30)" by simp
  from hm_update_then_read [where f = ?f, OF ex_reach4 pre this]
  obtain m' where m': "hm_update 1 (\<lambda>v. (Inr (), 2 * v)) ex_map4 = (Inr () :: internal_error fault + unit, m')"
    "fst (hm_current 1 m') = Inr 30"
    "\<forall>j. j \<noteq> 1 \<and> btree ex_map4 j \<noteq> None \<longrightarrow> fst (hm_current j m') = fst (hm_current j ex_map4)" by blast
  have "fst (hm_current 2 m') = Inr 20" using m'(3) by (auto simp: ex_map_evals hm_current_def hm_run_simps)
  then show ?thesis using m'(1,2) by blast
qed



theorem pending_walk_never_aliases_witness:
  "\<exists>m'. apply_to_last_record_of_pending_changes (\<lambda>k i ((r, kp), n). (Inr (), (r\<lparr>val := val r + val i\<rparr>, kp), n + 1)) (ex_map4, 0 :: nat)
     = (Inr (), (m', 1)) \<and> fst (hm_current 1 m') = Inr 25 \<and> fst (hm_initial 1 m') = Inr 10"
proof -
  let ?f = "\<lambda>(k :: nat) i ((r, kp :: unit), n). (Inr () :: internal_error fault + unit, (r\<lparr>val := val r + (val i :: nat)\<rparr>, kp), n + (1 :: nat))"
  have f: "keeps_links ?f" by (simp add: keeps_links_def)
  let ?m = "fst (snd (apply_to_last_record_of_pending_changes ?f (ex_map4, 0)))"
  have run: "apply_to_last_record_of_pending_changes ?f (ex_map4, 0) = (Inr (), (?m, 1))" "fst (hm_current 1 ?m) = Inr 25"
    by (simp_all add: apply_to_last_record_of_pending_changes_def on_map_def ex_map_evals hm_current_def hm_run_simps)
  obtain res m' x' where m': "apply_to_last_record_of_pending_changes ?f (ex_map4, 0) = (res, (m', x'))"
    "\<forall>k. btree ex_map4 k \<noteq> None \<longrightarrow> fst (hm_initial k m') = fst (hm_initial k ex_map4)"
    using pending_walk_never_aliases [OF ex_reach4 f] by blast
  have "fst (hm_initial 1 m') = Inr 10" using m'(2) by (auto simp: ex_map_evals hm_initial_def hm_run_simps)
  moreover have "m' = ?m" using m'(1) by simp
  ultimately show ?thesis using run by (intro exI [of _ ?m]) simp
qed

end
