(* ===== verification/Frame_Store.thy ===== *)
theory Frame_Store
  imports History_Map_Spec
begin

text \<open>
  The contract of everything that is rolled back when a call frame fails: the locale
  \<open>frame_store\<close>. A frame is opened by \<open>start_frame\<close>, which hands out a rollback handle, and
  closed by \<open>finish_frame\<close> with that handle (the frame failed) or without it. The contract is
  what the source's \<open>start_frame\<close>/\<open>finish_frame\<close> pairs promise; the caches, the event and log
  lists, the counters and the whole I/O subsystem provide it. Proved once here: whatever
  balanced sequence of writes and nested frames runs inside a frame, failing the frame
  brings back what was visible when it was opened.
\<close>

section \<open>The contract\<close>

locale frame_store =
  fixes frames :: "'s \<Rightarrow> ('i \<times> 'o) list \<Rightarrow> bool"
    and obs :: "'s \<Rightarrow> 'o"
    and ext :: "'o \<Rightarrow> 'o \<Rightarrow> bool"
    and room :: "'s \<Rightarrow> bool"
    and start_frame :: "('s, internal_error, 'i) rs"
    and finish_frame :: "'i option \<Rightarrow> ('s, internal_error, unit) rs"
    and step :: "'s \<Rightarrow> 's \<Rightarrow> bool"
  assumes ext_refl: "ext x x"
    and ext_trans: "ext x y \<Longrightarrow> ext y z \<Longrightarrow> ext x z"
    and start_ok: "frames s fs \<Longrightarrow> room s \<Longrightarrow> \<exists>i t. start_frame s = (Inr i, t)"
    and start_frames: "frames s fs \<Longrightarrow> start_frame s = (Inr i, t) \<Longrightarrow>
      frames t ((i, obs s) # fs) \<and> obs t = obs s"
    and keep_frame: "frames s (f # fs) \<Longrightarrow>
      \<exists>t. finish_frame None s = (Inr (), t) \<and> frames t fs \<and> obs t = obs s"
    and fail_frame: "frames s ((i, x) # fs) \<Longrightarrow>
      \<exists>t. finish_frame (Some i) s = (Inr (), t) \<and> frames t fs \<and> ext x (obs t)"
    and step_frames: "frames s fs \<Longrightarrow> step s t \<Longrightarrow> frames t fs"
begin

text \<open>Writes and completed inner frames, each kept or failed.\<close>

inductive balanced :: "'s \<Rightarrow> 's \<Rightarrow> bool" where
  bal_refl: "balanced s s"
| bal_step: "balanced s t \<Longrightarrow> step t u \<Longrightarrow> balanced s u"
| bal_call: "balanced s t \<Longrightarrow> start_frame t = (Inr i, u) \<Longrightarrow> balanced u v \<Longrightarrow>
    h = None \<or> h = Some i \<Longrightarrow> finish_frame h v = (Inr (), w) \<Longrightarrow> balanced s w"

lemma balanced_frames: "balanced s t \<Longrightarrow> frames s fs \<Longrightarrow> frames t fs"
proof (induction arbitrary: fs rule: balanced.induct)
  case (bal_step s t u)
  then show ?case using step_frames by blast
next
  case (bal_call s t i u v h w)
  then have "frames v ((i, obs t) # fs)" using start_frames by blast
  then show ?case using keep_frame fail_frame bal_call.hyps by (metis prod.inject)
qed

lemma failed_frame_restores:
  assumes "frames s fs" and "start_frame s = (Inr i, t)" and "balanced t u"
  shows "\<exists>w. finish_frame (Some i) u = (Inr (), w) \<and> frames w fs \<and> ext (obs s) (obs w)"
  using assms start_frames balanced_frames fail_frame by blast

lemma kept_frame_keeps:
  assumes "frames s fs" and "start_frame s = (Inr i, t)" and "balanced t u"
  shows "\<exists>w. finish_frame None u = (Inr (), w) \<and> frames w fs \<and> obs w = obs u"
  using assms start_frames balanced_frames keep_frame by blast

end

section \<open>The revertible map as a frame store\<close>

text \<open>What is visible in a map: the current value of every cached key.\<close>

definition hm_values :: "('k, 'v, 'kp) history_map \<Rightarrow> 'k \<rightharpoonup> 'v" where
  "hm_values m k =
     (case btree m k of
        None \<Rightarrow> None
      | Some e \<Rightarrow> map_option val (cells (records_memory_pool m) (head e)))"

text \<open>\<open>finish_frame\<close>: the shape it has in every cache built on the map.\<close>

definition hm_finish_frame ::
    "snapshot_id option \<Rightarrow> (('k, 'v, 'kp) history_map, internal_error, unit) rs" where
  "hm_finish_frame handle = (case handle of Some x \<Rightarrow> hm_rollback x | None \<Rightarrow> ret ())"

fun write_op :: "('k, 'v, 'kp) hm_op \<Rightarrow> bool" where
  "write_op (GetOrInsert _ _ _) \<longleftrightarrow> True"
| "write_op (Update _ _) \<longleftrightarrow> True"
| "write_op (KeyPropertiesMut _ _) \<longleftrightarrow> True"
| "write_op _ \<longleftrightarrow> False"

definition hm_write :: "('k, 'v, 'kp) history_map \<Rightarrow> ('k, 'v, 'kp) history_map \<Rightarrow> bool" where
  "hm_write m m' \<longleftrightarrow> (\<exists>op. callback_total op \<and> write_op op \<and> snd (hm_exec 0 op m) = m')"

definition spec_view :: "snapshot_id \<Rightarrow> ('k, 'v, 'kp) spec_map \<Rightarrow> 'k \<rightharpoonup> 'v" where
  "spec_view i A k = (case dropWhile (newer i) (hist A k) of [] \<Rightarrow> None | x # _ \<Rightarrow> Some (snd x))"

definition spec_values :: "('k, 'v, 'kp) spec_map \<Rightarrow> 'k \<rightharpoonup> 'v" where
  "spec_values A k = (case hist A k of [] \<Rightarrow> None | x # _ \<Rightarrow> Some (snd x))"

definition spec_frames ::
    "('k, 'v, 'kp) spec_map \<Rightarrow> (snapshot_id \<times> ('k \<rightharpoonup> 'v)) list \<Rightarrow> bool" where
  "spec_frames A fs \<longleftrightarrow>
     sorted_wrt (\<lambda>x y. fst y \<le> fst x) fs \<and>
     (\<forall>(i, x) \<in> set fs. frozen_id A \<le> i \<and> i < next_id A \<and> x \<subseteq>\<^sub>m spec_view i A)"

definition hm_frames ::
    "('k, 'v, 'kp) history_map \<Rightarrow> (snapshot_id \<times> ('k \<rightharpoonup> 'v)) list \<Rightarrow> bool" where
  "hm_frames m fs \<longleftrightarrow> (\<exists>A. hm_good m A \<and> spec_frames A fs)"

lemma hm_values_spec: "hm_rel m A \<Longrightarrow> hm_values m = spec_values A"
proof
  fix k assume rel: "hm_rel m A"
  show "hm_values m k = spec_values A k"
  proof (cases "hist A k")
    case Nil
    then show ?thesis using hm_rel_absent [OF rel, of k] by (simp add: hm_values_def spec_values_def)
  next
    case (Cons x xs)
    then have ne: "hist A k \<noteq> []" by simp
    obtain L F e where L: "hist A = hm_hist m L" "btree m k = Some e" "L k \<noteq> []" "head e = hd (L k)"
      "element_ok (cells (records_memory_pool m)) e (L k)"
      using hm_rel_getE [OF rel ne] by metis
    then obtain r where "cells (records_memory_pool m) (head e) = Some r"
      using element_ok_live [OF L(5), of "head e"] by auto
    then show ?thesis
      using L by (cases "L k") (auto simp: hm_values_def spec_values_def hm_hist_def entry_at_def)
  qed
qed

lemma spec_view_exec:
  assumes wf: "spec_wf A" and op: "write_op op" and i: "i < next_id A"
  shows "spec_view i A \<subseteq>\<^sub>m spec_view i (spec_exec op A)"
proof (cases op)
  case (GetOrInsert k v kp)
  then show ?thesis by (auto simp: map_le_def spec_view_def spec_insert_def dom_def)
next
  case (Update k f)
  have "spec_view i (spec_write k v A) = spec_view i A" if "hist A k \<noteq> []" for v
    using dropWhile_write [OF i that] by (simp add: spec_view_def fun_eq_iff)
  with Update show ?thesis by (auto split: prod.splits)
qed (use op in \<open>auto simp: map_le_def spec_view_def spec_set_props_def\<close>)

lemma spec_exec_ids:
  assumes "write_op op"
  shows "next_id (spec_exec op A) = next_id A" and "frozen_id (spec_exec op A) = frozen_id A"
  using assms by (cases op; auto simp: spec_insert_def spec_write_def spec_set_props_def split: prod.splits)+

lemma hm_exec_width: "write_op op \<Longrightarrow> hm_exec W op = hm_exec W' op"
  by (cases op) simp_all

lemma hm_write_good:
  assumes "hm_good m A" and "hm_write m m'"
  obtains op where "write_op op" "hm_good m' (spec_exec op A)"
proof -
  obtain op where op: "callback_total op" "write_op op" "snd (hm_exec 0 op m) = m'"
    using assms(2) by (auto simp: hm_write_def)
  let ?W = "Suc (next_snapshot_id m)"
  have "next_snapshot_id m < usize_max ?W"
  proof -
    have "next_snapshot_id m + 1 < 2 ^ ?W" using less_exp [of ?W] by simp
    then show ?thesis by (simp add: usize_max_def)
  qed
  from hm_exec_good [OF assms(1) op(1) this] have "hm_good m' (spec_exec op A)"
    using op(3) hm_exec_width [OF op(2)] by metis
  with op(2) that show thesis by blast
qed

lemma spec_frames_step:
  assumes "spec_frames A fs" and "spec_wf A" and "write_op op"
  shows "spec_frames (spec_exec op A) fs"
  using assms spec_view_exec [OF assms(2,3)]
  by (fastforce simp: spec_frames_def spec_exec_ids [OF assms(3)] intro: map_le_trans)

lemma spec_frames_start:
  assumes "spec_frames A fs" and "spec_wf A"
  shows "spec_frames (spec_snapshot A) ((next_id A, spec_values A) # fs)"
proof -
  have "dropWhile (newer (next_id A)) (hist A k) = hist A k" for k
    using spec_wfD(1) [OF assms(2)] spec_wfD(3) [OF assms(2), of k]
    by (intro dropWhile_unless_pending [OF assms(2)]) (auto simp: key_wf_def)
  then have "spec_view (next_id A) (spec_snapshot A) = spec_values A"
    by (simp add: spec_view_def spec_values_def spec_snapshot_def fun_eq_iff)
  moreover have "spec_view i (spec_snapshot A) = spec_view i A" for i
    by (simp add: spec_view_def spec_snapshot_def fun_eq_iff)
  ultimately show ?thesis
    using assms(1) spec_wfD(1) [OF assms(2)] by (force simp: spec_frames_def spec_snapshot_def)
qed

lemma spec_frames_rollback:
  assumes "spec_frames A ((i, x) # fs)"
  shows "spec_frames (spec_rollback i A) fs" and "x \<subseteq>\<^sub>m spec_values (spec_rollback i A)"
proof -
  have "spec_view j (spec_rollback i A) = spec_view j A" if "j \<le> i" for j
    using that by (simp add: spec_view_def spec_rollback_def dropWhile_dropWhile_newer fun_eq_iff)
  then show "spec_frames (spec_rollback i A) fs"
    using assms by (fastforce simp: spec_frames_def spec_rollback_def)
  have "spec_values (spec_rollback i A) = spec_view i A"
    by (simp add: spec_values_def spec_view_def spec_rollback_def fun_eq_iff)
  then show "x \<subseteq>\<^sub>m spec_values (spec_rollback i A)" using assms by (simp add: spec_frames_def)
qed

interpretation hm: frame_store hm_frames hm_values "(\<subseteq>\<^sub>m)" "\<lambda>m. next_snapshot_id m < usize_max W"
    "hm_snapshot W" hm_finish_frame hm_write
proof
  fix m m' :: "('k, 'v, 'kp) history_map" and fs f i x
  show "\<exists>i t. hm_snapshot W m = (Inr i, t)" if "hm_frames m fs" "next_snapshot_id m < usize_max W"
    using that by (simp add: hm_snapshot_def hm_run_simps)
  show "hm_frames m' ((i, hm_values m) # fs) \<and> hm_values m' = hm_values m"
    if fr: "hm_frames m fs" and sn: "hm_snapshot W m = (Inr i, m')"
  proof -
    obtain A where A: "hm_good m A" "spec_frames A fs" using fr by (auto simp: hm_frames_def)
    note snap = snapshot_res [OF sn A(1)]
    have wf: "spec_wf A" and rel: "hm_rel m A" using A(1) by (auto simp: hm_good_def)
    have "hm_values m' = hm_values m"
      using hm_values_spec [OF rel] hm_values_spec [OF snap(2)]
      by (simp add: spec_values_def spec_snapshot_def fun_eq_iff)
    moreover have "hm_good m' (spec_snapshot A)" using snap(2) spec_wf_snapshot [OF wf] by (simp add: hm_good_def)
    ultimately show ?thesis
      using spec_frames_start [OF A(2) wf] snap(1) hm_values_spec [OF rel] by (auto simp: hm_frames_def)
  qed
  show "\<exists>t. hm_finish_frame None m = (Inr (), t) \<and> hm_frames t fs \<and> hm_values t = hm_values m"
    if "hm_frames m (f # fs)"
    using that by (auto simp: hm_finish_frame_def ret_def hm_frames_def spec_frames_def)
  show "\<exists>t. hm_finish_frame (Some i) m = (Inr (), t) \<and> hm_frames t fs \<and> x \<subseteq>\<^sub>m hm_values t"
    if fr: "hm_frames m ((i, x) # fs)"
  proof -
    obtain A where A: "hm_good m A" "spec_frames A ((i, x) # fs)" using fr by (auto simp: hm_frames_def)
    then have wf: "spec_wf A" and rel: "hm_rel m A" and i: "frozen_id A \<le> i" "i < next_id A"
      by (auto simp: hm_good_def spec_frames_def)
    have "wp (hm_rollback i) (\<lambda>_ m'. hm_rel m' (spec_rollback i A)) (\<lambda>_ _. False) m"
      using i by (intro wp_hm_rollback [OF rel wf]) auto
    from wp_total [OF this] obtain t where t: "hm_rollback i m = (Inr (), t)" "hm_rel t (spec_rollback i A)" by auto
    then show ?thesis
      using spec_frames_rollback [OF A(2)] spec_wf_rollback [OF wf i(1)] hm_values_spec [OF t(2)]
      by (auto simp: hm_finish_frame_def hm_frames_def hm_good_def)
  qed
  show "hm_frames m' fs" if "hm_frames m fs" "hm_write m m'"
    using that hm_write_good spec_frames_step by (metis hm_frames_def hm_good_def)
qed (auto intro: map_le_trans)

lemma hm_frames_new: "hm_frames hm_new []"
  using hm_rel_new spec_wf_new by (auto simp: hm_frames_def hm_good_def spec_frames_def)

end
