(* ===== verification/Bytes.thy ===== *)
theory Bytes
  imports Zk_Prelude
begin

text \<open>
  Byte strings and the big-endian conversions of the integer types (\<open>to_be_bytes\<close>,
  \<open>from_be_bytes\<close>, \<open>Bytes32::into_u256_be\<close>, \<open>bit_len\<close>), with their round trips.
\<close>

type_synonym bytes = "u8 list"

fun le_bytes :: "nat \<Rightarrow> nat \<Rightarrow> bytes" where
  "le_bytes 0 x = []"
| "le_bytes (Suc n) x = word_of_nat (x mod 256) # le_bytes n (x div 256)"

fun le_nat :: "bytes \<Rightarrow> nat" where
  "le_nat [] = 0"
| "le_nat (b # bs) = unat b + 256 * le_nat bs"

definition be_bytes :: "nat \<Rightarrow> nat \<Rightarrow> bytes" where
  "be_bytes n x = rev (le_bytes n x)"

definition be_nat :: "bytes \<Rightarrow> nat" where
  "be_nat bs = le_nat (rev bs)"

definition to_be_bytes :: "'a::len word \<Rightarrow> bytes" where
  "to_be_bytes w = be_bytes (LENGTH('a) div 8) (unat w)"

definition from_be_bytes :: "bytes \<Rightarrow> 'a::len word" where
  "from_be_bytes bs = word_of_nat (be_nat bs)"

fun bit_len_nat :: "nat \<Rightarrow> nat" where
  "bit_len_nat x = (if x = 0 then 0 else Suc (bit_len_nat (x div 2)))"

declare bit_len_nat.simps [simp del]

definition bit_len :: "'a::len word \<Rightarrow> nat" where
  "bit_len w = bit_len_nat (unat w)"

text \<open>\<open>bit_len().next_multiple_of(8) / 8\<close>.\<close>

definition byte_len :: "'a::len word \<Rightarrow> nat" where
  "byte_len w = next_multiple_of (bit_len w) 8 div 8"

section \<open>Round trips\<close>

lemma length_le_bytes [simp]: "length (le_bytes n x) = n"
  by (induction n arbitrary: x) auto

lemma length_be_bytes [simp]: "length (be_bytes n x) = n"
  by (simp add: be_bytes_def)

lemma length_to_be_bytes [simp]: "length (to_be_bytes (w :: 'a::len word)) = LENGTH('a) div 8"
  by (simp add: to_be_bytes_def)

lemma unat_word_of_nat: "n < 2 ^ LENGTH('a) \<Longrightarrow> unat (word_of_nat n :: 'a::len word) = n"
  by (simp add: unat_of_nat)

lemma unat_byte: "unat (word_of_nat (x mod 256) :: u8) = x mod 256"
  by (simp add: unat_of_nat)

lemma le_nat_le_bytes: "le_nat (le_bytes n x) = x mod 256 ^ n"
proof (induction n arbitrary: x)
  case (Suc n)
  have "x mod 256 ^ Suc n = 256 * (x div 256 mod 256 ^ n) + x mod 256"
    by (metis mod_mult2_eq power_Suc)
  with Suc show ?case by (simp add: unat_byte)
qed simp

lemma be_nat_be_bytes: "be_nat (be_bytes n x) = x mod 256 ^ n"
  by (simp add: be_nat_def be_bytes_def le_nat_le_bytes)

lemma le_nat_bound: "le_nat bs < 256 ^ length bs"
proof (induction bs)
  case (Cons b bs)
  have "unat b < 256" using unat_lt [of b] by simp
  with Cons show ?case by simp
qed simp

lemma be_nat_bound: "be_nat bs < 256 ^ length bs"
  using le_nat_bound [of "rev bs"] by (simp add: be_nat_def)

lemma le_bytes_le_nat: "le_bytes (length bs) (le_nat bs) = bs"
proof (induction bs)
  case (Cons b bs)
  have b: "unat b < 256" using unat_lt [of b] by simp
  then have "(unat b + 256 * le_nat bs) mod 256 = unat b" "(unat b + 256 * le_nat bs) div 256 = le_nat bs"
    by (simp_all add: mod_less)
  with Cons show ?case by simp
qed simp

lemma be_bytes_be_nat: "be_bytes (length bs) (be_nat bs) = bs"
  using le_bytes_le_nat [of "rev bs"] by (simp add: be_bytes_def be_nat_def)

lemma pow_256: "8 dvd n \<Longrightarrow> (256 :: nat) ^ (n div 8) = 2 ^ n"
proof -
  assume n: "8 dvd n"
  have "(256 :: nat) ^ (n div 8) = (2 ^ 8) ^ (n div 8)" by simp
  also have "\<dots> = 2 ^ n" using n by (simp only: power_mult [symmetric] dvd_mult_div_cancel)
  finally show ?thesis .
qed

lemma from_to_be_bytes:
  fixes w :: "'a::len word"
  assumes "8 dvd LENGTH('a)"
  shows "from_be_bytes (to_be_bytes w) = w"
  by (simp add: from_be_bytes_def to_be_bytes_def be_nat_be_bytes pow_256 [OF assms])

lemma to_be_bytes_inj:
  fixes a b :: "'a::len word"
  assumes "8 dvd LENGTH('a)"
  shows "to_be_bytes a = to_be_bytes b \<longleftrightarrow> a = b"
  using assms by (metis from_to_be_bytes)

lemma from_to_be_bytes_256 [simp]: "from_be_bytes (to_be_bytes (w :: u256)) = w"
  by (rule from_to_be_bytes) simp

lemma to_from_be_bytes:
  assumes "length bs = LENGTH('a::len) div 8" and "8 dvd LENGTH('a)"
  shows "to_be_bytes (from_be_bytes bs :: 'a word) = bs"
proof -
  have "unat (from_be_bytes bs :: 'a word) = be_nat bs"
    using be_nat_bound [of bs] assms(1) pow_256 [OF assms(2)] by (simp add: from_be_bytes_def unat_of_nat)
  then show ?thesis using be_bytes_be_nat [of bs] assms(1) by (simp add: to_be_bytes_def)
qed

section \<open>Bit and byte lengths\<close>

lemma bit_len_nat_0 [simp]: "bit_len_nat 0 = 0"
  by (simp add: bit_len_nat.simps)

lemma bit_len_nat_le: "bit_len_nat x \<le> n \<longleftrightarrow> x < 2 ^ n"
proof (induction x arbitrary: n rule: bit_len_nat.induct)
  case (1 x)
  show ?case
  proof (cases "x = 0")
    case False
    show ?thesis
    proof (cases n)
      case (Suc m)
      have "bit_len_nat x \<le> n \<longleftrightarrow> bit_len_nat (x div 2) \<le> m"
        using False Suc by (subst bit_len_nat.simps) simp
      also have "\<dots> \<longleftrightarrow> x div 2 < 2 ^ m" using 1 False by blast
      also have "\<dots> \<longleftrightarrow> x < 2 ^ n" using Suc by (simp add: div_less_iff_less_mult mult.commute)
      finally show ?thesis .
    qed (use False in \<open>simp add: bit_len_nat.simps [of x]\<close>)
  qed simp
qed

lemma byte_len_le: "byte_len w \<le> n \<longleftrightarrow> unat w < 256 ^ n"
proof -
  let ?b = "bit_len w"
  have dvd: "8 dvd next_multiple_of ?b 8" by (simp add: next_multiple_of_dvd)
  have "byte_len w \<le> n \<longleftrightarrow> next_multiple_of ?b 8 \<le> 8 * n"
    using dvd by (auto simp: byte_len_def)
  also have "\<dots> \<longleftrightarrow> ?b \<le> 8 * n"
    using next_multiple_of_ge [of ?b 8] next_multiple_of_least [of 8 "8 * n" ?b] by auto
  also have "\<dots> \<longleftrightarrow> unat w < 256 ^ n" by (simp add: bit_len_def bit_len_nat_le power_mult)
  finally show ?thesis .
qed

lemma byte_len_256: "byte_len (w :: u256) \<le> 32"
  using unat_lt [of w] by (simp add: byte_len_le)

text \<open>The low bytes of a number that fits in them are its big-endian form.\<close>

lemma drop_be_bytes:
  assumes "k \<le> n" and "x < 256 ^ k"
  shows "drop (n - k) (be_bytes n x) = be_bytes k x"
proof -
  have "take k (le_bytes n x) = le_bytes k x"
    using assms(1)
  proof (induction k arbitrary: n x)
    case (Suc k)
    then show ?case by (cases n) auto
  qed simp
  then show ?thesis using assms(1) by (simp add: be_bytes_def drop_rev)
qed

end
