(* ===== verification/Pubdata_Compression.thy ===== *)
theory Pubdata_Compression
  imports Bytes
begin

text \<open>
  Compression of 32-byte value diffs for data availability,
  \<^verbatim>\<open>zk_ee/src/common_structs/pubdata_compression.rs\<close>. A hasher and the result keeper are
  the bytes they were given. The decoder is the reading of the format that the module
  comment describes; it is what an observer of the published data does.
\<close>

datatype value_diff_compression_strategy = Nothing | Add | Sub | Transform

text \<open>The bytes given to the hasher and to the result keeper.\<close>

record pubdata_sink =
  hashed :: bytes
  published :: bytes

definition emit :: "bytes \<Rightarrow> pubdata_sink \<Rightarrow> pubdata_sink" where
  "emit bs out = out\<lparr>hashed := hashed out @ bs, published := published out @ bs\<rparr>"

fun compression_length :: "value_diff_compression_strategy \<Rightarrow> u256 \<Rightarrow> u256 \<Rightarrow> u8 option" where
  "compression_length Nothing initial_value final_value = Some 33"
| "compression_length Add initial_value final_value =
     (let (result, ov) = overflowing_sub final_value initial_value;
          len = word_of_nat (byte_len result)
      in if ov \<or> len = 32 then None else Some (len + 1))"
| "compression_length Sub initial_value final_value =
     (let (result, ov) = overflowing_sub initial_value final_value;
          len = word_of_nat (byte_len result)
      in if ov \<or> len = 32 then None else Some (len + 1))"
| "compression_length Transform initial_value final_value =
     (let len = word_of_nat (byte_len final_value)
      in if len = 32 then None else Some (len + 1))"

text \<open>\<open>&value.to_be_bytes::<32>()[32usize - length as usize..]\<close>.\<close>

definition low_bytes :: "u8 \<Rightarrow> u256 \<Rightarrow> bytes" where
  "low_bytes len v = drop (32 - unat len) (to_be_bytes v)"

fun compress :: "value_diff_compression_strategy \<Rightarrow> u256 \<Rightarrow> u256 \<Rightarrow> (pubdata_sink, unit, unit) rs" where
  "compress Nothing initial_value final_value =
     modify_st (\<lambda>out. emit (to_be_bytes final_value) (emit [0] out))"
| "compress Add initial_value final_value =
     (let (result, ov) = overflowing_sub final_value initial_value;
          len = word_of_nat (byte_len result)
      in if ov \<or> len = 32 then throw ()
         else modify_st (\<lambda>out. emit (low_bytes len result) (emit [push_bit 3 len OR 1] out)))"
| "compress Sub initial_value final_value =
     (let (result, ov) = overflowing_sub initial_value final_value;
          len = word_of_nat (byte_len result)
      in if ov \<or> len = 32 then throw ()
         else modify_st (\<lambda>out. emit (low_bytes len result) (emit [push_bit 3 len OR 2] out)))"
| "compress Transform initial_value final_value =
     (let len = word_of_nat (byte_len final_value)
      in if len = 32 then throw ()
         else modify_st (\<lambda>out. emit (low_bytes len final_value) (emit [push_bit 3 len OR 3] out)))"

definition optimal_compression_length_u256 :: "u256 \<Rightarrow> u256 \<Rightarrow> u8" where
  "optimal_compression_length_u256 initial_value final_value =
     fold (\<lambda>strategy optimal.
         case compression_length strategy initial_value final_value of
           Some len \<Rightarrow> min optimal len
         | None \<Rightarrow> optimal)
       [Add, Sub, Transform] (the (compression_length Nothing initial_value final_value))"

definition optimal_compression_length :: "bytes \<Rightarrow> bytes \<Rightarrow> u8" where
  "optimal_compression_length initial_value final_value =
     optimal_compression_length_u256 (from_be_bytes initial_value) (from_be_bytes final_value)"

definition optimal_strategy :: "u256 \<Rightarrow> u256 \<Rightarrow> value_diff_compression_strategy \<times> u8" where
  "optimal_strategy initial_value final_value =
     fold (\<lambda>strategy (optimal_strategy, optimal_length).
         case compression_length strategy initial_value final_value of
           Some len \<Rightarrow>
             if len < optimal_length then (strategy, len) else (optimal_strategy, optimal_length)
         | None \<Rightarrow> (optimal_strategy, optimal_length))
       [Add, Sub, Transform] (Nothing, the (compression_length Nothing initial_value final_value))"

text \<open>The final \<open>unwrap()\<close> is the only way to panic.\<close>

definition optimal_compression_u256 :: "u256 \<Rightarrow> u256 \<Rightarrow> (pubdata_sink, unit, unit) rs" where
  "optimal_compression_u256 initial_value final_value out =
     (case compress (fst (optimal_strategy initial_value final_value)) initial_value final_value out of
        (Inr x, out) \<Rightarrow> (Inr x, out)
      | (Inl _, out) \<Rightarrow> (Inl Panic, out))"

definition optimal_compression :: "bytes \<Rightarrow> bytes \<Rightarrow> (pubdata_sink, unit, unit) rs" where
  "optimal_compression initial_value final_value =
     optimal_compression_u256 (from_be_bytes initial_value) (from_be_bytes final_value)"

section \<open>Reading the format\<close>

text \<open>
  The low three bits of the metadata byte give the type (0 \<open>Nothing\<close>, 1 \<open>Add\<close>, 2 \<open>Sub\<close>,
  3 \<open>Transform\<close>) and the upper five the number of bytes that follow; the rest of the
  stream is returned.
\<close>

definition decompress :: "u256 \<Rightarrow> bytes \<Rightarrow> (u256 \<times> bytes) option" where
  "decompress initial_value bs =
     (case bs of
        [] \<Rightarrow> None
      | m # rest \<Rightarrow>
          (let kind = unat m mod 8; len = (if kind = 0 then 32 else unat m div 8);
               v = from_be_bytes (take len rest)
           in if length rest < len \<or> 3 < kind then None
              else Some (if kind = 1 then initial_value + v else if kind = 2 then initial_value - v else v,
                         drop len rest)))"

section \<open>Properties\<close>

lemma compression_length_iff:
  "compression_length s i f = None \<longleftrightarrow> (\<exists>out'. compress s i f out = (Inl (Err ()), out'))"
  by (cases s) (auto simp: Let_def throw_def modify_st_def split: prod.splits if_splits)

text \<open>The metadata byte as a number.\<close>

lemma unat_metadata:
  assumes "n \<le> 31" and "t < 8"
  shows "unat (push_bit 3 (word_of_nat n :: u8) OR word_of_nat t) = 8 * n + t"
proof -
  have "unat (push_bit 3 (word_of_nat n :: u8)) = 8 * n"
    using assms(1) by (simp add: push_bit_eq_mult unat_word_ariths unat_of_nat)
  moreover have "unat (word_of_nat t :: u8) = t" using assms(2) by (simp add: unat_of_nat)
  moreover have "8 * n OR t = 8 * n + t"
  proof -
    have "push_bit 3 n OR take_bit 3 t = push_bit 3 n + take_bit 3 t"
      by (rule disjunctive_add [symmetric])
         (auto simp: bit_simps)
    then show ?thesis using assms(2) by (simp add: push_bit_eq_mult take_bit_eq_mod mult.commute)
  qed
  ultimately show ?thesis by (simp add: unsigned_or_eq)
qed

lemma byte_len_eq_32: "word_of_nat (byte_len v) = (32 :: u8) \<longleftrightarrow> byte_len (v :: u256) = 32"
proof
  assume "word_of_nat (byte_len v) = (32 :: u8)"
  then have "unat (word_of_nat (byte_len v) :: u8) = unat (32 :: u8)" by simp
  then show "byte_len v = 32" using byte_len_256 [of v] by (simp add: unat_of_nat)
qed simp

lemma low_bytes_chunk:
  fixes v :: u256
  shows "low_bytes (word_of_nat (byte_len v)) v = be_bytes (byte_len v) (unat v)"
    and "from_be_bytes (be_bytes (byte_len v) (unat v)) = v"
proof -
  have v: "unat v < 256 ^ byte_len v" using byte_len_le [of v] by blast
  then show "low_bytes (word_of_nat (byte_len v)) v = be_bytes (byte_len v) (unat v)"
    using byte_len_256 [of v] by (simp add: low_bytes_def to_be_bytes_def unat_of_nat drop_be_bytes)
  show "from_be_bytes (be_bytes (byte_len v) (unat v)) = v"
    using v by (simp add: from_be_bytes_def be_nat_be_bytes)
qed

lemma decompress_chunk:
  fixes v :: u256
  assumes "unat m = 8 * byte_len v + t" and "t \<in> {1, 2, 3}"
  shows "decompress i (m # low_bytes (word_of_nat (byte_len v)) v @ rest) =
    Some (if t = 1 then i + v else if t = 2 then i - v else v, rest)"
proof -
  have "(8 * byte_len v + t) mod 8 = t" "(8 * byte_len v + t) div 8 = byte_len v" using assms(2) by auto
  then show ?thesis
    using assms(2) by (simp add: decompress_def assms(1) low_bytes_chunk Let_def) fastforce
qed

lemma metadata_byte:
  fixes v :: u256
  assumes "byte_len v \<noteq> 32"
  shows "unat (push_bit 3 (word_of_nat (byte_len v) :: u8) OR 1) = 8 * byte_len v + 1"
    and "unat (push_bit 3 (word_of_nat (byte_len v) :: u8) OR 2) = 8 * byte_len v + 2"
    and "unat (push_bit 3 (word_of_nat (byte_len v) :: u8) OR 3) = 8 * byte_len v + 3"
proof -
  have "byte_len v \<le> 31" using assms byte_len_256 [of v] by linarith
  then show "unat (push_bit 3 (word_of_nat (byte_len v) :: u8) OR 1) = 8 * byte_len v + 1"
    and "unat (push_bit 3 (word_of_nat (byte_len v) :: u8) OR 2) = 8 * byte_len v + 2"
    and "unat (push_bit 3 (word_of_nat (byte_len v) :: u8) OR 3) = 8 * byte_len v + 3"
    using unat_metadata [of "byte_len v" 1] unat_metadata [of "byte_len v" 2] unat_metadata [of "byte_len v" 3]
    by simp_all
qed

text \<open>What a successful compression emits, and that it reads back.\<close>

lemma compress_ok:
  assumes "compression_length s i f = Some l"
  obtains m chunk where "\<And>out. compress s i f out = (Inr (), emit chunk (emit [m] out))"
    "unat l = Suc (length chunk)" "\<And>rest. decompress i (m # chunk @ rest) = Some (f, rest)"
proof (cases s)
  case Nothing
  show ?thesis
    by (rule that [of "to_be_bytes f" 0])
       (use assms Nothing in \<open>auto simp: modify_st_def decompress_def Let_def\<close>)
next
  case Add
  then have ov: "i \<le> f" "byte_len (f - i) \<noteq> 32" and l: "l = word_of_nat (byte_len (f - i)) + 1"
    using assms by (auto simp: overflowing_sub_def Let_def byte_len_eq_32 split: if_splits)
  have "unat l = Suc (byte_len (f - i))"
    using byte_len_256 [of "f - i"] ov(2) by (simp add: l unat_word_ariths unat_of_nat)
  then show ?thesis
    using decompress_chunk [OF metadata_byte(1) [OF ov(2)], of i] ov Add
    by (intro that [of "low_bytes (word_of_nat (byte_len (f - i))) (f - i)" "push_bit 3 (word_of_nat (byte_len (f - i))) OR 1"])
       (auto simp: modify_st_def overflowing_sub_def Let_def byte_len_eq_32 low_bytes_chunk)
next
  case Sub
  then have ov: "f \<le> i" "byte_len (i - f) \<noteq> 32" and l: "l = word_of_nat (byte_len (i - f)) + 1"
    using assms by (auto simp: overflowing_sub_def Let_def byte_len_eq_32 split: if_splits)
  have "unat l = Suc (byte_len (i - f))"
    using byte_len_256 [of "i - f"] ov(2) by (simp add: l unat_word_ariths unat_of_nat)
  then show ?thesis
    using decompress_chunk [OF metadata_byte(2) [OF ov(2)], of i] ov Sub
    by (intro that [of "low_bytes (word_of_nat (byte_len (i - f))) (i - f)" "push_bit 3 (word_of_nat (byte_len (i - f))) OR 2"])
       (auto simp: modify_st_def overflowing_sub_def Let_def byte_len_eq_32 low_bytes_chunk)
next
  case Transform
  then have ov: "byte_len f \<noteq> 32" and l: "l = word_of_nat (byte_len f) + 1"
    using assms by (auto simp: Let_def byte_len_eq_32 split: if_splits)
  have "unat l = Suc (byte_len f)"
    using byte_len_256 [of f] ov by (simp add: l unat_word_ariths unat_of_nat)
  then show ?thesis
    using decompress_chunk [OF metadata_byte(3) [OF ov], of i] ov Transform
    by (intro that [of "low_bytes (word_of_nat (byte_len f)) f" "push_bit 3 (word_of_nat (byte_len f)) OR 3"])
       (auto simp: modify_st_def Let_def byte_len_eq_32 low_bytes_chunk)
qed

text \<open>Both searches run over the same list; one keeps the strategy, the other the length.\<close>

lemma search_length:
  fixes g :: "'s \<Rightarrow> 'l::linorder option"
  shows "snd (fold (\<lambda>s (best, l). case g s of Some x \<Rightarrow> if x < l then (s, x) else (best, l) | None \<Rightarrow> (best, l)) ss (b, l)) =
    fold (\<lambda>s l. case g s of Some x \<Rightarrow> min l x | None \<Rightarrow> l) ss l"
  by (induction ss arbitrary: b l) (auto simp: min_def split: option.splits)

lemma search_applicable:
  fixes g :: "'s \<Rightarrow> 'l::linorder option"
  assumes "g b = Some l"
    and "fold (\<lambda>s (best, l). case g s of Some x \<Rightarrow> if x < l then (s, x) else (best, l) | None \<Rightarrow> (best, l)) ss (b, l) = (b', l')"
  shows "g b' = Some l'"
  using assms by (induction ss arbitrary: b l) (auto split: option.splits if_splits)

lemma search_least:
  fixes g :: "'s \<Rightarrow> 'l::linorder option"
  shows "fold (\<lambda>s l. case g s of Some x \<Rightarrow> min l x | None \<Rightarrow> l) ss l \<le> l"
    and "s \<in> set ss \<Longrightarrow> g s = Some x \<Longrightarrow> fold (\<lambda>s l. case g s of Some x \<Rightarrow> min l x | None \<Rightarrow> l) ss l \<le> x"
proof -
  show le: "fold (\<lambda>s l. case g s of Some x \<Rightarrow> min l x | None \<Rightarrow> l) ss l \<le> l" for ss l
  proof (induction ss arbitrary: l)
    case (Cons a ss)
    then show ?case by (cases "g a") (auto intro: order.trans [OF Cons])
  qed simp
  show "s \<in> set ss \<Longrightarrow> g s = Some x \<Longrightarrow> fold (\<lambda>s l. case g s of Some x \<Rightarrow> min l x | None \<Rightarrow> l) ss l \<le> x"
    by (induction ss arbitrary: l) (auto intro: order.trans [OF le])
qed

lemma optimal_strategy_applicable:
  "compression_length (fst (optimal_strategy i f)) i f = Some (snd (optimal_strategy i f))"
  by (rule search_applicable [where g = "\<lambda>s. compression_length s i f" and b = Nothing and l = 33])
     (simp_all only: compression_length.simps(1) optimal_strategy_def option.sel prod.collapse)

lemma optimal_strategy_length: "snd (optimal_strategy i f) = optimal_compression_length_u256 i f"
  unfolding optimal_strategy_def optimal_compression_length_u256_def by (rule search_length)

lemma optimal_is_least:
  assumes "compression_length s i f = Some l"
  shows "optimal_compression_length_u256 i f \<le> l"
proof (cases "s = Nothing")
  case True
  with assms have "l = 33" by simp
  then show ?thesis
    unfolding optimal_compression_length_u256_def compression_length.simps(1) option.sel
    by (simp only: search_least(1))
next
  case False
  then have "s \<in> set [Add, Sub, Transform]" by (cases s) simp_all
  then show ?thesis unfolding optimal_compression_length_u256_def using assms by (rule search_least(2))
qed

text \<open>The bytes of a compressed diff: as many as are charged for, and they determine the final value.\<close>

lemma optimal_compression_ok:
  "\<exists>bs. (\<forall>out. optimal_compression_u256 i f out = (Inr (), emit bs out)) \<and>
     length bs = unat (optimal_compression_length_u256 i f) \<and> length bs \<le> 33 \<and>
     (\<forall>s l. compression_length s i f = Some l \<longrightarrow> length bs \<le> unat l) \<and>
     (\<forall>rest. decompress i (bs @ rest) = Some (f, rest))"
proof -
  obtain m chunk where c: "\<And>out. compress (fst (optimal_strategy i f)) i f out = (Inr (), emit chunk (emit [m] out))"
    "unat (optimal_compression_length_u256 i f) = Suc (length chunk)"
    "\<And>rest. decompress i (m # chunk @ rest) = Some (f, rest)"
    using compress_ok [OF optimal_strategy_applicable [of i f]] optimal_strategy_length by metis
  have "emit chunk (emit [m] out) = emit (m # chunk) out" for out by (simp add: emit_def)
  moreover have "unat (optimal_compression_length_u256 i f) \<le> unat l" if "compression_length s i f = Some l" for s l
    using optimal_is_least [OF that] by (simp add: word_le_nat_alt)
  moreover from this [of Nothing 33] have "unat (optimal_compression_length_u256 i f) \<le> 33" by simp
  ultimately show ?thesis
    using c by (intro exI [of _ "m # chunk"]) (simp add: optimal_compression_u256_def)
qed

text \<open>C15: The optimal compression of any diff never panics, gives the hasher and the result
  keeper the same bytes, exactly as many as \<open>optimal_compression_length\<close> charges for (at most
  33 and no more than any applicable strategy needs), and whoever knows the initial value
  reads back the final value from them, whatever follows in the stream.\<close>

theorem optimal_compression_roundtrip:
  "\<exists>bs. optimal_compression_u256 i f out = (Inr (), emit bs out) \<and>
     length bs = unat (optimal_compression_length_u256 i f) \<and> length bs \<le> 33 \<and>
     (\<forall>s l. compression_length s i f = Some l \<longrightarrow> length bs \<le> unat l) \<and>
     (\<forall>rest. decompress i (bs @ rest) = Some (f, rest))"
  using optimal_compression_ok [of i f] by blast

theorem optimal_compression_roundtrip_witness:
  "\<exists>bs. optimal_compression_u256 1000 5 \<lparr>hashed = [], published = []\<rparr> =
       (Inr (), \<lparr>hashed = bs, published = bs\<rparr>) \<and>
     length bs \<le> 2 \<and> decompress 1000 (bs @ [7]) = Some (5, [7])"
proof -
  have "byte_len (5 :: u256) = 1"
    by (simp add: byte_len_def bit_len_def bit_len_nat.simps [of 5] bit_len_nat.simps [of 2]
        bit_len_nat.simps [of "Suc 0"] next_multiple_of_def)
  then have "compression_length Transform 1000 5 = Some 2" by (simp add: Let_def)
  with optimal_compression_roundtrip [of 1000 5 "\<lparr>hashed = [], published = []\<rparr>"]
  obtain bs where bs: "optimal_compression_u256 1000 5 \<lparr>hashed = [], published = []\<rparr> =
      (Inr (), emit bs \<lparr>hashed = [], published = []\<rparr>)"
    "length bs \<le> unat (2 :: u8)" "decompress 1000 (bs @ [7]) = Some (5, [7])" by blast
  then show ?thesis by (intro exI [of _ bs]) (simp add: emit_def)
qed

end
