(* ===== verification/Snapshot_Lists.thy ===== *)
theory Snapshot_Lists
  imports Frame_Store Bytes
begin

text \<open>
  The append-only structures that are rolled back by length: the trait \<open>Stack\<close> of
  \<^verbatim>\<open>zk_ee/src/memory/stack_trait.rs\<close> with its two implementations (\<open>Vec\<close> of the sequencer
  build, the chunked list \<open>ListVec\<close> of \<^verbatim>\<open>zk_ee/src/memory/skip_list_quasi_vec/mod.rs\<close> in
  the proving build), and on top of it \<open>HistoryList\<close>, \<open>HistoryCounter\<close> and the event storage
  of \<^verbatim>\<open>zk_ee/src/common_structs/\<close>.
\<close>

section \<open>The trait Stack\<close>

locale stack_trait =
  fixes invar :: "'s \<Rightarrow> bool"
    and elems :: "'s \<Rightarrow> 'a list"
    and new_in :: 's
    and len :: "'s \<Rightarrow> nat"
    and push :: "'a \<Rightarrow> 's \<Rightarrow> 's"
    and pop :: "('s, internal_error, 'a option) rs"
    and top :: "('s, internal_error, 'a option) rs"
    and set_top :: "'a \<Rightarrow> ('s, internal_error, bool) rs"
    and truncate :: "nat \<Rightarrow> ('s, internal_error, unit) rs"
  assumes invar_new: "invar new_in" and new_elems: "elems new_in = []"
    and len_elems: "invar s \<Longrightarrow> len s = length (elems s)"
    and push_invar: "invar s \<Longrightarrow> invar (push x s)"
    and push_elems: "invar s \<Longrightarrow> elems (push x s) = elems s @ [x]"
    and pop_spec: "invar s \<Longrightarrow> \<exists>t. pop s = (Inr (if elems s = [] then None else Some (last (elems s))), t) \<and>
      invar t \<and> elems t = butlast (elems s)"
    and top_spec: "invar s \<Longrightarrow> top s = (Inr (if elems s = [] then None else Some (last (elems s))), s)"
    and set_top_spec: "invar s \<Longrightarrow> \<exists>t. set_top x s = (Inr (elems s \<noteq> []), t) \<and> invar t \<and>
      elems t = (if elems s = [] then [] else butlast (elems s) @ [x])"
    and truncate_spec: "invar s \<Longrightarrow> \<exists>t. truncate n s = (Inr (), t) \<and> invar t \<and> elems t = take n (elems s)"
begin

text \<open>What was pushed after a length was taken disappears when truncating to it.\<close>

lemma truncate_pushed:
  assumes "invar s"
  shows "\<exists>t. truncate (len s) (fold push xs s) = (Inr (), t) \<and> invar t \<and> elems t = elems s"
proof -
  have "invar (fold push xs s) \<and> elems (fold push xs s) = elems s @ xs"
    using assms by (induction xs arbitrary: s) (auto simp: push_invar push_elems)
  then show ?thesis using truncate_spec [of "fold push xs s" "len s"] assms by (auto simp: len_elems)
qed

end

subsection \<open>Vec\<close>

definition vec_new :: "'a list" where
  "vec_new = []"

definition vec_len :: "'a list \<Rightarrow> nat" where
  "vec_len s = length s"

definition vec_push :: "'a \<Rightarrow> 'a list \<Rightarrow> 'a list" where
  "vec_push x s = s @ [x]"

definition vec_top :: "('a list, internal_error, 'a option) rs" where
  "vec_top = read_st (\<lambda>s. if s = [] then None else Some (last s))"

definition vec_pop :: "('a list, internal_error, 'a option) rs" where
  "vec_pop = and_then vec_top (\<lambda>x. and_then (modify_st butlast) (\<lambda>_. ret x))"

definition vec_set_top :: "'a \<Rightarrow> ('a list, internal_error, bool) rs" where
  "vec_set_top x = and_then (read_st (\<lambda>s. s \<noteq> [])) (\<lambda>b.
     and_then (modify_st (\<lambda>s. if s = [] then [] else butlast s @ [x])) (\<lambda>_. ret b))"

definition vec_truncate :: "nat \<Rightarrow> ('a list, internal_error, unit) rs" where
  "vec_truncate n = modify_st (take n)"

lemmas rs_simps = and_then_def read_st_def modify_st_def ret_def throw_def panic_def
  assert_that_def expect_def ok_or_def

interpretation vec: stack_trait "\<lambda>_. True" "\<lambda>s. s" vec_new vec_len vec_push vec_pop vec_top
    vec_set_top vec_truncate
  by unfold_locales (auto simp: vec_new_def vec_len_def vec_push_def vec_pop_def vec_top_def
      vec_set_top_def vec_truncate_def rs_simps)

subsection \<open>ListVec\<close>

text \<open>A linked list of chunks of at most \<open>N\<close> elements.\<close>

type_synonym 'a list_vec = "'a list list"

definition lv_new :: "'a list_vec" where
  "lv_new = []"

definition lv_push :: "nat \<Rightarrow> 'a \<Rightarrow> 'a list_vec \<Rightarrow> 'a list_vec" where
  "lv_push N x s =
     (if s = [] then s @ [x # []]
      else if length (last s) = N then s @ [x # []]
      else butlast s @ [last s @ [x]])"

definition lv_len :: "nat \<Rightarrow> 'a list_vec \<Rightarrow> nat" where
  "lv_len N s = (if s = [] then 0 else length (last s) + (length s - 1) * N)"

text \<open>\<open>last_node.pop().unwrap_unchecked()\<close>.\<close>

definition lv_pop :: "('a list_vec, internal_error, 'a option) rs" where
  "lv_pop =
     and_then (read_st (\<lambda>s. s)) (\<lambda>s.
     if s = [] then ret None
     else
       and_then (assert_that (last s \<noteq> [])) (\<lambda>_.
       and_then (modify_st (\<lambda>s. butlast s @ [butlast (last s)])) (\<lambda>_.
       and_then (modify_st (\<lambda>s. if last s = [] then butlast s else s)) (\<lambda>_.
       ret (Some (last (last s)))))))"

definition lv_top :: "('a list_vec, internal_error, 'a option) rs" where
  "lv_top =
     and_then (read_st (\<lambda>s. s)) (\<lambda>s.
     if s = [] then ret None
     else and_then (assert_that (last s \<noteq> [])) (\<lambda>_. ret (Some (last (last s)))))"

definition lv_set_top :: "'a \<Rightarrow> ('a list_vec, internal_error, bool) rs" where
  "lv_set_top x =
     and_then (read_st (\<lambda>s. s)) (\<lambda>s.
     if s = [] then ret False
     else
       and_then (assert_that (last s \<noteq> [])) (\<lambda>_.
       and_then (modify_st (\<lambda>s. butlast s @ [butlast (last s) @ [x]])) (\<lambda>_. ret True)))"

text \<open>The default \<open>truncate\<close> of the trait: pop the surplus.\<close>

fun lv_pop_times :: "nat \<Rightarrow> ('a list_vec, internal_error, unit) rs" where
  "lv_pop_times 0 = ret ()"
| "lv_pop_times (Suc k) =
     and_then lv_pop (\<lambda>x. and_then (expect x) (\<lambda>_. lv_pop_times k))"

definition lv_truncate :: "nat \<Rightarrow> nat \<Rightarrow> ('a list_vec, internal_error, unit) rs" where
  "lv_truncate N new_len =
     and_then (read_st (lv_len N)) (\<lambda>l.
     if new_len < l then lv_pop_times (l - new_len) else ret ())"

text \<open>
  \<open>ListVecIter\<close>: the chunks not yet started, the rest of the current chunk, and the count
  for \<open>size_hint\<close>. \<open>unreachable!()\<close> and the underflow of the count are \<open>Panic\<close>.
\<close>

record 'a lv_iter =
  outer :: "'a list list"
  inner :: "'a list option"
  remaining :: nat

definition lv_iter_new :: "nat \<Rightarrow> 'a list_vec \<Rightarrow> 'a lv_iter" where
  "lv_iter_new N s =
     \<lparr>outer = tl s, inner = (if s = [] then None else Some (hd s)), remaining = lv_len N s\<rparr>"

definition lv_iter_next :: "('a lv_iter, internal_error, 'a option) rs" where
  "lv_iter_next =
     and_then (read_st (\<lambda>it. it)) (\<lambda>it.
     case inner it of
       None \<Rightarrow> ret None
     | Some [] \<Rightarrow> panic
     | Some (v # vs) \<Rightarrow>
         and_then (assert_that (0 < remaining it)) (\<lambda>_.
         and_then (modify_st (\<lambda>it. it\<lparr>inner := Some vs, remaining := remaining it - 1\<rparr>)) (\<lambda>_.
         and_then (modify_st (\<lambda>it.
           if vs = [] then
             (case outer it of
                [] \<Rightarrow> it\<lparr>inner := None\<rparr>
              | c # cs \<Rightarrow> it\<lparr>inner := Some c, outer := cs\<rparr>)
           else it)) (\<lambda>_.
         ret (Some v)))))"

text \<open>Draining an iterator, \<open>fuel\<close> bounding the number of calls of \<open>next\<close>.\<close>

fun lv_drain :: "nat \<Rightarrow> ('a lv_iter, internal_error, 'a list option) rs" where
  "lv_drain 0 = ret None"
| "lv_drain (Suc fuel) =
     and_then lv_iter_next (\<lambda>x.
     case x of
       None \<Rightarrow> ret (Some [])
     | Some v \<Rightarrow> and_then (lv_drain fuel) (\<lambda>r. ret (map_option ((#) v) r)))"

text \<open>The invariants stated in the source: full chunks, the last one not empty.\<close>

definition lv_invar :: "nat \<Rightarrow> 'a list_vec \<Rightarrow> bool" where
  "lv_invar N s \<longleftrightarrow> (\<forall>c \<in> set (butlast s). length c = N) \<and> (\<forall>c \<in> set s. c \<noteq> [] \<and> length c \<le> N)"

lemma lv_cases [consumes 1, case_names Nil snoc]:
  assumes "lv_invar N s"
  obtains "s = []" | cs c x where "s = cs @ [c @ [x]]" "\<forall>d \<in> set cs. length d = N \<and> d \<noteq> []" "length c < N"
proof (cases s rule: rev_cases)
  case (snoc cs d)
  then have "d \<noteq> []" using assms by (simp add: lv_invar_def)
  then obtain c x where "d = c @ [x]" by (metis rev_exhaust)
  with snoc assms that(2) [of cs c x] show thesis by (auto simp: lv_invar_def)
qed (use that in blast)

lemma lv_invar_snoc:
  "lv_invar N (cs @ [c]) \<longleftrightarrow> (\<forall>d \<in> set cs. length d = N \<and> d \<noteq> []) \<and> c \<noteq> [] \<and> length c \<le> N"
  by (auto simp: lv_invar_def)

lemma length_concat_full: "\<forall>d \<in> set cs. length d = N \<and> d \<noteq> [] \<Longrightarrow> length (concat cs) = length cs * N"
  by (induction cs) auto

lemma lv_invar_full: "\<forall>d \<in> set cs. length d = N \<and> d \<noteq> [] \<Longrightarrow> lv_invar N cs"
  by (auto simp: lv_invar_def dest: in_set_butlastD)

lemma lv_len_concat: "lv_invar N s \<Longrightarrow> lv_len N s = length (concat s)"
  by (erule lv_cases) (auto simp: lv_len_def dest!: length_concat_full)

lemma lv_push_ok:
  assumes "lv_invar N s" and "0 < N"
  shows "lv_invar N (lv_push N x s) \<and> concat (lv_push N x s) = concat s @ [x]"
  using assms(1)
proof (cases rule: lv_cases)
  case (snoc cs c y)
  then show ?thesis using assms(2) by (auto simp: lv_push_def lv_invar_def butlast_append)
qed (use assms(2) in \<open>simp add: lv_push_def lv_invar_def\<close>)

lemma lv_pop_ok:
  assumes "lv_invar N s"
  shows "\<exists>t. lv_pop s = (Inr (if concat s = [] then None else Some (last (concat s))), t) \<and>
      lv_invar N t \<and> concat t = butlast (concat s)"
  using assms
proof (cases rule: lv_cases)
  case (snoc cs c x)
  then show ?thesis
    by (cases "c = []") (auto simp: lv_pop_def rs_simps lv_invar_full lv_invar_snoc butlast_append)
qed (simp add: lv_pop_def rs_simps lv_invar_def)

lemma lv_pop_times_ok:
  assumes "lv_invar N s" and "k \<le> length (concat s)"
  shows "\<exists>t. lv_pop_times k s = (Inr (), t) \<and> lv_invar N t \<and> concat t = take (length (concat s) - k) (concat s)"
  using assms
proof (induction k arbitrary: s)
  case (Suc k)
  have ne: "concat s \<noteq> []" using Suc.prems(2) by (metis Suc_n_not_le_n le0 le_trans list.size(3) not_less_eq_eq)
  obtain t where t: "lv_pop s = (Inr (Some (last (concat s))), t)" "lv_invar N t" "concat t = butlast (concat s)"
    using lv_pop_ok [OF Suc.prems(1)] by (simp only: ne if_False) blast
  have "k \<le> length (concat t)" using t(3) Suc.prems(2) by simp
  from Suc.IH [OF t(2) this] t Suc.prems(2) show ?case
    by (auto simp: rs_simps butlast_conv_take min_def)
qed (simp add: ret_def)

interpretation lv: stack_trait "lv_invar (Suc n)" concat lv_new "lv_len (Suc n)" "lv_push (Suc n)"
    lv_pop lv_top lv_set_top "lv_truncate (Suc n)"
proof
  fix s :: "'a list_vec" and x :: 'a and k
  assume inv: "lv_invar (Suc n) s"
  show "lv_len (Suc n) s = length (concat s)" using inv by (rule lv_len_concat)
  show "lv_invar (Suc n) (lv_push (Suc n) x s)" "concat (lv_push (Suc n) x s) = concat s @ [x]"
    using lv_push_ok [OF inv] by simp_all
  show "\<exists>t. lv_pop s = (Inr (if concat s = [] then None else Some (last (concat s))), t) \<and>
      lv_invar (Suc n) t \<and> concat t = butlast (concat s)" using inv by (rule lv_pop_ok)
  show "lv_top s = (Inr (if concat s = [] then None else Some (last (concat s))), s)"
    using inv by (cases rule: lv_cases) (auto simp: lv_top_def rs_simps)
  show "\<exists>t. lv_set_top x s = (Inr (concat s \<noteq> []), t) \<and> lv_invar (Suc n) t \<and>
      concat t = (if concat s = [] then [] else butlast (concat s) @ [x])"
    using inv by (cases rule: lv_cases) (auto simp: lv_set_top_def rs_simps lv_invar_snoc lv_invar_def butlast_append)
  show "\<exists>t. lv_truncate (Suc n) k s = (Inr (), t) \<and> lv_invar (Suc n) t \<and> concat t = take k (concat s)"
    using lv_pop_times_ok [OF inv, of "length (concat s) - k"] inv lv_len_concat [OF inv]
    by (auto simp: lv_truncate_def rs_simps)
qed (simp_all add: lv_new_def lv_invar_def)

lemma lv_drain_step:
  assumes "lv_iter_next it = (Inr (Some v), it')" and "fst (lv_drain fuel it') = Inr (Some xs)"
  shows "fst (lv_drain (Suc fuel) it) = Inr (Some (v # xs))"
  using assms by (cases "lv_drain fuel it'") (simp add: and_then_def ret_def)

lemma lv_drain_all:
  assumes "c \<noteq> []" and "\<forall>d \<in> set cs. d \<noteq> []"
  shows "fst (lv_drain (Suc (length (c @ concat cs)))
      \<lparr>outer = cs, inner = Some c, remaining = length (c @ concat cs)\<rparr>) = Inr (Some (c @ concat cs))"
  using assms
proof (induction "length (c @ concat cs)" arbitrary: c cs)
  case (Suc n)
  obtain v vs where c: "c = v # vs" using Suc.prems(1) by (cases c) auto
  let ?it = "\<lparr>outer = cs, inner = Some c, remaining = length (c @ concat cs)\<rparr>"
  have n: "length (c @ concat cs) = Suc n" "n = length (vs @ concat cs)" using Suc.hyps(2) c by auto
  show ?case
  proof (cases vs)
    case Nil
    show ?thesis
    proof (cases cs)
      case Nil
      then show ?thesis using c \<open>vs = []\<close> by (simp add: lv_iter_next_def rs_simps)
    next
      case (Cons d ds)
      have nd: "n = length (d @ concat ds)" using n(2) \<open>vs = []\<close> Cons by simp
      have "lv_iter_next ?it = (Inr (Some v), \<lparr>outer = ds, inner = Some d, remaining = length (d @ concat ds)\<rparr>)"
        using c \<open>vs = []\<close> Cons n nd by (simp add: lv_iter_next_def rs_simps)
      from lv_drain_step [OF this Suc.hyps(1) [OF nd]] show ?thesis
        using Suc.prems(2) Cons c \<open>vs = []\<close> n(1) nd by simp
    qed
  next
    case (Cons w ws)
    then have "lv_iter_next ?it = (Inr (Some v), \<lparr>outer = cs, inner = Some vs, remaining = length (vs @ concat cs)\<rparr>)"
      using c n by (simp add: lv_iter_next_def rs_simps)
    from lv_drain_step [OF this Suc.hyps(1) [OF n(2)]] show ?thesis
      using Suc.prems(2) Cons c n by simp
  qed
qed simp

section \<open>HistoryList\<close>

type_synonym ('v, 'm) history_list = "('v \<times> 'm) list"

definition hl_new :: "('v, 'm) history_list" where
  "hl_new = vec_new"

definition hl_snapshot :: "(('v, 'm) history_list, internal_error, nat) rs" where
  "hl_snapshot = read_st vec_len"

definition hl_rollback :: "nat \<Rightarrow> (('v, 'm) history_list, internal_error, unit) rs" where
  "hl_rollback snapshot = vec_truncate snapshot"

definition hl_push :: "'v \<Rightarrow> 'm \<Rightarrow> (('v, 'm) history_list, internal_error, unit) rs" where
  "hl_push v md = modify_st (vec_push (v, md))"

definition hl_top :: "(('v, 'm) history_list, internal_error, ('v \<times> 'm) option) rs" where
  "hl_top = vec_top"

definition hl_iter :: "('v, 'm) history_list \<Rightarrow> 'v list" where
  "hl_iter l = map fst l"

text \<open>\<open>self[n..]\<close>.\<close>

definition hl_iter_skip_n :: "nat \<Rightarrow> (('v, 'm) history_list, internal_error, 'v list) rs" where
  "hl_iter_skip_n n =
     and_then (read_st (\<lambda>l. l)) (\<lambda>l. and_then (assert_that (n \<le> length l)) (\<lambda>_. ret (map fst (drop n l))))"

definition hl_len :: "('v, 'm) history_list \<Rightarrow> nat" where
  "hl_len l = vec_len l"

definition hl_finish_frame :: "nat option \<Rightarrow> (('v, 'm) history_list, internal_error, unit) rs" where
  "hl_finish_frame handle = (case handle of Some x \<Rightarrow> hl_rollback x | None \<Rightarrow> ret ())"

definition hl_frames :: "('v, 'm) history_list \<Rightarrow> (nat \<times> ('v, 'm) history_list) list \<Rightarrow> bool" where
  "hl_frames l fs \<longleftrightarrow>
     sorted_wrt (\<lambda>x y. fst y \<le> fst x) fs \<and> (\<forall>(i, x) \<in> set fs. i \<le> length l \<and> x = take i l)"

definition hl_pushed :: "('v, 'm) history_list \<Rightarrow> ('v, 'm) history_list \<Rightarrow> bool" where
  "hl_pushed l l' \<longleftrightarrow> (\<exists>v m. hl_push v m l = (Inr (), l'))"

lemmas hl_defs = hl_new_def hl_snapshot_def hl_rollback_def hl_push_def hl_top_def hl_finish_frame_def
  vec_new_def vec_len_def vec_push_def vec_top_def vec_truncate_def rs_simps

interpretation hl: frame_store hl_frames "\<lambda>l. l" "(=)" "\<lambda>_. True" hl_snapshot hl_finish_frame hl_pushed
proof
  fix l l' :: "('v, 'm) history_list" and fs f i x
  show "\<exists>t. hl_finish_frame (Some i) l = (Inr (), t) \<and> hl_frames t fs \<and> x = t"
    if "hl_frames l ((i, x) # fs)"
    using that by (fastforce simp: hl_defs hl_frames_def min_def)
  show "hl_frames l' fs" if "hl_frames l fs" "hl_pushed l l'"
    using that by (fastforce simp: hl_frames_def hl_pushed_def hl_defs)
qed (auto simp: hl_frames_def hl_defs)

section \<open>HistoryCounter\<close>

record 'v history_counter =
  history :: "('v, unit) history_list"
  last_snapshot_id :: nat

definition hc_new :: "'v history_counter" where
  "hc_new = \<lparr>history = hl_new, last_snapshot_id = 0\<rparr>"

definition hc_value :: "'v history_counter \<Rightarrow> 'v option" where
  "hc_value c = (if history c = [] then None else Some (fst (last (history c))))"

text \<open>\<open>top_mut().expect(..)\<close> in the branch that overwrites.\<close>

definition hc_update :: "'v \<Rightarrow> ('v history_counter, internal_error, unit) rs" where
  "hc_update v =
     and_then (read_st (\<lambda>c. c)) (\<lambda>c.
     if last_snapshot_id c < hl_len (history c) then
       and_then (assert_that (history c \<noteq> [])) (\<lambda>_.
       modify_st (\<lambda>c. c\<lparr>history := butlast (history c) @ [(v, ())]\<rparr>))
     else on_part history (\<lambda>h c. c\<lparr>history := h\<rparr>) (\<lambda>e. e) (hl_push v ()))"

definition hc_snapshot :: "('v history_counter, internal_error, nat) rs" where
  "hc_snapshot =
     and_then (on_part history (\<lambda>h c. c\<lparr>history := h\<rparr>) (\<lambda>e. e) hl_snapshot) (\<lambda>n.
     and_then (modify_st (\<lambda>c. c\<lparr>last_snapshot_id := n\<rparr>)) (\<lambda>_. ret n))"

definition hc_rollback :: "nat \<Rightarrow> ('v history_counter, internal_error, unit) rs" where
  "hc_rollback snapshot =
     and_then (on_part history (\<lambda>h c. c\<lparr>history := h\<rparr>) (\<lambda>e. e) (hl_rollback snapshot)) (\<lambda>_.
     modify_st (\<lambda>c. c\<lparr>last_snapshot_id := snapshot\<rparr>))"

definition hc_finish_frame :: "nat option \<Rightarrow> ('v history_counter, internal_error, unit) rs" where
  "hc_finish_frame handle = (case handle of Some x \<Rightarrow> hc_rollback x | None \<Rightarrow> ret ())"

definition hc_frames :: "'v history_counter \<Rightarrow> (nat \<times> 'v option) list \<Rightarrow> bool" where
  "hc_frames c fs \<longleftrightarrow>
     last_snapshot_id c \<le> length (history c) \<and>
     sorted_wrt (\<lambda>x y. fst y \<le> fst x) fs \<and>
     (\<forall>(i, x) \<in> set fs. i \<le> last_snapshot_id c \<and> x = hc_value (c\<lparr>history := take i (history c)\<rparr>))"

definition hc_updated :: "'v history_counter \<Rightarrow> 'v history_counter \<Rightarrow> bool" where
  "hc_updated c c' \<longleftrightarrow> (\<exists>v. hc_update v c = (Inr (), c'))"

lemmas hc_defs = hc_new_def hc_update_def hc_snapshot_def hc_rollback_def hc_finish_frame_def
  on_part_def hl_len_def hl_defs

lemma hc_frames_updated:
  assumes fr: "hc_frames c fs" and up: "hc_update v c = (Inr (), c')"
  shows "hc_frames c' fs"
proof -
  have h: "last_snapshot_id c' = last_snapshot_id c \<and> last_snapshot_id c \<le> length (history c') \<and>
      take i (history c') = take i (history c)" if "i \<le> last_snapshot_id c" for i
    using up that fr
    by (auto simp: hc_defs hc_frames_def split: if_splits) (auto simp: butlast_conv_take)
  then show ?thesis using fr by (fastforce simp: hc_frames_def hc_value_def)
qed

interpretation hc: frame_store hc_frames hc_value "(=)" "\<lambda>_. True" hc_snapshot hc_finish_frame hc_updated
proof
  fix c c' :: "'v history_counter" and fs f i x
  show "hc_frames c' ((i, hc_value c) # fs) \<and> hc_value c' = hc_value c"
    if "hc_frames c fs" "hc_snapshot c = (Inr i, c')"
    using that by (fastforce simp: hc_frames_def hc_defs hc_value_def)
  show "\<exists>t. hc_finish_frame (Some i) c = (Inr (), t) \<and> hc_frames t fs \<and> x = hc_value t"
    if "hc_frames c ((i, x) # fs)"
    using that by (fastforce simp: hc_frames_def hc_defs hc_value_def min_def)
  show "hc_frames c' fs" if "hc_frames c fs" "hc_updated c c'"
    using that hc_frames_updated by (auto simp: hc_updated_def)
qed (auto simp: hc_frames_def hc_defs)

section \<open>Events\<close>

type_synonym bytes32 = u256

record event_content =
  ev_tx_number :: u32
  ev_address :: b160
  ev_topics :: "bytes32 list"
  ev_data :: bytes

record events_storage =
  ev_list :: "(event_content, unit) history_list"
  list_len_at_tx_start :: nat

definition on_ev_list ::
    "((event_content, unit) history_list, internal_error, 'a) rs \<Rightarrow> (events_storage, internal_error, 'a) rs" where
  "on_ev_list = on_part ev_list (\<lambda>l s. s\<lparr>ev_list := l\<rparr>) (\<lambda>e. e)"

definition events_new :: events_storage where
  "events_new = \<lparr>ev_list = hl_new, list_len_at_tx_start = 0\<rparr>"

definition events_begin_new_tx :: "events_storage \<Rightarrow> events_storage" where
  "events_begin_new_tx s = s\<lparr>list_len_at_tx_start := hl_len (ev_list s)\<rparr>"

definition events_start_frame :: "(events_storage, internal_error, nat) rs" where
  "events_start_frame = on_ev_list hl_snapshot"

definition push_event :: "u32 \<Rightarrow> b160 \<Rightarrow> bytes32 list \<Rightarrow> bytes \<Rightarrow> (events_storage, internal_error, unit) rs" where
  "push_event tx_number address topics data =
     on_ev_list (hl_push \<lparr>ev_tx_number = tx_number, ev_address = address, ev_topics = topics, ev_data = data\<rparr> ())"

definition events_finish_frame :: "nat option \<Rightarrow> (events_storage, internal_error, unit) rs" where
  "events_finish_frame handle = (case handle of Some x \<Rightarrow> on_ev_list (hl_rollback x) | None \<Rightarrow> ret ())"

definition events_iter_net_diff :: "events_storage \<Rightarrow> event_content list" where
  "events_iter_net_diff s = hl_iter (ev_list s)"

definition events_in_transaction :: "(events_storage, internal_error, event_content list) rs" where
  "events_in_transaction = and_then (read_st list_len_at_tx_start) (\<lambda>n. on_ev_list (hl_iter_skip_n n))"

definition events_frames :: "events_storage \<Rightarrow> (nat \<times> events_storage) list \<Rightarrow> bool" where
  "events_frames s fs \<longleftrightarrow>
     list_len_at_tx_start s \<le> length (ev_list s) \<and>
     sorted_wrt (\<lambda>x y. fst y \<le> fst x) fs \<and>
     (\<forall>(i, x) \<in> set fs. list_len_at_tx_start s \<le> i \<and> i \<le> length (ev_list s) \<and>
        x = s\<lparr>ev_list := take i (ev_list s)\<rparr>)"

definition event_pushed :: "events_storage \<Rightarrow> events_storage \<Rightarrow> bool" where
  "event_pushed s s' \<longleftrightarrow> (\<exists>tx a ts d. push_event tx a ts d s = (Inr (), s'))"

lemmas ev_defs = events_start_frame_def events_finish_frame_def push_event_def on_ev_list_def
  on_part_def hl_defs

interpretation ev: frame_store events_frames "\<lambda>s. s" "(=)" "\<lambda>_. True" events_start_frame
    events_finish_frame event_pushed
proof
  fix s s' :: events_storage and fs f i x
  show "\<exists>t. events_finish_frame (Some i) s = (Inr (), t) \<and> events_frames t fs \<and> x = t"
    if "events_frames s ((i, x) # fs)"
    using that by (fastforce simp: ev_defs events_frames_def min_def)
  show "events_frames s' fs" if "events_frames s fs" "event_pushed s s'"
    using that by (fastforce simp: events_frames_def event_pushed_def ev_defs)
qed (auto simp: events_frames_def ev_defs)

text \<open>Inside a transaction the slice of its own events is always in range.\<close>

lemma events_in_transaction_ok:
  assumes "events_frames s fs"
  shows "events_in_transaction s = (Inr (map fst (drop (list_len_at_tx_start s) (ev_list s))), s)"
  using assms by (simp add: events_in_transaction_def on_ev_list_def on_part_def hl_iter_skip_n_def rs_simps events_frames_def)

section \<open>Properties\<close>

text \<open>The operations of the trait as data, and what each answers.\<close>

datatype 'a stack_op = Push 'a | Pop | Top | SetTop 'a | Truncate nat | Len

datatype 'a stack_answer = Done | Elem "'a option" | Was bool | Length nat

fun vec_do :: "'a stack_op \<Rightarrow> ('a list, internal_error, 'a stack_answer) rs" where
  "vec_do (Push x) = and_then (modify_st (vec_push x)) (\<lambda>_. ret Done)"
| "vec_do Pop = and_then vec_pop (\<lambda>x. ret (Elem x))"
| "vec_do Top = and_then vec_top (\<lambda>x. ret (Elem x))"
| "vec_do (SetTop x) = and_then (vec_set_top x) (\<lambda>b. ret (Was b))"
| "vec_do (Truncate n) = and_then (vec_truncate n) (\<lambda>_. ret Done)"
| "vec_do Len = and_then (read_st vec_len) (\<lambda>n. ret (Length n))"

fun lv_do :: "nat \<Rightarrow> 'a stack_op \<Rightarrow> ('a list_vec, internal_error, 'a stack_answer) rs" where
  "lv_do N (Push x) = and_then (modify_st (lv_push N x)) (\<lambda>_. ret Done)"
| "lv_do N Pop = and_then lv_pop (\<lambda>x. ret (Elem x))"
| "lv_do N Top = and_then lv_top (\<lambda>x. ret (Elem x))"
| "lv_do N (SetTop x) = and_then (lv_set_top x) (\<lambda>b. ret (Was b))"
| "lv_do N (Truncate n) = and_then (lv_truncate N n) (\<lambda>_. ret Done)"
| "lv_do N Len = and_then (read_st (lv_len N)) (\<lambda>n. ret (Length n))"

fun stack_run :: "('op \<Rightarrow> ('s, 'e, 'r) rs) \<Rightarrow> 'op list \<Rightarrow> ('s, 'e, 'r list) rs" where
  "stack_run do1 [] = ret []"
| "stack_run do1 (op # ops) = and_then (do1 op) (\<lambda>r. and_then (stack_run do1 ops) (\<lambda>rs. ret (r # rs)))"

lemma lv_do_simulates:
  assumes "lv_invar (Suc n) s"
  shows "\<exists>r t. lv_do (Suc n) op s = (Inr r, t) \<and> vec_do op (concat s) = (Inr r, concat t) \<and> lv_invar (Suc n) t"
proof (cases op)
  case (Push x)
  then show ?thesis using lv.push_invar [OF assms] lv.push_elems [OF assms] by (simp add: rs_simps vec_push_def)
next
  case Pop
  then show ?thesis using lv.pop_spec [OF assms] by (fastforce simp: rs_simps vec_pop_def vec_top_def)
next
  case Top
  then show ?thesis using lv.top_spec [OF assms] assms by (simp add: rs_simps vec_top_def)
next
  case (SetTop x)
  then show ?thesis using lv.set_top_spec [OF assms, of x] by (fastforce simp: rs_simps vec_set_top_def)
next
  case (Truncate k)
  then show ?thesis using lv.truncate_spec [OF assms, of k] by (fastforce simp: rs_simps vec_truncate_def)
next
  case Len
  then show ?thesis using lv.len_elems [OF assms] assms by (simp add: rs_simps vec_len_def)
qed

lemma lv_run_simulates:
  assumes "lv_invar (Suc n) s"
  shows "\<exists>rs t. stack_run (lv_do (Suc n)) ops s = (Inr rs, t) \<and>
    stack_run vec_do ops (concat s) = (Inr rs, concat t) \<and> lv_invar (Suc n) t"
  using assms
proof (induction ops arbitrary: s)
  case (Cons op ops)
  obtain r t where t: "lv_do (Suc n) op s = (Inr r, t)" "vec_do op (concat s) = (Inr r, concat t)" "lv_invar (Suc n) t"
    using lv_do_simulates [OF Cons.prems] by blast
  with Cons.IH [OF t(3)] show ?case by (auto simp: and_then_def ret_def)
qed (auto simp: ret_def)


end
