(* ===== verification/Logs_Storage.thy ===== *)
theory Logs_Storage
  imports Snapshot_Lists Pubdata_Compression
begin

text \<open>
  The L2-to-L1 log storage, \<^verbatim>\<open>zk_ee/src/common_structs/logs_storage.rs\<close>: the running
  count of published bytes, the published encoding, the Merkle root of the logs and the
  rolling hash of the L1 transactions. The hash function is a parameter \<open>keccak\<close>.
\<close>

definition L2_TO_L1_LOG_SERIALIZE_SIZE :: nat where
  "L2_TO_L1_LOG_SERIALIZE_SIZE = 88"

record l2_to_l1_log =
  l2_shard_id :: u8
  is_service :: bool
  tx_number_in_block :: u16
  sender :: b160
  log_key :: bytes32
  log_value :: bytes32

text \<open>\<open>UserMsg\<close> holds the fields of \<open>UserMsgData\<close>, \<open>L1TxLog\<close> those of the struct of that name.\<close>

datatype log_content_data =
    UserMsg (msg_address: b160) (msg_data: bytes) (msg_data_hash: bytes32)
  | L1TxLog (l1_tx_hash: bytes32) (l1_success: bool)

record log_content =
  log_tx_number :: u32
  log_data :: log_content_data

record logs_storage =
  log_list :: "(log_content, u32) history_list"
  pubdata_used_by_committed_logs :: u32

definition logs_new :: logs_storage where
  "logs_new = \<lparr>log_list = hl_new, pubdata_used_by_committed_logs = 0\<rparr>"

definition on_log_list ::
    "((log_content, u32) history_list, internal_error, 'a) rs \<Rightarrow> (logs_storage, internal_error, 'a) rs" where
  "on_log_list = on_part log_list (\<lambda>l s. s\<lparr>log_list := l\<rparr>) (\<lambda>e. e)"

text \<open>\<open>self.list.top().map_or(0, |(_, m)| *m)\<close>.\<close>

definition total_pubdata :: "(log_content, u32) history_list \<Rightarrow> u32" where
  "total_pubdata l = (if l = [] then 0 else snd (last l))"

definition logs_begin_new_tx :: "logs_storage \<Rightarrow> logs_storage" where
  "logs_begin_new_tx s = s\<lparr>pubdata_used_by_committed_logs := total_pubdata (log_list s)\<rparr>"

definition logs_start_frame :: "(logs_storage, internal_error, nat) rs" where
  "logs_start_frame = on_log_list hl_snapshot"

text \<open>\<open>map_or(total_pubdata, |(_, m)| *m + total_pubdata)\<close>, with the overflow of the \<open>u32\<close> sum.\<close>

definition add_pubdata :: "u32 \<Rightarrow> (logs_storage, internal_error, u32) rs" where
  "add_pubdata n =
     and_then (on_log_list hl_top) (\<lambda>t.
     case t of None \<Rightarrow> ret n | Some (_, m) \<Rightarrow> expect (checked_add m n))"

definition push_message :: "u32 \<Rightarrow> b160 \<Rightarrow> bytes \<Rightarrow> bytes32 \<Rightarrow> (logs_storage, internal_error, unit) rs" where
  "push_message tx_number address data data_hash =
     and_then (add_pubdata (word_of_nat (4 + length data + L2_TO_L1_LOG_SERIALIZE_SIZE))) (\<lambda>total.
     on_log_list (hl_push \<lparr>log_tx_number = tx_number, log_data = UserMsg address data data_hash\<rparr> total))"

definition push_l1_l2_tx_log :: "u32 \<Rightarrow> bytes32 \<Rightarrow> bool \<Rightarrow> (logs_storage, internal_error, unit) rs" where
  "push_l1_l2_tx_log tx_number tx_hash success =
     and_then (add_pubdata (word_of_nat L2_TO_L1_LOG_SERIALIZE_SIZE)) (\<lambda>total.
     on_log_list (hl_push \<lparr>log_tx_number = tx_number, log_data = L1TxLog tx_hash success\<rparr> total))"

definition logs_len :: "logs_storage \<Rightarrow> u64" where
  "logs_len s = word_of_nat (hl_len (log_list s))"

definition logs_finish_frame :: "nat option \<Rightarrow> (logs_storage, internal_error, unit) rs" where
  "logs_finish_frame handle = (case handle of Some x \<Rightarrow> on_log_list (hl_rollback x) | None \<Rightarrow> ret ())"

definition pubdata_decreased :: internal_error where
  "pubdata_decreased = ''Pubdata used by logs unexpectedly decreased''"

definition calculate_pubdata_used_by_tx :: "(logs_storage, internal_error, u32) rs" where
  "calculate_pubdata_used_by_tx =
     and_then (read_st (\<lambda>s. (total_pubdata (log_list s), pubdata_used_by_committed_logs s))) (\<lambda>(total, committed).
     if total < committed then throw pubdata_decreased else ret (total - committed))"

section \<open>Encoding\<close>

text \<open>\<open>From<&LogContent> for L2ToL1Log\<close>.\<close>

definition log_from :: "log_content \<Rightarrow> l2_to_l1_log" where
  "log_from m =
     (case log_data m of
        UserMsg address data data_hash \<Rightarrow>
          \<lparr>l2_shard_id = 0, is_service = True, tx_number_in_block = ucast (log_tx_number m),
           sender = 0x8008, log_key = ucast address, log_value = data_hash\<rparr>
      | L1TxLog tx_hash success \<Rightarrow>
          \<lparr>l2_shard_id = 0, is_service = True, tx_number_in_block = ucast (log_tx_number m),
           sender = 0x8001, log_key = tx_hash, log_value = (if success then 1 else 0)\<rparr>)"

definition log_encode :: "l2_to_l1_log \<Rightarrow> bytes" where
  "log_encode l =
     [l2_shard_id l] @ [if is_service l then 1 else 0] @ to_be_bytes (tx_number_in_block l) @
     to_be_bytes (sender l) @ to_be_bytes (log_key l) @ to_be_bytes (log_value l)"

definition log_hash :: "(bytes \<Rightarrow> bytes32) \<Rightarrow> l2_to_l1_log \<Rightarrow> bytes32" where
  "log_hash keccak l = keccak (log_encode l)"

definition is_user_msg :: "log_content \<Rightarrow> bool" where
  "is_user_msg m = (case log_data m of UserMsg _ _ _ \<Rightarrow> True | L1TxLog _ _ \<Rightarrow> False)"

text \<open>
  \<open>apply_logs_to_pubdata_and_record_log_hashes\<close>: the count, all encoded logs, then the
  count of messages and each message with its length. The recorded hashes are the calls of
  \<open>log_hasher_fn\<close>.
\<close>

fun emit_logs ::
    "(bytes \<Rightarrow> bytes32) \<Rightarrow> log_content list \<Rightarrow> u32 \<times> pubdata_sink \<times> bytes32 list \<Rightarrow> u32 \<times> pubdata_sink \<times> bytes32 list" where
  "emit_logs keccak [] st = st"
| "emit_logs keccak (m # ms) (messages_count, out, hashes) =
     emit_logs keccak ms
       (if is_user_msg m then messages_count + 1 else messages_count,
        emit (log_encode (log_from m)) out,
        hashes @ [log_hash keccak (log_from m)])"

fun emit_messages :: "log_content list \<Rightarrow> pubdata_sink \<Rightarrow> pubdata_sink" where
  "emit_messages [] out = out"
| "emit_messages (m # ms) out =
     emit_messages ms
       (case log_data m of
          UserMsg _ data _ \<Rightarrow> emit data (emit (to_be_bytes (word_of_nat (length data) :: u32)) out)
        | L1TxLog _ _ \<Rightarrow> out)"

definition apply_logs_to_pubdata_and_record_log_hashes ::
    "(bytes \<Rightarrow> bytes32) \<Rightarrow> logs_storage \<Rightarrow> pubdata_sink \<Rightarrow> pubdata_sink \<times> bytes32 list" where
  "apply_logs_to_pubdata_and_record_log_hashes keccak s out =
     (let logs = hl_iter (log_list s);
          out = emit (to_be_bytes (word_of_nat (hl_len (log_list s)) :: u32)) out;
          (messages_count, out, hashes) = emit_logs keccak logs (0, out, []);
          out = emit (to_be_bytes messages_count) out
      in (emit_messages logs out, hashes))"

section \<open>The Merkle root\<close>

definition TREE_HEIGHT :: nat where
  "TREE_HEIGHT = 14"

definition EMPTY_HASHES :: "bytes32 list" where
  "EMPTY_HASHES =
    [0x72abee45b59e344af8a6e520241c4744aff26ed411f4c4b00f8af09adada43ba,
     0xc3d03eebfd83049991ea3d3e358b6712e7aa2e2e63dc2d4b438987cec28ac8d0,
     0xe3697c7f33c31a9b0f0aeb8542287d0d21e8c4cf82163d0c44c7a98aa11aa111,
     0x199cc5812543ddceeddd0fc82807646a4899444240db2c0d2f20c3cceb5f51fa,
     0xe4733f281f18ba3ea8775dd62d2fcd84011c8c938f16ea5790fd29a03bf8db89,
     0x1798a1fd9c8fbb818c98cff190daa7cc10b6e5ac9716b4a2649f7c2ebcef2272,
     0x66d7c5983afe44cf15ea8cf565b34c6c31ff0cb4dd744524f7842b942d08770d,
     0xb04e5ee349086985f74b73971ce9dfe76bbed95c84906c5dffd96504e1e5396c,
     0xac506ecb5465659b3a927143f6d724f91d8d9c4bdb2463aee111d9aa869874db,
     0x124b05ec272cecd7538fdafe53b6628d31188ffb6f345139aac3c3c1fd2e470f,
     0xc3be9cbd19304d84cca3d045e06b8db3acd68c304fc9cd4cbffe6d18036cb13f,
     0xfef7bd9f889811e59e4076a0174087135f080177302763019adaf531257e3a87,
     0xa707d1c62d8be699d34cb74804fdd7b4c568b6c1a821066f126c680d4b83e00b,
     0xf6e093070e0389d2e529d60fadb855fdded54976ec50ac709e3a36ceaa64c291,
     0x375a5bf909cb02143e3695ca658e0641e739aa590f0004dba93572c44cdb9d2d]"

definition hash_pair :: "(bytes \<Rightarrow> bytes32) \<Rightarrow> bytes32 \<Rightarrow> bytes32 \<Rightarrow> bytes32" where
  "hash_pair keccak a b = keccak (to_be_bytes a @ to_be_bytes b)"

text \<open>Slice indexing panics out of range.\<close>

definition nth_or_panic :: "nat \<Rightarrow> ('a list, internal_error, 'a) rs" where
  "nth_or_panic i = and_then (read_st (\<lambda>xs. xs)) (\<lambda>xs. if i < length xs then ret (xs ! i) else panic)"

definition set_nth :: "nat \<Rightarrow> 'a \<Rightarrow> ('a list, internal_error, unit) rs" where
  "set_nth i v = and_then (read_st length) (\<lambda>n. if i < n then modify_st (\<lambda>xs. xs[i := v]) else panic)"

text \<open>One pass of the inner loop, in place, for \<open>i\<close> in the given list.\<close>

fun tree_level :: "(bytes \<Rightarrow> bytes32) \<Rightarrow> bytes32 \<Rightarrow> nat \<Rightarrow> nat list \<Rightarrow> (bytes32 list, internal_error, unit) rs" where
  "tree_level keccak dflt curr_non_default [] = ret ()"
| "tree_level keccak dflt curr_non_default (i # is) =
     and_then (nth_or_panic (i * 2)) (\<lambda>l.
     and_then (if i * 2 + 1 < curr_non_default then nth_or_panic (i * 2 + 1) else ret dflt) (\<lambda>r.
     and_then (set_nth i (hash_pair keccak l r)) (\<lambda>_.
     tree_level keccak dflt curr_non_default is)))"

definition div_ceil :: "nat \<Rightarrow> nat \<Rightarrow> nat" where
  "div_ceil a b = (a + b - 1) div b"

text \<open>The outer loop over the levels with their default hashes.\<close>

fun tree_levels :: "(bytes \<Rightarrow> bytes32) \<Rightarrow> bytes32 list \<Rightarrow> nat \<Rightarrow> (bytes32 list, internal_error, nat) rs" where
  "tree_levels keccak [] curr_non_default = ret curr_non_default"
| "tree_levels keccak (d # ds) curr_non_default =
     and_then (tree_level keccak d curr_non_default [0..<div_ceil curr_non_default 2]) (\<lambda>_.
     tree_levels keccak ds (div_ceil curr_non_default 2))"

definition tree_root :: "(bytes \<Rightarrow> bytes32) \<Rightarrow> logs_storage \<Rightarrow> internal_error fault + bytes32" where
  "tree_root keccak s =
     fst (and_then (tree_levels keccak (take TREE_HEIGHT EMPTY_HASHES) (hl_len (log_list s))) (\<lambda>curr_non_default.
          if curr_non_default \<noteq> 0 then nth_or_panic 0 else ret (EMPTY_HASHES ! 14))
        (map (\<lambda>m. log_hash keccak (log_from m)) (hl_iter (log_list s))))"

definition l1_txs_commitment :: "(bytes \<Rightarrow> bytes32) \<Rightarrow> logs_storage \<Rightarrow> u32 \<times> bytes32" where
  "l1_txs_commitment keccak s =
     fold (\<lambda>m (count, rolling_hash).
         case log_data m of
           L1TxLog tx_hash _ \<Rightarrow> (count + 1, hash_pair keccak rolling_hash tx_hash)
         | UserMsg _ _ _ \<Rightarrow> (count, rolling_hash))
       (hl_iter (log_list s))
       (0, 0xc5d2460186f7233c927e7db2dcc703c0e500b653ca82273b7bfad8045d85a470)"

section \<open>Frames and reachable storages\<close>

datatype logs_op =
    PushMessage u32 b160 bytes bytes32
  | PushL1Tx u32 bytes32 bool
  | StartFrame
  | FinishFrame "nat option"
  | BeginNewTx

fun logs_exec :: "logs_op \<Rightarrow> (logs_storage, internal_error, unit) rs" where
  "logs_exec (PushMessage tx a d h) = push_message tx a d h"
| "logs_exec (PushL1Tx tx h ok) = push_l1_l2_tx_log tx h ok"
| "logs_exec StartFrame = and_then logs_start_frame (\<lambda>_. ret ())"
| "logs_exec (FinishFrame h) = logs_finish_frame h"
| "logs_exec BeginNewTx = modify_st logs_begin_new_tx"

text \<open>A message is a slice of less than 4 GiB.\<close>

fun message_fits :: "logs_op \<Rightarrow> bool" where
  "message_fits (PushMessage tx a d h) \<longleftrightarrow> length d + 92 < 2 ^ 32"
| "message_fits _ \<longleftrightarrow> True"

inductive logs_reachable :: "logs_storage \<Rightarrow> bool" where
  logs_reach_new: "logs_reachable logs_new"
| logs_reach_step: "logs_reachable s \<Longrightarrow> message_fits op \<Longrightarrow> logs_exec op s = (Inr (), t) \<Longrightarrow> logs_reachable t"

text \<open>Steps inside a transaction that found \<open>n\<close> logs: no new transaction, no rollback below \<open>n\<close>.\<close>

fun inside_tx :: "nat \<Rightarrow> logs_op \<Rightarrow> bool" where
  "inside_tx n BeginNewTx \<longleftrightarrow> False"
| "inside_tx n (FinishFrame (Some i)) \<longleftrightarrow> n \<le> i"
| "inside_tx n _ \<longleftrightarrow> True"

inductive logs_since_tx :: "nat \<Rightarrow> logs_storage \<Rightarrow> logs_storage \<Rightarrow> bool" for n s where
  logs_since_refl: "logs_since_tx n s s"
| logs_since_step: "logs_since_tx n s t \<Longrightarrow> message_fits op \<Longrightarrow> inside_tx n op \<Longrightarrow>
    logs_exec op t = (Inr (), u) \<Longrightarrow> logs_since_tx n s u"

definition log_size :: "log_content \<Rightarrow> nat" where
  "log_size m = (case log_data m of UserMsg _ d _ \<Rightarrow> 4 + length d + 88 | L1TxLog _ _ \<Rightarrow> 88)"

definition logs_size :: "(log_content, u32) history_list \<Rightarrow> nat" where
  "logs_size l = sum_list (map (log_size \<circ> fst) l)"

text \<open>Every entry carries the number of bytes of all logs up to it.\<close>

definition cumulative :: "(log_content, u32) history_list \<Rightarrow> bool" where
  "cumulative l \<longleftrightarrow> (\<forall>n \<le> length l. unat (total_pubdata (take n l)) = logs_size (take n l))"

lemma cumulative_total: "cumulative l \<Longrightarrow> unat (total_pubdata l) = logs_size l"
  by (metis cumulative_def order_refl take_all_iff)

lemma cumulative_take: "cumulative l \<Longrightarrow> cumulative (take n l)"
  by (simp add: cumulative_def min_def)

lemma cumulative_snoc:
  "cumulative (l @ [(m, p)]) \<longleftrightarrow> cumulative l \<and> unat p = logs_size l + log_size m"
proof -
  have "total_pubdata (l @ [(m, p)]) = p" "logs_size (l @ [(m, p)]) = logs_size l + log_size m"
    by (simp_all add: total_pubdata_def logs_size_def)
  then show ?thesis
    by (auto simp: cumulative_def le_Suc_eq)
qed

lemma logs_size_mono: "i \<le> length l \<Longrightarrow> logs_size (take i l) \<le> logs_size l"
  by (metis append_take_drop_id le_add1 logs_size_def map_append sum_list_append)

lemmas logs_defs = push_message_def push_l1_l2_tx_log_def add_pubdata_def logs_start_frame_def
  logs_finish_frame_def on_log_list_def on_part_def hl_defs L2_TO_L1_LOG_SERIALIZE_SIZE_def

lemma add_pubdata_res:
  assumes "cumulative (log_list s)" and "add_pubdata n s = (Inr tot, t)"
  shows "t = s \<and> unat tot = logs_size (log_list s) + unat n"
proof (cases "log_list s" rule: rev_cases)
  case Nil
  then show ?thesis using assms(2) by (auto simp: logs_defs logs_size_def split: option.splits)
next
  case (snoc l mp)
  then have "unat (snd mp) = logs_size (log_list s)"
    using cumulative_total [OF assms(1)] by (simp add: total_pubdata_def)
  then show ?thesis
    using assms(2) snoc by (auto simp: logs_defs checked_add_Some split: option.splits prod.splits)
qed

lemma push_res:
  assumes "cumulative (log_list s)"
  shows "push_message tx a d h s = (Inr (), t) \<Longrightarrow> length d + 92 < 2 ^ 32 \<Longrightarrow>
      \<exists>e. t = s\<lparr>log_list := log_list s @ [e]\<rparr> \<and> cumulative (log_list t)"
    and "push_l1_l2_tx_log tx' h' ok s = (Inr (), t) \<Longrightarrow>
      \<exists>e. t = s\<lparr>log_list := log_list s @ [e]\<rparr> \<and> cumulative (log_list t)"
proof -
  assume push: "push_message tx a d h s = (Inr (), t)" and fits: "length d + 92 < 2 ^ 32"
  obtain tot u where add: "add_pubdata (word_of_nat (4 + length d + 88)) s = (Inr tot, u)"
    using push by (auto simp: push_message_def and_then_def L2_TO_L1_LOG_SERIALIZE_SIZE_def split: prod.splits sum.splits)
  note res = add_pubdata_res [OF assms add]
  have "unat (word_of_nat (4 + length d + 88) :: u32) = length d + 92"
    by (rule unat_word_of_nat [THEN trans]) (use fits in simp_all)
  with res push add show "\<exists>e. t = s\<lparr>log_list := log_list s @ [e]\<rparr> \<and> cumulative (log_list t)"
    using assms by (auto simp: push_message_def and_then_def [of "add_pubdata _"] L2_TO_L1_LOG_SERIALIZE_SIZE_def
        on_log_list_def on_part_def hl_push_def modify_st_def vec_push_def cumulative_snoc log_size_def)
next
  assume push: "push_l1_l2_tx_log tx' h' ok s = (Inr (), t)"
  obtain tot u where add: "add_pubdata (word_of_nat 88) s = (Inr tot, u)"
    using push by (auto simp: push_l1_l2_tx_log_def and_then_def L2_TO_L1_LOG_SERIALIZE_SIZE_def split: prod.splits sum.splits)
  note res = add_pubdata_res [OF assms add]
  with push add show "\<exists>e. t = s\<lparr>log_list := log_list s @ [e]\<rparr> \<and> cumulative (log_list t)"
    using assms by (auto simp: push_l1_l2_tx_log_def and_then_def [of "add_pubdata _"] L2_TO_L1_LOG_SERIALIZE_SIZE_def
        on_log_list_def on_part_def hl_push_def modify_st_def vec_push_def cumulative_snoc log_size_def)
qed

lemma logs_exec_res:
  assumes cum: "cumulative (log_list s)" and fits: "message_fits op" and ex: "logs_exec op s = (Inr (), t)"
  shows "cumulative (log_list t) \<and>
    (op = BeginNewTx \<or> pubdata_used_by_committed_logs t = pubdata_used_by_committed_logs s \<and>
      ((\<exists>e. log_list t = log_list s @ [e]) \<or> log_list t = log_list s \<or>
       (\<exists>i. op = FinishFrame (Some i) \<and> log_list t = take i (log_list s))))"
proof (cases op)
  case (PushMessage tx a d h)
  then show ?thesis using push_res(1) [OF cum] fits ex by fastforce
next
  case (PushL1Tx tx h ok)
  then show ?thesis using push_res(2) [OF cum] ex by fastforce
next
  case (FinishFrame handle)
  then show ?thesis using ex cum cumulative_take by (cases handle) (auto simp: logs_defs)
qed (use ex cum in \<open>auto simp: logs_defs logs_begin_new_tx_def\<close>)

lemma reachable_cumulative: "logs_reachable s \<Longrightarrow> cumulative (log_list s)"
proof (induction rule: logs_reachable.induct)
  case logs_reach_new
  then show ?case by (simp add: logs_new_def hl_new_def vec_new_def cumulative_def total_pubdata_def logs_size_def)
next
  case (logs_reach_step s op t)
  then show ?case using logs_exec_res by blast
qed

definition logs_frames :: "logs_storage \<Rightarrow> (nat \<times> logs_storage) list \<Rightarrow> bool" where
  "logs_frames s fs \<longleftrightarrow>
     cumulative (log_list s) \<and>
     sorted_wrt (\<lambda>x y. fst y \<le> fst x) fs \<and>
     (\<forall>(i, x) \<in> set fs. i \<le> length (log_list s) \<and> x = s\<lparr>log_list := take i (log_list s)\<rparr>)"

definition log_pushed :: "logs_storage \<Rightarrow> logs_storage \<Rightarrow> bool" where
  "log_pushed s s' \<longleftrightarrow> (\<exists>op tx a d h h' ok. op \<in> {PushMessage tx a d h, PushL1Tx tx h' ok} \<and>
     message_fits op \<and> logs_exec op s = (Inr (), s'))"

lemma log_pushed_res:
  assumes "cumulative (log_list s)" and "log_pushed s s'"
  shows "\<exists>e. s' = s\<lparr>log_list := log_list s @ [e]\<rparr> \<and> cumulative (log_list s')"
proof -
  obtain op tx a d h h' ok where "op = PushMessage tx a d h \<or> op = PushL1Tx tx h' ok"
    and op: "message_fits op" "logs_exec op s = (Inr (), s')"
    using assms(2) unfolding log_pushed_def by blast
  then show ?thesis
  proof (elim disjE)
    assume "op = PushMessage tx a d h"
    with op show ?thesis using push_res(1) [OF assms(1), of tx a d h s'] by simp
  next
    assume "op = PushL1Tx tx h' ok"
    with op show ?thesis using push_res(2) [OF assms(1), of tx h' ok s'] by simp
  qed
qed

interpretation lg: frame_store logs_frames "\<lambda>s. s" "(=)" "\<lambda>_. True" logs_start_frame
    logs_finish_frame log_pushed
proof
  fix s s' :: logs_storage and fs f i x
  show "\<exists>t. logs_finish_frame (Some i) s = (Inr (), t) \<and> logs_frames t fs \<and> x = t"
    if "logs_frames s ((i, x) # fs)"
    using that by (fastforce simp: logs_defs logs_frames_def cumulative_take min_def)
  show "logs_frames s' fs" if fr: "logs_frames s fs" and pushed: "log_pushed s s'"
  proof -
    obtain e where "s' = s\<lparr>log_list := log_list s @ [e]\<rparr>" "cumulative (log_list s')"
      using log_pushed_res [OF _ pushed] fr by (auto simp: logs_frames_def)
    with fr show ?thesis by (fastforce simp: logs_frames_def)
  qed
qed (auto simp: logs_frames_def logs_defs)

section \<open>Properties\<close>

lemma length_log_encode: "length (log_encode l) = 88"
  by (simp add: log_encode_def)

lemma emit_published [simp]: "published (emit bs out) = published out @ bs"
  by (simp add: emit_def)

lemma emit_hashed [simp]: "hashed (emit bs out) = hashed out @ bs"
  by (simp add: emit_def)

lemma emit_emit: "emit b (emit a out) = emit (a @ b) out"
  by (simp add: emit_def)

lemma emit_logs_out:
  "emit_logs keccak ms (c, out, hs) =
     (c + word_of_nat (length (filter is_user_msg ms)),
      emit (concat (map (log_encode \<circ> log_from) ms)) out,
      hs @ map (\<lambda>m. log_hash keccak (log_from m)) ms)"
proof (induction ms arbitrary: c out hs)
  case Nil
  then show ?case by (simp add: emit_def)
qed (simp add: emit_emit)

definition message_bytes :: "log_content \<Rightarrow> bytes" where
  "message_bytes m = (case log_data m of
     UserMsg _ data _ \<Rightarrow> to_be_bytes (word_of_nat (length data) :: u32) @ data | L1TxLog _ _ \<Rightarrow> [])"

lemma emit_messages_out: "emit_messages ms out = emit (concat (map message_bytes ms)) out"
proof (induction ms arbitrary: out)
  case Nil
  then show ?case by (simp add: emit_def)
qed (simp add: emit_emit message_bytes_def split: log_content_data.splits)

lemma logs_size_split:
  "logs_size l = length (concat (map (log_encode \<circ> log_from) (map fst l))) +
     length (concat (map message_bytes (map fst l)))"
  by (induction l)
     (auto simp: logs_size_def log_size_def message_bytes_def length_log_encode split: log_content_data.splits)

text \<open>C16: The pubdata the log storage accounts for is the pubdata it publishes: for every
  storage that pushes, frames, rollbacks and transaction starts can produce, publishing
  emits the counted total and the two four-byte counts, and the hasher is given the same
  bytes as the result keeper.\<close>

theorem logs_pubdata_accounted:
  assumes "logs_reachable s" and "hashed out = published out"
  shows "length (published (fst (apply_logs_to_pubdata_and_record_log_hashes keccak s out))) =
      length (published out) + 8 + unat (total_pubdata (log_list s)) \<and>
    hashed (fst (apply_logs_to_pubdata_and_record_log_hashes keccak s out)) =
      published (fst (apply_logs_to_pubdata_and_record_log_hashes keccak s out)) \<and>
    snd (apply_logs_to_pubdata_and_record_log_hashes keccak s out) =
      map (\<lambda>m. log_hash keccak (log_from m)) (hl_iter (log_list s))"
proof -
  have "unat (total_pubdata (log_list s)) = logs_size (log_list s)"
    using cumulative_total [OF reachable_cumulative [OF assms(1)]] .
  then show ?thesis
    using assms(2) by (simp add: apply_logs_to_pubdata_and_record_log_hashes_def emit_logs_out
        emit_messages_out logs_size_split hl_iter_def)
qed

theorem logs_pubdata_accounted_witness:
  "\<exists>s. logs_exec (PushMessage 0 7 [1, 2, 3] 9) logs_new = (Inr (), s) \<and>
     length (published (fst (apply_logs_to_pubdata_and_record_log_hashes (\<lambda>_. 0) s \<lparr>hashed = [], published = []\<rparr>))) = 103"
proof -
  let ?s = "snd (logs_exec (PushMessage 0 7 [1, 2, 3] 9) logs_new)"
  have ex: "logs_exec (PushMessage 0 7 [1, 2, 3] 9) logs_new = (Inr (), ?s)" "unat (total_pubdata (log_list ?s)) = 95"
    by (simp_all add: logs_defs logs_new_def total_pubdata_def)
  have "logs_reachable ?s" by (rule logs_reach_step [OF logs_reach_new _ ex(1)]) simp
  from logs_pubdata_accounted [OF this, of "\<lparr>hashed = [], published = []\<rparr>" "\<lambda>_. 0"] ex show ?thesis
    by (intro exI [of _ ?s]) simp
qed

text \<open>C17: What a transaction is charged for its logs is the size of the logs it emitted and
  did not roll back; the internal error for a shrinking total never occurs, whatever frames
  the transaction opened, kept or rolled back.\<close>

theorem logs_charged_to_tx:
  assumes "logs_reachable s" and "logs_since_tx (length (log_list s)) (logs_begin_new_tx s) t"
  shows "\<exists>p. calculate_pubdata_used_by_tx t = (Inr p, t) \<and>
    unat p = logs_size (drop (length (log_list s)) (log_list t))"
proof -
  let ?n = "length (log_list s)"
  have cs: "cumulative (log_list s)" using assms(1) by (rule reachable_cumulative)
  have "cumulative (log_list t) \<and> take ?n (log_list t) = log_list s \<and>
      pubdata_used_by_committed_logs t = total_pubdata (log_list s)"
    using assms(2)
  proof induction
    case logs_since_refl
    then show ?case using cs by (simp add: logs_begin_new_tx_def)
  next
    case (logs_since_step t op u)
    then have IH: "cumulative (log_list t)" "take ?n (log_list t) = log_list s"
      "pubdata_used_by_committed_logs t = total_pubdata (log_list s)" by auto
    have len: "?n \<le> length (log_list t)" using IH(2) by (metis length_take min.cobounded2 min.commute)
    have "op \<noteq> BeginNewTx" using logs_since_step.hyps(3) by auto
    with logs_exec_res [OF IH(1) logs_since_step.hyps(2,4)] IH len logs_since_step.hyps(3)
    show ?case by (auto simp: min_def)
  qed
  then have t: "cumulative (log_list t)" "take ?n (log_list t) = log_list s"
    "pubdata_used_by_committed_logs t = total_pubdata (log_list s)" by auto
  have "logs_size (log_list t) = logs_size (log_list s) + logs_size (drop ?n (log_list t))"
    by (metis append_take_drop_id logs_size_def map_append sum_list_append t(2))
  then have sz: "unat (total_pubdata (log_list t)) = unat (total_pubdata (log_list s)) + logs_size (drop ?n (log_list t))"
    using cumulative_total [OF t(1)] cumulative_total [OF cs] by simp
  then have "total_pubdata (log_list s) \<le> total_pubdata (log_list t)" by (simp add: word_le_nat_alt)
  with sz t(3) show ?thesis
    by (auto simp: calculate_pubdata_used_by_tx_def rs_simps unat_sub_le not_less [symmetric])
qed

theorem logs_charged_to_tx_witness:
  "\<exists>t p. logs_exec (PushL1Tx 0 5 True) (logs_begin_new_tx logs_new) = (Inr (), t) \<and>
     calculate_pubdata_used_by_tx t = (Inr p, t) \<and> unat p = 88"
proof -
  let ?t = "snd (logs_exec (PushL1Tx 0 5 True) (logs_begin_new_tx logs_new))"
  have ex: "logs_exec (PushL1Tx 0 5 True) (logs_begin_new_tx logs_new) = (Inr (), ?t)"
    by (simp add: logs_defs logs_new_def logs_begin_new_tx_def total_pubdata_def)
  have "logs_since_tx (length (log_list logs_new)) (logs_begin_new_tx logs_new) ?t"
    by (rule logs_since_step [OF logs_since_refl _ _ ex]) simp_all
  from logs_charged_to_tx [OF logs_reach_new this] ex show ?thesis
    by (auto simp: logs_defs logs_new_def logs_begin_new_tx_def total_pubdata_def logs_size_def log_size_def)
qed

text \<open>C18: The 88-byte encoding of a log determines it.\<close>

theorem log_encode_injective: "log_encode l = log_encode l' \<longleftrightarrow> l = l'"
proof
  assume eq: "log_encode l = log_encode l'"
  have "l2_shard_id l = l2_shard_id l'" "is_service l = is_service l'"
    "to_be_bytes (tx_number_in_block l) = to_be_bytes (tx_number_in_block l')"
    "to_be_bytes (sender l) = to_be_bytes (sender l')" "to_be_bytes (log_key l) = to_be_bytes (log_key l')"
    "to_be_bytes (log_value l) = to_be_bytes (log_value l')"
    using eq by (auto simp: log_encode_def split: if_splits)
  then show "l = l'" by (cases l; cases l') (simp add: to_be_bytes_inj)
qed simp


section \<open>The in-place Merkle root is the root of the full tree\<close>

fun merkle :: "('h \<Rightarrow> 'h \<Rightarrow> 'h) \<Rightarrow> nat \<Rightarrow> 'h list \<Rightarrow> 'h" where
  "merkle h 0 xs = hd xs"
| "merkle h (Suc n) xs = h (merkle h n (take (2 ^ n) xs)) (merkle h n (drop (2 ^ n) xs))"

text \<open>One level of parents; a missing right sibling is \<open>d\<close>.\<close>

fun parents :: "('h \<Rightarrow> 'h \<Rightarrow> 'h) \<Rightarrow> 'h \<Rightarrow> 'h list \<Rightarrow> 'h list" where
  "parents h d [] = []"
| "parents h d [a] = [h a d]"
| "parents h d (a # b # xs) = h a b # parents h d xs"

lemma length_parents [simp]: "length (parents h d xs) = div_ceil (length xs) 2"
  by (induction h d xs rule: parents.induct) (auto simp: div_ceil_def)

lemma parents_nth:
  "i < div_ceil (length xs) 2 \<Longrightarrow>
   parents h d xs ! i = h (xs ! (i * 2)) (if i * 2 + 1 < length xs then xs ! (i * 2 + 1) else d)"
proof (induction h d xs arbitrary: i rule: parents.induct)
  case (3 h d a b xs)
  then show ?case by (cases i) (auto simp: div_ceil_def)
qed (auto simp: div_ceil_def)

lemma parents_append: "even (length xs) \<Longrightarrow> parents h d (xs @ ys) = parents h d xs @ parents h d ys"
  by (induction h d xs rule: parents.induct) auto

lemma parents_replicate: "parents h e (replicate (2 * n) e) = replicate n (h e e)"
  by (induction n) simp_all

lemma merkle_parents: "length xs = 2 ^ Suc n \<Longrightarrow> merkle h (Suc n) xs = merkle h n (parents h d xs)"
proof (induction n arbitrary: xs)
  case 0
  then obtain a b where "xs = [a, b]" by (auto simp: numeral_2_eq_2 length_Suc_conv)
  then show ?case by simp
next
  case (Suc n)
  let ?l = "take (2 ^ Suc n) xs" and ?r = "drop (2 ^ Suc n) xs"
  have len: "length ?l = 2 ^ Suc n" "length ?r = 2 ^ Suc n" using Suc.prems by auto
  have "parents h d xs = parents h d ?l @ parents h d ?r"
    using parents_append [of ?l h d ?r] len by simp
  moreover have "length (parents h d ?l) = 2 ^ n" using len by (simp add: div_ceil_def)
  ultimately show ?case using Suc.IH [OF len(1)] Suc.IH [OF len(2)] by simp
qed

lemma parents_pad:
  assumes "length ys \<le> 2 ^ Suc n"
  shows "parents h e (ys @ replicate (2 ^ Suc n - length ys) e) =
    parents h e ys @ replicate (2 ^ n - length (parents h e ys)) (h e e)"
proof (cases "even (length ys)")
  case True
  then obtain k where k: "length ys = 2 * k" by blast
  then have "2 ^ Suc n - length ys = 2 * (2 ^ n - k)" using assms by simp
  then show ?thesis using k by (simp add: parents_append True parents_replicate div_ceil_def)
next
  case False
  then obtain k where k: "length ys = 2 * k + 1" by (elim oddE)
  then obtain zs z where z: "ys = zs @ [z]" "length zs = 2 * k" by (cases ys rule: rev_cases) auto
  have "2 ^ Suc n - length ys = Suc (2 * (2 ^ n - k - 1))" using assms k by simp
  then have "ys @ replicate (2 ^ Suc n - length ys) e = zs @ z # e # replicate (2 * (2 ^ n - k - 1)) e" using z by simp
  then have "parents h e (ys @ replicate (2 ^ Suc n - length ys) e) = parents h e zs @ h z e # replicate (2 ^ n - k - 1) (h e e)"
    using z by (simp add: parents_append parents_replicate)
  moreover have "parents h e ys = parents h e zs @ [h z e]" using z by (simp add: parents_append)
  moreover have "length (parents h e ys) = Suc k" using k by (simp add: div_ceil_def)
  ultimately show ?thesis by (simp add: diff_diff_add)
qed

lemma merkle_levels:
  assumes "length es = Suc n" and "\<And>k. k < n \<Longrightarrow> es ! Suc k = h (es ! k) (es ! k)" and "length ys \<le> 2 ^ n"
  shows "merkle h n (ys @ replicate (2 ^ n - length ys) (hd es)) =
    (let zs = fold (parents h) (take n es) ys in if zs = [] then last es else hd zs)"
  using assms
proof (induction n arbitrary: es ys)
  case 0
  then obtain e where "es = [e]" by (auto simp: length_Suc_conv)
  with 0 show ?case by (cases ys) auto
next
  case (Suc n)
  obtain e es' where es: "es = e # es'" "length es' = Suc n" using Suc.prems(1) by (cases es) auto
  have hd: "hd es' = h e e" using Suc.prems(2) [of 0] es by (cases es') auto
  let ?ps = "parents h e ys"
  have "merkle h (Suc n) (ys @ replicate (2 ^ Suc n - length ys) e) =
      merkle h n (?ps @ replicate (2 ^ n - length ?ps) (hd es'))"
    using Suc.prems(3) parents_pad [OF Suc.prems(3), of h e] hd
    by (subst merkle_parents [of _ n h e]) simp_all
  also have "\<dots> = (let zs = fold (parents h) (take n es') ?ps in if zs = [] then last es' else hd zs)"
  proof (rule Suc.IH [OF es(2)])
    show "es' ! Suc k = h (es' ! k) (es' ! k)" if "k < n" for k
      using Suc.prems(2) [of "Suc k"] that es by simp
    show "length ?ps \<le> 2 ^ n" using Suc.prems(3) by (simp add: div_ceil_def)
  qed
  finally have eq: "merkle h (Suc n) (ys @ replicate (2 ^ Suc n - length ys) e) = \<dots>" .
  have l: "last (e # es') = last es'" using es(2) by auto
  show ?case unfolding es(1) by (simp only: eq list.sel take_Suc_Cons fold_simps l)
qed

text \<open>The loops compute exactly these levels on the prefix in use.\<close>

lemma tree_level_loop:
  assumes "k \<le> div_ceil c 2" and "c \<le> length s"
  shows "\<exists>t. tree_level keccak d c [k..<div_ceil c 2] s = (Inr (), t) \<and> length t = length s \<and>
    (\<forall>i < k. t ! i = s ! i) \<and>
    (\<forall>i. k \<le> i \<and> i < div_ceil c 2 \<longrightarrow> t ! i = hash_pair keccak (s ! (i * 2)) (if i * 2 + 1 < c then s ! (i * 2 + 1) else d))"
  using assms
proof (induction "div_ceil c 2 - k" arbitrary: k s)
  case 0
  then show ?case by (auto simp: ret_def)
next
  case (Suc n)
  then have k: "k < div_ceil c 2" by simp
  then have "k * 2 < c" by (simp add: div_ceil_def) 
  let ?v = "hash_pair keccak (s ! (k * 2)) (if k * 2 + 1 < c then s ! (k * 2 + 1) else d)"
  let ?s = "s[k := ?v]"
  have run: "tree_level keccak d c [k..<div_ceil c 2] s = tree_level keccak d c [Suc k..<div_ceil c 2] ?s"
    using k \<open>k * 2 < c\<close> Suc.prems(2)
    by (simp add: upt_conv_Cons nth_or_panic_def set_nth_def rs_simps)
  obtain t where t: "tree_level keccak d c [Suc k..<div_ceil c 2] ?s = (Inr (), t)" "length t = length ?s"
    "\<forall>i < Suc k. t ! i = ?s ! i"
    "\<forall>i. Suc k \<le> i \<and> i < div_ceil c 2 \<longrightarrow> t ! i = hash_pair keccak (?s ! (i * 2)) (if i * 2 + 1 < c then ?s ! (i * 2 + 1) else d)"
  proof -
    have "n = div_ceil c 2 - Suc k" "Suc k \<le> div_ceil c 2" "c \<le> length ?s" using Suc.hyps(2) k Suc.prems(2) by simp_all
    from Suc.hyps(1) [OF this] that show thesis by blast
  qed
  have "t ! i = hash_pair keccak (s ! (i * 2)) (if i * 2 + 1 < c then s ! (i * 2 + 1) else d)"
    if "k \<le> i" "i < div_ceil c 2" for i
  proof (cases "i = k")
    case True
    then show ?thesis using t(3) \<open>k * 2 < c\<close> Suc.prems(2) by auto
  next
    case False
    then show ?thesis using t(4) that by auto
  qed
  moreover have "\<forall>i < k. t ! i = s ! i" using t(3) by auto
  ultimately show ?case using run t(1,2) by auto
qed

lemma tree_level_prefix:
  assumes "c \<le> length s"
  obtains t where "tree_level keccak d c [0..<div_ceil c 2] s = (Inr (), t)" "length t = length s"
    "take (div_ceil c 2) t = parents (hash_pair keccak) d (take c s)"
proof -
  obtain t where t: "tree_level keccak d c [0..<div_ceil c 2] s = (Inr (), t)" "length t = length s"
    "\<forall>i. i < div_ceil c 2 \<longrightarrow> t ! i = hash_pair keccak (s ! (i * 2)) (if i * 2 + 1 < c then s ! (i * 2 + 1) else d)"
    using tree_level_loop [of 0 c s keccak d] assms by auto
  have le: "div_ceil c 2 \<le> c" by (cases c) (auto simp: div_ceil_def)
  have "take (div_ceil c 2) t = parents (hash_pair keccak) d (take c s)"
  proof (rule nth_equalityI)
    fix i assume "i < length (take (div_ceil c 2) t)"
    then have i: "i < div_ceil c 2" by simp
    then have "i * 2 < c" by (simp add: div_ceil_def)
    then show "take (div_ceil c 2) t ! i = parents (hash_pair keccak) d (take c s) ! i"
      using t(3) i assms parents_nth [of i "take c s" "hash_pair keccak" d] by (simp add: min_def)
  qed (use assms t(2) le in \<open>simp add: min_def\<close>)
  with t that show thesis by blast
qed

lemma tree_levels_prefix:
  assumes "c \<le> length s"
  shows "\<exists>t. tree_levels keccak ds c s = (Inr (length (fold (parents (hash_pair keccak)) ds (take c s))), t) \<and>
    length t = length s \<and>
    take (length (fold (parents (hash_pair keccak)) ds (take c s))) t = fold (parents (hash_pair keccak)) ds (take c s)"
  using assms
proof (induction ds arbitrary: c s)
  case (Cons d ds)
  obtain t where t: "tree_level keccak d c [0..<div_ceil c 2] s = (Inr (), t)" "length t = length s"
    "take (div_ceil c 2) t = parents (hash_pair keccak) d (take c s)"
    using tree_level_prefix [OF Cons.prems] by blast
  have "div_ceil c 2 \<le> length t" using Cons.prems t(2) by (cases c) (auto simp: div_ceil_def)
  from Cons.IH [OF this] t show ?case by (simp add: and_then_def)
qed (simp add: ret_def min_def)

text \<open>C14: The Merkle root computed in place, level by level, over only the logs that exist
  is the root of the full binary tree of height 14 over the log hashes followed by default
  leaves, as long as the hard-coded hashes of empty subtrees are those of the hash function
  and the number of logs is within the block limit.\<close>

theorem tree_root_is_merkle_root:
  assumes "\<And>k. k < 14 \<Longrightarrow> EMPTY_HASHES ! Suc k = hash_pair keccak (EMPTY_HASHES ! k) (EMPTY_HASHES ! k)"
    and "length (log_list s) \<le> 2 ^ 14"
  shows "tree_root keccak s = Inr (merkle (hash_pair keccak) 14
    (map (\<lambda>m. log_hash keccak (log_from m)) (hl_iter (log_list s)) @
     replicate (2 ^ 14 - length (log_list s)) (EMPTY_HASHES ! 0)))"
proof -
  let ?ys = "map (\<lambda>m. log_hash keccak (log_from m)) (hl_iter (log_list s))"
  let ?zs = "fold (parents (hash_pair keccak)) (take 14 EMPTY_HASHES) ?ys"
  have len: "length ?ys = length (log_list s)" "length EMPTY_HASHES = Suc 14"
    by (simp_all add: hl_iter_def EMPTY_HASHES_def)
  obtain t where t: "tree_levels keccak (take 14 EMPTY_HASHES) (length ?ys) ?ys = (Inr (length ?zs), t)"
    "length t = length ?ys" "take (length ?zs) t = ?zs"
    using tree_levels_prefix [of "length ?ys" ?ys keccak "take 14 EMPTY_HASHES"] by auto
  have "tree_root keccak s = Inr (if ?zs = [] then EMPTY_HASHES ! 14 else hd ?zs)"
  proof (cases "?zs = []")
    case True
    then show ?thesis using t(1) len(1)
      by (simp add: tree_root_def TREE_HEIGHT_def hl_len_def vec_len_def and_then_def ret_def)
  next
    case False
    then have "0 < length t" "t ! 0 = hd ?zs" using t(3) by (metis length_greater_0_conv take_Nil, metis hd_conv_nth length_greater_0_conv nth_take)
    then show ?thesis using t(1) len(1) False
      by (simp add: tree_root_def TREE_HEIGHT_def hl_len_def vec_len_def nth_or_panic_def rs_simps)
  qed
  moreover have "last EMPTY_HASHES = EMPTY_HASHES ! 14" "hd EMPTY_HASHES = EMPTY_HASHES ! 0"
    by (simp_all add: EMPTY_HASHES_def)
  ultimately show ?thesis
    using merkle_levels [where h = "hash_pair keccak" and ys = ?ys, OF len(2) assms(1)] assms(2) len(1) by (simp add: Let_def)
qed

text \<open>A hash function for which the table of empty subtrees is right.\<close>

definition table_hash :: "bytes \<Rightarrow> bytes32" where
  "table_hash bs = (case map_of (zip (map (\<lambda>e. to_be_bytes e @ to_be_bytes e) (butlast EMPTY_HASHES)) (tl EMPTY_HASHES)) bs of
     Some x \<Rightarrow> x | None \<Rightarrow> 0)"

theorem tree_root_is_merkle_root_witness:
  "tree_root table_hash logs_new = Inr (merkle (hash_pair table_hash) 14 (replicate (2 ^ 14) (EMPTY_HASHES ! 0)))"
proof -
  have "EMPTY_HASHES ! Suc k = hash_pair table_hash (EMPTY_HASHES ! k) (EMPTY_HASHES ! k)" if "k < 14" for k
  proof -
    have len: "length EMPTY_HASHES = 15" by (simp add: EMPTY_HASHES_def)
    have "distinct (butlast EMPTY_HASHES)" by (simp add: EMPTY_HASHES_def)
    then have "distinct (map (\<lambda>e. to_be_bytes e @ to_be_bytes e) (butlast EMPTY_HASHES))"
      by (simp add: distinct_map inj_on_def to_be_bytes_inj)
    from map_of_zip_nth [OF _ this, of "tl EMPTY_HASHES" k] that len show ?thesis
      by (simp add: table_hash_def hash_pair_def nth_butlast nth_tl)
  qed
  from tree_root_is_merkle_root [OF this, of logs_new] show ?thesis
    by (simp add: logs_new_def hl_new_def vec_new_def hl_iter_def)
qed

end
