(* ===== verification/Cache_View.thy ===== *)
theory Cache_View
  imports Frame_Store
begin

text \<open>
  The revertible map as its clients use it: a cache in front of an oracle. Every key has a
  value, the cached one or the one the oracle answers, so bringing a key into the cache is
  not visible, and a failed frame restores exactly what was visible when it was opened. The
  rules at the end state each operation of the map on this view.
\<close>

definition hm_view :: "('k \<Rightarrow> 'v) \<Rightarrow> ('k, 'v, 'kp) history_map \<Rightarrow> 'k \<Rightarrow> 'v" where
  "hm_view init m k = (case hm_values m k of Some v \<Rightarrow> v | None \<Rightarrow> init k)"

definition spec_total :: "('k \<Rightarrow> 'v) \<Rightarrow> ('k, 'v, 'kp) spec_map \<Rightarrow> snapshot_id \<Rightarrow> 'k \<Rightarrow> 'v" where
  "spec_total init A i k = (case dropWhile (newer i) (hist A k) of [] \<Rightarrow> init k | x # _ \<Rightarrow> snd x)"

definition from_oracle :: "('k \<Rightarrow> 'v) \<Rightarrow> ('k, 'v, 'kp) spec_map \<Rightarrow> bool" where
  "from_oracle init A \<longleftrightarrow> (\<forall>k. hist A k \<noteq> [] \<longrightarrow> snd (last (hist A k)) = init k)"

definition total_frames :: "('k \<Rightarrow> 'v) \<Rightarrow> ('k, 'v, 'kp) spec_map \<Rightarrow> (snapshot_id \<times> ('k \<Rightarrow> 'v)) list \<Rightarrow> bool" where
  "total_frames init A fs \<longleftrightarrow>
     sorted_wrt (\<lambda>x y. fst y \<le> fst x) fs \<and>
     (\<forall>(i, x) \<in> set fs. frozen_id A \<le> i \<and> i < next_id A \<and> x = spec_total init A i)"

text \<open>A sound map with the open frames \<open>fs\<close>.\<close>

definition hm_cache :: "('k \<Rightarrow> 'v) \<Rightarrow> ('k, 'v, 'kp) history_map \<Rightarrow> (snapshot_id \<times> ('k \<Rightarrow> 'v)) list \<Rightarrow> bool" where
  "hm_cache init m fs \<longleftrightarrow> (\<exists>A. hm_good m A \<and> from_oracle init A \<and> total_frames init A fs)"

lemma hm_view_spec: "hm_rel m A \<Longrightarrow> hm_view init m k = (case hist A k of [] \<Rightarrow> init k | x # _ \<Rightarrow> snd x)"
  by (simp add: hm_view_def hm_values_spec spec_values_def split: list.splits)

lemma hm_view_hd: "hm_rel m A \<Longrightarrow> hist A k \<noteq> [] \<Longrightarrow> hm_view init m k = snd (hd (hist A k))"
  by (cases "hist A k") (simp_all add: hm_view_spec)

lemma hm_cache_new: "hm_cache init hm_new []"
  using hm_rel_new spec_wf_new
  by (auto simp: hm_cache_def hm_good_def from_oracle_def total_frames_def)

lemma hm_view_new [simp]: "hm_view init hm_new = init"
  by (rule ext) (simp add: hm_view_def hm_values_def hm_new_def)

section \<open>What the changes of the specification do to the view\<close>

lemma total_insert:
  assumes "hist A k = []"
  shows "spec_total init (spec_insert k (init k) kp A) i = spec_total init A i"
  using assms by (auto simp: spec_total_def spec_insert_def newer_def fun_eq_iff)

lemma total_write:
  assumes "i < next_id A" and "hist A k \<noteq> []"
  shows "spec_total init (spec_write k v A) i = spec_total init A i"
  using dropWhile_write [OF assms] by (simp add: spec_total_def fun_eq_iff)

lemma total_set_props: "spec_total init (spec_set_props k g A) = spec_total init A"
  by (simp add: fun_eq_iff spec_total_def spec_set_props_def)

lemma cache_set_props:
  assumes "from_oracle init A" and "total_frames init A fs"
  shows "from_oracle init (spec_set_props k g A)" and "total_frames init (spec_set_props k g A) fs"
proof -
  have "hist (spec_set_props k g A) = hist A" "next_id (spec_set_props k g A) = next_id A"
    "frozen_id (spec_set_props k g A) = frozen_id A" by (simp_all add: spec_set_props_def)
  then show "from_oracle init (spec_set_props k g A)" "total_frames init (spec_set_props k g A) fs"
    using assms by (simp_all add: from_oracle_def total_frames_def total_set_props)
qed

lemma from_oracle_write:
  assumes "from_oracle init A" and "spec_wf A" and "hist A k \<noteq> []"
  shows "from_oracle init (spec_write k v A)"
proof -
  have "last (hist (spec_write k v A) k') = last (hist A k')" for k'
  proof (cases "k' = k \<and> fst (hd (hist A k)) = next_id A")
    case True
    then have "tl (hist A k) \<noteq> []"
      using spec_wfD(1) [OF assms(2)] spec_wfD(4) [OF assms(2), of k] assms(3)
      by (cases "hist A k") (auto simp: desc_def)
    with True assms(3) show ?thesis by (cases "hist A k") (auto simp: spec_write_def)
  next
    case False
    then show ?thesis using assms(3) by (auto simp: spec_write_def)
  qed
  then show ?thesis using assms by (auto simp: from_oracle_def spec_write_def)
qed

lemma total_frames_write:
  assumes "total_frames init A fs" and "hist A k \<noteq> []"
  shows "total_frames init (spec_write k v A) fs"
proof -
  have "next_id (spec_write k v A) = next_id A" "frozen_id (spec_write k v A) = frozen_id A"
    by (simp_all add: spec_write_def)
  then show ?thesis using assms total_write [OF _ assms(2)] by (fastforce simp: total_frames_def)
qed

lemma total_frames_insert:
  assumes "total_frames init A fs" and "hist A k = []"
  shows "total_frames init (spec_insert k (init k) kp A) fs"
  using assms total_insert [OF assms(2)] by (auto simp: total_frames_def spec_insert_def)

lemma hm_cacheE:
  assumes "hm_cache init m fs"
  obtains A where "hm_rel m A" "spec_wf A" "from_oracle init A" "total_frames init A fs"
  using assms by (auto simp: hm_cache_def hm_good_def)

lemma hm_cacheI:
  assumes "hm_rel m A" "spec_wf A" "from_oracle init A" "total_frames init A fs"
  shows "hm_cache init m fs"
  using assms by (auto simp: hm_cache_def hm_good_def)

section \<open>The operations on the view\<close>

lemma cached_spec: "hm_rel m A \<Longrightarrow> btree m k \<noteq> None \<longleftrightarrow> hist A k \<noteq> []"
  by (simp add: hm_rel_absent)

lemma view_get_or_insert:
  assumes c: "hm_cache init m fs"
    and old: "btree m k \<noteq> None \<Longrightarrow> Q () (m, x)"
    and new: "btree m k = None \<Longrightarrow> wp spawn (\<lambda>(v, kp) x'. v = init k \<and>
        (\<forall>m'. hm_cache init m' fs \<longrightarrow> hm_view init m' = hm_view init m \<longrightarrow>
          btree m' k \<noteq> None \<longrightarrow> (\<forall>k'. btree m k' \<noteq> None \<longrightarrow> btree m' k' \<noteq> None) \<longrightarrow>
          map_option key_properties (btree m' k) = Some kp \<longrightarrow> Q () (m', x'))) (\<lambda>e x'. E e (m, x')) x"
  shows "wp (hm_get_or_insert k spawn) Q E (m, x)"
proof -
  obtain A where A: "hm_rel m A" "spec_wf A" "from_oracle init A" "total_frames init A fs" by (rule hm_cacheE [OF c])
  show ?thesis
  proof (rule wp_hm_get_or_insert [OF A(1)])
    show "Q () (m, x)" if "hist A k \<noteq> []" using old that cached_spec [OF A(1)] by blast
    assume none: "hist A k = []"
    then have "btree m k = None" using cached_spec [OF A(1)] by blast
    from new [OF this] show "wp spawn (\<lambda>(v, kp) x'. \<forall>m'. hm_rel m' (spec_insert k v kp A) \<longrightarrow> Q () (m', x'))
        (\<lambda>e x'. E e (m, x')) x"
    proof (rule wp_mono, goal_cases)
      case (1 vkp x')
      obtain v kp where [simp]: "vkp = (v, kp)" by (cases vkp)
      have v: "v = init k" using 1 by simp
      have "Q () (m', x')" if m': "hm_rel m' (spec_insert k v kp A)" for m'
      proof -
        let ?A = "spec_insert k v kp A"
        have "hm_cache init m' fs"
          using spec_wf_insert [OF A(2) none] A(3) total_frames_insert [OF A(4) none] v
          by (intro hm_cacheI [OF m']) (auto simp: from_oracle_def spec_insert_def)
        moreover have "hm_view init m' = hm_view init m"
          using none v by (auto simp: fun_eq_iff hm_view_spec [OF m'] hm_view_spec [OF A(1)] spec_insert_def)
        moreover have "btree m' k \<noteq> None" "\<forall>k'. btree m k' \<noteq> None \<longrightarrow> btree m' k' \<noteq> None"
          unfolding cached_spec [OF m'] cached_spec [OF A(1)] by (auto simp: spec_insert_def)
        moreover have "map_option key_properties (btree m' k) = Some kp"
          unfolding hm_rel_fields(4) [OF m'] by (simp add: spec_insert_def)
        ultimately show ?thesis using 1 by auto
      qed
      then show ?case by simp
    qed
  qed
qed

lemma view_current:
  assumes c: "hm_cache init m fs" and k: "btree m k \<noteq> None" and post: "Q (hm_view init m k) m"
  shows "wp (hm_current k) Q E m"
proof -
  obtain A where A: "hm_rel m A" "spec_wf A" "from_oracle init A" "total_frames init A fs" by (rule hm_cacheE [OF c])
  have h: "hist A k \<noteq> []" using k cached_spec [OF A(1)] by blast
  show ?thesis using wp_hm_current [OF A(1) h] by (rule wp_mono) (use post hm_view_hd [OF A(1) h, of init] in auto)
qed

lemma view_initial:
  assumes c: "hm_cache init m fs" and k: "btree m k \<noteq> None" and post: "Q (init k) m"
  shows "wp (hm_initial k) Q E m"
proof -
  obtain A where A: "hm_rel m A" "spec_wf A" "from_oracle init A" "total_frames init A fs" by (rule hm_cacheE [OF c])
  have h: "hist A k \<noteq> []" using k cached_spec [OF A(1)] by blast
  show ?thesis using wp_hm_initial [OF A(1) h] by (rule wp_mono) (use post A(3) h in \<open>auto simp: from_oracle_def\<close>)
qed

lemma view_update:
  assumes c: "hm_cache init m fs" and k: "btree m k \<noteq> None"
    and f: "f (hm_view init m k) = (Inr (), v')"
    and post: "\<And>m'. hm_cache init m' fs \<Longrightarrow> hm_view init m' = (hm_view init m)(k := v') \<Longrightarrow>
      (\<forall>k'. btree m k' \<noteq> None \<longleftrightarrow> btree m' k' \<noteq> None) \<Longrightarrow>
      (\<forall>k'. map_option key_properties (btree m' k') = map_option key_properties (btree m k')) \<Longrightarrow> Q () m'"
  shows "wp (hm_update k f) Q E m"
proof -
  obtain A where A: "hm_rel m A" "spec_wf A" "from_oracle init A" "total_frames init A fs" by (rule hm_cacheE [OF c])
  have h: "hist A k \<noteq> []" using k cached_spec [OF A(1)] by blast
  show ?thesis
  proof (rule wp_hm_update [OF A(1) h])
    show "f (snd (hd (hist A k))) = (Inr (), v')" using f hm_view_hd [OF A(1) h] by metis
    fix m' assume m': "hm_rel m' (spec_write k v' A)"
    have hist': "hist (spec_write k v' A) k' \<noteq> [] \<longleftrightarrow> hist A k' \<noteq> []" for k' using h by (simp add: spec_write_def)
    show "Q () m'"
    proof (rule post)
      show "hm_cache init m' fs"
        using spec_wf_write [OF A(2) h] from_oracle_write [OF A(3,2) h] total_frames_write [OF A(4) h]
        by (intro hm_cacheI [OF m'])
      show "hm_view init m' = (hm_view init m)(k := v')"
        by (auto simp: fun_eq_iff hm_view_spec [OF m'] hm_view_spec [OF A(1)] spec_write_def)
      show "\<forall>k'. btree m k' \<noteq> None \<longleftrightarrow> btree m' k' \<noteq> None"
        using cached_spec [OF m'] cached_spec [OF A(1)] hist' by blast
      have "props (spec_write k v' A) = props A" by (simp add: spec_write_def)
      then show "\<forall>k'. map_option key_properties (btree m' k') = map_option key_properties (btree m k')"
        using hm_rel_fields(4) [OF m'] hm_rel_fields(4) [OF A(1)] by metis
    qed
  qed simp_all
qed

lemma view_set_key_properties:
  assumes c: "hm_cache init m fs" and k: "btree m k \<noteq> None"
    and post: "\<And>m'. hm_cache init m' fs \<Longrightarrow> hm_view init m' = hm_view init m \<Longrightarrow>
      (\<forall>k'. btree m k' \<noteq> None \<longleftrightarrow> btree m' k' \<noteq> None) \<Longrightarrow> Q () m'"
  shows "wp (hm_set_key_properties k g) Q E m"
proof -
  obtain A where A: "hm_rel m A" "spec_wf A" "from_oracle init A" "total_frames init A fs" by (rule hm_cacheE [OF c])
  have h: "hist A k \<noteq> []" using k cached_spec [OF A(1)] by blast
  show ?thesis
  proof (rule wp_hm_set_key_properties [OF A(1) h])
    fix m' assume m': "hm_rel m' (spec_set_props k g A)"
    have same: "hist (spec_set_props k g A) = hist A" by (simp add: spec_set_props_def)
    show "Q () m'"
    proof (rule post)
      show "hm_cache init m' fs"
        by (intro hm_cacheI [OF m' spec_wf_set_props [OF A(2)]] cache_set_props [OF A(3,4)])
      show "hm_view init m' = hm_view init m"
        by (simp add: fun_eq_iff hm_view_spec [OF m'] hm_view_spec [OF A(1)] same)
      show "\<forall>k'. btree m k' \<noteq> None \<longleftrightarrow> btree m' k' \<noteq> None"
        using cached_spec [OF m'] cached_spec [OF A(1)] same by simp
    qed
  qed
qed

lemma view_snapshot:
  assumes c: "hm_cache init m fs" and W: "next_snapshot_id m < usize_max W"
    and post: "\<And>m'. hm_cache init m' ((next_snapshot_id m, hm_view init m) # fs) \<Longrightarrow>
      hm_view init m' = hm_view init m \<Longrightarrow> btree m' = btree m \<Longrightarrow> Q (next_snapshot_id m) m'"
  shows "wp (hm_snapshot W) Q E m"
proof -
  obtain A where A: "hm_rel m A" "spec_wf A" "from_oracle init A" "total_frames init A fs" by (rule hm_cacheE [OF c])
  let ?m = "m\<lparr>next_snapshot_id := next_snapshot_id m + 1\<rparr>"
  have rel: "hm_rel ?m (spec_snapshot A)"
    using wp_hm_snapshot [OF A(1), of W "\<lambda>_ m'. m' = ?m \<longrightarrow> hm_rel m' (spec_snapshot A)"] W hm_rel_fields(1) [OF A(1)]
    by (auto simp: hm_snapshot_def)
  have same: "dropWhile (newer (next_id A)) (hist A k) = hist A k" for k
    using spec_wfD(1) [OF A(2)] spec_wfD(3) [OF A(2), of k]
    by (intro dropWhile_unless_pending [OF A(2)]) (auto simp: key_wf_def)
  have view: "hm_view init ?m = hm_view init m"
    by (auto simp: fun_eq_iff hm_view_def hm_values_def split: option.splits)
  have total: "spec_total init (spec_snapshot A) = spec_total init A"
    by (simp add: fun_eq_iff spec_total_def spec_snapshot_def)
  have now: "hm_view init m = spec_total init A (next_id A)"
    by (simp add: fun_eq_iff spec_total_def same hm_view_spec [OF A(1)])
  have frames: "total_frames init (spec_snapshot A) ((next_id A, hm_view init m) # fs)"
    using A(4) spec_wfD(1) [OF A(2)] unfolding total_frames_def total now
    by (force simp: spec_snapshot_def)
  have "hm_cache init ?m ((next_snapshot_id m, hm_view init m) # fs)"
    using spec_wf_snapshot [OF A(2)] frames A(3) hm_rel_fields(1) [OF A(1)]
    by (intro hm_cacheI [OF rel]) (auto simp: from_oracle_def spec_snapshot_def)
  from post [OF this view] show ?thesis using W by (simp add: hm_snapshot_def)
qed

lemma view_rollback:
  assumes c: "hm_cache init m ((i, x) # fs)"
    and post: "\<And>m'. hm_cache init m' fs \<Longrightarrow> hm_view init m' = x \<Longrightarrow>
      (\<forall>k'. btree m k' \<noteq> None \<longleftrightarrow> btree m' k' \<noteq> None) \<Longrightarrow> Q () m'"
  shows "wp (hm_rollback i) Q E m"
proof -
  obtain A where A: "hm_rel m A" "spec_wf A" "from_oracle init A" "total_frames init A ((i, x) # fs)" by (rule hm_cacheE [OF c])
  then have i: "frozen_id A \<le> i" "i < next_id A" and x: "x = spec_total init A i" by (auto simp: total_frames_def)
  show ?thesis
  proof (rule wp_hm_rollback [OF A(1,2)])
    fix m' assume m': "hm_rel m' (spec_rollback i A)"
    have ne: "hist (spec_rollback i A) k \<noteq> [] \<longleftrightarrow> hist A k \<noteq> []" for k
      using desc_nonempty [OF spec_wfD(4) [OF A(2)], of k i] by (auto simp: spec_rollback_def)
    have drop: "spec_total init (spec_rollback i A) j = spec_total init A j" if "j \<le> i" for j
      using that by (simp add: fun_eq_iff spec_total_def spec_rollback_def dropWhile_dropWhile_newer)
    have "total_frames init (spec_rollback i A) fs"
      using A(4) drop by (fastforce simp: total_frames_def spec_rollback_def)
    moreover have "from_oracle init (spec_rollback i A)"
      using A(3) ne by (auto simp: from_oracle_def spec_rollback_def last_dropWhile)
    ultimately have "hm_cache init m' fs"
      using spec_wf_rollback [OF A(2) i(1)] by (intro hm_cacheI [OF m'])
    moreover have "hm_view init m' = x"
      by (simp add: fun_eq_iff hm_view_spec [OF m'] x spec_total_def spec_rollback_def)
    moreover have "\<forall>k'. btree m k' \<noteq> None \<longleftrightarrow> btree m' k' \<noteq> None"
      using cached_spec [OF m'] cached_spec [OF A(1)] ne by simp
    ultimately show "Q () m'" by (rule post)
  qed (use i in simp_all)
qed

lemma view_commit:
  assumes c: "hm_cache init m fs" and W: "next_snapshot_id m < usize_max W"
    and post: "\<And>m'. hm_cache init m' [] \<Longrightarrow> hm_view init m' = hm_view init m \<Longrightarrow>
      (\<forall>k'. btree m k' \<noteq> None \<longleftrightarrow> btree m' k' \<noteq> None) \<Longrightarrow> Q () m'"
  shows "wp (hm_commit W) Q E m"
proof -
  obtain A where A: "hm_rel m A" "spec_wf A" "from_oracle init A" "total_frames init A fs" by (rule hm_cacheE [OF c])
  show ?thesis
  proof (rule wp_hm_commit [OF A(1,2)])
    show "next_id A < usize_max W" using W hm_rel_fields(1) [OF A(1)] by simp
    fix m' assume m': "hm_rel m' (spec_commit A)"
    have h: "hist (spec_commit A) k = squash (hist A k)" for k by (simp add: spec_commit_def)
    have "hm_cache init m' []"
      using spec_wf_commit [OF A(2)] A(3) by (intro hm_cacheI [OF m']) (auto simp: from_oracle_def total_frames_def h)
    moreover have "hm_view init m' k = hm_view init m k" for k
    proof (cases "hist A k = []")
      case False
      then show ?thesis using hm_view_hd [OF m', of k init] hm_view_hd [OF A(1), of k init] by (simp add: h)
    qed (simp add: hm_view_spec [OF m'] hm_view_spec [OF A(1)] h squash_def)
    moreover have "\<forall>k'. btree m k' \<noteq> None \<longleftrightarrow> btree m' k' \<noteq> None"
      using cached_spec [OF m'] cached_spec [OF A(1)] by (simp add: h)
    ultimately show "Q () m'" using post by blast
  qed
qed

section \<open>The cache as a frame store\<close>

text \<open>A change inside a frame: bringing a key in from the oracle, or an operation on an item.\<close>

fun oracle_op :: "('k \<Rightarrow> 'v) \<Rightarrow> ('k, 'v, 'kp) hm_op \<Rightarrow> bool" where
  "oracle_op init (GetOrInsert k v kp) \<longleftrightarrow> v = init k"
| "oracle_op init op \<longleftrightarrow> write_op op"

definition cache_write :: "('k \<Rightarrow> 'v) \<Rightarrow> ('k, 'v, 'kp) history_map \<Rightarrow> ('k, 'v, 'kp) history_map \<Rightarrow> bool" where
  "cache_write init m m' \<longleftrightarrow> (\<exists>op. callback_total op \<and> oracle_op init op \<and> snd (hm_exec 0 op m) = m')"

lemma spec_exec_cache:
  assumes "spec_wf A" and "from_oracle init A" and "total_frames init A fs" and "oracle_op init op"
  shows "from_oracle init (spec_exec op A) \<and> total_frames init (spec_exec op A) fs"
proof (cases op)
  case (GetOrInsert k v kp)
  then show ?thesis using assms total_frames_insert [OF assms(3), of k kp]
    by (auto simp: from_oracle_def spec_insert_def)
next
  case (Update k f)
  then show ?thesis using assms from_oracle_write [OF assms(2,1)] total_frames_write [OF assms(3)]
    by (auto split: prod.splits)
next
  case (KeyPropertiesMut k g)
  then show ?thesis using assms cache_set_props [OF assms(2,3)] by simp
qed (use assms in simp_all)

lemma cache_write_frames:
  assumes "hm_cache init m fs" and "cache_write init m m'"
  shows "hm_cache init m' fs"
proof -
  obtain A where A: "hm_good m A" "from_oracle init A" "total_frames init A fs"
    using assms(1) by (auto simp: hm_cache_def)
  obtain op where op: "callback_total op" "oracle_op init op" "snd (hm_exec 0 op m) = m'"
    using assms(2) by (auto simp: cache_write_def)
  have w: "write_op op" using op(2) by (cases op) simp_all
  let ?W = "Suc (next_snapshot_id m)"
  have "next_snapshot_id m + 1 < 2 ^ ?W" using less_exp [of ?W] by simp
  then have "next_snapshot_id m < usize_max ?W" by (simp add: usize_max_def)
  from hm_exec_good [OF A(1) op(1) this] have "hm_good m' (spec_exec op A)"
    using op(3) hm_exec_width [OF w] by metis
  then show ?thesis using spec_exec_cache [OF _ A(2,3) op(2)] A(1) by (auto simp: hm_cache_def hm_good_def)
qed

interpretation hv: frame_store "hm_cache init" "hm_view init" "(=)" "\<lambda>m. next_snapshot_id m < usize_max W"
    "hm_snapshot W" hm_finish_frame "cache_write init"
proof
  fix m m' :: "('a, 'b, 'c) history_map" and fs f i x
  show "\<exists>i t. hm_snapshot W m = (Inr i, t)" if "hm_cache init m fs" "next_snapshot_id m < usize_max W"
    using that by (simp add: hm_snapshot_def hm_run_simps)
  show "hm_cache init m' ((i, hm_view init m) # fs) \<and> hm_view init m' = hm_view init m"
    if c: "hm_cache init m fs" and s: "hm_snapshot W m = (Inr i, m')"
  proof -
    have "next_snapshot_id m < usize_max W" using s by (auto simp: hm_snapshot_def hm_run_simps split: if_splits)
    then have "wp (hm_snapshot W) (\<lambda>i m'. hm_cache init m' ((i, hm_view init m) # fs) \<and> hm_view init m' = hm_view init m) (\<lambda>_ _. False) m"
      by (intro view_snapshot [OF c]) simp_all
    then show ?thesis using s by (simp add: wp_def)
  qed
  show "\<exists>t. hm_finish_frame None m = (Inr (), t) \<and> hm_cache init t fs \<and> hm_view init t = hm_view init m"
    if "hm_cache init m (f # fs)"
    using that by (auto simp: hm_finish_frame_def ret_def hm_cache_def total_frames_def)
  show "\<exists>t. hm_finish_frame (Some i) m = (Inr (), t) \<and> hm_cache init t fs \<and> x = hm_view init t"
    if "hm_cache init m ((i, x) # fs)"
  proof -
    have "wp (hm_rollback i) (\<lambda>_ m'. hm_cache init m' fs \<and> x = hm_view init m') (\<lambda>_ _. False) m"
      by (intro view_rollback [OF that]) simp
    from wp_total [OF this] show ?thesis by (auto simp: hm_finish_frame_def)
  qed
qed (auto intro: cache_write_frames)

end
