(* ===== verification/Storage_Cache.thy ===== *)
theory Storage_Cache
  imports Cache_View Snapshot_Lists Resources "HOL-Library.Product_Lexorder"
begin

text \<open>
  The cache of storage slots (\<open>cache_structs/storage_values.rs\<close>) with the EVM-like charging
  policy (\<open>system/mod.rs\<close>), built with the feature \<open>evm_refunds\<close>. The oracle is a parameter:
  for every slot, whether it is new and its value at the start of the block; the cache asks
  for each slot at most once. Shown here: an SSTORE costs and refunds what the EVM schedule
  says, computed against the slot's value at the start of the transaction, the refund counter
  never underflows, and a failed frame restores the slots, their warmth and the counter.
\<close>

section \<open>Keys, records and appearances\<close>

datatype warm_storage_key = WarmStorageKey (address: b160) (slot_key: bytes32)

text \<open>Keys are ordered by the limbs of the address, the lowest first, then by the slot.\<close>

definition limb :: "nat \<Rightarrow> b160 \<Rightarrow> nat" where
  "limb i a = unat a div 2 ^ (64 * i) mod 2 ^ 64"

definition key_rank :: "warm_storage_key \<Rightarrow> nat \<times> nat \<times> nat \<times> nat" where
  "key_rank k = (limb 0 (address k), limb 1 (address k), limb 2 (address k), unat (slot_key k))"

lemma limbs: "unat a = limb 0 a + 2 ^ 64 * limb 1 a + 2 ^ 128 * limb 2 a"
proof -
  have "unat a < 2 ^ 160" using unat_lt [of a] by simp
  then have "unat a div 2 ^ 128 < 2 ^ 64" by (simp add: div_less_iff_less_mult)
  then have "limb 2 a = unat a div 2 ^ 64 div 2 ^ 64" by (simp add: limb_def div_mult2_eq [symmetric])
  then have "unat a div 2 ^ 64 = limb 1 a + 2 ^ 64 * limb 2 a"
    unfolding limb_def by (simp add: mult.commute)
  moreover have "unat a = limb 0 a + 2 ^ 64 * (unat a div 2 ^ 64)" unfolding limb_def by (simp add: mult.commute)
  ultimately show ?thesis by (simp add: algebra_simps)
qed

lemma key_rank_inj: "key_rank j = key_rank k \<longleftrightarrow> j = k"
proof
  assume eq: "key_rank j = key_rank k"
  then have "unat (address j) = unat (address k)" using limbs [of "address j"] limbs [of "address k"]
    by (simp add: key_rank_def)
  with eq show "j = k" by (cases j; cases k) (simp add: key_rank_def word_unat_eq_iff)
qed simp

instantiation warm_storage_key :: linorder
begin

definition less_eq_warm_storage_key :: "warm_storage_key \<Rightarrow> warm_storage_key \<Rightarrow> bool" where
  "less_eq_warm_storage_key j k \<longleftrightarrow> key_rank j \<le> key_rank k"

definition less_warm_storage_key :: "warm_storage_key \<Rightarrow> warm_storage_key \<Rightarrow> bool" where
  "less_warm_storage_key j k \<longleftrightarrow> key_rank j < key_rank k"

instance
proof
  fix i j k :: warm_storage_key
  show "j < k \<longleftrightarrow> j \<le> k \<and> \<not> k \<le> j"
    unfolding less_eq_warm_storage_key_def less_warm_storage_key_def by (rule less_le_not_le)
  show "j \<le> j" unfolding less_eq_warm_storage_key_def by simp
  show "i \<le> k" if "i \<le> j" "j \<le> k" using that unfolding less_eq_warm_storage_key_def by (rule order_trans)
  show "j = k" if "j \<le> k" "k \<le> j"
    using that unfolding less_eq_warm_storage_key_def by (metis antisym key_rank_inj)
  show "j \<le> k \<or> k \<le> j" unfolding less_eq_warm_storage_key_def by (rule linear)
qed

end

text \<open>The keys of an address lie between two bounds.\<close>

definition lower_bound :: "b160 \<Rightarrow> warm_storage_key" where
  "lower_bound subspace = WarmStorageKey subspace 0"

definition upper_bound :: "b160 \<Rightarrow> warm_storage_key" where
  "upper_bound subspace = WarmStorageKey subspace (- 1)"

lemma between_bounds: "lower_bound a \<le> k \<and> k \<le> upper_bound a \<longleftrightarrow> address k = a"
proof -
  have "limb 0 (address k) = limb 0 a \<and> limb 1 (address k) = limb 1 a \<and> limb 2 (address k) = limb 2 a \<longleftrightarrow> address k = a"
    using limbs [of "address k"] limbs [of a] by (metis word_unat_eq_iff)
  moreover have "unat (slot_key k) \<le> unat (- 1 :: bytes32)"
    using unat_lt [of "slot_key k"] by (simp add: unat_max_word)
  ultimately show ?thesis
    by (cases k) (auto simp: less_eq_warm_storage_key_def key_rank_def lower_bound_def upper_bound_def)
qed

text \<open>The hash that places a slot in the state tree; \<open>blake2s\<close> is the hasher of the crypto library.\<close>

definition derive_flat_storage_key :: "(bytes \<Rightarrow> bytes32) \<Rightarrow> b160 \<Rightarrow> bytes32 \<Rightarrow> bytes32" where
  "derive_flat_storage_key blake2s a key = blake2s (replicate 12 0 @ to_be_bytes a @ to_be_bytes key)"

record ('v, 'm) cache_record =
  record_value :: 'v
  metadata :: 'm

definition cache_record_new :: "'v \<Rightarrow> 'm \<Rightarrow> ('v, 'm) cache_record" where
  "cache_record_new v m = \<lparr>record_value = v, metadata = m\<rparr>"

datatype storage_initial_appearance = Empty | Existing

datatype storage_current_appearance = Touched | Observed | Updated | Deleted

record storage_cache_appearance =
  initial_appearance :: storage_initial_appearance
  current_appearance :: storage_current_appearance

definition appearance_observe :: "storage_cache_appearance \<Rightarrow> storage_cache_appearance" where
  "appearance_observe a = (if current_appearance a = Touched then a\<lparr>current_appearance := Observed\<rparr> else a)"

definition appearance_update :: "storage_cache_appearance \<Rightarrow> storage_cache_appearance" where
  "appearance_update a = a\<lparr>current_appearance := Updated\<rparr>"

definition appearance_delete :: "storage_cache_appearance \<Rightarrow> storage_cache_appearance" where
  "appearance_delete a = a\<lparr>current_appearance := Deleted\<rparr>"

record storage_element_metadata =
  last_touched_in_tx :: "u32 option"

definition considered_warm :: "storage_element_metadata \<Rightarrow> u32 \<Rightarrow> bool" where
  "considered_warm m tx \<longleftrightarrow> last_touched_in_tx m = Some tx"

section \<open>The charging policy\<close>

datatype execution_environment_type = NoEE | EVM

definition ERGS_PER_GAS :: u64 where "ERGS_PER_GAS = 256"
definition COLD_SLOAD_COST :: u64 where "COLD_SLOAD_COST = 2100"
definition WARM_STORAGE_READ_COST :: u64 where "WARM_STORAGE_READ_COST = 100"
definition SSTORE_SET_EXTRA :: u64 where "SSTORE_SET_EXTRA = 19900"
definition SSTORE_RESET_EXTRA :: u64 where "SSTORE_RESET_EXTRA = 2800"

definition native_with_delegations :: "u64 \<Rightarrow> u64 \<Rightarrow> u64 \<Rightarrow> u64" where
  "native_with_delegations raw bigint blake = raw + bigint * 4 + blake * 16"

definition WARM_STORAGE_READ_NATIVE_COST :: u64 where "WARM_STORAGE_READ_NATIVE_COST = 4000"
definition COLD_EXISTING_STORAGE_READ_NATIVE_COST :: u64 where
  "COLD_EXISTING_STORAGE_READ_NATIVE_COST = native_with_delegations 100000 0 1320"
definition COLD_NEW_STORAGE_READ_NATIVE_COST :: u64 where
  "COLD_NEW_STORAGE_READ_NATIVE_COST = 2 * COLD_EXISTING_STORAGE_READ_NATIVE_COST"
definition COLD_EXISTING_STORAGE_WRITE_EXTRA_NATIVE_COST :: u64 where
  "COLD_EXISTING_STORAGE_WRITE_EXTRA_NATIVE_COST = native_with_delegations 40000 0 660"
definition COLD_NEW_STORAGE_WRITE_EXTRA_NATIVE_COST :: u64 where
  "COLD_NEW_STORAGE_WRITE_EXTRA_NATIVE_COST = native_with_delegations 100000 0 1300"

lemmas storage_costs = ERGS_PER_GAS_def COLD_SLOAD_COST_def WARM_STORAGE_READ_COST_def
  SSTORE_SET_EXTRA_def SSTORE_RESET_EXTRA_def native_with_delegations_def
  WARM_STORAGE_READ_NATIVE_COST_def COLD_EXISTING_STORAGE_READ_NATIVE_COST_def
  COLD_NEW_STORAGE_READ_NATIVE_COST_def COLD_EXISTING_STORAGE_WRITE_EXTRA_NATIVE_COST_def
  COLD_NEW_STORAGE_WRITE_EXTRA_NATIVE_COST_def

definition charge_warm_storage_read ::
    "execution_environment_type \<Rightarrow> bool \<Rightarrow> (base_resources, system_error, unit) rs" where
  "charge_warm_storage_read ee_type is_access_list =
     resources_charge (from_ergs_and_native
       (case ee_type of
          NoEE \<Rightarrow> if is_access_list then 1900 * ERGS_PER_GAS else ergs_empty
        | EVM \<Rightarrow> WARM_STORAGE_READ_COST * ERGS_PER_GAS)
       WARM_STORAGE_READ_NATIVE_COST)"

definition charge_cold_storage_read_extra ::
    "execution_environment_type \<Rightarrow> bool \<Rightarrow> (base_resources, system_error, unit) rs" where
  "charge_cold_storage_read_extra ee_type is_new_slot =
     resources_charge (from_ergs_and_native
       (case ee_type of
          NoEE \<Rightarrow> ergs_empty
        | EVM \<Rightarrow> (COLD_SLOAD_COST - WARM_STORAGE_READ_COST) * ERGS_PER_GAS)
       (if is_new_slot then COLD_NEW_STORAGE_READ_NATIVE_COST else COLD_EXISTING_STORAGE_READ_NATIVE_COST))"

definition charge_storage_write_extra ::
    "execution_environment_type \<Rightarrow> bytes32 \<Rightarrow> bytes32 \<Rightarrow> bytes32 \<Rightarrow> bool \<Rightarrow> bool \<Rightarrow>
     (base_resources, system_error, unit) rs" where
  "charge_storage_write_extra ee_type initial_value current_value new_value is_warm_write is_new_slot =
     resources_charge (from_ergs_and_native
       (case ee_type of
          NoEE \<Rightarrow> ergs_empty
        | EVM \<Rightarrow>
            (let total_cost =
               if new_value = current_value then 0
               else if current_value = initial_value then
                 (if initial_value = 0 then SSTORE_SET_EXTRA else SSTORE_RESET_EXTRA)
               else 0
             in (if \<not> is_warm_write then total_cost + 100 else total_cost) * ERGS_PER_GAS))
       (if is_new_slot then COLD_NEW_STORAGE_WRITE_EXTRA_NATIVE_COST
        else COLD_EXISTING_STORAGE_WRITE_EXTRA_NATIVE_COST))"

text \<open>The refund counter is the state.\<close>

definition refund_for_storage_write ::
    "execution_environment_type \<Rightarrow> bytes32 \<Rightarrow> bytes32 \<Rightarrow> bytes32 \<Rightarrow> (base_resources, system_error, unit) rs" where
  "refund_for_storage_write ee_type value_at_tx_start current_value new_value =
     (if ee_type = EVM \<and> current_value \<noteq> new_value then
        if current_value = value_at_tx_start then
          if value_at_tx_start \<noteq> 0 \<and> new_value = 0 then add_ergs (4800 * ERGS_PER_GAS) else ret ()
        else
          and_then
            (if value_at_tx_start \<noteq> 0 then
               if current_value = 0 then resources_charge (from_ergs (4800 * ERGS_PER_GAS))
               else if new_value = 0 then add_ergs (4800 * ERGS_PER_GAS)
               else ret ()
             else ret ()) (\<lambda>_.
          if new_value = value_at_tx_start then
            if value_at_tx_start = 0 then add_ergs ((20000 - 100) * ERGS_PER_GAS)
            else add_ergs ((5000 - 2100 - 100) * ERGS_PER_GAS)
          else ret ())
      else ret ())"

section \<open>The cache\<close>

type_synonym slot_record = "(bytes32, storage_element_metadata) cache_record"

type_synonym slot_map = "(warm_storage_key, slot_record, storage_cache_appearance) history_map"

record storage_values_cache =
  cache :: slot_map
  access_list_slots :: "warm_storage_key set"
  current_tx_number :: u32
  initial_values :: "warm_storage_key \<rightharpoonup> bytes32 \<times> u32"
  evm_refunds_counter :: "base_resources history_counter"

text \<open>The oracle's answer to the query for a slot.\<close>

record initial_slot_data =
  is_new_storage_slot :: bool
  initial_value :: bytes32

type_synonym storage_oracle = "warm_storage_key \<Rightarrow> initial_slot_data"

definition storage_new :: storage_values_cache where
  "storage_new = \<lparr>cache = hm_new, access_list_slots = {}, current_tx_number = 0,
     initial_values = Map.empty, evm_refunds_counter = hc_new\<rparr>"

definition on_cache :: "(_, internal_error, 'a) rs \<Rightarrow> (storage_values_cache, internal_error, 'a) rs" where
  "on_cache = on_part cache (\<lambda>c s. s\<lparr>cache := c\<rparr>) (\<lambda>e. e)"

definition on_counter :: "(_, internal_error, 'a) rs \<Rightarrow> (storage_values_cache, internal_error, 'a) rs" where
  "on_counter = on_part evm_refunds_counter (\<lambda>c s. s\<lparr>evm_refunds_counter := c\<rparr>) (\<lambda>e. e)"

definition storage_begin_new_tx :: "nat \<Rightarrow> (storage_values_cache, internal_error, unit) rs" where
  "storage_begin_new_tx W =
     and_then (on_cache (hm_commit W)) (\<lambda>_.
     and_then (modify_st (\<lambda>s. s\<lparr>access_list_slots := {}, evm_refunds_counter := hc_new\<rparr>)) (\<lambda>_.
     and_then (on_counter (hc_update resources_empty)) (\<lambda>_.
     and_then (read_st (\<lambda>s. checked_add (current_tx_number s) 1)) (\<lambda>n.
     and_then (expect n) (\<lambda>n. modify_st (\<lambda>s. s\<lparr>current_tx_number := n\<rparr>))))))"

definition storage_start_frame :: "nat \<Rightarrow> (storage_values_cache, internal_error, snapshot_id \<times> nat) rs" where
  "storage_start_frame W =
     and_then (on_cache (hm_snapshot W)) (\<lambda>i.
     and_then (on_counter hc_snapshot) (\<lambda>n. ret (i, n)))"

definition storage_finish_frame ::
    "(snapshot_id \<times> nat) option \<Rightarrow> (storage_values_cache, internal_error, unit) rs" where
  "storage_finish_frame rollback_handle =
     (case rollback_handle of
        Some (c, n) \<Rightarrow> and_then (on_counter (hc_rollback n)) (\<lambda>_. on_cache (hm_rollback c))
      | None \<Rightarrow> ret ())"

text \<open>
  The operations below work on the cache and the caller's resources. An error of the map is
  an internal error, which \<open>?\<close> turns into \<open>LeafDefect\<close>.
\<close>

type_synonym storage_st = "storage_values_cache \<times> base_resources"

definition on_resources :: "(base_resources, system_error, 'a) rs \<Rightarrow> (storage_st, system_error, 'a) rs" where
  "on_resources = on_part snd (\<lambda>r s. (fst s, r)) (\<lambda>e. e)"

definition on_storage :: "(storage_values_cache, internal_error, 'a) rs \<Rightarrow> (storage_st, system_error, 'a) rs" where
  "on_storage = on_part fst (\<lambda>c s. (c, snd s)) LeafDefect"

definition mark_access_list_slot ::
    "execution_environment_type \<Rightarrow> warm_storage_key \<Rightarrow> (storage_st, system_error, unit) rs" where
  "mark_access_list_slot ee_type key =
     and_then (on_resources (charge_warm_storage_read ee_type True)) (\<lambda>_.
     and_then (on_resources (charge_cold_storage_read_extra ee_type True)) (\<lambda>_.
     modify_st (\<lambda>(s, r). (s\<lparr>access_list_slots := insert key (access_list_slots s)\<rparr>, r))))"

text \<open>
  \<open>materialize_element\<close>; the flag \<open>initialized_element\<close> that the callback of \<open>get_or_insert\<close>
  sets is read off beforehand: the callback runs exactly for a vacant entry.
\<close>

definition initial_record :: "storage_oracle \<Rightarrow> warm_storage_key \<Rightarrow> slot_record" where
  "initial_record oracle key =
     cache_record_new (initial_value (oracle key)) \<lparr>last_touched_in_tx = None\<rparr>"

definition spawn_slot ::
    "storage_oracle \<Rightarrow> execution_environment_type \<Rightarrow> bool \<Rightarrow> warm_storage_key \<Rightarrow>
     (base_resources, system_error, slot_record \<times> storage_cache_appearance) rs" where
  "spawn_slot oracle ee_type from_access_list key =
     and_then (if \<not> from_access_list then charge_cold_storage_read_extra ee_type False else ret ()) (\<lambda>_.
     ret (initial_record oracle key,
       \<lparr>initial_appearance = (if is_new_storage_slot (oracle key) then Empty else Existing),
        current_appearance = Observed\<rparr>))"

text \<open>The closure that warms the element up according to the EVM rules.\<close>

definition touch_in_tx :: "u32 \<Rightarrow> slot_record \<Rightarrow> slot_record" where
  "touch_in_tx tx x = x\<lparr>metadata := (metadata x)\<lparr>last_touched_in_tx := Some tx\<rparr>\<rparr>"

definition warm_up ::
    "execution_environment_type \<Rightarrow> warm_storage_key \<Rightarrow> bool \<Rightarrow> bool \<Rightarrow> u32 \<Rightarrow> (storage_st, system_error, bool) rs" where
  "warm_up ee_type key from_access_list initialized_element tx =
     and_then (on_storage (on_cache (hm_current key))) (\<lambda>x.
     if considered_warm (metadata x) tx \<or> from_access_list then ret True
     else
       and_then (if \<not> initialized_element then on_resources (charge_cold_storage_read_extra ee_type False)
                 else ret ()) (\<lambda>_.
       and_then (on_storage (on_cache (hm_update key (modify_st (touch_in_tx tx))))) (\<lambda>_.
       ret False)))"

definition materialize_element ::
    "storage_oracle \<Rightarrow> execution_environment_type \<Rightarrow> bool \<Rightarrow> warm_storage_key \<Rightarrow>
     (storage_st, system_error, bool) rs" where
  "materialize_element oracle ee_type is_access_list key =
     and_then (on_resources (charge_warm_storage_read ee_type is_access_list)) (\<lambda>_.
     and_then (read_st (\<lambda>(s, _). (key \<in> access_list_slots s, btree (cache s) key = None, current_tx_number s)))
       (\<lambda>(from_access_list, initialized_element, tx).
     and_then (on_part (\<lambda>(s, r). (cache s, r)) (\<lambda>(c, r) (s, _). (s\<lparr>cache := c\<rparr>, r)) (\<lambda>e. e)
       (hm_get_or_insert key (spawn_slot oracle ee_type from_access_list key))) (\<lambda>_.
     warm_up ee_type key from_access_list initialized_element tx)))"

definition apply_read_impl ::
    "storage_oracle \<Rightarrow> execution_environment_type \<Rightarrow> warm_storage_key \<Rightarrow> bool \<Rightarrow>
     (storage_st, system_error, bytes32) rs" where
  "apply_read_impl oracle ee_type key is_access_list =
     and_then (materialize_element oracle ee_type is_access_list key) (\<lambda>_.
     and_then (on_storage (on_cache (hm_current key))) (\<lambda>x. ret (record_value x)))"

text \<open>
  The value at the start of the transaction: recorded when the slot is first written in the
  transaction.
\<close>

definition value_at_tx_start :: "warm_storage_key \<Rightarrow> bytes32 \<Rightarrow> (storage_values_cache, internal_error, bytes32) rs" where
  "value_at_tx_start key val_current s =
     (case initial_values s key of
        None \<Rightarrow> (Inr val_current, s\<lparr>initial_values := (initial_values s)(key \<mapsto> (val_current, current_tx_number s))\<rparr>)
      | Some (v, tx) \<Rightarrow>
          if tx \<noteq> current_tx_number s
          then (Inr val_current, s\<lparr>initial_values := (initial_values s)(key \<mapsto> (val_current, current_tx_number s))\<rparr>)
          else (Inr v, s))"

definition is_new_slot :: "storage_values_cache \<Rightarrow> warm_storage_key \<Rightarrow> bool" where
  "is_new_slot s key \<longleftrightarrow>
     (case btree (cache s) key of Some e \<Rightarrow> initial_appearance (key_properties e) = Empty | None \<Rightarrow> False)"

definition apply_refund ::
    "execution_environment_type \<Rightarrow> bytes32 \<Rightarrow> bytes32 \<Rightarrow> bytes32 \<Rightarrow> (storage_st, system_error, unit) rs" where
  "apply_refund ee_type val_at_tx_start old_value new_value =
     and_then (read_st (\<lambda>(s, _). hc_value (evm_refunds_counter s))) (\<lambda>counter.
     case counter of
       None \<Rightarrow> ret ()
     | Some refund_counter \<Rightarrow>
         (case refund_for_storage_write ee_type val_at_tx_start old_value new_value refund_counter of
            (Inl e, _) \<Rightarrow> (\<lambda>s. (Inl e, s))
          | (Inr _, refund_counter) \<Rightarrow> on_storage (on_counter (hc_update refund_counter))))"

definition apply_write_impl ::
    "storage_oracle \<Rightarrow> execution_environment_type \<Rightarrow> warm_storage_key \<Rightarrow> bytes32 \<Rightarrow>
     (storage_st, system_error, bytes32) rs" where
  "apply_write_impl oracle ee_type key new_value =
     and_then (materialize_element oracle ee_type False key) (\<lambda>is_warm_read.
     and_then (on_storage (on_cache (hm_current key))) (\<lambda>x.
     and_then (on_storage (value_at_tx_start key (record_value x))) (\<lambda>val_at_tx_start.
     and_then (read_st (\<lambda>(s, _). is_new_slot s key)) (\<lambda>new_slot.
     and_then (on_resources (charge_storage_write_extra ee_type val_at_tx_start (record_value x) new_value
       is_warm_read new_slot)) (\<lambda>_.
     and_then (on_storage (on_cache (hm_set_key_properties key appearance_update))) (\<lambda>_.
     and_then (on_storage (on_cache (hm_update key (modify_st (\<lambda>x. x\<lparr>record_value := new_value\<rparr>))))) (\<lambda>_.
     and_then (apply_refund ee_type val_at_tx_start (record_value x) new_value) (\<lambda>_.
     ret (record_value x)))))))))"

definition add_to_refund_counter :: "base_resources \<Rightarrow> (storage_st, system_error, unit) rs" where
  "add_to_refund_counter refund =
     and_then (read_st (\<lambda>(s, _). hc_value (evm_refunds_counter s))) (\<lambda>counter.
     case counter of
       None \<Rightarrow> ret ()
     | Some t \<Rightarrow>
         (case add_ergs (ergs refund) t of
            (Inl e, _) \<Rightarrow> (\<lambda>s. (Inl e, s))
          | (Inr _, t) \<Rightarrow> on_storage (on_counter (hc_update t))))"

definition get_refund_counter :: "storage_values_cache \<Rightarrow> base_resources option" where
  "get_refund_counter s = hc_value (evm_refunds_counter s)"

definition clear_state_impl :: "b160 \<Rightarrow> (storage_values_cache, internal_error, unit) rs" where
  "clear_state_impl a =
     on_cache (for_each_range (lower_bound a) (upper_bound a) (\<lambda>k.
       and_then (hm_update k (modify_st (\<lambda>x. x\<lparr>record_value := 0\<rparr>))) (\<lambda>_.
       hm_set_key_properties k appearance_delete)))"

section \<open>What the operations do\<close>

abbreviation slots :: "storage_oracle \<Rightarrow> storage_values_cache \<Rightarrow> warm_storage_key \<Rightarrow> slot_record" where
  "slots oracle s \<equiv> hm_view (initial_record oracle) (cache s)"

definition slot_value :: "storage_oracle \<Rightarrow> storage_values_cache \<Rightarrow> warm_storage_key \<Rightarrow> bytes32" where
  "slot_value oracle s k = record_value (slots oracle s k)"

definition is_warm :: "storage_oracle \<Rightarrow> storage_values_cache \<Rightarrow> warm_storage_key \<Rightarrow> bool" where
  "is_warm oracle s k \<longleftrightarrow>
     considered_warm (metadata (slots oracle s k)) (current_tx_number s) \<or> k \<in> access_list_slots s"

text \<open>The values recorded in this transaction, and the value an SSTORE is measured against.\<close>

definition recorded :: "storage_values_cache \<Rightarrow> warm_storage_key \<rightharpoonup> bytes32" where
  "recorded s k =
     (case initial_values s k of
        Some (v, tx) \<Rightarrow> if tx = current_tx_number s then Some v else None
      | None \<Rightarrow> None)"

definition original :: "storage_oracle \<Rightarrow> storage_values_cache \<Rightarrow> warm_storage_key \<Rightarrow> bytes32" where
  "original oracle s k = (case recorded s k of Some v \<Rightarrow> v | None \<Rightarrow> slot_value oracle s k)"

definition touch :: "storage_oracle \<Rightarrow> storage_values_cache \<Rightarrow> warm_storage_key \<Rightarrow> slot_record" where
  "touch oracle s k =
     (let x = slots oracle s k in
      if is_warm oracle s k then x else touch_in_tx (current_tx_number s) x)"

lemma record_value_touch [simp]: "record_value (touch oracle s k) = slot_value oracle s k"
  by (simp add: touch_def touch_in_tx_def Let_def slot_value_def)

text \<open>What a read costs, in ergs.\<close>

definition read_ergs :: "execution_environment_type \<Rightarrow> bool \<Rightarrow> bool \<Rightarrow> nat" where
  "read_ergs ee_type is_access_list warm =
     256 * (case ee_type of
        NoEE \<Rightarrow> if is_access_list then 1900 else 0
      | EVM \<Rightarrow> if warm then 100 else 2100)"

lemma wp_slot_charge:
  assumes "\<And>r'. unat (ergs r) = unat (ergs r') + unat (ergs c) \<Longrightarrow>
      unat (native r) = unat (native r') + unat (native c) \<Longrightarrow> Q () r'"
    and "\<And>x r'. E (LeafRuntime x) r'"
  shows "wp (resources_charge c) Q E r"
proof (cases "native r < native c \<or> ergs r < ergs c")
  case True
  then show ?thesis using assms(2) by (auto simp: wp_def resources_charge_cases)
next
  case False
  then have "Q () \<lparr>ergs = ergs r - ergs c, native = native r - native c\<rparr>"
    by (intro assms(1)) (auto simp: unat_sub not_less word_le_nat_alt)
  then show ?thesis using False by (auto simp: wp_def resources_charge_cases)
qed

lemma wp_on_resources [simp]:
  "wp (on_resources m) Q E = (\<lambda>(s, r). wp m (\<lambda>x r. Q x (s, r)) (\<lambda>e r. E e (s, r)) r)"
  by (auto simp: on_resources_def fun_eq_iff)

lemma wp_on_storage [simp]:
  "wp (on_storage m) Q E = (\<lambda>(s, r). wp m (\<lambda>x s. Q x (s, r)) (\<lambda>e s. E (LeafDefect e) (s, r)) s)"
  by (auto simp: on_storage_def fun_eq_iff)

lemma wp_on_cache [simp]:
  "wp (on_cache m) Q E = (\<lambda>s. wp m (\<lambda>x c. Q x (s\<lparr>cache := c\<rparr>)) (\<lambda>e c. E e (s\<lparr>cache := c\<rparr>)) (cache s))"
  by (simp add: on_cache_def fun_eq_iff)

lemma wp_on_counter [simp]:
  "wp (on_counter m) Q E = (\<lambda>s. wp m (\<lambda>x c. Q x (s\<lparr>evm_refunds_counter := c\<rparr>))
     (\<lambda>e c. E e (s\<lparr>evm_refunds_counter := c\<rparr>)) (evm_refunds_counter s))"
  by (simp add: on_counter_def fun_eq_iff)

lemma wp_charge_warm_read:
  assumes "\<And>r'. unat (ergs r) = unat (ergs r') + read_ergs ee al True \<Longrightarrow> Q () r'" and "\<And>x r'. E (LeafRuntime x) r'"
  shows "wp (charge_warm_storage_read ee al) Q E r"
  unfolding charge_warm_storage_read_def
  by (rule wp_slot_charge)
     (use assms in \<open>auto simp: from_ergs_and_native_def storage_costs read_ergs_def ergs_empty_def
        split: execution_environment_type.splits\<close>)

text \<open>The extra cost of a cold slot, in ergs.\<close>

definition cold_ergs :: "execution_environment_type \<Rightarrow> nat" where
  "cold_ergs ee_type = (case ee_type of NoEE \<Rightarrow> 0 | EVM \<Rightarrow> 2000 * 256)"

lemma read_ergs_cold: "read_ergs ee al False = read_ergs ee al True + cold_ergs ee"
  by (cases ee) (simp_all add: read_ergs_def cold_ergs_def)

lemma wp_charge_cold_read:
  assumes "\<And>r'. unat (ergs r) = unat (ergs r') + cold_ergs ee \<Longrightarrow> Q () r'"
    and "\<And>x r'. E (LeafRuntime x) r'"
  shows "wp (charge_cold_storage_read_extra ee b) Q E r"
  unfolding charge_cold_storage_read_extra_def
  by (rule wp_slot_charge)
     (use assms in \<open>auto simp: from_ergs_and_native_def storage_costs ergs_empty_def cold_ergs_def
        split: execution_environment_type.splits\<close>)

text \<open>
  Bringing a slot in and warming it: the cache keeps its frames, only the warmth changes.
\<close>

lemma wp_warm_up:
  assumes m: "hm_cache (initial_record oracle) (cache s) fs" "btree (cache s) key \<noteq> None"
    and ok: "\<And>m r'. hm_cache (initial_record oracle) m fs \<Longrightarrow> btree m key \<noteq> None \<Longrightarrow>
      hm_view (initial_record oracle) m = (slots oracle s)(key := touch oracle s key) \<Longrightarrow>
      unat (ergs r) = unat (ergs r') + (if fresh \<or> is_warm oracle s key then 0 else cold_ergs ee) \<Longrightarrow>
      Q (is_warm oracle s key) (s\<lparr>cache := m\<rparr>, r')"
    and err: "\<And>x r'. E (LeafRuntime x) (s, r')"
  shows "wp (warm_up ee key (key \<in> access_list_slots s) fresh (current_tx_number s)) Q E (s, r)"
proof -
  let ?tx = "current_tx_number s" and ?warm = "is_warm oracle s key"
  have upd: "wp (hm_update key (modify_st (touch_in_tx ?tx))) (\<lambda>_ m'. Q False (s\<lparr>cache := m'\<rparr>, r2)) E2 (cache s)"
    if "\<not> ?warm" and "unat (ergs r) = unat (ergs r2) + (if fresh then 0 else cold_ergs ee)" for r2 and E2 :: "internal_error \<Rightarrow> _"
    by (rule view_update [OF m]) (use ok that m(2) in \<open>auto simp: modify_st_def touch_def Let_def\<close>)
  have "wp (charge_cold_storage_read_extra ee False)
      (\<lambda>_ r2. wp (hm_update key (modify_st (touch_in_tx ?tx)))
        (\<lambda>_ m'. Q False (s\<lparr>cache := m'\<rparr>, r2)) (E2 r2) (cache s)) (\<lambda>e r2. E e (s, r2)) r"
    if "\<not> ?warm" "\<not> fresh" for E2 :: "_ \<Rightarrow> internal_error \<Rightarrow> _"
    by (rule wp_charge_cold_read) (use that upd err in auto)
  moreover have "Q True (s, r)" if ?warm
    using ok [OF m, of r] that by (simp add: touch_def)
  ultimately show ?thesis
    unfolding warm_up_def wp_and_then wp_on_storage wp_on_cache prod.case
    by (intro view_current [OF m]) (use upd in \<open>auto simp: is_warm_def\<close>)
qed

lemma wp_materialize:
  assumes c: "hm_cache (initial_record oracle) (cache s) fs"
    and ok: "\<And>m r'. hm_cache (initial_record oracle) m fs \<Longrightarrow> btree m key \<noteq> None \<Longrightarrow>
      hm_view (initial_record oracle) m = (slots oracle s)(key := touch oracle s key) \<Longrightarrow>
      unat (ergs r) = unat (ergs r') + read_ergs ee al (is_warm oracle s key) \<Longrightarrow>
      Q (is_warm oracle s key) (s\<lparr>cache := m\<rparr>, r')"
    and err: "\<And>x m r'. hm_cache (initial_record oracle) m fs \<Longrightarrow>
      hm_view (initial_record oracle) m = slots oracle s \<Longrightarrow> E (LeafRuntime x) (s\<lparr>cache := m\<rparr>, r')"
  shows "wp (materialize_element oracle ee al key) Q E (s, r)"
proof -
  let ?al = "key \<in> access_list_slots s" and ?fresh = "btree (cache s) key = None"
  let ?warm = "is_warm oracle s key"
  have rest: "wp (warm_up ee key ?al ?fresh (current_tx_number s)) Q E (s\<lparr>cache := m\<rparr>, r1)"
    if m: "hm_cache (initial_record oracle) m fs" "btree m key \<noteq> None" "hm_view (initial_record oracle) m = slots oracle s"
      and r1: "unat (ergs r) = unat (ergs r1) + read_ergs ee al True + (if ?fresh \<and> \<not> ?al then cold_ergs ee else 0)" for m r1
  proof -
    let ?s = "s\<lparr>cache := m\<rparr>"
    have w: "is_warm oracle ?s key = ?warm" "touch oracle ?s key = touch oracle s key"
      using m(3) by (simp_all add: is_warm_def touch_def Let_def)
    have fresh: "\<not> ?al \<longrightarrow> \<not> ?warm" if ?fresh
      using that by (simp add: is_warm_def hm_view_def hm_values_def initial_record_def cache_record_new_def considered_warm_def)
    have al: "?al \<longrightarrow> ?warm" by (simp add: is_warm_def)
    have "wp (warm_up ee key (key \<in> access_list_slots ?s) ?fresh (current_tx_number ?s)) Q E (?s, r1)"
    proof (rule wp_warm_up [of "oracle" "?s" fs])
      fix m' :: slot_map and r' :: base_resources
      assume m': "hm_cache (initial_record oracle) m' fs" "btree m' key \<noteq> None"
        "hm_view (initial_record oracle) m' = (slots oracle ?s)(key := touch oracle ?s key)"
        and r': "unat (ergs r1) = unat (ergs r') + (if ?fresh \<or> is_warm oracle ?s key then 0 else cold_ergs ee)"
      have "unat (ergs r) = unat (ergs r') + read_ergs ee al ?warm"
        using r1 r' fresh al w(1) by (cases ?warm; cases ?fresh) (auto simp: read_ergs_cold)
      then show "Q (is_warm oracle ?s key) (?s\<lparr>cache := m'\<rparr>, r')"
        using ok [OF m'(1,2)] m'(3) m(3) w by simp
    qed (use m err in auto)
    then show ?thesis by simp
  qed
  have same: "s\<lparr>cache := cache s\<rparr> = s" by simp
  have ins: "wp (hm_get_or_insert key (spawn_slot oracle ee ?al key))
      (\<lambda>_ p. wp (warm_up ee key ?al ?fresh (current_tx_number s)) Q E (s\<lparr>cache := fst p\<rparr>, snd p))
      (\<lambda>e p. E e (s\<lparr>cache := fst p\<rparr>, snd p)) (cache s, r0)"
    if r0: "unat (ergs r) = unat (ergs r0) + read_ergs ee al True" for r0
  proof (rule view_get_or_insert [OF c])
    show "wp (warm_up ee key ?al ?fresh (current_tx_number s)) Q E (s\<lparr>cache := fst (cache s, r0)\<rparr>, snd (cache s, r0))"
      if "btree (cache s) key \<noteq> None" using rest [OF c that refl] that r0 by auto
    assume none: ?fresh
    show "wp (spawn_slot oracle ee ?al key) (\<lambda>(v, kp) x'. v = initial_record oracle key \<and>
        (\<forall>m'. hm_cache (initial_record oracle) m' fs \<longrightarrow> hm_view (initial_record oracle) m' = slots oracle s \<longrightarrow>
          btree m' key \<noteq> None \<longrightarrow> (\<forall>k'. btree (cache s) k' \<noteq> None \<longrightarrow> btree m' k' \<noteq> None) \<longrightarrow>
          map_option key_properties (btree m' key) = Some kp \<longrightarrow>
          wp (warm_up ee key ?al ?fresh (current_tx_number s)) Q E (s\<lparr>cache := fst (m', x')\<rparr>, snd (m', x'))))
      (\<lambda>e x'. E e (s\<lparr>cache := fst (cache s, x')\<rparr>, snd (cache s, x'))) r0"
    proof (cases ?al)
      case True
      then show ?thesis unfolding spawn_slot_def using rest r0 none by simp
    next
      case False
      show ?thesis unfolding spawn_slot_def wp_and_then
        by (simp only: False simp_thms if_True, rule wp_charge_cold_read)
           (use rest r0 none False err [OF c refl] in auto)
    qed
  qed
  show ?thesis
    unfolding materialize_element_def wp_and_then wp_on_resources prod.case
    by (rule wp_charge_warm_read) (use ins err [OF c refl] same in \<open>auto simp: split_beta\<close>)
qed

subsection \<open>Writing\<close>

text \<open>The EVM's schedule for SSTORE (EIP-2200 with EIP-2929) and its refunds (EIP-3529), in gas.\<close>

definition sstore_gas :: "bool \<Rightarrow> bytes32 \<Rightarrow> bytes32 \<Rightarrow> bytes32 \<Rightarrow> nat" where
  "sstore_gas warm orig cur new =
     (if warm then 0 else 2100) +
     (if new = cur then 100 else if cur = orig then (if orig = 0 then 20000 else 2900) else 100)"

definition sstore_refund :: "bytes32 \<Rightarrow> bytes32 \<Rightarrow> bytes32 \<Rightarrow> int" where
  "sstore_refund orig cur new =
     (if new = cur then 0
      else (if orig \<noteq> 0 then (if new = 0 then 4800 else 0) - (if cur = 0 then 4800 else 0) else 0) +
           (if new = orig then (if orig = 0 then 20000 - 100 else 2900 - 100) else 0))"

lemma wp_add_ergs:
  assumes "unat (ergs c) + unat g < 2 ^ 64"
    and "\<And>c'. unat (ergs c') = unat (ergs c) + unat g \<Longrightarrow> Q () c'"
  shows "wp (add_ergs g) Q E c"
proof -
  obtain x where x: "checked_add (ergs c) g = Some x" using assms(1) by (auto simp: checked_add_def)
  then have "unat x = unat (ergs c) + unat g" by (simp add: checked_add_Some)
  then show ?thesis using assms(2) [of "c\<lparr>ergs := x\<rparr>"] x by (simp add: wp_def add_ergs_def)
qed

lemma wp_refund:
  assumes "unat (ergs c) + 5094400 < 2 ^ 64" and "orig \<noteq> 0 \<and> cur = 0 \<longrightarrow> 1228800 \<le> unat (ergs c)"
    and post: "\<And>c'. int (unat (ergs c')) = int (unat (ergs c)) + 256 * sstore_refund orig cur new \<Longrightarrow> Q () c'"
  shows "wp (refund_for_storage_write EVM orig cur new) Q E c"
proof -
  have g: "unat (4800 * ERGS_PER_GAS) = 1228800" "unat ((20000 - 100) * ERGS_PER_GAS) = 5094400"
    "unat ((5000 - 2100 - 100) * ERGS_PER_GAS) = 716800" by (simp_all add: ERGS_PER_GAS_def)
  have take: "wp (resources_charge (from_ergs (4800 * ERGS_PER_GAS))) Q' E c"
    if "1228800 \<le> unat (ergs c)" and "\<And>c'. unat (ergs c') = unat (ergs c) - 1228800 \<Longrightarrow> Q' () c'" for Q'
    using that g(1) by (auto simp: wp_def resources_charge_cases from_ergs_def native_empty_def
        word_less_nat_alt word_le_nat_alt unat_sub)
  show ?thesis
    unfolding refund_for_storage_write_def
    using assms(1,2) g
    by (auto simp: sstore_refund_def intro!: wp_add_ergs take post)
qed

lemma wp_charge_write:
  assumes "\<And>r'. unat (ergs r) = unat (ergs r') + 256 * (sstore_gas warm orig cur new - (if warm then 100 else 2100)) \<Longrightarrow> Q () r'"
    and "\<And>x r'. E (LeafRuntime x) r'"
  shows "wp (charge_storage_write_extra EVM orig cur new warm b) Q E r"
  unfolding charge_storage_write_extra_def
  by (rule wp_slot_charge)
     (use assms in \<open>auto simp: from_ergs_and_native_def storage_costs sstore_gas_def Let_def split: if_splits\<close>)

definition iv_after :: "storage_oracle \<Rightarrow> storage_values_cache \<Rightarrow> warm_storage_key \<Rightarrow> warm_storage_key \<rightharpoonup> bytes32 \<times> u32" where
  "iv_after oracle s key =
     (if recorded s key = None then (initial_values s)(key \<mapsto> (slot_value oracle s key, current_tx_number s))
      else initial_values s)"

lemma wp_value_at_tx_start:
  "wp (value_at_tx_start key (slot_value oracle s key)) Q E (s\<lparr>cache := m\<rparr>) =
     Q (original oracle s key) (s\<lparr>cache := m, initial_values := iv_after oracle s key\<rparr>)"
proof -
  have same: "s\<lparr>cache := m\<rparr> = s\<lparr>cache := m, initial_values := initial_values s\<rparr>" by simp
  show ?thesis
    by (auto simp: wp_def value_at_tx_start_def iv_after_def original_def recorded_def same [symmetric]
        split: option.splits)
qed

lemma hc_update_ok: "\<exists>c'. hc_update v c = (Inr (), c') \<and> hc_value c' = Some v"
  by (auto simp: hc_defs hc_value_def)

lemma wp_add_ergs_run:
  fixes E :: "system_error \<Rightarrow> base_resources \<Rightarrow> bool"
  assumes "fst ((add_ergs g :: (base_resources, system_error, unit) rs) c) \<noteq> Inl Panic" and "\<And>c'. unat (ergs c') = unat (ergs c) + unat g \<Longrightarrow> Q () c'"
  shows "wp (add_ergs g) Q E c"
  using assms by (auto simp: wp_def add_ergs_def checked_add_Some split: option.splits)

lemma add_ergs_last: "and_then (add_ergs x) ret = add_ergs x"
  by (simp add: add_ergs_def and_then_def ret_def fun_eq_iff split: option.splits)

lemma refund_cases:
  "refund_for_storage_write EVM orig cur new =
     (if new = cur then ret ()
      else if orig = 0 then (if new = 0 then add_ergs ((20000 - 100) * ERGS_PER_GAS) else ret ())
      else if cur = 0 then and_then (resources_charge (from_ergs (4800 * ERGS_PER_GAS)))
        (\<lambda>_. if new = orig then add_ergs ((5000 - 2100 - 100) * ERGS_PER_GAS) else ret ())
      else if new = 0 then add_ergs (4800 * ERGS_PER_GAS)
      else if new = orig then add_ergs ((5000 - 2100 - 100) * ERGS_PER_GAS) else ret ())"
  unfolding refund_for_storage_write_def
  by (cases "new = cur"; cases "orig = 0"; cases "cur = 0"; cases "new = 0"; cases "cur = orig"; cases "new = orig";
      simp add: add_ergs_last and_then_ret)

lemma refund_by:
  fixes E :: "system_error \<Rightarrow> base_resources \<Rightarrow> bool"
  assumes "refund c = add_ergs x c1" and "fst (refund c) \<noteq> Inl Panic" and "int (unat (ergs c1)) + int (unat x) = n"
  shows "wp refund (\<lambda>_ c'. int (unat (ergs c')) = n) E c"
proof -
  have "fst ((add_ergs x :: (base_resources, system_error, unit) rs) c1) \<noteq> Inl Panic" using assms(1,2) by simp
  then have "wp (add_ergs x) (\<lambda>_ c'. unat (ergs c') = unat (ergs c1) + unat x) (\<lambda>(_ :: system_error) _. False) c1"
    by (rule wp_add_ergs_run)
  from wp_total [OF this] obtain u c' where "refund c = (Inr u, c')" and eq: "unat (ergs c') = unat (ergs c1) + unat x"
    using assms(1) by auto
  moreover have "int (unat (ergs c')) = n" unfolding assms(3) [symmetric] eq by (rule of_nat_add)
  ultimately show ?thesis unfolding wp_def by (simp only: prod.case sum.case)
qed

lemma refund_result:
  assumes np: "fst (refund_for_storage_write EVM orig cur new c) \<noteq> Inl Panic" and enough: "orig \<noteq> 0 \<and> cur = 0 \<longrightarrow> 1228800 \<le> unat (ergs c)"
  shows "wp (refund_for_storage_write EVM orig cur new)
    (\<lambda>_ c'. int (unat (ergs c')) = int (unat (ergs c)) + 256 * sstore_refund orig cur new) (\<lambda>_ _. False) c"
proof -
  have g: "unat (4800 * ERGS_PER_GAS) = 1228800" "unat ((20000 - 100) * ERGS_PER_GAS) = 5094400"
    "unat ((5000 - 2100 - 100) * ERGS_PER_GAS) = 716800" by (simp_all add: ERGS_PER_GAS_def)
  consider (same) "new = cur" | (zero) "new \<noteq> cur" "orig = 0" | (revived) "new \<noteq> cur" "orig \<noteq> 0" "cur = 0"
    | (rest) "new \<noteq> cur" "orig \<noteq> 0" "cur \<noteq> 0" by blast
  then show ?thesis
  proof cases
    case same
    then show ?thesis by (simp add: refund_cases sstore_refund_def)
  next
    case zero
    show ?thesis
    proof (cases "new = 0")
      case True
      have "refund_for_storage_write EVM orig cur new c = add_ergs ((20000 - 100) * ERGS_PER_GAS) c"
        using True zero by (simp add: refund_cases)
      then show ?thesis by (rule refund_by [of "refund_for_storage_write EVM orig cur new" c, OF _ np]) (unfold g(2), use True zero in \<open>simp add: sstore_refund_def\<close>)
    qed (use zero in \<open>simp add: refund_cases sstore_refund_def\<close>)
  next
    case revived
    let ?c = "c\<lparr>ergs := ergs c - 4800 * ERGS_PER_GAS\<rparr>"
    have take: "resources_charge (from_ergs (4800 * ERGS_PER_GAS)) c = (Inr (), ?c)" and "unat (ergs ?c) = unat (ergs c) - 1228800"
      using revived enough g(1) by (simp_all add: resources_charge_cases from_ergs_def native_empty_def word_less_nat_alt word_le_nat_alt unat_sub)
    then have c: "int (unat (ergs ?c)) = int (unat (ergs c)) - 1228800" using revived enough by linarith
    show ?thesis
    proof (cases "new = orig")
      case True
      have "refund_for_storage_write EVM orig cur new c = add_ergs ((5000 - 2100 - 100) * ERGS_PER_GAS) ?c"
        using True revived take by (simp add: refund_cases and_then_def)
      then show ?thesis by (rule refund_by [of "refund_for_storage_write EVM orig cur new" c, OF _ np]) (unfold c g(3), use True revived in \<open>simp add: sstore_refund_def\<close>)
    next
      case False
      then have "refund_for_storage_write EVM orig cur new c = (Inr (), ?c)"
        using revived take by (simp add: refund_cases and_then_def ret_def)
      moreover have "sstore_refund orig cur new = - 4800" using False revived by (simp add: sstore_refund_def)
      ultimately show ?thesis unfolding wp_def using c by (simp only: prod.case sum.case)
    qed
  next
    case rest
    then consider "refund_for_storage_write EVM orig cur new c = add_ergs (4800 * ERGS_PER_GAS) c" "sstore_refund orig cur new = 4800"
      | "refund_for_storage_write EVM orig cur new c = add_ergs ((5000 - 2100 - 100) * ERGS_PER_GAS) c" "sstore_refund orig cur new = 2800"
      | "refund_for_storage_write EVM orig cur new = ret ()" "sstore_refund orig cur new = 0"
      by (cases "new = 0"; cases "new = orig") (simp_all add: refund_cases sstore_refund_def)
    then show ?thesis
    proof cases
      case 1
      show ?thesis by (rule refund_by [of "refund_for_storage_write EVM orig cur new" c, OF 1(1) np]) (unfold g(1) 1(2), simp)
    next
      case 2
      show ?thesis by (rule refund_by [of "refund_for_storage_write EVM orig cur new" c, OF 2(1) np]) (unfold g(3) 2(2), simp)
    qed simp
  qed
qed

text \<open>A write up to the refund; the result is the old value and the value at the start of the transaction.\<close>

definition write_slot ::
    "storage_oracle \<Rightarrow> execution_environment_type \<Rightarrow> warm_storage_key \<Rightarrow> bytes32 \<Rightarrow> (storage_st, system_error, bytes32 \<times> bytes32) rs" where
  "write_slot oracle ee_type key new_value =
     and_then (materialize_element oracle ee_type False key) (\<lambda>is_warm_read.
     and_then (on_storage (on_cache (hm_current key))) (\<lambda>x.
     and_then (on_storage (value_at_tx_start key (record_value x))) (\<lambda>val_at_tx_start.
     and_then (read_st (\<lambda>(s, _). is_new_slot s key)) (\<lambda>new_slot.
     and_then (on_resources (charge_storage_write_extra ee_type val_at_tx_start (record_value x) new_value
       is_warm_read new_slot)) (\<lambda>_.
     and_then (on_storage (on_cache (hm_set_key_properties key appearance_update))) (\<lambda>_.
     and_then (on_storage (on_cache (hm_update key (modify_st (\<lambda>x. x\<lparr>record_value := new_value\<rparr>))))) (\<lambda>_.
     ret (record_value x, val_at_tx_start))))))))"

lemma apply_write_slot:
  "apply_write_impl oracle ee_type key new_value =
     and_then (write_slot oracle ee_type key new_value) (\<lambda>(old, val_at_tx_start).
     and_then (apply_refund ee_type val_at_tx_start old new_value) (\<lambda>_. ret old))"
  by (simp add: apply_write_impl_def write_slot_def and_then_assoc and_then_ret)

definition written :: "storage_oracle \<Rightarrow> storage_values_cache \<Rightarrow> warm_storage_key \<Rightarrow> bytes32 \<Rightarrow> warm_storage_key \<Rightarrow> slot_record" where
  "written oracle s key v = (slots oracle s)(key := (touch oracle s key)\<lparr>record_value := v\<rparr>)"

lemma wp_write_slot:
  assumes c: "hm_cache (initial_record oracle) (cache s) fs"
    and ok: "\<And>m r'. hm_cache (initial_record oracle) m fs \<Longrightarrow>
      hm_view (initial_record oracle) m = written oracle s key v \<Longrightarrow>
      unat (ergs r) = unat (ergs r') + 256 * sstore_gas (is_warm oracle s key) (original oracle s key) (slot_value oracle s key) v \<Longrightarrow>
      Q (slot_value oracle s key, original oracle s key) (s\<lparr>cache := m, initial_values := iv_after oracle s key\<rparr>, r')"
    and err: "\<And>x m iv r'. hm_cache (initial_record oracle) m fs \<Longrightarrow>
      (\<forall>k. record_value (hm_view (initial_record oracle) m k) = slot_value oracle s k) \<Longrightarrow>
      iv = initial_values s \<or> iv = iv_after oracle s key \<Longrightarrow> E (LeafRuntime x) (s\<lparr>cache := m, initial_values := iv\<rparr>, r')"
  shows "wp (write_slot oracle EVM key v) Q E (s, r)"
  unfolding write_slot_def wp_and_then
proof (rule wp_materialize [OF c])
  have same: "s\<lparr>cache := m\<rparr> = s\<lparr>cache := m, initial_values := initial_values s\<rparr>" for m by simp
  show "E (LeafRuntime x) (s\<lparr>cache := m\<rparr>, r')"
    if "hm_cache (initial_record oracle) m fs" "hm_view (initial_record oracle) m = slots oracle s" for x m r'
    using err [OF that(1)] that(2) same by (metis slot_value_def)
  fix m :: slot_map and r1 :: base_resources
  let ?orig = "original oracle s key" and ?cur = "slot_value oracle s key" and ?warm = "is_warm oracle s key"
  assume m: "hm_cache (initial_record oracle) m fs" "btree m key \<noteq> None"
    "hm_view (initial_record oracle) m = (slots oracle s)(key := touch oracle s key)"
    and r1: "unat (ergs r) = unat (ergs r1) + read_ergs EVM False ?warm"
  have val: "record_value (hm_view (initial_record oracle) m k) = slot_value oracle s k" for k
    using m(3) by (simp add: slot_value_def [of _ _ k, symmetric])
  let ?iv = "iv_after oracle s key"
  have swap: "s\<lparr>initial_values := ?iv, cache := m\<rparr> = s\<lparr>cache := m, initial_values := ?iv\<rparr>" for m by simp
  let ?s = "\<lambda>m. s\<lparr>cache := m, initial_values := ?iv\<rparr>"
  have upd: "wp (hm_update key (modify_st (\<lambda>x. x\<lparr>record_value := v\<rparr>)))
      (\<lambda>_ m'. Q (?cur, ?orig) (?s m', r2)) E' m1"
    if m1: "hm_cache (initial_record oracle) m1 fs" "btree m1 key \<noteq> None"
        "hm_view (initial_record oracle) m1 = (slots oracle s)(key := touch oracle s key)"
      and r2: "unat (ergs r) = unat (ergs r2) + 256 * sstore_gas ?warm ?orig ?cur v"
    for m1 r2 and E' :: "internal_error \<Rightarrow> _"
  proof (rule view_update [OF m1(1,2)])
    fix m' :: slot_map assume m': "hm_cache (initial_record oracle) m' fs"
      "hm_view (initial_record oracle) m' = (hm_view (initial_record oracle) m1)
         (key := (hm_view (initial_record oracle) m1 key)\<lparr>record_value := v\<rparr>)"
    have "hm_view (initial_record oracle) m' = written oracle s key v" using m'(2) m1(3) by (simp add: written_def)
    from ok [OF m'(1) this] r2 show "Q (?cur, ?orig) (?s m', r2)" by simp
  qed (simp add: modify_st_def)
  have set: "wp (hm_set_key_properties key appearance_update)
      (\<lambda>_ m1. wp (hm_update key (modify_st (\<lambda>x. x\<lparr>record_value := v\<rparr>)))
        (\<lambda>_ m'. Q (?cur, ?orig) (?s m', r2)) (E1 m1) m1) E' m"
    if r2: "unat (ergs r) = unat (ergs r2) + 256 * sstore_gas ?warm ?orig ?cur v"
    for r2 and E1 :: "_ \<Rightarrow> internal_error \<Rightarrow> _" and E' :: "internal_error \<Rightarrow> _"
    by (rule view_set_key_properties [OF m(1,2)]) (use m(2,3) upd r2 in auto)
  have charge: "wp (charge_storage_write_extra EVM ?orig ?cur v ?warm b)
      (\<lambda>_ r2. wp (hm_set_key_properties key appearance_update)
      (\<lambda>_ m1. wp (hm_update key (modify_st (\<lambda>x. x\<lparr>record_value := v\<rparr>)))
        (\<lambda>_ m'. Q (?cur, ?orig) (?s m', r2)) (E1 r2 m1) m1) (E2 r2) m)
      (\<lambda>e r2. E e (?s m, r2)) r1" for b and E1 :: "_ \<Rightarrow> _ \<Rightarrow> internal_error \<Rightarrow> _" and E2 :: "_ \<Rightarrow> internal_error \<Rightarrow> _"
  proof (rule wp_charge_write)
    fix r2 :: base_resources assume "unat (ergs r1) = unat (ergs r2) + 256 * (sstore_gas ?warm ?orig ?cur v - (if ?warm then 100 else 2100))"
    then have "unat (ergs r) = unat (ergs r2) + 256 * sstore_gas ?warm ?orig ?cur v"
      using r1 by (auto simp: read_ergs_def sstore_gas_def)
    then show "wp (hm_set_key_properties key appearance_update)
      (\<lambda>_ m1. wp (hm_update key (modify_st (\<lambda>x. x\<lparr>record_value := v\<rparr>)))
        (\<lambda>_ m'. Q (?cur, ?orig) (?s m', r2)) (E1 r2 m1) m1) (E2 r2) m" by (rule set)
  qed (use err [OF m(1)] val in auto)
  show "wp (on_storage (on_cache (hm_current key))) (\<lambda>x. wp (on_storage (value_at_tx_start key (record_value x)))
      (\<lambda>orig. wp (read_st (\<lambda>(s, _). is_new_slot s key)) (\<lambda>new_slot.
        wp (on_resources (charge_storage_write_extra EVM orig (record_value x) v ?warm new_slot)) (\<lambda>_.
        wp (on_storage (on_cache (hm_set_key_properties key appearance_update))) (\<lambda>_.
        wp (on_storage (on_cache (hm_update key (modify_st (\<lambda>x. x\<lparr>record_value := v\<rparr>))))) (\<lambda>_.
        wp (ret (record_value x, orig)) Q E) E) E) E) E) E) E (s\<lparr>cache := m\<rparr>, r1)"
    unfolding wp_on_storage wp_on_cache prod.case
    by (rule view_current [of "initial_record oracle" _ fs])
       (use m(1,2) charge in \<open>simp_all add: val wp_value_at_tx_start swap\<close>)
qed

lemma apply_refund_run:
  assumes "hc_value (evm_refunds_counter s) = Some c"
  shows "fst (refund_for_storage_write EVM orig cur new c) = Inl Panic \<Longrightarrow> fst (apply_refund EVM orig cur new (s, r)) = Inl Panic"
    and "refund_for_storage_write EVM orig cur new c = (Inr u, c') \<Longrightarrow>
      \<exists>cnt. hc_updated (evm_refunds_counter s) cnt \<and> hc_value cnt = Some c' \<and>
        apply_refund EVM orig cur new (s, r) = (Inr (), (s\<lparr>evm_refunds_counter := cnt\<rparr>, r))"
proof -
  obtain cnt where cnt: "hc_update c' (evm_refunds_counter s) = (Inr (), cnt)" "hc_value cnt = Some c'"
    using hc_update_ok [of c' "evm_refunds_counter s"] by auto
  show "\<exists>cnt. hc_updated (evm_refunds_counter s) cnt \<and> hc_value cnt = Some c' \<and>
      apply_refund EVM orig cur new (s, r) = (Inr (), (s\<lparr>evm_refunds_counter := cnt\<rparr>, r))"
    if "refund_for_storage_write EVM orig cur new c = (Inr u, c')"
    using assms that cnt
    by (intro exI [of _ cnt]) (auto simp: apply_refund_def and_then_def read_st_def on_storage_def on_counter_def on_part_def hc_updated_def)
qed (use assms in \<open>auto simp: apply_refund_def and_then_def read_st_def split: prod.splits sum.splits\<close>)

text \<open>A write that does not panic: either the refund is known to succeed, or the write has returned.\<close>

lemma wp_write:
  assumes c: "hm_cache (initial_record oracle) (cache s) fs"
    and cnt: "hc_value (evm_refunds_counter s) = Some c0"
      "original oracle s key \<noteq> 0 \<and> slot_value oracle s key = 0 \<longrightarrow> 1228800 \<le> unat (ergs c0)"
    and run: "unat (ergs c0) + 5094400 < 2 ^ 64 \<or> fst (apply_write_impl oracle EVM key v (s, r)) \<noteq> Inl Panic"
    and ok: "\<And>m r' cnt c'. hm_cache (initial_record oracle) m fs \<Longrightarrow>
      hm_view (initial_record oracle) m = written oracle s key v \<Longrightarrow>
      hc_updated (evm_refunds_counter s) cnt \<Longrightarrow> hc_value cnt = Some c' \<Longrightarrow>
      int (unat (ergs c')) = int (unat (ergs c0)) + 256 * sstore_refund (original oracle s key) (slot_value oracle s key) v \<Longrightarrow>
      unat (ergs r) = unat (ergs r') + 256 * sstore_gas (is_warm oracle s key) (original oracle s key) (slot_value oracle s key) v \<Longrightarrow>
      Q (slot_value oracle s key)
        (s\<lparr>cache := m, initial_values := iv_after oracle s key, evm_refunds_counter := cnt\<rparr>, r')"
    and err: "\<And>x m iv r'. hm_cache (initial_record oracle) m fs \<Longrightarrow>
      (\<forall>k. record_value (hm_view (initial_record oracle) m k) = slot_value oracle s k) \<Longrightarrow>
      iv = initial_values s \<or> iv = iv_after oracle s key \<Longrightarrow> E (LeafRuntime x) (s\<lparr>cache := m, initial_values := iv\<rparr>, r')"
  shows "wp (apply_write_impl oracle EVM key v) Q E (s, r)"
proof -
  let ?orig = "original oracle s key" and ?cur = "slot_value oracle s key"
  let ?refund = "refund_for_storage_write EVM ?orig ?cur v"
  let ?after = "\<lambda>(x, t). x = (?cur, ?orig) \<and> (\<exists>m r'. t = (s\<lparr>cache := m, initial_values := iv_after oracle s key\<rparr>, r') \<and>
    hm_cache (initial_record oracle) m fs \<and> hm_view (initial_record oracle) m = written oracle s key v \<and>
    unat (ergs r) = unat (ergs r') + 256 * sstore_gas (is_warm oracle s key) ?orig ?cur v)"
  have slot: "wp (write_slot oracle EVM key v) (\<lambda>x t. ?after (x, t)) E (s, r)"
    by (rule wp_write_slot [OF c]) (use err in auto)
  have room: "fst (?refund c0) \<noteq> Inl Panic" if "unat (ergs c0) + 5094400 < 2 ^ 64"
    using wp_no_panic [OF wp_refund [OF that cnt(2), where Q = "\<lambda>_ _. True" and E = "\<lambda>_ _. True"]] by simp
  from wp_result [OF slot] show ?thesis
  proof (elim disjE exE conjE)
    fix x t assume t: "write_slot oracle EVM key v (s, r) = (Inr x, t)" and "?after (x, t)"
    then obtain m r' where x: "x = (?cur, ?orig)" and t': "t = (s\<lparr>cache := m, initial_values := iv_after oracle s key\<rparr>, r')"
      and m: "hm_cache (initial_record oracle) m fs" "hm_view (initial_record oracle) m = written oracle s key v"
        "unat (ergs r) = unat (ergs r') + 256 * sstore_gas (is_warm oracle s key) ?orig ?cur v" by auto
    have c1: "hc_value (evm_refunds_counter (fst t)) = Some c0" using cnt(1) t' by simp
    have step: "apply_write_impl oracle EVM key v (s, r) = and_then (apply_refund EVM ?orig ?cur v) (\<lambda>_. ret ?cur) t"
      using t x by (simp add: apply_write_slot and_then_def)
    have np: "fst (?refund c0) \<noteq> Inl Panic"
      using run room apply_refund_run(1) [OF c1, of ?orig ?cur v "snd t"] step by (auto simp: and_then_def split: prod.splits)
    obtain u c' where c': "?refund c0 = (Inr u, c')" "int (unat (ergs c')) = int (unat (ergs c0)) + 256 * sstore_refund ?orig ?cur v"
      using wp_total [OF refund_result [OF np cnt(2)]] by blast
    obtain n where "hc_updated (evm_refunds_counter s) n" "hc_value n = Some c'"
        "apply_refund EVM ?orig ?cur v t = (Inr (), (s\<lparr>cache := m, initial_values := iv_after oracle s key, evm_refunds_counter := n\<rparr>, r'))"
      using apply_refund_run(2) [OF c1 c'(1), of r'] t' by auto
    then show ?thesis using ok [OF m(1,2) _ _ c'(2) m(3)] step by (simp add: wp_def and_then_def ret_def)
  next
    fix e t assume "write_slot oracle EVM key v (s, r) = (Inl (Err e), t)" "E e t"
    then show ?thesis by (simp add: apply_write_slot wp_def and_then_def)
  qed
qed

section \<open>A transaction\<close>

text \<open>What can happen to the slots while a transaction executes: frames apart, these operations.\<close>

datatype slot_op =
    ReadSlot execution_environment_type warm_storage_key bool
  | WriteSlot warm_storage_key bytes32
  | MarkSlot execution_environment_type warm_storage_key
  | AddRefund base_resources

fun slot_exec :: "storage_oracle \<Rightarrow> slot_op \<Rightarrow> (storage_st, system_error, unit) rs" where
  "slot_exec oracle (ReadSlot ee key al) = and_then (apply_read_impl oracle ee key al) (\<lambda>_. ret ())"
| "slot_exec oracle (WriteSlot key v) = and_then (apply_write_impl oracle EVM key v) (\<lambda>_. ret ())"
| "slot_exec oracle (MarkSlot ee key) = mark_access_list_slot ee key"
| "slot_exec oracle (AddRefund r) = add_to_refund_counter r"

text \<open>The refund counter has room for what the operation may add.\<close>

fun refund_room :: "slot_op \<Rightarrow> storage_values_cache \<Rightarrow> bool" where
  "refund_room (WriteSlot _ _) s \<longleftrightarrow>
     (case hc_value (evm_refunds_counter s) of Some c \<Rightarrow> unat (ergs c) + 5094400 < 2 ^ 64 | None \<Rightarrow> False)"
| "refund_room (AddRefund r) s \<longleftrightarrow>
     (case hc_value (evm_refunds_counter s) of Some c \<Rightarrow> unat (ergs c) + unat (ergs r) < 2 ^ 64 | None \<Rightarrow> False)"
| "refund_room _ s \<longleftrightarrow> True"

text \<open>One operation that returns, with a result or an error.\<close>

definition slot_step :: "storage_oracle \<Rightarrow> storage_values_cache \<Rightarrow> storage_values_cache \<Rightarrow> bool" where
  "slot_step oracle s s' \<longleftrightarrow>
     (\<exists>op r x r'. slot_exec oracle op (s, r) = (x, s', r') \<and> x \<noteq> Inl Panic)"

text \<open>
  The invariant, relative to the values \<open>start\<close> of the slots at the beginning of the
  transaction. It holds now and held when each of the open frames began: a slot that was
  not written yet has its start value, a recorded value is the start value, and the refund
  counter holds the refund of every slot that is cleared.
\<close>

definition cleared :: "(warm_storage_key \<Rightarrow> bytes32) \<Rightarrow> (warm_storage_key \<rightharpoonup> bytes32) \<Rightarrow> (warm_storage_key \<Rightarrow> slot_record) \<Rightarrow> warm_storage_key set" where
  "cleared start rec V = {k \<in> dom rec. start k \<noteq> 0 \<and> record_value (V k) = 0}"

definition tx_ok :: "(warm_storage_key \<Rightarrow> bytes32) \<Rightarrow> (warm_storage_key \<rightharpoonup> bytes32) \<Rightarrow> (warm_storage_key \<Rightarrow> slot_record) \<times> base_resources option \<Rightarrow> bool" where
  "tx_ok start rec ob \<longleftrightarrow>
     finite (dom rec) \<and> (\<forall>k v. rec k = Some v \<longrightarrow> v = start k) \<and>
     (\<forall>k. rec k = None \<longrightarrow> record_value (fst ob k) = start k) \<and>
     (\<exists>c. snd ob = Some c \<and> 1228800 * card (cleared start rec (fst ob)) \<le> unat (ergs c))"

definition slot_obs :: "storage_oracle \<Rightarrow> storage_values_cache \<Rightarrow> (warm_storage_key \<Rightarrow> slot_record) \<times> base_resources option" where
  "slot_obs oracle s = (slots oracle s, hc_value (evm_refunds_counter s))"

definition slot_frames ::
    "storage_oracle \<Rightarrow> (warm_storage_key \<Rightarrow> bytes32) \<Rightarrow> storage_values_cache \<Rightarrow>
     ((snapshot_id \<times> nat) \<times> (warm_storage_key \<Rightarrow> slot_record) \<times> base_resources option) list \<Rightarrow> bool" where
  "slot_frames oracle start s fs \<longleftrightarrow>
     hm_cache (initial_record oracle) (cache s) (map (map_prod fst fst) fs) \<and>
     hc_frames (evm_refunds_counter s) (map (map_prod snd snd) fs) \<and>
     (\<forall>k v tx. initial_values s k = Some (v, tx) \<longrightarrow> tx \<le> current_tx_number s) \<and>
     (\<forall>ob \<in> insert (slot_obs oracle s) (snd ` set fs). tx_ok start (recorded s) ob)"

lemma tx_ok_original:
  assumes "tx_ok start (recorded s) (slot_obs oracle s)"
  shows "original oracle s k = start k"
  using assms by (auto simp: tx_ok_def original_def slot_obs_def slot_value_def split: option.splits)

text \<open>Recording the value of one more slot keeps the invariant for every observation.\<close>

lemma recorded_iv_after:
  "recorded (s\<lparr>cache := m, initial_values := iv_after oracle s key\<rparr>) =
     (if recorded s key = None then (recorded s)(key \<mapsto> slot_value oracle s key) else recorded s)"
  by (auto simp: recorded_def iv_after_def fun_eq_iff split: option.splits)

lemma tx_ok_record:
  assumes "tx_ok start rec ob" and "rec key = None"
  shows "tx_ok start (rec(key \<mapsto> start key)) ob"
proof -
  have "cleared start (rec(key \<mapsto> start key)) (fst ob) = cleared start rec (fst ob)"
    using assms by (auto simp: cleared_def tx_ok_def)
  then show ?thesis using assms by (auto simp: tx_ok_def)
qed

lemma tx_ok_iv_after:
  assumes "tx_ok start (recorded s) ob" and "tx_ok start (recorded s) (slot_obs oracle s)"
  shows "tx_ok start (recorded (s\<lparr>cache := m, initial_values := iv_after oracle s key\<rparr>)) ob"
proof -
  have "slot_value oracle s key = start key" if "recorded s key = None"
    using that assms(2) by (simp add: tx_ok_def slot_obs_def slot_value_def)
  then show ?thesis using assms(1) tx_ok_record [OF assms(1), of key] by (simp add: recorded_iv_after)
qed

text \<open>The refund of a write against the slots that are cleared.\<close>

lemma tx_ok_write:
  assumes ok: "tx_ok start rec (V, Some c)" and rec: "rec key \<noteq> None"
    and c': "int (unat (ergs c')) = int (unat (ergs c)) + 256 * sstore_refund (start key) (record_value (V key)) v"
    and V': "record_value (V' key) = v" "\<forall>k. k \<noteq> key \<longrightarrow> V' k = V k"
  shows "tx_ok start rec (V', Some c')"
proof -
  let ?C = "cleared start rec V" and ?C' = "cleared start rec V'" and ?cur = "record_value (V key)"
  have fin: "finite ?C" "finite ?C'" using ok by (auto simp: tx_ok_def cleared_def)
  have in_C: "key \<in> ?C \<longleftrightarrow> start key \<noteq> 0 \<and> ?cur = 0" "key \<in> ?C' \<longleftrightarrow> start key \<noteq> 0 \<and> v = 0"
    using rec V' by (auto simp: cleared_def)
  have rest: "?C' - {key} = ?C - {key}" using V'(2) by (auto simp: cleared_def)
  have cards: "card ?C = card (?C - {key}) + (if key \<in> ?C then 1 else 0)"
    "card ?C' = card (?C - {key}) + (if key \<in> ?C' then 1 else 0)"
    using card_Suc_Diff1 [OF fin(1), of key] card_Suc_Diff1 [OF fin(2), of key] rest by (cases "key \<in> ?C"; cases "key \<in> ?C'"; force)+
  have bound: "1228800 * card ?C \<le> unat (ergs c)" using ok by (simp add: tx_ok_def)
  then have bound': "1228800 * int (card ?C) \<le> int (unat (ergs c))" by linarith
  let ?b = "\<lambda>x. if start key \<noteq> 0 \<and> x = 0 then 1 else 0 :: int"
  have "4800 * (?b v - ?b ?cur) \<le> sstore_refund (start key) ?cur v" by (simp add: sstore_refund_def)
  moreover have "int (card ?C) = int (card (?C - {key})) + ?b ?cur" "int (card ?C') = int (card (?C - {key})) + ?b v"
    unfolding cards in_C by simp_all
  moreover have "4800 * (x - y) \<le> R \<Longrightarrow> a = n + y \<Longrightarrow> b = n + x \<Longrightarrow> 1228800 * a \<le> d \<Longrightarrow> 1228800 * b \<le> d + 256 * R"
    for x y R a b n d :: int by simp
  ultimately have "1228800 * int (card ?C') \<le> int (unat (ergs c'))"
    unfolding c' using bound' by blast
  then have "1228800 * card ?C' \<le> unat (ergs c')" by linarith
  moreover have "record_value (V' k) = start k" if "rec k = None" for k
    using that ok rec V'(2) by (cases "k = key") (auto simp: tx_ok_def)
  ultimately show ?thesis using ok by (auto simp: tx_ok_def)
qed

lemma recorded_cache [simp]: "recorded (s\<lparr>cache := m\<rparr>) = recorded s"
  "recorded (s\<lparr>evm_refunds_counter := cnt\<rparr>) = recorded s"
  "recorded (s\<lparr>access_list_slots := al\<rparr>) = recorded s"
  by (auto simp: recorded_def fun_eq_iff split: option.splits)

lemma tx_ok_same_values:
  assumes "tx_ok start rec (V, c)" and "\<forall>k. record_value (V' k) = record_value (V k)"
  shows "tx_ok start rec (V', c)"
proof -
  have "cleared start rec V' = cleared start rec V" using assms(2) by (simp add: cleared_def)
  then show ?thesis using assms by (simp add: tx_ok_def)
qed

lemma slot_frames_materialized:
  assumes fr: "slot_frames oracle start s fs"
    and m: "hm_cache (initial_record oracle) m (map (map_prod fst fst) fs)"
      "\<forall>k. record_value (hm_view (initial_record oracle) m k) = slot_value oracle s k"
    and iv: "iv = initial_values s \<or> iv = iv_after oracle s key"
  shows "slot_frames oracle start (s\<lparr>cache := m, initial_values := iv\<rparr>) fs"
proof -
  let ?s = "s\<lparr>cache := m, initial_values := iv\<rparr>"
  have now: "tx_ok start (recorded s) (slot_obs oracle s)" using fr by (simp add: slot_frames_def)
  have rec: "tx_ok start (recorded ?s) ob" if "tx_ok start (recorded s) ob" for ob
    using that tx_ok_iv_after [OF that now] iv by (auto simp: recorded_def)
  then have "tx_ok start (recorded ?s) (slots oracle s, hc_value (evm_refunds_counter s))"
    using now by (simp add: slot_obs_def)
  from tx_ok_same_values [OF this, of "slots oracle ?s"] have "tx_ok start (recorded ?s) (slot_obs oracle ?s)"
    using m(2) by (simp add: slot_obs_def slot_value_def)
  then show ?thesis using fr m(1) rec iv by (auto simp: slot_frames_def iv_after_def split: if_splits)
qed

lemma slot_frames_written:
  assumes fr: "slot_frames oracle start s fs"
    and m: "hm_cache (initial_record oracle) m (map (map_prod fst fst) fs)"
      "hm_view (initial_record oracle) m = written oracle s key v"
    and cnt: "hc_value (evm_refunds_counter s) = Some c" "hc_updated (evm_refunds_counter s) cnt" "hc_value cnt = Some c'"
      "int (unat (ergs c')) = int (unat (ergs c)) + 256 * sstore_refund (original oracle s key) (slot_value oracle s key) v"
  shows "slot_frames oracle start (s\<lparr>cache := m, initial_values := iv_after oracle s key, evm_refunds_counter := cnt\<rparr>) fs"
proof -
  let ?t = "s\<lparr>cache := m, initial_values := iv_after oracle s key\<rparr>"
  let ?s = "?t\<lparr>evm_refunds_counter := cnt\<rparr>"
  have now: "tx_ok start (recorded s) (slot_obs oracle s)" using fr by (simp add: slot_frames_def)
  have rec: "tx_ok start (recorded ?s) ob" if "tx_ok start (recorded s) ob" for ob
    using tx_ok_iv_after [OF that now] by simp
  have "tx_ok start (recorded ?s) (slots oracle s, Some c)"
    using rec [OF now] cnt(1) by (simp add: slot_obs_def)
  moreover have "recorded ?s key \<noteq> None" by (simp add: recorded_iv_after)
  ultimately have "tx_ok start (recorded ?s) (written oracle s key v, Some c')"
    by (rule tx_ok_write) (use cnt(4) tx_ok_original [OF now] in \<open>auto simp: written_def slot_value_def\<close>)
  then have "tx_ok start (recorded ?s) (slot_obs oracle ?s)" using m(2) cnt(3) by (simp add: slot_obs_def)
  moreover have "hc_frames cnt (map (map_prod snd snd) fs)"
    using fr cnt(2) hc_frames_updated by (auto simp: slot_frames_def hc_updated_def)
  ultimately show ?thesis using fr m(1) rec by (auto simp: slot_frames_def iv_after_def split: if_splits)
qed

lemma slot_frames_refunded:
  assumes fr: "slot_frames oracle start s fs"
    and cnt: "hc_value (evm_refunds_counter s) = Some c" "hc_updated (evm_refunds_counter s) cnt" "hc_value cnt = Some c'"
      "unat (ergs c) \<le> unat (ergs c')"
  shows "slot_frames oracle start (s\<lparr>evm_refunds_counter := cnt\<rparr>) fs"
proof -
  have "tx_ok start (recorded s) (slots oracle s, Some c')"
    using fr cnt(1,4) by (auto simp: slot_frames_def slot_obs_def tx_ok_def intro: order_trans)
  moreover have "hc_frames cnt (map (map_prod snd snd) fs)"
    using fr cnt(2) hc_frames_updated by (auto simp: slot_frames_def hc_updated_def)
  ultimately show ?thesis using fr cnt(3) by (auto simp: slot_frames_def slot_obs_def)
qed

lemma slot_frames_counter:
  assumes "slot_frames oracle start s fs"
  obtains c where "hc_value (evm_refunds_counter s) = Some c"
    and "\<And>key. original oracle s key \<noteq> 0 \<and> slot_value oracle s key = 0 \<longrightarrow> 1228800 \<le> unat (ergs c)"
proof -
  have now: "tx_ok start (recorded s) (slot_obs oracle s)" using assms by (simp add: slot_frames_def)
  then obtain c where c: "hc_value (evm_refunds_counter s) = Some c"
    "1228800 * card (cleared start (recorded s) (slots oracle s)) \<le> unat (ergs c)"
    by (auto simp: tx_ok_def slot_obs_def)
  have "1228800 \<le> unat (ergs c)" if o: "original oracle s key \<noteq> 0" "slot_value oracle s key = 0" for key
  proof -
    have "recorded s key \<noteq> None" using o by (auto simp: original_def split: option.splits)
    then have "key \<in> cleared start (recorded s) (slots oracle s)"
      using o tx_ok_original [OF now, of key] by (auto simp: cleared_def slot_value_def)
    moreover have "finite (cleared start (recorded s) (slots oracle s))"
      using now by (auto simp: tx_ok_def cleared_def)
    ultimately have "0 < card (cleared start (recorded s) (slots oracle s))" by (auto simp: card_gt_0_iff)
    then show ?thesis using c(2) by simp
  qed
  then show thesis using that c(1) by blast
qed

text \<open>Each operation that does not panic keeps the open frames, and none panics as long as the counter has room.\<close>

lemma wp_slot_exec:
  assumes fr: "slot_frames oracle start s fs" and run: "refund_room op s \<or> fst (slot_exec oracle op (s, r)) \<noteq> Inl Panic"
  shows "wp (slot_exec oracle op) (\<lambda>_ t. slot_frames oracle start (fst t) fs) (\<lambda>_ t. slot_frames oracle start (fst t) fs) (s, r)"
proof (cases op)
  case (ReadSlot ee key al)
  have c: "hm_cache (initial_record oracle) (cache s) (map (map_prod fst fst) fs)" using fr by (simp add: slot_frames_def)
  have fr': "slot_frames oracle start (s\<lparr>cache := m\<rparr>) fs"
    if "hm_cache (initial_record oracle) m (map (map_prod fst fst) fs)"
      "hm_view (initial_record oracle) m = slots oracle s \<or> hm_view (initial_record oracle) m = (slots oracle s)(key := touch oracle s key)" for m
    using slot_frames_materialized [OF fr that(1), of "initial_values s"] that(2) by (auto simp: slot_value_def)
  show ?thesis
    unfolding ReadSlot slot_exec.simps apply_read_impl_def wp_and_then
    by (rule wp_materialize [OF c]) (use fr' in \<open>auto intro!: view_current\<close>)
next
  case (WriteSlot key v)
  have c: "hm_cache (initial_record oracle) (cache s) (map (map_prod fst fst) fs)" using fr by (simp add: slot_frames_def)
  obtain c0 where c0: "hc_value (evm_refunds_counter s) = Some c0"
    "original oracle s key \<noteq> 0 \<and> slot_value oracle s key = 0 \<longrightarrow> 1228800 \<le> unat (ergs c0)"
    using slot_frames_counter [OF fr] by metis
  have "unat (ergs c0) + 5094400 < 2 ^ 64 \<or> fst (apply_write_impl oracle EVM key v (s, r)) \<noteq> Inl Panic"
    using run c0(1) WriteSlot by (auto simp: and_then_def split: prod.splits)
  then show ?thesis
    unfolding WriteSlot slot_exec.simps wp_and_then wp_ret
    by (intro wp_write [OF c c0])
       (use slot_frames_written [OF fr _ _ c0(1)] slot_frames_materialized [OF fr] in auto)
next
  case (MarkSlot ee key)
  have "slot_frames oracle start (s\<lparr>access_list_slots := al\<rparr>) fs" for al
    using fr by (simp add: slot_frames_def slot_obs_def)
  then show ?thesis
    unfolding MarkSlot slot_exec.simps mark_access_list_slot_def wp_and_then wp_on_resources prod.case
    by (intro wp_charge_warm_read wp_charge_cold_read) (use fr in auto)
next
  case (AddRefund x)
  obtain c where c: "hc_value (evm_refunds_counter s) = Some c" using slot_frames_counter [OF fr] by metis
  then obtain g where g: "checked_add (ergs c) (ergs x) = Some g"
    using run AddRefund
    by (cases "checked_add (ergs c) (ergs x)")
       (auto simp: checked_add_def add_to_refund_counter_def add_ergs_def and_then_def read_st_def)
  let ?c = "c\<lparr>ergs := g\<rparr>"
  obtain cnt where cnt: "hc_update ?c (evm_refunds_counter s) = (Inr (), cnt)" "hc_value cnt = Some ?c"
    using hc_update_ok [of ?c "evm_refunds_counter s"] by auto
  have "slot_frames oracle start (s\<lparr>evm_refunds_counter := cnt\<rparr>) fs"
    by (rule slot_frames_refunded [OF fr c _ cnt(2)])
       (use cnt(1) g in \<open>auto simp: hc_updated_def checked_add_Some\<close>)
  then have "wp (hc_update ?c) (\<lambda>_ t. slot_frames oracle start (s\<lparr>evm_refunds_counter := t\<rparr>) fs)
      (\<lambda>_ t. slot_frames oracle start (s\<lparr>evm_refunds_counter := t\<rparr>) fs) (evm_refunds_counter s)"
    using cnt(1) by (simp add: wp_def)
  then show ?thesis using AddRefund c g by (simp add: add_to_refund_counter_def add_ergs_def)
qed

lemma storage_start_frame_iff:
  "storage_start_frame W s = (Inr (i, n), t) \<longleftrightarrow>
     (\<exists>m cnt. hm_snapshot W (cache s) = (Inr i, m) \<and> hc_snapshot (evm_refunds_counter s) = (Inr n, cnt) \<and>
       t = s\<lparr>cache := m, evm_refunds_counter := cnt\<rparr>)"
  by (auto simp: storage_start_frame_def on_cache_def on_counter_def on_part_def and_then_def ret_def
      split: prod.splits sum.splits fault.splits)

lemma storage_finish_frame_Some:
  assumes "hc_rollback n (evm_refunds_counter s) = (Inr (), cnt)" and "hm_rollback i (cache s) = (Inr (), m)"
  shows "storage_finish_frame (Some (i, n)) s = (Inr (), s\<lparr>cache := m, evm_refunds_counter := cnt\<rparr>)"
  using assms by (simp add: storage_finish_frame_def on_cache_def on_counter_def on_part_def and_then_def ret_def)

lemma slot_frames_pop: "slot_frames oracle start s (f # fs) \<Longrightarrow> slot_frames oracle start s fs"
  by (auto simp: slot_frames_def hm_cache_def total_frames_def hc_frames_def)

interpretation sv: frame_store "slot_frames oracle start" "slot_obs oracle" "(=)"
    "\<lambda>s. next_snapshot_id (cache s) < usize_max W" "storage_start_frame W" storage_finish_frame "slot_step oracle"
proof
  fix s t :: storage_values_cache and fs f h x
  show "\<exists>i t. storage_start_frame W s = (Inr i, t)"
    if "slot_frames oracle start s fs" "next_snapshot_id (cache s) < usize_max W"
    using that by (simp add: storage_start_frame_def on_cache_def on_counter_def on_part_def hm_snapshot_def hc_snapshot_def
        hl_snapshot_def hm_run_simps)
  show "slot_frames oracle start t ((h, slot_obs oracle s) # fs) \<and> slot_obs oracle t = slot_obs oracle s"
    if fr: "slot_frames oracle start s fs" and st: "storage_start_frame W s = (Inr h, t)"
  proof -
    obtain i n m cnt where st': "h = (i, n)" "hm_snapshot W (cache s) = (Inr i, m)"
      "hc_snapshot (evm_refunds_counter s) = (Inr n, cnt)" "t = s\<lparr>cache := m, evm_refunds_counter := cnt\<rparr>"
      using st by (cases h) (auto simp: storage_start_frame_iff)
    have "hm_cache (initial_record oracle) m ((i, slots oracle s) # map (map_prod fst fst) fs)"
      "hm_view (initial_record oracle) m = slots oracle s"
      using hv.start_frames [OF _ st'(2)] fr unfolding slot_frames_def by blast+
    moreover have "hc_frames cnt ((n, hc_value (evm_refunds_counter s)) # map (map_prod snd snd) fs)"
      "hc_value cnt = hc_value (evm_refunds_counter s)"
      using hc.start_frames [OF _ st'(3)] fr unfolding slot_frames_def by blast+
    ultimately show ?thesis using fr st' by (auto simp: slot_frames_def slot_obs_def)
  qed
  show "\<exists>t. storage_finish_frame None s = (Inr (), t) \<and> slot_frames oracle start t fs \<and> slot_obs oracle t = slot_obs oracle s"
    if "slot_frames oracle start s (f # fs)"
    using slot_frames_pop [OF that] by (simp add: storage_finish_frame_def ret_def)
  show "\<exists>t. storage_finish_frame (Some h) s = (Inr (), t) \<and> slot_frames oracle start t fs \<and> x = slot_obs oracle t"
    if fr: "slot_frames oracle start s ((h, x) # fs)"
  proof -
    obtain i n where h: "h = (i, n)" by (cases h)
    obtain m where m: "hm_rollback i (cache s) = (Inr (), m)"
      "hm_cache (initial_record oracle) m (map (map_prod fst fst) fs)" "hm_view (initial_record oracle) m = fst x"
      using hv.fail_frame [of "initial_record oracle" "cache s" i "fst x" "map (map_prod fst fst) fs"] fr h
      by (auto simp: slot_frames_def hm_finish_frame_def)
    obtain cnt where cnt: "hc_rollback n (evm_refunds_counter s) = (Inr (), cnt)"
      "hc_frames cnt (map (map_prod snd snd) fs)" "hc_value cnt = snd x"
      using hc.fail_frame [of "evm_refunds_counter s" n "snd x" "map (map_prod snd snd) fs"] fr h
      by (auto simp: slot_frames_def hc_finish_frame_def)
    let ?t = "s\<lparr>cache := m, evm_refunds_counter := cnt\<rparr>"
    have obs: "slot_obs oracle ?t = x" using m(3) cnt(3) by (cases x) (simp add: slot_obs_def)
    moreover have "slot_frames oracle start ?t fs" using fr m(2) cnt(2) obs by (auto simp: slot_frames_def)
    ultimately show ?thesis using storage_finish_frame_Some [OF cnt(1) m(1)] h by auto
  qed
  show "slot_frames oracle start t fs" if fr: "slot_frames oracle start s fs" and st: "slot_step oracle s t"
  proof -
    obtain op r x r' where op: "slot_exec oracle op (s, r) = (x, t, r')" "x \<noteq> Inl Panic"
      using st by (auto simp: slot_step_def)
    show ?thesis using wp_snd [OF wp_slot_exec [OF fr, of op r]] op by simp
  qed
qed auto

text \<open>
  A run inside a transaction: operations and completed frames, each kept or failed; and the
  states in which the transactions of a block start.
\<close>

definition slot_run :: "nat \<Rightarrow> storage_oracle \<Rightarrow> storage_values_cache \<Rightarrow> storage_values_cache \<Rightarrow> bool" where
  "slot_run W oracle = frame_store.balanced (storage_start_frame W) storage_finish_frame (slot_step oracle)"

inductive tx_begins :: "nat \<Rightarrow> storage_oracle \<Rightarrow> storage_values_cache \<Rightarrow> bool" for W "oracle" where
  first_tx: "storage_begin_new_tx W storage_new = (Inr (), s) \<Longrightarrow> tx_begins W oracle s"
| next_tx: "tx_begins W oracle s \<Longrightarrow> slot_run W oracle s t \<Longrightarrow> storage_begin_new_tx W t = (Inr (), s') \<Longrightarrow> tx_begins W oracle s'"

lemma begin_new_tx_frames:
  assumes c: "hm_cache (initial_record oracle) (cache s) fs"
    and iv: "\<forall>k v tx. initial_values s k = Some (v, tx) \<longrightarrow> tx \<le> current_tx_number s"
    and st: "storage_begin_new_tx W s = (Inr (), t)"
  shows "slot_frames oracle (slot_value oracle t) t [] \<and> slot_value oracle t = slot_value oracle s"
proof -
  obtain m n where m: "hm_commit W (cache s) = (Inr (), m)" and n: "checked_add (current_tx_number s) 1 = Some n"
    and t: "t = s\<lparr>cache := m, access_list_slots := {}, evm_refunds_counter := snd (hc_update resources_empty hc_new), current_tx_number := n\<rparr>"
    using st hc_update_ok [of resources_empty hc_new]
    by (auto simp: storage_begin_new_tx_def on_cache_def on_counter_def on_part_def hm_run_simps expect_def
        split: prod.splits sum.splits fault.splits option.splits)
  have "next_snapshot_id (cache s) < usize_max W"
    using m by (auto simp: hm_commit_def hm_snapshot_def hm_run_simps split: if_splits)
  then have "wp (hm_commit W) (\<lambda>_ m'. hm_cache (initial_record oracle) m' [] \<and> hm_view (initial_record oracle) m' = slots oracle s) (\<lambda>_ _. False) (cache s)"
    by (intro view_commit [OF c]) auto
  then have m': "hm_cache (initial_record oracle) m []" "hm_view (initial_record oracle) m = slots oracle s"
    using m by (simp_all add: wp_def)
  have "unat n = unat (current_tx_number s) + 1" using n by (simp add: checked_add_Some)
  then have lt: "tx < n" if "tx \<le> current_tx_number s" for tx
    using that by (simp add: word_le_nat_alt word_less_nat_alt)
  have rec: "recorded t = Map.empty"
    using iv lt t by (fastforce simp: recorded_def fun_eq_iff split: option.splits)
  have cnt: "hc_frames (evm_refunds_counter t) []" "hc_value (evm_refunds_counter t) = Some resources_empty"
    using t by (auto simp: hc_defs hc_frames_def hc_value_def)
  have val: "slot_value oracle t = slot_value oracle s" using m'(2) t by (simp add: slot_value_def fun_eq_iff)
  have "tx_ok (slot_value oracle t) (recorded t) (slot_obs oracle t)"
    using cnt(2) by (simp add: tx_ok_def rec slot_obs_def slot_value_def cleared_def)
  then show ?thesis using m'(1) cnt(1) t val lt iv
    by (auto simp: slot_frames_def intro: less_imp_le)
qed

lemma tx_begins_frames: "tx_begins W oracle s \<Longrightarrow> slot_frames oracle (slot_value oracle s) s []"
proof (induction rule: tx_begins.induct)
  case (first_tx s)
  have c: "hm_cache (initial_record oracle) (cache storage_new) []" by (simp add: storage_new_def hm_cache_new)
  show ?case by (rule begin_new_tx_frames [OF c _ first_tx, THEN conjunct1]) (simp add: storage_new_def)
next
  case (next_tx s t s')
  have "slot_frames oracle (slot_value oracle s) t []"
    using sv.balanced_frames next_tx.hyps(2) next_tx.IH unfolding slot_run_def by blast
  then show ?case using begin_new_tx_frames [OF _ _ next_tx.hyps(3)] by (auto simp: slot_frames_def)
qed

lemma slot_run_frames:
  "tx_begins W oracle s \<Longrightarrow> slot_run W oracle s t \<Longrightarrow> slot_frames oracle (slot_value oracle s) t []"
  using sv.balanced_frames tx_begins_frames unfolding slot_run_def by blast

section \<open>Properties\<close>

text \<open>C27: Whatever a transaction did before, an SSTORE returns the old value, changes that slot
  only, costs the ergs of the EVM schedule for the slot's warmth, its value at the start of the
  transaction, its current and its new value, and moves the refund counter by the EVM's refund.
  When the resources do not suffice it fails with an out-of-resource error, every slot keeps its
  value, and it never panics.\<close>

theorem sstore_follows_evm_schedule:
  assumes "tx_begins W oracle s" and "slot_run W oracle s t" and "refund_room (WriteSlot k v) t"
  shows "case apply_write_impl oracle EVM k v (t, r) of
      (Inr old, t', r') \<Rightarrow>
        old = slot_value oracle t k \<and> slot_value oracle t' = (slot_value oracle t)(k := v) \<and>
        unat (ergs r) = unat (ergs r') + 256 * sstore_gas (is_warm oracle t k) (slot_value oracle s k) old v \<and>
        (\<exists>c c'. hc_value (evm_refunds_counter t) = Some c \<and> hc_value (evm_refunds_counter t') = Some c' \<and>
          int (unat (ergs c')) = int (unat (ergs c)) + 256 * sstore_refund (slot_value oracle s k) old v)
    | (Inl (Err e), t', r') \<Rightarrow> (\<exists>x. e = LeafRuntime x) \<and> slot_value oracle t' = slot_value oracle t
    | (Inl Panic, _) \<Rightarrow> False"
proof -
  note fr = slot_run_frames [OF assms(1,2)]
  have c: "hm_cache (initial_record oracle) (cache t) []" using fr by (simp add: slot_frames_def)
  have orig: "original oracle t k = slot_value oracle s k" using tx_ok_original fr by (simp add: slot_frames_def)
  obtain c0 where c0: "hc_value (evm_refunds_counter t) = Some c0"
    "original oracle t k \<noteq> 0 \<and> slot_value oracle t k = 0 \<longrightarrow> 1228800 \<le> unat (ergs c0)"
    using slot_frames_counter [OF fr] by metis
  have room: "unat (ergs c0) + 5094400 < 2 ^ 64" using assms(3) c0(1) by simp
  have "wp (apply_write_impl oracle EVM k v) (\<lambda>old (t', r').
        old = slot_value oracle t k \<and> slot_value oracle t' = (slot_value oracle t)(k := v) \<and>
        unat (ergs r) = unat (ergs r') + 256 * sstore_gas (is_warm oracle t k) (slot_value oracle s k) old v \<and>
        (\<exists>c c'. hc_value (evm_refunds_counter t) = Some c \<and> hc_value (evm_refunds_counter t') = Some c' \<and>
          int (unat (ergs c')) = int (unat (ergs c)) + 256 * sstore_refund (slot_value oracle s k) old v))
      (\<lambda>e (t', r'). (\<exists>x. e = LeafRuntime x) \<and> slot_value oracle t' = slot_value oracle t) (t, r)"
    by (rule wp_write [OF c c0 disjI1 [OF room]])
       (use orig c0(1) in \<open>auto simp: slot_value_def written_def fun_eq_iff\<close>)
  then show ?thesis by (auto simp: wp_def split: prod.splits sum.splits fault.splits)
qed

text \<open>C28: The refund counter never underflows or overflows within a transaction: at every point
  of a transaction, and for every slot and new value, the refund step of an SSTORE succeeds.\<close>

theorem refund_counter_never_underflows:
  assumes "tx_begins W oracle s" and "slot_run W oracle s t" and "refund_room (WriteSlot k v) t"
    and "hc_value (evm_refunds_counter t) = Some c"
  shows "fst (refund_for_storage_write EVM (slot_value oracle s k) (slot_value oracle t k) v c) = Inr ()"
proof -
  note fr = slot_run_frames [OF assms(1,2)]
  have orig: "original oracle t k = slot_value oracle s k" using tx_ok_original fr by (simp add: slot_frames_def)
  obtain c0 where "hc_value (evm_refunds_counter t) = Some c0"
    "original oracle t k \<noteq> 0 \<and> slot_value oracle t k = 0 \<longrightarrow> 1228800 \<le> unat (ergs c0)"
    using slot_frames_counter [OF fr] by metis
  then have enough: "slot_value oracle s k \<noteq> 0 \<and> slot_value oracle t k = 0 \<longrightarrow> 1228800 \<le> unat (ergs c)"
    using assms(4) orig by simp
  have room: "unat (ergs c) + 5094400 < 2 ^ 64" using assms(3,4) by simp
  have "wp (refund_for_storage_write EVM (slot_value oracle s k) (slot_value oracle t k) v) (\<lambda>_ _. True) (\<lambda>_ _. False) c"
    by (rule wp_refund [OF room enough]) simp
  from wp_total [OF this] show ?thesis by auto
qed

text \<open>C29: A frame that fails restores the value and the warmth of every slot and the refund
  counter, whatever operations and inner frames ran in it, with whatever outcome.\<close>

theorem failed_frame_restores_slots:
  assumes "tx_begins W oracle s" and "slot_run W oracle s t"
    and "storage_start_frame W t = (Inr h, t1)" and "slot_run W oracle t1 t2"
  shows "\<exists>t3. storage_finish_frame (Some h) t2 = (Inr (), t3) \<and>
    (\<forall>k. slot_value oracle t3 k = slot_value oracle t k \<and>
      considered_warm (metadata (slots oracle t3 k)) tx = considered_warm (metadata (slots oracle t k)) tx) \<and>
    hc_value (evm_refunds_counter t3) = hc_value (evm_refunds_counter t)"
proof -
  obtain t3 where "storage_finish_frame (Some h) t2 = (Inr (), t3)" "slot_obs oracle t = slot_obs oracle t3"
    using sv.failed_frame_restores [OF slot_run_frames [OF assms(1,2)] assms(3)] assms(4) unfolding slot_run_def by blast
  then show ?thesis by (auto simp: slot_obs_def slot_value_def)
qed

section \<open>A concrete transaction\<close>

definition ex_oracle :: storage_oracle where
  "ex_oracle k = \<lparr>is_new_storage_slot = False, initial_value = 5\<rparr>"

definition ex_key :: warm_storage_key where
  "ex_key = WarmStorageKey 7 1"

definition ex_resources :: base_resources where
  "ex_resources = \<lparr>ergs = 100000000, native = 100000000\<rparr>"

definition ex_tx0 :: storage_values_cache where
  "ex_tx0 = snd (storage_begin_new_tx 64 storage_new)"

definition ex_tx1 :: storage_values_cache where
  "ex_tx1 = fst (snd (slot_exec ex_oracle (WriteSlot ex_key 0) (ex_tx0, ex_resources)))"

lemma ex_tx0_begin: "storage_begin_new_tx 64 storage_new = (Inr (), ex_tx0)"
  by (simp add: ex_tx0_def storage_begin_new_tx_def storage_new_def on_cache_def on_counter_def hm_commit_def hc_defs hm_run_simps checked_add_def)

lemma ex_tx0_eval: "ex_tx0 = \<lparr>cache = \<lparr>btree = Map.empty, next_snapshot_id = 2, frozen_snapshot_id = 1,
     pending_updated_elements = [], records_memory_pool = pool_new\<rparr>, access_list_slots = {}, current_tx_number = 1,
     initial_values = Map.empty, evm_refunds_counter = \<lparr>history = [(resources_empty, ())], last_snapshot_id = 0\<rparr>\<rparr>"
  by (simp add: ex_tx0_def storage_begin_new_tx_def storage_new_def on_cache_def on_counter_def hm_commit_def hc_defs hm_run_simps checked_add_def)

lemmas slot_run_simps = hm_run_simps hc_defs slot_exec.simps apply_write_impl_def apply_read_impl_def materialize_element_def
  warm_up_def spawn_slot_def initial_record_def cache_record_new_def touch_in_tx_def value_at_tx_start_def is_new_slot_def
  apply_refund_def refund_for_storage_write_def add_ergs_def checked_add_def on_resources_def on_storage_def on_cache_def on_counter_def
  charge_warm_storage_read_def charge_cold_storage_read_extra_def charge_storage_write_extra_def resources_charge_cases
  from_ergs_and_native_def from_ergs_def storage_costs considered_warm_def hm_current_def appearance_update_def hc_value_def
  resources_empty_def ergs_empty_def native_empty_def ex_oracle_def ex_resources_def

lemma ex_tx1_eval: "ex_tx1 = \<lparr>cache =
    \<lparr>btree = [ex_key \<mapsto> \<lparr>key_properties = \<lparr>initial_appearance = Existing, current_appearance = Updated\<rparr>, initial = 0, first = 1, head = 1\<rparr>],
      next_snapshot_id = 2, frozen_snapshot_id = 1, pending_updated_elements = [(ex_key, 2)],
      records_memory_pool = \<lparr>pool_head = None, pool_last = None,
        cells = [0 \<mapsto> \<lparr>touch_ss_id = 0, val = \<lparr>record_value = 5, metadata = \<lparr>last_touched_in_tx = None\<rparr>\<rparr>, previous = None\<rparr>,
          1 \<mapsto> \<lparr>touch_ss_id = 2, val = \<lparr>record_value = 0, metadata = \<lparr>last_touched_in_tx = Some 1\<rparr>\<rparr>, previous = Some 0\<rparr>],
        brk = 2\<rparr>\<rparr>,
    access_list_slots = {}, current_tx_number = 1, initial_values = [ex_key \<mapsto> (5, 1)],
    evm_refunds_counter = \<lparr>history = [(\<lparr>ergs = 1228800, native = 0\<rparr>, ())], last_snapshot_id = 0\<rparr>\<rparr>"
  by (simp add: ex_tx1_def ex_tx0_eval slot_run_simps)

lemma ex_begins: "tx_begins 64 ex_oracle ex_tx0"
  by (rule first_tx [OF ex_tx0_begin])

lemma ex_run: "slot_run 64 ex_oracle ex_tx0 ex_tx1"
  unfolding slot_run_def
proof (rule sv.bal_step [OF sv.bal_refl])
  have "fst (slot_exec ex_oracle (WriteSlot ex_key 0) (ex_tx0, ex_resources)) \<noteq> Inl Panic"
    by (simp add: ex_tx0_eval slot_run_simps)
  then show "slot_step ex_oracle ex_tx0 ex_tx1" unfolding slot_step_def ex_tx1_def by (metis prod.collapse)
qed

lemma ex_room: "refund_room (WriteSlot ex_key v) ex_tx1"
  by (simp add: ex_tx1_eval hc_value_def)

lemma ex_values: "slot_value ex_oracle ex_tx0 ex_key = 5" "slot_value ex_oracle ex_tx1 ex_key = 0" "is_warm ex_oracle ex_tx1 ex_key"
  "hc_value (evm_refunds_counter ex_tx1) = Some \<lparr>ergs = 1228800, native = 0\<rparr>"
  by (simp_all add: ex_tx0_eval ex_tx1_eval slot_value_def is_warm_def considered_warm_def hm_view_def hm_values_def
      initial_record_def cache_record_new_def ex_oracle_def hc_value_def)

theorem sstore_follows_evm_schedule_witness:
  "\<exists>t' r'. apply_write_impl ex_oracle EVM ex_key 9 (ex_tx1, ex_resources) = (Inr 0, t', r') \<and>
     slot_value ex_oracle t' ex_key = 9 \<and> unat (ergs r') = 100000000 - 256 * 100 \<and>
     (\<exists>c'. hc_value (evm_refunds_counter t') = Some c' \<and> uint (ergs c') = 0)"
proof -
  have "fst (apply_write_impl ex_oracle EVM ex_key 9 (ex_tx1, ex_resources)) = Inr 0"
    by (simp add: ex_tx1_eval slot_run_simps)
  then obtain t' r' where run: "apply_write_impl ex_oracle EVM ex_key 9 (ex_tx1, ex_resources) = (Inr 0, t', r')"
    by (cases "apply_write_impl ex_oracle EVM ex_key 9 (ex_tx1, ex_resources)") auto
  show ?thesis
    using sstore_follows_evm_schedule [OF ex_begins ex_run ex_room, of 9 ex_resources] run
    by (auto simp: ex_values sstore_gas_def sstore_refund_def ex_resources_def)
qed

theorem refund_counter_never_underflows_witness:
  "fst (refund_for_storage_write EVM 5 0 9 \<lparr>ergs = 1228800, native = 0\<rparr>) = Inr ()"
  using refund_counter_never_underflows [OF ex_begins ex_run ex_room ex_values(4), of 9] by (simp add: ex_values)

theorem failed_frame_restores_slots_witness:
  "\<exists>h t1 t3. storage_start_frame 64 ex_tx0 = (Inr h, t1) \<and>
     storage_finish_frame (Some h) (fst (snd (slot_exec ex_oracle (WriteSlot ex_key 0) (t1, ex_resources)))) = (Inr (), t3) \<and>
     slot_value ex_oracle t3 ex_key = 5"
proof -
  define t1 where "t1 = snd (storage_start_frame 64 ex_tx0)"
  have st: "storage_start_frame 64 ex_tx0 = (Inr (2, 1), t1)"
    by (simp add: t1_def ex_tx0_eval storage_start_frame_def slot_run_simps)
  let ?t2 = "fst (snd (slot_exec ex_oracle (WriteSlot ex_key 0) (t1, ex_resources)))"
  have "fst (slot_exec ex_oracle (WriteSlot ex_key 0) (t1, ex_resources)) \<noteq> Inl Panic"
    by (simp add: t1_def ex_tx0_eval storage_start_frame_def slot_run_simps)
  then have "slot_step ex_oracle t1 ?t2" unfolding slot_step_def by (metis prod.collapse)
  then have run: "slot_run 64 ex_oracle t1 ?t2"
    unfolding slot_run_def by (rule sv.bal_step [OF sv.bal_refl])
  have "slot_run 64 ex_oracle ex_tx0 ex_tx0" unfolding slot_run_def by (rule sv.bal_refl)
  from failed_frame_restores_slots [OF ex_begins this st run, of 1]
  obtain t3 where "storage_finish_frame (Some (2, 1)) ?t2 = (Inr (), t3)" "slot_value ex_oracle t3 ex_key = 5"
    using ex_values(1) by metis
  with st show ?thesis by blast
qed

end
