(* ===== verification/Evm_Opcodes.thy ===== *)
theory Evm_Opcodes
  imports Zk_Prelude
begin

text \<open>
  The opcodes of \<^verbatim>\<open>evm_interpreter/src/opcodes.rs\<close> and what each costs in the native resource
  (\<^verbatim>\<open>evm_interpreter/src/native_resource_constants.rs\<close>). The constant \<open>X\<close> is \<open>OP_X\<close>, and
  \<open>X_NATIVE_COST\<close> is \<open>native_cost OP_X\<close>.
\<close>

section \<open>Opcodes\<close>

abbreviation OP_STOP :: u8 where "OP_STOP \<equiv> 0x00"
abbreviation OP_ADD :: u8 where "OP_ADD \<equiv> 0x01"
abbreviation OP_MUL :: u8 where "OP_MUL \<equiv> 0x02"
abbreviation OP_SUB :: u8 where "OP_SUB \<equiv> 0x03"
abbreviation OP_DIV :: u8 where "OP_DIV \<equiv> 0x04"
abbreviation OP_SDIV :: u8 where "OP_SDIV \<equiv> 0x05"
abbreviation OP_MOD :: u8 where "OP_MOD \<equiv> 0x06"
abbreviation OP_SMOD :: u8 where "OP_SMOD \<equiv> 0x07"
abbreviation OP_ADDMOD :: u8 where "OP_ADDMOD \<equiv> 0x08"
abbreviation OP_MULMOD :: u8 where "OP_MULMOD \<equiv> 0x09"
abbreviation OP_EXP :: u8 where "OP_EXP \<equiv> 0x0a"
abbreviation OP_SIGNEXTEND :: u8 where "OP_SIGNEXTEND \<equiv> 0x0b"
abbreviation OP_LT :: u8 where "OP_LT \<equiv> 0x10"
abbreviation OP_GT :: u8 where "OP_GT \<equiv> 0x11"
abbreviation OP_SLT :: u8 where "OP_SLT \<equiv> 0x12"
abbreviation OP_SGT :: u8 where "OP_SGT \<equiv> 0x13"
abbreviation OP_EQ :: u8 where "OP_EQ \<equiv> 0x14"
abbreviation OP_ISZERO :: u8 where "OP_ISZERO \<equiv> 0x15"
abbreviation OP_AND :: u8 where "OP_AND \<equiv> 0x16"
abbreviation OP_OR :: u8 where "OP_OR \<equiv> 0x17"
abbreviation OP_XOR :: u8 where "OP_XOR \<equiv> 0x18"
abbreviation OP_NOT :: u8 where "OP_NOT \<equiv> 0x19"
abbreviation OP_BYTE :: u8 where "OP_BYTE \<equiv> 0x1a"
abbreviation OP_CLZ :: u8 where "OP_CLZ \<equiv> 0x1e"
abbreviation OP_CALLDATALOAD :: u8 where "OP_CALLDATALOAD \<equiv> 0x35"
abbreviation OP_CALLDATASIZE :: u8 where "OP_CALLDATASIZE \<equiv> 0x36"
abbreviation OP_CALLDATACOPY :: u8 where "OP_CALLDATACOPY \<equiv> 0x37"
abbreviation OP_CODESIZE :: u8 where "OP_CODESIZE \<equiv> 0x38"
abbreviation OP_CODECOPY :: u8 where "OP_CODECOPY \<equiv> 0x39"
abbreviation OP_SHL :: u8 where "OP_SHL \<equiv> 0x1b"
abbreviation OP_SHR :: u8 where "OP_SHR \<equiv> 0x1c"
abbreviation OP_SAR :: u8 where "OP_SAR \<equiv> 0x1d"
abbreviation OP_SHA3 :: u8 where "OP_SHA3 \<equiv> 0x20"
abbreviation OP_POP :: u8 where "OP_POP \<equiv> 0x50"
abbreviation OP_MLOAD :: u8 where "OP_MLOAD \<equiv> 0x51"
abbreviation OP_MSTORE :: u8 where "OP_MSTORE \<equiv> 0x52"
abbreviation OP_MSTORE8 :: u8 where "OP_MSTORE8 \<equiv> 0x53"
abbreviation OP_JUMP :: u8 where "OP_JUMP \<equiv> 0x56"
abbreviation OP_JUMPI :: u8 where "OP_JUMPI \<equiv> 0x57"
abbreviation OP_PC :: u8 where "OP_PC \<equiv> 0x58"
abbreviation OP_MSIZE :: u8 where "OP_MSIZE \<equiv> 0x59"
abbreviation OP_JUMPDEST :: u8 where "OP_JUMPDEST \<equiv> 0x5b"
abbreviation OP_TLOAD :: u8 where "OP_TLOAD \<equiv> 0x5c"
abbreviation OP_TSTORE :: u8 where "OP_TSTORE \<equiv> 0x5d"
abbreviation OP_MCOPY :: u8 where "OP_MCOPY \<equiv> 0x5e"
abbreviation OP_PUSH0 :: u8 where "OP_PUSH0 \<equiv> 0x5f"
abbreviation OP_PUSH1 :: u8 where "OP_PUSH1 \<equiv> 0x60"
abbreviation OP_PUSH2 :: u8 where "OP_PUSH2 \<equiv> 0x61"
abbreviation OP_PUSH3 :: u8 where "OP_PUSH3 \<equiv> 0x62"
abbreviation OP_PUSH4 :: u8 where "OP_PUSH4 \<equiv> 0x63"
abbreviation OP_PUSH5 :: u8 where "OP_PUSH5 \<equiv> 0x64"
abbreviation OP_PUSH6 :: u8 where "OP_PUSH6 \<equiv> 0x65"
abbreviation OP_PUSH7 :: u8 where "OP_PUSH7 \<equiv> 0x66"
abbreviation OP_PUSH8 :: u8 where "OP_PUSH8 \<equiv> 0x67"
abbreviation OP_PUSH9 :: u8 where "OP_PUSH9 \<equiv> 0x68"
abbreviation OP_PUSH10 :: u8 where "OP_PUSH10 \<equiv> 0x69"
abbreviation OP_PUSH11 :: u8 where "OP_PUSH11 \<equiv> 0x6a"
abbreviation OP_PUSH12 :: u8 where "OP_PUSH12 \<equiv> 0x6b"
abbreviation OP_PUSH13 :: u8 where "OP_PUSH13 \<equiv> 0x6c"
abbreviation OP_PUSH14 :: u8 where "OP_PUSH14 \<equiv> 0x6d"
abbreviation OP_PUSH15 :: u8 where "OP_PUSH15 \<equiv> 0x6e"
abbreviation OP_PUSH16 :: u8 where "OP_PUSH16 \<equiv> 0x6f"
abbreviation OP_PUSH17 :: u8 where "OP_PUSH17 \<equiv> 0x70"
abbreviation OP_PUSH18 :: u8 where "OP_PUSH18 \<equiv> 0x71"
abbreviation OP_PUSH19 :: u8 where "OP_PUSH19 \<equiv> 0x72"
abbreviation OP_PUSH20 :: u8 where "OP_PUSH20 \<equiv> 0x73"
abbreviation OP_PUSH21 :: u8 where "OP_PUSH21 \<equiv> 0x74"
abbreviation OP_PUSH22 :: u8 where "OP_PUSH22 \<equiv> 0x75"
abbreviation OP_PUSH23 :: u8 where "OP_PUSH23 \<equiv> 0x76"
abbreviation OP_PUSH24 :: u8 where "OP_PUSH24 \<equiv> 0x77"
abbreviation OP_PUSH25 :: u8 where "OP_PUSH25 \<equiv> 0x78"
abbreviation OP_PUSH26 :: u8 where "OP_PUSH26 \<equiv> 0x79"
abbreviation OP_PUSH27 :: u8 where "OP_PUSH27 \<equiv> 0x7a"
abbreviation OP_PUSH28 :: u8 where "OP_PUSH28 \<equiv> 0x7b"
abbreviation OP_PUSH29 :: u8 where "OP_PUSH29 \<equiv> 0x7c"
abbreviation OP_PUSH30 :: u8 where "OP_PUSH30 \<equiv> 0x7d"
abbreviation OP_PUSH31 :: u8 where "OP_PUSH31 \<equiv> 0x7e"
abbreviation OP_PUSH32 :: u8 where "OP_PUSH32 \<equiv> 0x7f"
abbreviation OP_DUP1 :: u8 where "OP_DUP1 \<equiv> 0x80"
abbreviation OP_DUP2 :: u8 where "OP_DUP2 \<equiv> 0x81"
abbreviation OP_DUP3 :: u8 where "OP_DUP3 \<equiv> 0x82"
abbreviation OP_DUP4 :: u8 where "OP_DUP4 \<equiv> 0x83"
abbreviation OP_DUP5 :: u8 where "OP_DUP5 \<equiv> 0x84"
abbreviation OP_DUP6 :: u8 where "OP_DUP6 \<equiv> 0x85"
abbreviation OP_DUP7 :: u8 where "OP_DUP7 \<equiv> 0x86"
abbreviation OP_DUP8 :: u8 where "OP_DUP8 \<equiv> 0x87"
abbreviation OP_DUP9 :: u8 where "OP_DUP9 \<equiv> 0x88"
abbreviation OP_DUP10 :: u8 where "OP_DUP10 \<equiv> 0x89"
abbreviation OP_DUP11 :: u8 where "OP_DUP11 \<equiv> 0x8a"
abbreviation OP_DUP12 :: u8 where "OP_DUP12 \<equiv> 0x8b"
abbreviation OP_DUP13 :: u8 where "OP_DUP13 \<equiv> 0x8c"
abbreviation OP_DUP14 :: u8 where "OP_DUP14 \<equiv> 0x8d"
abbreviation OP_DUP15 :: u8 where "OP_DUP15 \<equiv> 0x8e"
abbreviation OP_DUP16 :: u8 where "OP_DUP16 \<equiv> 0x8f"
abbreviation OP_SWAP1 :: u8 where "OP_SWAP1 \<equiv> 0x90"
abbreviation OP_SWAP2 :: u8 where "OP_SWAP2 \<equiv> 0x91"
abbreviation OP_SWAP3 :: u8 where "OP_SWAP3 \<equiv> 0x92"
abbreviation OP_SWAP4 :: u8 where "OP_SWAP4 \<equiv> 0x93"
abbreviation OP_SWAP5 :: u8 where "OP_SWAP5 \<equiv> 0x94"
abbreviation OP_SWAP6 :: u8 where "OP_SWAP6 \<equiv> 0x95"
abbreviation OP_SWAP7 :: u8 where "OP_SWAP7 \<equiv> 0x96"
abbreviation OP_SWAP8 :: u8 where "OP_SWAP8 \<equiv> 0x97"
abbreviation OP_SWAP9 :: u8 where "OP_SWAP9 \<equiv> 0x98"
abbreviation OP_SWAP10 :: u8 where "OP_SWAP10 \<equiv> 0x99"
abbreviation OP_SWAP11 :: u8 where "OP_SWAP11 \<equiv> 0x9a"
abbreviation OP_SWAP12 :: u8 where "OP_SWAP12 \<equiv> 0x9b"
abbreviation OP_SWAP13 :: u8 where "OP_SWAP13 \<equiv> 0x9c"
abbreviation OP_SWAP14 :: u8 where "OP_SWAP14 \<equiv> 0x9d"
abbreviation OP_SWAP15 :: u8 where "OP_SWAP15 \<equiv> 0x9e"
abbreviation OP_SWAP16 :: u8 where "OP_SWAP16 \<equiv> 0x9f"
abbreviation OP_RETURN :: u8 where "OP_RETURN \<equiv> 0xf3"
abbreviation OP_REVERT :: u8 where "OP_REVERT \<equiv> 0xfd"
abbreviation OP_INVALID :: u8 where "OP_INVALID \<equiv> 0xfe"
abbreviation OP_ADDRESS :: u8 where "OP_ADDRESS \<equiv> 0x30"
abbreviation OP_BALANCE :: u8 where "OP_BALANCE \<equiv> 0x31"
abbreviation OP_BASEFEE :: u8 where "OP_BASEFEE \<equiv> 0x48"
abbreviation OP_ORIGIN :: u8 where "OP_ORIGIN \<equiv> 0x32"
abbreviation OP_CALLER :: u8 where "OP_CALLER \<equiv> 0x33"
abbreviation OP_CALLVALUE :: u8 where "OP_CALLVALUE \<equiv> 0x34"
abbreviation OP_GASPRICE :: u8 where "OP_GASPRICE \<equiv> 0x3a"
abbreviation OP_EXTCODESIZE :: u8 where "OP_EXTCODESIZE \<equiv> 0x3b"
abbreviation OP_EXTCODECOPY :: u8 where "OP_EXTCODECOPY \<equiv> 0x3c"
abbreviation OP_EXTCODEHASH :: u8 where "OP_EXTCODEHASH \<equiv> 0x3f"
abbreviation OP_RETURNDATASIZE :: u8 where "OP_RETURNDATASIZE \<equiv> 0x3d"
abbreviation OP_RETURNDATACOPY :: u8 where "OP_RETURNDATACOPY \<equiv> 0x3e"
abbreviation OP_BLOCKHASH :: u8 where "OP_BLOCKHASH \<equiv> 0x40"
abbreviation OP_COINBASE :: u8 where "OP_COINBASE \<equiv> 0x41"
abbreviation OP_TIMESTAMP :: u8 where "OP_TIMESTAMP \<equiv> 0x42"
abbreviation OP_NUMBER :: u8 where "OP_NUMBER \<equiv> 0x43"
abbreviation OP_DIFFICULTY :: u8 where "OP_DIFFICULTY \<equiv> 0x44"
abbreviation OP_GASLIMIT :: u8 where "OP_GASLIMIT \<equiv> 0x45"
abbreviation OP_SELFBALANCE :: u8 where "OP_SELFBALANCE \<equiv> 0x47"
abbreviation OP_SLOAD :: u8 where "OP_SLOAD \<equiv> 0x54"
abbreviation OP_SSTORE :: u8 where "OP_SSTORE \<equiv> 0x55"
abbreviation OP_GAS :: u8 where "OP_GAS \<equiv> 0x5a"
abbreviation OP_LOG0 :: u8 where "OP_LOG0 \<equiv> 0xa0"
abbreviation OP_LOG1 :: u8 where "OP_LOG1 \<equiv> 0xa1"
abbreviation OP_LOG2 :: u8 where "OP_LOG2 \<equiv> 0xa2"
abbreviation OP_LOG3 :: u8 where "OP_LOG3 \<equiv> 0xa3"
abbreviation OP_LOG4 :: u8 where "OP_LOG4 \<equiv> 0xa4"
abbreviation OP_CREATE :: u8 where "OP_CREATE \<equiv> 0xf0"
abbreviation OP_CREATE2 :: u8 where "OP_CREATE2 \<equiv> 0xf5"
abbreviation OP_CALL :: u8 where "OP_CALL \<equiv> 0xf1"
abbreviation OP_CALLCODE :: u8 where "OP_CALLCODE \<equiv> 0xf2"
abbreviation OP_DELEGATECALL :: u8 where "OP_DELEGATECALL \<equiv> 0xf4"
abbreviation OP_STATICCALL :: u8 where "OP_STATICCALL \<equiv> 0xfa"
abbreviation OP_SELFDESTRUCT :: u8 where "OP_SELFDESTRUCT \<equiv> 0xff"
abbreviation OP_CHAINID :: u8 where "OP_CHAINID \<equiv> 0x46"
abbreviation OP_BLOBHASH :: u8 where "OP_BLOBHASH \<equiv> 0x49"
abbreviation OP_BLOBBASEFEE :: u8 where "OP_BLOBBASEFEE \<equiv> 0x4a"

text \<open>All constants of the file with their names.\<close>

definition opcode_constants :: "(string \<times> u8) list" where
  "opcode_constants =
    [(''STOP'', OP_STOP), (''ADD'', OP_ADD), (''MUL'', OP_MUL), (''SUB'', OP_SUB),
     (''DIV'', OP_DIV), (''SDIV'', OP_SDIV), (''MOD'', OP_MOD), (''SMOD'', OP_SMOD),
     (''ADDMOD'', OP_ADDMOD), (''MULMOD'', OP_MULMOD), (''EXP'', OP_EXP),
     (''SIGNEXTEND'', OP_SIGNEXTEND), (''LT'', OP_LT), (''GT'', OP_GT), (''SLT'', OP_SLT),
     (''SGT'', OP_SGT), (''EQ'', OP_EQ), (''ISZERO'', OP_ISZERO), (''AND'', OP_AND),
     (''OR'', OP_OR), (''XOR'', OP_XOR), (''NOT'', OP_NOT), (''BYTE'', OP_BYTE),
     (''CLZ'', OP_CLZ), (''CALLDATALOAD'', OP_CALLDATALOAD),
     (''CALLDATASIZE'', OP_CALLDATASIZE), (''CALLDATACOPY'', OP_CALLDATACOPY),
     (''CODESIZE'', OP_CODESIZE), (''CODECOPY'', OP_CODECOPY), (''SHL'', OP_SHL),
     (''SHR'', OP_SHR), (''SAR'', OP_SAR), (''SHA3'', OP_SHA3), (''POP'', OP_POP),
     (''MLOAD'', OP_MLOAD), (''MSTORE'', OP_MSTORE), (''MSTORE8'', OP_MSTORE8),
     (''JUMP'', OP_JUMP), (''JUMPI'', OP_JUMPI), (''PC'', OP_PC), (''MSIZE'', OP_MSIZE),
     (''JUMPDEST'', OP_JUMPDEST), (''TLOAD'', OP_TLOAD), (''TSTORE'', OP_TSTORE),
     (''MCOPY'', OP_MCOPY), (''PUSH0'', OP_PUSH0), (''PUSH1'', OP_PUSH1),
     (''PUSH2'', OP_PUSH2), (''PUSH3'', OP_PUSH3), (''PUSH4'', OP_PUSH4),
     (''PUSH5'', OP_PUSH5), (''PUSH6'', OP_PUSH6), (''PUSH7'', OP_PUSH7),
     (''PUSH8'', OP_PUSH8), (''PUSH9'', OP_PUSH9), (''PUSH10'', OP_PUSH10),
     (''PUSH11'', OP_PUSH11), (''PUSH12'', OP_PUSH12), (''PUSH13'', OP_PUSH13),
     (''PUSH14'', OP_PUSH14), (''PUSH15'', OP_PUSH15), (''PUSH16'', OP_PUSH16),
     (''PUSH17'', OP_PUSH17), (''PUSH18'', OP_PUSH18), (''PUSH19'', OP_PUSH19),
     (''PUSH20'', OP_PUSH20), (''PUSH21'', OP_PUSH21), (''PUSH22'', OP_PUSH22),
     (''PUSH23'', OP_PUSH23), (''PUSH24'', OP_PUSH24), (''PUSH25'', OP_PUSH25),
     (''PUSH26'', OP_PUSH26), (''PUSH27'', OP_PUSH27), (''PUSH28'', OP_PUSH28),
     (''PUSH29'', OP_PUSH29), (''PUSH30'', OP_PUSH30), (''PUSH31'', OP_PUSH31),
     (''PUSH32'', OP_PUSH32), (''DUP1'', OP_DUP1), (''DUP2'', OP_DUP2), (''DUP3'', OP_DUP3),
     (''DUP4'', OP_DUP4), (''DUP5'', OP_DUP5), (''DUP6'', OP_DUP6), (''DUP7'', OP_DUP7),
     (''DUP8'', OP_DUP8), (''DUP9'', OP_DUP9), (''DUP10'', OP_DUP10), (''DUP11'', OP_DUP11),
     (''DUP12'', OP_DUP12), (''DUP13'', OP_DUP13), (''DUP14'', OP_DUP14),
     (''DUP15'', OP_DUP15), (''DUP16'', OP_DUP16), (''SWAP1'', OP_SWAP1),
     (''SWAP2'', OP_SWAP2), (''SWAP3'', OP_SWAP3), (''SWAP4'', OP_SWAP4),
     (''SWAP5'', OP_SWAP5), (''SWAP6'', OP_SWAP6), (''SWAP7'', OP_SWAP7),
     (''SWAP8'', OP_SWAP8), (''SWAP9'', OP_SWAP9), (''SWAP10'', OP_SWAP10),
     (''SWAP11'', OP_SWAP11), (''SWAP12'', OP_SWAP12), (''SWAP13'', OP_SWAP13),
     (''SWAP14'', OP_SWAP14), (''SWAP15'', OP_SWAP15), (''SWAP16'', OP_SWAP16),
     (''RETURN'', OP_RETURN), (''REVERT'', OP_REVERT), (''INVALID'', OP_INVALID),
     (''ADDRESS'', OP_ADDRESS), (''BALANCE'', OP_BALANCE), (''BASEFEE'', OP_BASEFEE),
     (''ORIGIN'', OP_ORIGIN), (''CALLER'', OP_CALLER), (''CALLVALUE'', OP_CALLVALUE),
     (''GASPRICE'', OP_GASPRICE), (''EXTCODESIZE'', OP_EXTCODESIZE),
     (''EXTCODECOPY'', OP_EXTCODECOPY), (''EXTCODEHASH'', OP_EXTCODEHASH),
     (''RETURNDATASIZE'', OP_RETURNDATASIZE), (''RETURNDATACOPY'', OP_RETURNDATACOPY),
     (''BLOCKHASH'', OP_BLOCKHASH), (''COINBASE'', OP_COINBASE), (''TIMESTAMP'', OP_TIMESTAMP),
     (''NUMBER'', OP_NUMBER), (''DIFFICULTY'', OP_DIFFICULTY), (''GASLIMIT'', OP_GASLIMIT),
     (''SELFBALANCE'', OP_SELFBALANCE), (''SLOAD'', OP_SLOAD), (''SSTORE'', OP_SSTORE),
     (''GAS'', OP_GAS), (''LOG0'', OP_LOG0), (''LOG1'', OP_LOG1), (''LOG2'', OP_LOG2),
     (''LOG3'', OP_LOG3), (''LOG4'', OP_LOG4), (''CREATE'', OP_CREATE),
     (''CREATE2'', OP_CREATE2), (''CALL'', OP_CALL), (''CALLCODE'', OP_CALLCODE),
     (''DELEGATECALL'', OP_DELEGATECALL), (''STATICCALL'', OP_STATICCALL),
     (''SELFDESTRUCT'', OP_SELFDESTRUCT), (''CHAINID'', OP_CHAINID),
     (''BLOBHASH'', OP_BLOBHASH), (''BLOBBASEFEE'', OP_BLOBBASEFEE)]"

definition OPCODE_JUMPMAP :: "string option list" where
  "OPCODE_JUMPMAP =
    [Some ''STOP'', Some ''ADD'', Some ''MUL'', Some ''SUB'', Some ''DIV'', Some ''SDIV'',
     Some ''MOD'', Some ''SMOD'', Some ''ADDMOD'', Some ''MULMOD'', Some ''EXP'',
     Some ''SIGNEXTEND'', None, None, None, None, Some ''LT'', Some ''GT'', Some ''SLT'',
     Some ''SGT'', Some ''EQ'', Some ''ISZERO'', Some ''AND'', Some ''OR'', Some ''XOR'',
     Some ''NOT'', Some ''BYTE'', Some ''SHL'', Some ''SHR'', Some ''SAR'', Some ''CLZ'', None,
     Some ''SHA3'', None, None, None, None, None, None, None, None, None, None, None, None,
     None, None, None, Some ''ADDRESS'', Some ''BALANCE'', Some ''ORIGIN'', Some ''CALLER'',
     Some ''CALLVALUE'', Some ''CALLDATALOAD'', Some ''CALLDATASIZE'', Some ''CALLDATACOPY'',
     Some ''CODESIZE'', Some ''CODECOPY'', Some ''GASPRICE'', Some ''EXTCODESIZE'',
     Some ''EXTCODECOPY'', Some ''RETURNDATASIZE'', Some ''RETURNDATACOPY'',
     Some ''EXTCODEHASH'', Some ''BLOCKHASH'', Some ''COINBASE'', Some ''TIMESTAMP'',
     Some ''NUMBER'', Some ''DIFFICULTY'', Some ''GASLIMIT'', Some ''CHAINID'',
     Some ''SELFBALANCE'', Some ''BASEFEE'', Some ''BLOBHASH'', Some ''BLOBBASEFEE'', None,
     None, None, None, None, Some ''POP'', Some ''MLOAD'', Some ''MSTORE'', Some ''MSTORE8'',
     Some ''SLOAD'', Some ''SSTORE'', Some ''JUMP'', Some ''JUMPI'', Some ''PC'',
     Some ''MSIZE'', Some ''GAS'', Some ''JUMPDEST'', Some ''TLOAD'', Some ''TSTORE'',
     Some ''MCOPY'', Some ''PUSH0'', Some ''PUSH1'', Some ''PUSH2'', Some ''PUSH3'',
     Some ''PUSH4'', Some ''PUSH5'', Some ''PUSH6'', Some ''PUSH7'', Some ''PUSH8'',
     Some ''PUSH9'', Some ''PUSH10'', Some ''PUSH11'', Some ''PUSH12'', Some ''PUSH13'',
     Some ''PUSH14'', Some ''PUSH15'', Some ''PUSH16'', Some ''PUSH17'', Some ''PUSH18'',
     Some ''PUSH19'', Some ''PUSH20'', Some ''PUSH21'', Some ''PUSH22'', Some ''PUSH23'',
     Some ''PUSH24'', Some ''PUSH25'', Some ''PUSH26'', Some ''PUSH27'', Some ''PUSH28'',
     Some ''PUSH29'', Some ''PUSH30'', Some ''PUSH31'', Some ''PUSH32'', Some ''DUP1'',
     Some ''DUP2'', Some ''DUP3'', Some ''DUP4'', Some ''DUP5'', Some ''DUP6'', Some ''DUP7'',
     Some ''DUP8'', Some ''DUP9'', Some ''DUP10'', Some ''DUP11'', Some ''DUP12'',
     Some ''DUP13'', Some ''DUP14'', Some ''DUP15'', Some ''DUP16'', Some ''SWAP1'',
     Some ''SWAP2'', Some ''SWAP3'', Some ''SWAP4'', Some ''SWAP5'', Some ''SWAP6'',
     Some ''SWAP7'', Some ''SWAP8'', Some ''SWAP9'', Some ''SWAP10'', Some ''SWAP11'',
     Some ''SWAP12'', Some ''SWAP13'', Some ''SWAP14'', Some ''SWAP15'', Some ''SWAP16'',
     Some ''LOG0'', Some ''LOG1'', Some ''LOG2'', Some ''LOG3'', Some ''LOG4'', None, None,
     None, None, None, None, None, None, None, None, None, None, None, None, None, None, None,
     None, None, None, None, None, None, None, None, None, None, None, None, None, None, None,
     None, None, None, None, None, None, None, None, None, None, None, None, None, None, None,
     None, None, None, None, None, None, None, None, None, None, None, None, None, None, None,
     None, None, None, None, None, None, None, None, None, None, None, None, None,
     Some ''CREATE'', Some ''CALL'', Some ''CALLCODE'', Some ''RETURN'', Some ''DELEGATECALL'',
     Some ''CREATE2'', None, None, None, None, Some ''STATICCALL'', None, None,
     Some ''REVERT'', Some ''INVALID'', Some ''SELFDESTRUCT'']"

definition try_from_u8 :: "u8 \<Rightarrow> u8 option" where
  "try_from_u8 op = map_option (\<lambda>_. op) (OPCODE_JUMPMAP ! unat op)"

section \<open>Native costs\<close>

definition PUSH_NATIVE_COSTS :: "u64 list" where
  "PUSH_NATIVE_COSTS =
    [50, 60, 120, 140, 140, 150, 160, 170, 180, 190, 200, 210, 210, 220, 230, 240, 210, 240,
     240, 240, 240, 250, 260, 260, 260, 260, 270, 280, 280, 290, 290, 300, 300]"

text \<open>
  The constants by opcode: \<open>SHA3\<close> stands for \<open>KECCAK256_NATIVE_COST\<close>, and one constant covers all
  of \<open>DUP\<close>, \<open>SWAP\<close> and \<open>LOG\<close>. \<open>EXP\<close> and \<open>MCOPY\<close> compute their cost; \<open>BLOBHASH\<close> and \<open>BLOBBASEFEE\<close>
  have a literal in the instruction.
\<close>

definition native_costs :: "(u8 \<times> u64) list" where
  "native_costs =
    [(OP_STOP, 10), (OP_ADD, 140), (OP_MUL, 400), (OP_SUB, 140), (OP_DIV, 1500),
     (OP_SDIV, 1000), (OP_MOD, 1300), (OP_SMOD, 800), (OP_ADDMOD, 1700), (OP_MULMOD, 2300),
     (OP_SIGNEXTEND, 400), (OP_LT, 190), (OP_GT, 190), (OP_SLT, 430), (OP_SGT, 430),
     (OP_EQ, 500), (OP_ISZERO, 300), (OP_AND, 100), (OP_OR, 90), (OP_XOR, 90), (OP_NOT, 60),
     (OP_BYTE, 160), (OP_CLZ, 140), (OP_CALLDATALOAD, 280), (OP_CALLDATASIZE, 40),
     (OP_CALLDATACOPY, 100), (OP_CODESIZE, 40), (OP_CODECOPY, 100), (OP_SHL, 240),
     (OP_SHR, 240), (OP_SAR, 400), (OP_SHA3, 90), (OP_POP, 40), (OP_MLOAD, 250),
     (OP_MSTORE, 250), (OP_MSTORE8, 250), (OP_JUMP, 70), (OP_JUMPI, 300), (OP_PC, 40),
     (OP_MSIZE, 40), (OP_JUMPDEST, 40), (OP_TLOAD, 100), (OP_TSTORE, 100), (OP_PUSH0, 50),
     (OP_DUP1, 60), (OP_DUP2, 60), (OP_DUP3, 60), (OP_DUP4, 60), (OP_DUP5, 60), (OP_DUP6, 60),
     (OP_DUP7, 60), (OP_DUP8, 60), (OP_DUP9, 60), (OP_DUP10, 60), (OP_DUP11, 60),
     (OP_DUP12, 60), (OP_DUP13, 60), (OP_DUP14, 60), (OP_DUP15, 60), (OP_DUP16, 60),
     (OP_SWAP1, 90), (OP_SWAP2, 90), (OP_SWAP3, 90), (OP_SWAP4, 90), (OP_SWAP5, 90),
     (OP_SWAP6, 90), (OP_SWAP7, 90), (OP_SWAP8, 90), (OP_SWAP9, 90), (OP_SWAP10, 90),
     (OP_SWAP11, 90), (OP_SWAP12, 90), (OP_SWAP13, 90), (OP_SWAP14, 90), (OP_SWAP15, 90),
     (OP_SWAP16, 90), (OP_RETURN, 40), (OP_REVERT, 50), (OP_INVALID, 50), (OP_ADDRESS, 60),
     (OP_BALANCE, 60), (OP_BASEFEE, 60), (OP_ORIGIN, 60), (OP_CALLER, 60), (OP_CALLVALUE, 60),
     (OP_GASPRICE, 60), (OP_EXTCODESIZE, 60), (OP_EXTCODECOPY, 100), (OP_EXTCODEHASH, 60),
     (OP_RETURNDATASIZE, 60), (OP_RETURNDATACOPY, 100), (OP_BLOCKHASH, 60), (OP_COINBASE, 60),
     (OP_TIMESTAMP, 60), (OP_NUMBER, 60), (OP_DIFFICULTY, 40), (OP_GASLIMIT, 60),
     (OP_SELFBALANCE, 60), (OP_SLOAD, 100), (OP_SSTORE, 100), (OP_GAS, 60), (OP_LOG0, 50),
     (OP_LOG1, 50), (OP_LOG2, 50), (OP_LOG3, 50), (OP_LOG4, 50), (OP_CREATE, 25000),
     (OP_CREATE2, 25000), (OP_CALL, 1500), (OP_CALLCODE, 1500), (OP_DELEGATECALL, 1500),
     (OP_STATICCALL, 1500), (OP_SELFDESTRUCT, 100), (OP_CHAINID, 60)]"

definition native_cost :: "u8 \<Rightarrow> u64" where
  "native_cost op = (case map_of native_costs op of Some c \<Rightarrow> c | None \<Rightarrow> 0)"

definition STEP_NATIVE_COST :: u64 where "STEP_NATIVE_COST = 20"
definition BYTECODE_PREPROCESSING_BYTE_NATIVE_COST :: u64 where
  "BYTECODE_PREPROCESSING_BYTE_NATIVE_COST = 6"

section \<open>The table of names\<close>

text \<open>The table that names opcodes agrees with the constants the interpreter matches on: the
  byte of every constant is named by that constant's name, and as many bytes have a name as
  there are constants.\<close>

lemma opcode_names_agree:
  "list_all (\<lambda>(n, v). OPCODE_JUMPMAP ! unat v = Some n) opcode_constants
   \<and> length (filter (\<lambda>x. x \<noteq> None) OPCODE_JUMPMAP) = length opcode_constants"
  by (simp add: OPCODE_JUMPMAP_def opcode_constants_def)

end
