(* ===== verification/Evm_Bytecode.thy ===== *)
theory Evm_Bytecode
  imports Evm_Opcodes Resources Bytes
begin

text \<open>
  Bytecode preprocessing (\<^verbatim>\<open>evm_interpreter/src/lib.rs\<close>): the bitmap of valid jump
  destinations, computed when code is deployed and stored behind it, or read back from there.
  A bitmap is a list of \<open>usize\<close> words, natural numbers below \<open>2 ^ W\<close>; an unchecked access
  outside the list is \<open>None\<close>. The alignment of the byte slice that \<open>BitMap::from_raw\<close> views
  as words is not modelled.
\<close>

section \<open>Bitmaps\<close>

type_synonym words = "nat list"

definition allocate_for_bit_capacity :: "nat \<Rightarrow> nat \<Rightarrow> words" where
  "allocate_for_bit_capacity W capac =
     (let u64_capacity = next_multiple_of capac 64 div 64;
        word_capacity = u64_capacity * (64 div W) in replicate word_capacity 0)"

definition set_bit_on_unchecked :: "nat \<Rightarrow> nat \<Rightarrow> words \<Rightarrow> words option" where
  "set_bit_on_unchecked W pos inner =
     (let word_idx = pos div W; bit_idx = pos mod W in
      if word_idx < length inner then Some (inner[word_idx := inner ! word_idx OR 2 ^ bit_idx])
      else None)"

definition get_bit_unchecked :: "nat \<Rightarrow> words \<Rightarrow> nat \<Rightarrow> bool option" where
  "get_bit_unchecked W inner pos =
     (let word_idx = pos div W; bit_idx = pos mod W in
      if word_idx < length inner then Some (inner ! word_idx AND 2 ^ bit_idx \<noteq> 0) else None)"

section \<open>Analysis\<close>

text \<open>The loop of \<open>analyze\<close>; \<open>code[i]\<close> is in bounds by its condition.\<close>

function analyze_loop :: "nat \<Rightarrow> u8 list \<Rightarrow> nat \<Rightarrow> words \<Rightarrow> words option" where
  "analyze_loop W code i jumps =
     (if i < length code then
        let op = code ! i in
        if op = OP_JUMPDEST then
          (case set_bit_on_unchecked W i jumps of
             Some jumps \<Rightarrow> analyze_loop W code (i + 1) jumps
           | None \<Rightarrow> None)
        else if OP_PUSH1 \<le> op \<and> op \<le> OP_PUSH32 then
          analyze_loop W code (i + (1 + unat (op - OP_PUSH1 + 1))) jumps
        else analyze_loop W code (i + 1) jumps
      else Some jumps)"
  by pat_completeness auto

termination by (relation "measure (\<lambda>(W, code, i, jumps). length code - i)") auto

declare analyze_loop.simps [simp del]

definition analyze :: "nat \<Rightarrow> u8 list \<Rightarrow> words option" where
  "analyze W code = analyze_loop W code 0 (allocate_for_bit_capacity W (length code))"

section \<open>Preprocessing data\<close>

datatype jumpdest_bitmap = Borrowed words | Owned words

record bytecode_preprocessing_data =
  original_bytecode_len :: nat
  jumpdest_bitmap :: jumpdest_bitmap

definition preprocessing_empty :: bytecode_preprocessing_data where
  "preprocessing_empty = \<lparr>original_bytecode_len = 0, jumpdest_bitmap = Borrowed []\<rparr>"

fun bitmap_words :: "jumpdest_bitmap \<Rightarrow> words" where
  "bitmap_words (Borrowed b) = b"
| "bitmap_words (Owned b) = b"

definition is_valid_jumpdest :: "nat \<Rightarrow> bytecode_preprocessing_data \<Rightarrow> nat \<Rightarrow> ('s, 'e, bool) rs" where
  "is_valid_jumpdest W p off =
     (case jumpdest_bitmap p of
        Borrowed bitmap \<Rightarrow>
          if off < original_bytecode_len p then expect (get_bit_unchecked W bitmap off) else ret False
      | Owned bitmap \<Rightarrow>
          if off < original_bytecode_len p then expect (get_bit_unchecked W bitmap off) else ret False)"

definition create_artifacts_inner :: "nat \<Rightarrow> u8 list \<Rightarrow> ('s, 'e, bytecode_preprocessing_data) rs" where
  "create_artifacts_inner W deployed_code =
     and_then (expect (analyze W deployed_code)) (\<lambda>bitmap.
     ret \<lparr>original_bytecode_len = length deployed_code, jumpdest_bitmap = Owned bitmap\<rparr>)"

definition create_artifacts ::
    "nat \<Rightarrow> u8 list \<Rightarrow> (base_resources, system_error, bytecode_preprocessing_data) rs" where
  "create_artifacts W deployed_code =
     and_then (on_part (\<lambda>r. r) (\<lambda>r _. r)
       (\<lambda>e. case e of
          LeafRuntime OutOfErgs \<Rightarrow> LeafDefect ''OOE when charging only native''
        | _ \<Rightarrow> e)
       (resources_charge (from_native
          (saturating_mul BYTECODE_PREPROCESSING_BYTE_NATIVE_COST (word_of_nat (length deployed_code))))))
     (\<lambda>_. create_artifacts_inner W deployed_code)"

text \<open>
  The words of a bitmap in memory: \<open>W / 8\<close> bytes each, the lowest first, and the converse view
  of a byte slice.
\<close>

definition as_slice :: "nat \<Rightarrow> bytecode_preprocessing_data \<Rightarrow> bytes" where
  "as_slice W p = concat (map (le_bytes (W div 8)) (bitmap_words (jumpdest_bitmap p)))"

definition view_words :: "nat \<Rightarrow> nat \<Rightarrow> bytes \<Rightarrow> words" where
  "view_words n k bs = map (\<lambda>i. le_nat (take n (drop (n * i) bs))) [0..<k]"

definition BYTECODE_ALIGNMENT :: nat where "BYTECODE_ALIGNMENT = 8"
definition DEFAULT_CODE_VERSION_BYTE :: u8 where "DEFAULT_CODE_VERSION_BYTE = 0"
definition ARTIFACTS_CACHING_CODE_VERSION_BYTE :: u8 where "ARTIFACTS_CACHING_CODE_VERSION_BYTE = 1"

definition from_raw :: "nat \<Rightarrow> bytes \<Rightarrow> ('s, 'e, words) rs" where
  "from_raw W bs =
     and_then (assert_that (length bs mod BYTECODE_ALIGNMENT = 0)) (\<lambda>_.
     ret (view_words (W div 8) (length bs div (W div 8)) bs))"

definition parse_bytecode ::
    "nat \<Rightarrow> bytes \<Rightarrow> nat \<Rightarrow> nat \<Rightarrow> ('s, string, bytes \<times> bytecode_preprocessing_data) rs" where
  "parse_bytecode W bytecode deployed_len artifacts_len =
     (if length bytecode < deployed_len \<or> length bytecode - deployed_len < artifacts_len
      then throw ''Underflow when computing bytecode padding''
      else let padding = length bytecode - deployed_len - artifacts_len;
             code = take deployed_len bytecode; rest = drop deployed_len bytecode;
             bitmap_slice = drop padding rest in
        and_then (from_raw W bitmap_slice) (\<lambda>ws.
        ret (code, \<lparr>original_bytecode_len = deployed_len, jumpdest_bitmap = Borrowed ws\<rparr>)))"

section \<open>Jump destinations as the EVM defines them\<close>

definition immediates :: "u8 \<Rightarrow> nat" where
  "immediates op = (if 0x60 \<le> unat op \<and> unat op \<le> 0x7f then unat op - 0x5f else 0)"

text \<open>The positions at which an instruction starts when code is read from its beginning.\<close>

inductive instruction_start :: "u8 list \<Rightarrow> nat \<Rightarrow> bool" for code where
  first: "instruction_start code 0"
| step: "instruction_start code i \<Longrightarrow> i < length code \<Longrightarrow>
    instruction_start code (i + 1 + immediates (code ! i))"

definition valid_jumpdest :: "u8 list \<Rightarrow> nat \<Rightarrow> bool" where
  "valid_jumpdest code d \<longleftrightarrow> d < length code \<and> instruction_start code d \<and> code ! d = OP_JUMPDEST"

lemma instruction_starts_apart:
  assumes "instruction_start code i" and "instruction_start code n" and "i \<le> n"
  shows "n = i \<or> i + 1 + immediates (code ! i) \<le> n"
  using assms
proof (induction "i + n" arbitrary: i n rule: less_induct)
  case less
  show ?case using less.prems(2)
  proof cases
    case first
    then show ?thesis using less.prems(3) by simp
  next
    case (step m)
    then have lt: "m < n" by simp
    show ?thesis
    proof (cases "i \<le> m")
      case True
      then have "m = i \<or> i + 1 + immediates (code ! i) \<le> m"
        using less.hyps [of i m] lt less.prems(1) step by simp
      then show ?thesis using step by auto
    next
      case False
      then have "i = m \<or> m + 1 + immediates (code ! m) \<le> i"
        using less.hyps [of m i] lt less.prems(1, 3) step by simp
      then show ?thesis using False step less.prems(3) by auto
    qed
  qed
qed

text \<open>The bits that are set in a bitmap.\<close>

definition bit_set :: "nat \<Rightarrow> words \<Rightarrow> nat \<Rightarrow> bool" where
  "bit_set W ws n \<longleftrightarrow> n div W < length ws \<and> bit (ws ! (n div W)) (n mod W)"

lemma get_bit_unchecked_eq:
  "n div W < length ws \<Longrightarrow> get_bit_unchecked W ws n = Some (bit_set W ws n)"
  by (simp add: get_bit_unchecked_def bit_set_def Let_def and_exp_eq_0_iff_not_bit)

lemma set_bit_on_unchecked_eq:
  assumes "n div W < length ws"
  obtains vs where "set_bit_on_unchecked W n ws = Some vs" and "length vs = length ws"
    and "\<And>k. bit_set W vs k \<longleftrightarrow> bit_set W ws k \<or> k = n"
proof
  let ?vs = "ws[n div W := ws ! (n div W) OR 2 ^ (n mod W)]"
  show "set_bit_on_unchecked W n ws = Some ?vs" using assms by (simp add: set_bit_on_unchecked_def Let_def)
  fix k
  have "k = n \<longleftrightarrow> k div W = n div W \<and> k mod W = n mod W" by (metis div_mult_mod_eq)
  then show "bit_set W ?vs k \<longleftrightarrow> bit_set W ws k \<or> k = n"
    using assms by (auto simp: bit_set_def nth_list_update bit_or_iff bit_exp_iff)
qed simp

lemma bit_set_fresh: "\<not> bit_set W (replicate n 0) k"
  by (simp add: bit_set_def)

text \<open>The allocated bitmap has a bit for every byte of the code.\<close>

lemma capacity_enough:
  assumes "W = 32 \<or> W = 64" and "i < n"
  shows "i div W < length (allocate_for_bit_capacity W n)"
proof -
  have "64 dvd next_multiple_of n 64" by (simp add: next_multiple_of_dvd)
  then obtain q where q: "next_multiple_of n 64 = 64 * q" by (auto simp: dvd_def)
  then have "i < 64 * q" using next_multiple_of_ge [of n 64] assms(2) by simp
  then have "i div W < q * (64 div W)" using assms(1) by auto
  then show ?thesis using q by (simp add: allocate_for_bit_capacity_def Let_def)
qed

lemma immediates_eq:
  "immediates op = (if OP_PUSH1 \<le> op \<and> op \<le> OP_PUSH32 then unat (op - OP_PUSH1 + 1) else 0)"
proof (cases "OP_PUSH1 \<le> op \<and> op \<le> OP_PUSH32")
  case True
  then have "0x60 \<le> unat op" "unat op \<le> 0x7f" by (auto simp: word_le_nat_alt)
  moreover from this True have "unat (op - OP_PUSH1) = unat op - 0x60" by (simp add: unat_sub)
  ultimately have "unat (op - OP_PUSH1 + 1) = unat op - 0x5f"
    by (subst unat_add_lem [THEN iffD1]) simp_all
  with True show ?thesis by (simp add: immediates_def word_le_nat_alt)
qed (auto simp: immediates_def word_le_nat_alt)

lemma analyze_loop_correct:
  assumes "instruction_start code i" and "\<And>n. n < length code \<Longrightarrow> n div W < length jumps"
  shows "\<exists>ws. analyze_loop W code i jumps = Some ws \<and> length ws = length jumps \<and>
    (\<forall>n. bit_set W ws n \<longleftrightarrow> bit_set W jumps n \<or> (i \<le> n \<and> valid_jumpdest code n))"
  using assms
proof (induction W code i jumps rule: analyze_loop.induct)
  case (1 W code i jumps)
  show ?case
  proof (cases "i < length code")
    case False
    then show ?thesis by (auto simp: analyze_loop.simps [of W code i] valid_jumpdest_def)
  next
    case True
    let ?k = "i + 1 + immediates (code ! i)"
    have st: "instruction_start code ?k" by (rule instruction_start.step [OF "1.prems"(1) True])
    have at: "i \<le> n \<and> valid_jumpdest code n \<longleftrightarrow>
        n = i \<and> code ! i = OP_JUMPDEST \<or> ?k \<le> n \<and> valid_jumpdest code n" for n
      using instruction_starts_apart [OF "1.prems"(1), of n] "1.prems"(1) True
      by (auto simp: valid_jumpdest_def)
    show ?thesis
    proof (cases "code ! i = OP_JUMPDEST")
      case J: True
      then have nx: "?k = i + 1" by (simp add: immediates_def)
      obtain vs where vs: "set_bit_on_unchecked W i jumps = Some vs" "length vs = length jumps"
        "\<And>k. bit_set W vs k \<longleftrightarrow> bit_set W jumps k \<or> k = i"
        using set_bit_on_unchecked_eq [OF "1.prems"(2) [OF True]] by blast
      have "\<exists>ws. analyze_loop W code (i + 1) vs = Some ws \<and> length ws = length vs \<and>
          (\<forall>n. bit_set W ws n \<longleftrightarrow> bit_set W vs n \<or> (i + 1 \<le> n \<and> valid_jumpdest code n))"
        using "1.IH"(1) [OF True refl J vs(1)] st nx "1.prems"(2) vs(2) by auto
      then show ?thesis using True J vs at nx by (auto simp: analyze_loop.simps [of W code i])
    next
      case J: False
      show ?thesis
      proof (cases "OP_PUSH1 \<le> code ! i \<and> code ! i \<le> OP_PUSH32")
        case P: True
        then have nx: "?k = i + (1 + unat (code ! i - OP_PUSH1 + 1))" by (simp add: immediates_eq)
        show ?thesis
          using "1.IH"(2) [OF True refl J P] st "1.prems"(2) True J P at
          unfolding nx by (simp add: analyze_loop.simps [of W code i] Let_def)
      next
        case P: False
        then have nx: "?k = i + 1" by (auto simp: immediates_eq)
        show ?thesis
          using "1.IH"(3) [OF True refl J P] st "1.prems"(2) True J P at
          unfolding nx by (auto simp: analyze_loop.simps [of W code i] Let_def)
      qed
    qed
  qed
qed

lemma or_bound: "x < 2 ^ W \<Longrightarrow> b < W \<Longrightarrow> (x OR 2 ^ b :: nat) < 2 ^ W"
proof -
  assume "x < 2 ^ W" and "b < W"
  then have "int x < 2 ^ W" "(2 :: int) ^ b < 2 ^ W"
    by (simp_all add: power_strict_increasing)
  then have "int x OR 2 ^ b < 2 ^ W" by (intro OR_upper) simp_all
  then have "int (x OR 2 ^ b) < int (2 ^ W)" by (simp add: of_nat_or_eq)
  then show ?thesis by (simp only: of_nat_less_iff)
qed

lemma analyze_loop_bound:
  assumes "analyze_loop W code i jumps = Some ws" and "\<forall>w \<in> set jumps. w < 2 ^ W" and "0 < W"
  shows "\<forall>w \<in> set ws. w < 2 ^ W"
  using assms
proof (induction W code i jumps rule: analyze_loop.induct)
  case (1 W code i jumps)
  have upd: "\<forall>w \<in> set vs. w < 2 ^ W" if "set_bit_on_unchecked W i jumps = Some vs" for vs
    using that "1.prems"(2, 3)
    by (auto simp: set_bit_on_unchecked_def Let_def or_bound split: if_splits
        dest!: set_update_subset_insert [THEN subsetD])
  show ?case
    using "1.prems" "1.IH" upd
    by (subst (asm) analyze_loop.simps) (auto simp: Let_def split: if_splits option.splits)
qed

lemma analyze_correct:
  assumes "W = 32 \<or> W = 64"
  obtains ws where "analyze W code = Some ws" and "\<And>n. n < length code \<Longrightarrow> n div W < length ws"
    and "\<And>n. bit_set W ws n \<longleftrightarrow> valid_jumpdest code n" and "\<forall>w \<in> set ws. w < 2 ^ W"
    and "length ws = length (allocate_for_bit_capacity W (length code))"
proof -
  let ?a = "allocate_for_bit_capacity W (length code)"
  have z: "?a = replicate (length ?a) 0" by (simp add: allocate_for_bit_capacity_def Let_def)
  have b: "\<not> bit_set W ?a n" for n by (subst z) (rule bit_set_fresh)
  obtain ws where ws: "analyze_loop W code 0 ?a = Some ws" "length ws = length ?a"
    "\<forall>n. bit_set W ws n \<longleftrightarrow> bit_set W ?a n \<or> (0 \<le> n \<and> valid_jumpdest code n)"
    using analyze_loop_correct [OF first capacity_enough [OF assms]] by blast
  have "\<forall>w \<in> set ?a. w < 2 ^ W" by (simp add: allocate_for_bit_capacity_def Let_def)
  then have "\<forall>w \<in> set ws. w < 2 ^ W" using analyze_loop_bound [OF ws(1)] assms by auto
  with ws b show ?thesis
    using capacity_enough [OF assms] by (intro that [of ws]) (auto simp: analyze_def)
qed

section \<open>Properties\<close>

text \<open>C31: For every code and on both targets the analysis ends, sets bits only inside its bitmap,
  and the destinations it accepts are exactly the EVM's: the positions of a \<open>JUMPDEST\<close> byte that
  starts an instruction when the code is read from its beginning, which no \<open>PUSH\<close> data is.\<close>

theorem jumpdest_analysis_correct:
  assumes "W = 32 \<or> W = 64"
  shows "\<exists>p. create_artifacts_inner W code s = (Inr p, s)
    \<and> (\<forall>off. is_valid_jumpdest W p off s = (Inr (valid_jumpdest code off), s))"
proof -
  obtain ws where ws: "analyze W code = Some ws" "\<And>n. n < length code \<Longrightarrow> n div W < length ws"
    "\<And>n. bit_set W ws n \<longleftrightarrow> valid_jumpdest code n"
    using analyze_correct [OF assms] by metis
  let ?p = "\<lparr>original_bytecode_len = length code, jumpdest_bitmap = Owned ws\<rparr>"
  have "create_artifacts_inner W code s = (Inr ?p, s)"
    by (simp add: create_artifacts_inner_def ws(1) and_then_def expect_def ret_def)
  moreover have "is_valid_jumpdest W ?p off s = (Inr (valid_jumpdest code off), s)" for off
    using ws(2) [of off] ws(3) [of off]
    by (auto simp: is_valid_jumpdest_def get_bit_unchecked_eq expect_def ret_def valid_jumpdest_def)
  ultimately show ?thesis by blast
qed

lemma take_drop_concat:
  assumes "\<forall>x \<in> set xs. length x = n" and "i < length xs"
  shows "take n (drop (n * i) (concat xs)) = xs ! i"
  using assms
proof (induction xs arbitrary: i)
  case (Cons x xs)
  then show ?case by (cases i) auto
qed simp

lemma view_words_inverse:
  assumes "\<forall>w \<in> set ws. w < 256 ^ n"
  shows "view_words n (length ws) (concat (map (le_bytes n) ws)) = ws"
proof (rule nth_equalityI)
  fix i assume "i < length (view_words n (length ws) (concat (map (le_bytes n) ws)))"
  then have i: "i < length ws" by (simp add: view_words_def)
  then have "view_words n (length ws) (concat (map (le_bytes n) ws)) ! i = ws ! i mod 256 ^ n"
    by (simp add: view_words_def take_drop_concat le_nat_le_bytes)
  then show "view_words n (length ws) (concat (map (le_bytes n) ws)) ! i = ws ! i"
    using assms i by simp
qed (simp add: view_words_def)

text \<open>C32: What is stored behind deployed code is read back as it was: parsing the code, any
  padding and the bytes of the bitmap gives the same code and accepts the same jump destinations
  as the freshly computed bitmap, without running out of bounds.\<close>

theorem artifacts_roundtrip:
  assumes "W = 32 \<or> W = 64" and "create_artifacts_inner W code s = (Inr p, s)"
  shows "\<exists>q. parse_bytecode W (code @ padding @ as_slice W p) (length code) (length (as_slice W p)) s
      = (Inr (code, q), s)
    \<and> (\<forall>off. is_valid_jumpdest W q off s = (Inr (valid_jumpdest code off), s))"
proof -
  obtain ws where ws: "analyze W code = Some ws" "\<And>n. n < length code \<Longrightarrow> n div W < length ws"
    "\<And>n. bit_set W ws n \<longleftrightarrow> valid_jumpdest code n" "\<forall>w \<in> set ws. w < 2 ^ W"
    "length ws = length (allocate_for_bit_capacity W (length code))"
    using analyze_correct [OF assms(1)] by metis
  have p: "p = \<lparr>original_bytecode_len = length code, jumpdest_bitmap = Owned ws\<rparr>"
    using assms(2) ws(1) by (simp add: create_artifacts_inner_def and_then_def expect_def ret_def)
  let ?q = "\<lparr>original_bytecode_len = length code, jumpdest_bitmap = Borrowed ws\<rparr>"
  let ?n = "W div 8"
  have "(256 :: nat) ^ ?n = 2 ^ W" using assms(1) by (auto simp flip: power_mult)
  then have view: "view_words ?n (length ws) (as_slice W p) = ws"
    using view_words_inverse [of ws ?n] ws(4) by (simp add: as_slice_def p)
  obtain k where k: "length ws = k * (64 div W)"
    using ws(5) that [of "next_multiple_of (length code) 64 div 64"]
    by (simp add: allocate_for_bit_capacity_def Let_def)
  have len: "length (as_slice W p) = length ws * ?n"
    by (simp add: as_slice_def p length_concat comp_def sum_list_triv)
  then have "length (as_slice W p) mod BYTECODE_ALIGNMENT = 0" "length (as_slice W p) div ?n = length ws"
    using assms(1) k by (auto simp: BYTECODE_ALIGNMENT_def)
  then have "parse_bytecode W (code @ padding @ as_slice W p) (length code) (length (as_slice W p)) s
      = (Inr (code, ?q), s)"
    using view by (simp add: parse_bytecode_def from_raw_def and_then_def assert_that_def ret_def Let_def)
  moreover have "is_valid_jumpdest W ?q off s = (Inr (valid_jumpdest code off), s)" for off
    using ws(2) [of off] ws(3) [of off]
    by (auto simp: is_valid_jumpdest_def get_bit_unchecked_eq expect_def ret_def valid_jumpdest_def)
  ultimately show ?thesis by blast
qed

definition ex_code :: bytes where
  "ex_code = [0x61, 0x5b, 0x5b, 0x5b, 0x00]"

lemma ex_code_jumpdest: "valid_jumpdest ex_code 3 \<and> \<not> valid_jumpdest ex_code 1"
proof
  have "instruction_start ex_code (0 + 1 + immediates (ex_code ! 0))"
    by (rule step [OF first]) (simp add: ex_code_def)
  then have "instruction_start ex_code 3" by (simp add: ex_code_def immediates_def numeral_3_eq_3)
  then show "valid_jumpdest ex_code 3" by (simp add: valid_jumpdest_def ex_code_def)
  have "\<not> instruction_start ex_code 1"
    using instruction_starts_apart [of ex_code 0 1] first by (auto simp: ex_code_def immediates_def)
  then show "\<not> valid_jumpdest ex_code 1" by (simp add: valid_jumpdest_def)
qed

theorem jumpdest_analysis_correct_witness:
  "\<exists>p. create_artifacts_inner 32 ex_code () = (Inr p :: string fault + _, ())
    \<and> is_valid_jumpdest 32 p 3 () = (Inr True :: string fault + bool, ())
    \<and> is_valid_jumpdest 32 p 1 () = (Inr False :: string fault + bool, ())"
proof -
  obtain p where p: "create_artifacts_inner 32 ex_code () = (Inr p :: string fault + _, ())"
    "\<forall>off. is_valid_jumpdest 32 p off () = (Inr (valid_jumpdest ex_code off) :: string fault + bool, ())"
    using jumpdest_analysis_correct [of 32 ex_code "()"] by blast
  then show ?thesis using ex_code_jumpdest by (intro exI [of _ p]) simp
qed

theorem artifacts_roundtrip_witness:
  "\<exists>p q. create_artifacts_inner 32 ex_code () = (Inr p :: string fault + _, ())
    \<and> parse_bytecode 32 (ex_code @ [0, 0, 0] @ as_slice 32 p) 5 (length (as_slice 32 p)) ()
        = (Inr (ex_code, q), ())
    \<and> is_valid_jumpdest 32 q 3 () = (Inr True :: string fault + bool, ())"
proof -
  have W: "(32 :: nat) = 32 \<or> (32 :: nat) = 64" by simp
  obtain ws where ws: "analyze 32 ex_code = Some ws"
    by (rule analyze_correct [OF W, of ex_code thesis]) (rule that)
  define p where "p = \<lparr>original_bytecode_len = 5, jumpdest_bitmap = Owned ws\<rparr>"
  have p: "create_artifacts_inner 32 ex_code () = (Inr p :: string fault + _, ())"
    using ws by (simp add: create_artifacts_inner_def and_then_def expect_def ret_def p_def ex_code_def)
  have len: "length ex_code = 5" by (simp add: ex_code_def)
  obtain q where "parse_bytecode 32 (ex_code @ [0, 0, 0] @ as_slice 32 p) (length ex_code)
      (length (as_slice 32 p)) () = (Inr (ex_code, q), ())"
    "\<forall>off. is_valid_jumpdest 32 q off () = (Inr (valid_jumpdest ex_code off) :: string fault + bool, ())"
    using artifacts_roundtrip [OF W p, of "[0, 0, 0]"] by blast
  then show ?thesis
    using p ex_code_jumpdest len by (intro exI [of _ p] exI [of _ q]) simp
qed

end
