(* ===== verification/Account_Properties.thy ===== *)
theory Account_Properties
  imports Pubdata_Compression Storage_Cache Evm_Bytecode
begin

text \<open>
  The properties of an account and their 124-byte encoding
  (\<^verbatim>\<open>basic_system/src/system_implementation/flat_storage_model/account_cache_entry.rs\<close>): the
  packed versioning word, the encoding that is hashed into the state tree and read back from
  it, and the number of pubdata bytes a change is charged for. The Blake2s hasher of the
  crypto library is the argument \<open>blake2s\<close>.
\<close>

section \<open>Versioning data\<close>

type_synonym versioning_data = u64

definition DEFAULT_ADDRESS_SPECIFIC_IMMUTABLE_DATA_VERSION :: u8 where
  "DEFAULT_ADDRESS_SPECIFIC_IMMUTABLE_DATA_VERSION = 1"

definition DEFAULT_DELEGATED_VERSION :: u8 where
  "DEFAULT_DELEGATED_VERSION = 2"

definition is_deployed :: "versioning_data \<Rightarrow> bool" where
  "is_deployed v \<longleftrightarrow> (ucast (drop_bit 56 v) :: u8) = DEFAULT_ADDRESS_SPECIFIC_IMMUTABLE_DATA_VERSION"

definition set_as_deployed :: "versioning_data \<Rightarrow> versioning_data" where
  "set_as_deployed v = v AND 0x00ffffffffffffff OR push_bit 56 (ucast DEFAULT_ADDRESS_SPECIFIC_IMMUTABLE_DATA_VERSION)"

definition is_delegated :: "versioning_data \<Rightarrow> bool" where
  "is_delegated v \<longleftrightarrow> (ucast (drop_bit 56 v) :: u8) = DEFAULT_DELEGATED_VERSION"

definition set_as_delegated :: "versioning_data \<Rightarrow> versioning_data" where
  "set_as_delegated v = v AND 0x00ffffffffffffff OR push_bit 56 (ucast DEFAULT_DELEGATED_VERSION)"

definition unset_deployment_status :: "versioning_data \<Rightarrow> versioning_data" where
  "unset_deployment_status v = v AND 0x00ffffffffffffff"

definition ee_version :: "versioning_data \<Rightarrow> u8" where
  "ee_version v = ucast (drop_bit 48 v)"

definition set_ee_version :: "u8 \<Rightarrow> versioning_data \<Rightarrow> versioning_data" where
  "set_ee_version b v = v AND 0xff00ffffffffffff OR push_bit 48 (ucast b)"

definition code_version :: "versioning_data \<Rightarrow> u8" where
  "code_version v = ucast (drop_bit 40 v)"

definition set_code_version :: "u8 \<Rightarrow> versioning_data \<Rightarrow> versioning_data" where
  "set_code_version b v = v AND 0xffff00ffffffffff OR push_bit 40 (ucast b)"

section \<open>Properties and metadata\<close>

record account_properties_metadata =
  deployed_in_tx :: "u32 option"
  acc_last_touched_in_tx :: "u32 option"
  not_publish_bytecode :: bool
  is_marked_for_deconstruction :: bool

definition metadata_default :: account_properties_metadata where
  "metadata_default = \<lparr>deployed_in_tx = None, acc_last_touched_in_tx = None, not_publish_bytecode = False,
     is_marked_for_deconstruction = False\<rparr>"

definition acc_considered_warm :: "account_properties_metadata \<Rightarrow> u32 \<Rightarrow> bool" where
  "acc_considered_warm m tx \<longleftrightarrow> acc_last_touched_in_tx m = Some tx"

record account_properties =
  versioning :: versioning_data
  acc_nonce :: u64
  balance :: u256
  bytecode_hash :: u256
  unpadded_code_len :: u32
  acc_artifacts_len :: u32
  observable_bytecode_hash :: u256
  observable_bytecode_len :: u32

definition bytecode_padding_len :: "nat \<Rightarrow> nat" where
  "bytecode_padding_len deployed_len =
     (let rem = deployed_len mod BYTECODE_ALIGNMENT in if rem = 0 then 0 else BYTECODE_ALIGNMENT - rem)"

definition TRIVIAL_VALUE :: account_properties where
  "TRIVIAL_VALUE = \<lparr>versioning = 0, acc_nonce = 0, balance = 0, bytecode_hash = 0, unpadded_code_len = 0,
     acc_artifacts_len = 0, observable_bytecode_hash = 0, observable_bytecode_len = 0\<rparr>"

text \<open>The additions are on \<open>u32\<close>: an overflow is \<open>Panic\<close>.\<close>

definition full_bytecode_len :: "account_properties \<Rightarrow> ('s, 'e, u32) rs" where
  "full_bytecode_len a =
     (let padding = bytecode_padding_len (unat (unpadded_code_len a)) in
      and_then (expect (checked_add (unpadded_code_len a) (word_of_nat padding))) (\<lambda>n.
      expect (checked_add n (acc_artifacts_len a))))"

section \<open>Encoding\<close>

definition ENCODED_SIZE :: nat where
  "ENCODED_SIZE = 124"

definition account_encoding :: "account_properties \<Rightarrow> bytes" where
  "account_encoding a =
     to_be_bytes (versioning a) @ to_be_bytes (acc_nonce a) @ to_be_bytes (balance a) @ to_be_bytes (bytecode_hash a) @
     to_be_bytes (unpadded_code_len a) @ to_be_bytes (acc_artifacts_len a) @ to_be_bytes (observable_bytecode_hash a) @
     to_be_bytes (observable_bytecode_len a)"

text \<open>\<open>decode\<close> of a buffer of \<open>ENCODED_SIZE\<close> bytes; \<open>input[a..b]\<close> is \<open>slice a b input\<close>.\<close>

definition slice :: "nat \<Rightarrow> nat \<Rightarrow> bytes \<Rightarrow> bytes" where
  "slice a b bs = take (b - a) (drop a bs)"

definition account_decode :: "bytes \<Rightarrow> account_properties" where
  "account_decode input =
     \<lparr>versioning = from_be_bytes (slice 0 8 input), acc_nonce = from_be_bytes (slice 8 16 input),
      balance = from_be_bytes (slice 16 48 input), bytecode_hash = from_be_bytes (slice 48 80 input),
      unpadded_code_len = from_be_bytes (slice 80 84 input), acc_artifacts_len = from_be_bytes (slice 84 88 input),
      observable_bytecode_hash = from_be_bytes (slice 88 120 input),
      observable_bytecode_len = from_be_bytes (slice 120 124 input)\<rparr>"

text \<open>The hasher is fed field by field.\<close>

definition account_compute_hash :: "(bytes \<Rightarrow> u256) \<Rightarrow> account_properties \<Rightarrow> u256" where
  "account_compute_hash blake2s a =
     blake2s (concat [to_be_bytes (versioning a), to_be_bytes (acc_nonce a), to_be_bytes (balance a),
       to_be_bytes (bytecode_hash a), to_be_bytes (unpadded_code_len a), to_be_bytes (acc_artifacts_len a),
       to_be_bytes (observable_bytecode_hash a), to_be_bytes (observable_bytecode_len a)])"

section \<open>The price of a change\<close>

definition full_diff :: "account_properties \<Rightarrow> account_properties \<Rightarrow> bool" where
  "full_diff i f \<longleftrightarrow>
     versioning i \<noteq> versioning f \<or> bytecode_hash i \<noteq> bytecode_hash f \<or> unpadded_code_len i \<noteq> unpadded_code_len f \<or>
     acc_artifacts_len i \<noteq> acc_artifacts_len f \<or> observable_bytecode_len i \<noteq> observable_bytecode_len f \<or>
     observable_bytecode_hash i \<noteq> observable_bytecode_hash f"

definition same_values :: internal_error where
  "same_values = ''Account properties diff compression shouldn't be called for same values''"

text \<open>\<open>length as u32\<close> of a compressed value; the nonces are widened to \<open>U256\<close>.\<close>

definition nonce_length :: "account_properties \<Rightarrow> account_properties \<Rightarrow> u32" where
  "nonce_length i f = ucast (optimal_compression_length_u256 (ucast (acc_nonce i)) (ucast (acc_nonce f)))"

definition balance_length :: "account_properties \<Rightarrow> account_properties \<Rightarrow> u32" where
  "balance_length i f = ucast (optimal_compression_length_u256 (balance i) (balance f))"

definition diff_compression_length ::
    "account_properties \<Rightarrow> account_properties \<Rightarrow> bool \<Rightarrow> ('s, internal_error, u32) rs" where
  "diff_compression_length i f not_publish =
     (if full_diff i f then
        if not_publish then ret (1 + 8 + nonce_length i f + balance_length i f + 32 + 4 + 4)
        else
          and_then (full_bytecode_len f) (\<lambda>n.
          and_then (expect (checked_add (1 + 8 + nonce_length i f + balance_length i f + 4 + 4) n)) (\<lambda>len.
          expect (checked_add len 4)))
      else if acc_nonce i = acc_nonce f \<and> balance i = balance f then throw same_values
      else ret (1 + (if acc_nonce i \<noteq> acc_nonce f then nonce_length i f else 0) +
                (if balance i \<noteq> balance f then balance_length i f else 0)))"

section \<open>Lemmas\<close>

lemma byte_bits: "(\<And>n. n \<in> {0,1,2,3,4,5,6,7} \<Longrightarrow> bit a n = bit b n) \<Longrightarrow> a = (b :: u8)"
  by (rule bit_word_eqI) (auto simp: less_Suc_eq eval_nat_numeral)

lemma byte_high: "8 \<le> n \<Longrightarrow> \<not> bit (b :: u8) n"
  using bit_imp_le_length [of b n] by auto

lemma versioning_bytes [simp]:
  "is_deployed (set_as_deployed v)" "ee_version (set_as_deployed v) = ee_version v" "code_version (set_as_deployed v) = code_version v"
  "is_delegated (set_as_delegated v)" "ee_version (set_as_delegated v) = ee_version v" "code_version (set_as_delegated v) = code_version v"
  "\<not> is_deployed (unset_deployment_status v)" "\<not> is_delegated (unset_deployment_status v)"
  "ee_version (set_ee_version b v) = b" "is_deployed (set_ee_version b v) = is_deployed v"
  "is_delegated (set_ee_version b v) = is_delegated v" "code_version (set_ee_version b v) = code_version v"
  "code_version (set_code_version b v) = b" "is_deployed (set_code_version b v) = is_deployed v"
  "is_delegated (set_code_version b v) = is_delegated v" "ee_version (set_code_version b v) = ee_version v"
proof -
  note defs = set_as_deployed_def set_as_delegated_def unset_deployment_status_def set_ee_version_def set_code_version_def
  have top: "ucast (drop_bit 56 (set_as_deployed v)) = DEFAULT_ADDRESS_SPECIFIC_IMMUTABLE_DATA_VERSION"
    "ucast (drop_bit 56 (set_as_delegated v)) = DEFAULT_DELEGATED_VERSION"
    "ucast (drop_bit 56 (unset_deployment_status v)) = (0 :: u8)"
    "(ucast (drop_bit 56 (set_ee_version b v)) :: u8) = ucast (drop_bit 56 v)"
    "(ucast (drop_bit 56 (set_code_version b v)) :: u8) = ucast (drop_bit 56 v)"
    unfolding defs by ((rule byte_bits, auto simp: bit_simps byte_high)[1])+
  show "ee_version (set_as_deployed v) = ee_version v" "code_version (set_as_deployed v) = code_version v"
    "ee_version (set_as_delegated v) = ee_version v" "code_version (set_as_delegated v) = code_version v"
    "ee_version (set_ee_version b v) = b" "code_version (set_ee_version b v) = code_version v"
    "code_version (set_code_version b v) = b" "ee_version (set_code_version b v) = ee_version v"
    unfolding ee_version_def code_version_def defs by ((rule byte_bits, auto simp: bit_simps byte_high)[1])+
  show "is_deployed (set_as_deployed v)" "is_delegated (set_as_delegated v)"
    "\<not> is_deployed (unset_deployment_status v)" "\<not> is_delegated (unset_deployment_status v)"
    "is_deployed (set_ee_version b v) = is_deployed v" "is_delegated (set_ee_version b v) = is_delegated v"
    "is_deployed (set_code_version b v) = is_deployed v" "is_delegated (set_code_version b v) = is_delegated v"
    by (simp_all add: is_deployed_def is_delegated_def top DEFAULT_ADDRESS_SPECIFIC_IMMUTABLE_DATA_VERSION_def DEFAULT_DELEGATED_VERSION_def)
qed

lemma account_roundtrip: "account_decode (account_encoding a) = a"
  by (cases a) (simp add: account_decode_def account_encoding_def slice_def from_to_be_bytes)
end
