(* ===== verification/Preimage_Cache.thy ===== *)
theory Preimage_Cache
  imports Account_Properties
begin

text \<open>
  Preimages of hashes: the cache of bytecodes and account data
  (\<^verbatim>\<open>flat_storage_model/preimage_cache.rs\<close>), the list of new preimages to publish
  (\<^verbatim>\<open>zk_ee/src/common_structs/new_preimages_publication_storage.rs\<close>), and the compressed
  diff of an account, which carries its bytecode (\<^verbatim>\<open>flat_storage_model/account_cache_entry.rs\<close>).
  \<open>io_env\<close> holds what the storage code is built with and calls: the pointer width, the flag
  \<open>PROOF_ENV\<close>, the oracle's answers and the two hash functions of the crypto library. An
  answer to a preimage query is the bytes of the words that the oracle returns.
\<close>

record io_env =
  usize_bits :: nat
  proof_env :: bool
  slot_data :: storage_oracle
  preimage_query :: "u256 \<Rightarrow> bytes option"
  blake2s256 :: "bytes \<Rightarrow> u256"
  keccak_digest :: "bytes \<Rightarrow> u256"

section \<open>New preimages\<close>

datatype preimage_type = BytecodePreimage | AccountDataPreimage

record preimages_publication_storage_value =
  num_uses :: nat
  publication_net_bytes :: nat

record publication_elem =
  elem_preimage_type :: preimage_type
  elem_value :: preimages_publication_storage_value

type_synonym publication_storage = "(u256, (publication_elem, unit) cache_record, unit) history_map"

definition mark_use :: "nat \<Rightarrow> (preimages_publication_storage_value, internal_error, unit) rs" where
  "mark_use W =
     and_then (read_st num_uses) (\<lambda>n.
     if n + 1 < 2 ^ W then modify_st (\<lambda>v. v\<lparr>num_uses := n + 1\<rparr>) else throw ''Overflow in num_uses'')"

definition on_elem_value :: "(preimages_publication_storage_value, 'e, 'a) rs \<Rightarrow> ((publication_elem, 'm) cache_record, 'e, 'a) rs" where
  "on_elem_value =
     on_part (\<lambda>x. elem_value (record_value x))
       (\<lambda>v x. x\<lparr>record_value := (record_value x)\<lparr>elem_value := v\<rparr>\<rparr>) (\<lambda>e. e)"

definition add_preimage :: "nat \<Rightarrow> u256 \<Rightarrow> nat \<Rightarrow> preimage_type \<Rightarrow> (publication_storage, internal_error, unit) rs" where
  "add_preimage W hash preimage_publication_byte_len ty =
     and_then (on_part (\<lambda>m. (m, ())) (\<lambda>s _. fst s) (\<lambda>e. e)
       (hm_get_or_insert hash
         (ret (cache_record_new \<lparr>elem_preimage_type = ty,
            elem_value = \<lparr>num_uses = 0, publication_net_bytes = preimage_publication_byte_len\<rparr>\<rparr> (), ())))) (\<lambda>_.
     hm_update hash (on_elem_value
       (and_then (read_st (\<lambda>v. v)) (\<lambda>v.
        and_then (assert_that (num_uses v > 1 \<longrightarrow> publication_net_bytes v = preimage_publication_byte_len)) (\<lambda>_.
        mark_use W)))))"

section \<open>The cache\<close>

record preimage_request =
  request_hash :: u256
  expected_preimage_len_in_bytes :: u32
  request_type :: preimage_type

record preimages_storage =
  preimage_map :: "u256 \<rightharpoonup> bytes"
  publication_storage :: publication_storage

definition preimages_new :: preimages_storage where
  "preimages_new = \<lparr>preimage_map = Map.empty, publication_storage = hm_new\<rparr>"

type_synonym preimages_st = "preimages_storage \<times> base_resources"

definition BLAKE2S_BASE_NATIVE_COST :: u64 where "BLAKE2S_BASE_NATIVE_COST = 800"
definition BLAKE2S_ROUND_NATIVE_COST :: u64 where "BLAKE2S_ROUND_NATIVE_COST = 340"
definition BLAKE2S_CHUNK_SIZE :: nat where "BLAKE2S_CHUNK_SIZE = 64"
definition PREIMAGE_CACHE_GET_NATIVE_COST :: u64 where "PREIMAGE_CACHE_GET_NATIVE_COST = 500"
definition PREIMAGE_CACHE_SET_NATIVE_COST :: u64 where "PREIMAGE_CACHE_SET_NATIVE_COST = 500"

definition blake2s_native_cost :: "nat \<Rightarrow> u64" where
  "blake2s_native_cost len =
     saturating_add
       (saturating_mul (word_of_nat ((len + BLAKE2S_CHUNK_SIZE - 1) div BLAKE2S_CHUNK_SIZE)) BLAKE2S_ROUND_NATIVE_COST)
       BLAKE2S_BASE_NATIVE_COST"

definition on_preimages :: "(preimages_storage, 'e, 'a) rs \<Rightarrow> (preimages_st, 'e, 'a) rs" where
  "on_preimages = on_part fst (\<lambda>p s. (p, snd s)) (\<lambda>e. e)"

definition charge_native :: "u64 \<Rightarrow> ('s \<times> base_resources, system_error, unit) rs" where
  "charge_native n = on_part snd (\<lambda>r s. (fst s, r)) (\<lambda>e. e) (resources_charge (from_native n))"

text \<open>The number of words the oracle may answer with, \<open>USIZE_SIZE\<close> bytes each.\<close>

definition num_usize_words_for_u8_capacity :: "nat \<Rightarrow> nat \<Rightarrow> nat" where
  "num_usize_words_for_u8_capacity W u8_capacity =
     next_multiple_of (next_multiple_of u8_capacity (W div 8) div (W div 8)) 2"

definition expose_preimage :: "io_env \<Rightarrow> preimage_type \<Rightarrow> u256 \<Rightarrow> nat \<Rightarrow> (preimages_st, system_error, bytes) rs" where
  "expose_preimage env ty hash expected_len =
     (if hash = 0 then ret []
      else
        and_then (charge_native PREIMAGE_CACHE_GET_NATIVE_COST) (\<lambda>_.
        and_then (read_st (\<lambda>(p, _). preimage_map p hash)) (\<lambda>cached.
        case cached of
          Some cached \<Rightarrow> ret cached
        | None \<Rightarrow>
            and_then (expect (preimage_query env hash)) (\<lambda>it.
            and_then (assert_that (length it div (usize_bits env div 8) \<le>
              num_usize_words_for_u8_capacity (usize_bits env) expected_len)) (\<lambda>_.
            and_then (assert_that (expected_len \<le> length it)) (\<lambda>_.
            let buffered = take expected_len it in
            and_then (charge_native (blake2s_native_cost expected_len)) (\<lambda>_.
            and_then
              (if proof_env env then
                 if blake2s256 env buffered \<noteq> hash
                 then throw (LeafDefect (case ty of
                   AccountDataPreimage \<Rightarrow> ''Account hash mismatch'' | BytecodePreimage \<Rightarrow> ''Bytecode hash mismatch''))
                 else ret ()
               else assert_that (blake2s256 env buffered = hash)) (\<lambda>_.
            and_then (modify_st (\<lambda>(p, r). (p\<lparr>preimage_map := (preimage_map p)(hash \<mapsto> buffered)\<rparr>, r))) (\<lambda>_.
            ret buffered)))))))))"

definition get_preimage :: "io_env \<Rightarrow> preimage_request \<Rightarrow> (preimages_st, system_error, bytes) rs" where
  "get_preimage env q =
     expose_preimage env (request_type q) (request_hash q) (unat (expected_preimage_len_in_bytes q))"

definition on_publication :: "(publication_storage, internal_error, 'a) rs \<Rightarrow> (preimages_storage, internal_error, 'a) rs" where
  "on_publication = on_part publication_storage (\<lambda>m p. p\<lparr>publication_storage := m\<rparr>) (\<lambda>e. e)"

text \<open>An entry that is already present is kept.\<close>

definition insert_verified_preimage ::
    "io_env \<Rightarrow> preimage_type \<Rightarrow> u256 \<Rightarrow> bytes \<Rightarrow> (preimages_storage, system_error, bytes) rs" where
  "insert_verified_preimage env ty hash preimage =
     and_then (on_part (\<lambda>p. p) (\<lambda>p _. p) LeafDefect
       (on_publication (add_preimage (usize_bits env) hash (length preimage) ty))) (\<lambda>_.
     and_then (read_st (\<lambda>p. preimage_map p hash)) (\<lambda>entry.
     case entry of
       Some inserted \<Rightarrow> ret inserted
     | None \<Rightarrow>
         and_then (modify_st (\<lambda>p. p\<lparr>preimage_map := (preimage_map p)(hash \<mapsto> preimage)\<rparr>)) (\<lambda>_. ret preimage)))"

definition record_preimage :: "io_env \<Rightarrow> preimage_request \<Rightarrow> bytes list \<Rightarrow> (preimages_st, system_error, bytes) rs" where
  "record_preimage env q preimage =
     and_then (charge_native PREIMAGE_CACHE_SET_NATIVE_COST) (\<lambda>_.
     let boxed_data = concat preimage in
     and_then (assert_that (expected_preimage_len_in_bytes q = word_of_nat (length boxed_data))) (\<lambda>_.
     on_preimages (insert_verified_preimage env (request_type q) (request_hash q) boxed_data)))"

text \<open>\<open>report_new_preimages\<close>: every key of the publication storage, in order.\<close>

definition report_new_preimages :: "(preimages_storage, internal_error, (u256 \<times> bytes \<times> preimage_type) list) rs" where
  "report_new_preimages p =
     (case those (map (\<lambda>h. case (preimage_map p h, fst (hm_current h (publication_storage p))) of
          (Some preimage, Inr x) \<Rightarrow> Some (h, preimage, elem_preimage_type (record_value x))
        | _ \<Rightarrow> None) (hm_keys (publication_storage p))) of
        Some xs \<Rightarrow> (Inr xs, p)
      | None \<Rightarrow> (Inl Panic, p))"

definition preimages_begin_new_tx :: "nat \<Rightarrow> (preimages_storage, internal_error, unit) rs" where
  "preimages_begin_new_tx W = on_publication (hm_commit W)"

definition preimages_start_frame :: "nat \<Rightarrow> (preimages_storage, internal_error, snapshot_id) rs" where
  "preimages_start_frame W = on_publication (hm_snapshot W)"

definition preimages_finish_frame :: "snapshot_id option \<Rightarrow> (preimages_storage, internal_error, unit) rs" where
  "preimages_finish_frame rollback_handle = on_publication (hm_finish_frame rollback_handle)"

end
