(* ===== verification/Evm_Words.thy ===== *)
theory Evm_Words
  imports Bytes "HOL-Library.Signed_Division"
begin

text \<open>
  Word arithmetic of the EVM: the conversions of \<^verbatim>\<open>zk_ee/src/utils/integer_utils.rs\<close>, signed
  arithmetic (\<^verbatim>\<open>evm_interpreter/src/i256.rs\<close>), \<^verbatim>\<open>evm_interpreter/src/u256.rs\<close>, and the
  helpers of \<^verbatim>\<open>evm_interpreter/src/utils.rs\<close>. A \<open>U256\<close> is a 256-bit word; its elementary
  operations (comparison, addition, subtraction, negation, bitwise operations, shifts, bit and
  byte tests, limbs) are those of the word type. The algorithms of the \<^verbatim>\<open>ruint\<close> crate
  (multiplication, division, modular arithmetic, exponentiation) are the parameter \<open>ruint\<close>,
  whose documented behaviour is \<open>ruint_ok\<close>.
\<close>

section \<open>Limbs and conversions\<close>

definition limb64 :: "'a::len word \<Rightarrow> nat \<Rightarrow> u64" where
  "limb64 w i = ucast (drop_bit (64 * i) w)"

definition limbs64 :: "u256 \<Rightarrow> u64 list" where
  "limbs64 w = [limb64 w 0, limb64 w 1, limb64 w 2, limb64 w 3]"

fun limbs_nat :: "u64 list \<Rightarrow> nat" where
  "limbs_nat [] = 0"
| "limbs_nat (l # ls) = unat l + 2 ^ 64 * limbs_nat ls"

definition from_limbs :: "u64 list \<Rightarrow> 'a::len word" where
  "from_limbs ls = word_of_nat (limbs_nat ls)"

definition u256_to_u64_saturated :: "u256 \<Rightarrow> u64" where
  "u256_to_u64_saturated src =
     (if limb64 src 3 \<noteq> 0 \<or> limb64 src 2 \<noteq> 0 \<or> limb64 src 1 \<noteq> 0 then - 1 else limb64 src 0)"

definition u256_try_to_u64 :: "u256 \<Rightarrow> u64 option" where
  "u256_try_to_u64 src =
     (if limb64 src 3 \<noteq> 0 \<or> limb64 src 2 \<noteq> 0 \<or> limb64 src 1 \<noteq> 0 then None else Some (limb64 src 0))"

definition u256_try_to_usize_capped :: "nat \<Rightarrow> u256 \<Rightarrow> nat option" where
  "u256_try_to_usize_capped CAP src =
     (if limb64 src 3 \<noteq> 0 \<or> limb64 src 2 \<noteq> 0 \<or> limb64 src 1 \<noteq> 0 \<or> word_of_nat CAP \<le> limb64 src 0 then None
      else Some (unat (limb64 src 0)))"

definition u256_to_usize_saturated :: "nat \<Rightarrow> u256 \<Rightarrow> nat" where
  "u256_to_usize_saturated W src = unat (u256_to_u64_saturated src) mod 2 ^ W"

definition u256_try_to_usize :: "nat \<Rightarrow> u256 \<Rightarrow> nat option" where
  "u256_try_to_usize W src =
     (if limb64 src 3 \<noteq> 0 \<or> limb64 src 2 \<noteq> 0 \<or> limb64 src 1 \<noteq> 0 then None
      else if unat (limb64 src 0) < 2 ^ W then Some (unat (limb64 src 0)) else None)"

definition u256_to_b160 :: "u256 \<Rightarrow> b160" where
  "u256_to_b160 src = from_limbs [limb64 src 0, limb64 src 1, limb64 src 2 AND 0x00000000ffffffff]"

definition b160_to_u256 :: "b160 \<Rightarrow> u256" where
  "b160_to_u256 src = from_limbs [limb64 src 0, limb64 src 1, limb64 src 2, 0]"

lemma unat_limb64: "unat (limb64 w i) = unat w div 2 ^ (64 * i) mod 2 ^ 64"
proof -
  have "unat (limb64 w i) = unat (drop_bit (64 * i) w) mod 2 ^ 64"
    by (simp add: limb64_def unsigned_ucast_eq take_bit_eq_mod)
  also have "unat (drop_bit (64 * i) w) = unat w div 2 ^ (64 * i)"
    by (subst unat_drop_bit_eq) (rule drop_bit_eq_div)
  finally show ?thesis .
qed

lemma unat_ucast: "unat (ucast w :: 'b::len word) = unat w mod 2 ^ LENGTH('b)"
  by (simp only: unsigned_ucast_eq) (rule take_bit_eq_mod)

lemma limb64_0_iff: "limb64 w i = 0 \<longleftrightarrow> unat w div 2 ^ (64 * i) mod 2 ^ 64 = 0"
  by (simp add: word_unat_eq_iff unat_limb64)

lemma nat_limbs:
  fixes n B :: nat
  assumes "n < B ^ 4"
  shows "n mod B + B * (n div B mod B + B * (n div B ^ 2 mod B + B * (n div B ^ 3 mod B))) = n"
proof -
  have d: "n div B ^ 2 = n div B div B" "n div B ^ 3 = n div B div B div B"
    by (simp_all add: div_mult2_eq [symmetric] power2_eq_square power3_eq_cube mult.assoc)
  have "n div B ^ 3 < B"
    using assms by (intro less_mult_imp_div_less) (simp add: numeral_eq_Suc mult.assoc)
  then have "n div B div B div B mod B = n div B div B div B" using d by simp
  then show ?thesis unfolding d by (metis add.commute mult_div_mod_eq)
qed

lemma limbs_nat_limbs64: "limbs_nat (limbs64 w) = unat w"
  using nat_limbs [of "unat w" "2 ^ 64"] unat_lt [of w] by (simp add: limbs64_def unat_limb64)

lemma high_limbs_0:
  fixes w :: u256
  shows "limb64 w 3 \<noteq> 0 \<or> limb64 w 2 \<noteq> 0 \<or> limb64 w 1 \<noteq> 0 \<longleftrightarrow> 2 ^ 64 \<le> unat w"
proof -
  define h where "h = unat (limb64 w 1) + 2 ^ 64 * (unat (limb64 w 2) + 2 ^ 64 * unat (limb64 w 3))"
  have "unat w = unat (limb64 w 0) + 2 ^ 64 * h"
    using limbs_nat_limbs64 [of w] by (simp add: limbs64_def h_def)
  moreover have "unat (limb64 w 0) < 2 ^ 64" using unat_lt [of "limb64 w 0"] by simp
  ultimately have "2 ^ 64 \<le> unat w \<longleftrightarrow> h \<noteq> 0" by (cases h) auto
  then show ?thesis by (auto simp: word_unat_eq_iff h_def)
qed

lemma low_limb: "unat w < 2 ^ 64 \<Longrightarrow> unat (limb64 w 0) = unat w"
  by (simp add: unat_limb64)

lemma unat_u256_to_u64_saturated [unat_simps]:
  "unat (u256_to_u64_saturated w) = min (unat w) (2 ^ 64 - 1)"
  unfolding u256_to_u64_saturated_def high_limbs_0
  by (auto simp: unat_max_word low_limb)

lemma u256_try_to_u64_iff: "u256_try_to_u64 w = Some x \<longleftrightarrow> unat w = unat x"
  unfolding u256_try_to_u64_def high_limbs_0
  using unat_lt [of x] by (auto simp: low_limb word_unat_eq_iff)

lemma u256_try_to_usize_eq:
  "W \<le> 64 \<Longrightarrow> u256_try_to_usize W w = (if unat w < 2 ^ W then Some (unat w) else None)"
proof -
  assume "W \<le> 64"
  then have "(2 :: nat) ^ W \<le> 2 ^ 64" by (rule power_increasing) simp
  then show ?thesis unfolding u256_try_to_usize_def high_limbs_0 by (auto simp: low_limb)
qed

lemma u256_try_to_usize_capped_eq:
  assumes "CAP < 2 ^ 64"
  shows "u256_try_to_usize_capped CAP w = (if unat w < CAP then Some (unat w) else None)"
proof -
  have "limb64 w 3 \<noteq> 0 \<or> limb64 w 2 \<noteq> 0 \<or> limb64 w 1 \<noteq> 0 \<or> word_of_nat CAP \<le> limb64 w 0
      \<longleftrightarrow> CAP \<le> unat w"
    using high_limbs_0 [of w] assms low_limb [of w]
    by (cases "unat w < 2 ^ 64") (auto simp: word_le_nat_alt unat_word_of_nat)
  moreover have "unat w < CAP \<Longrightarrow> unat (limb64 w 0) = unat w" using assms by (intro low_limb) simp
  ultimately show ?thesis unfolding u256_try_to_usize_capped_def by auto
qed

lemma u256_to_b160_eq: "u256_to_b160 w = ucast w"
proof -
  have "(0x00000000ffffffff :: u64) = mask 32" by (simp add: mask_eq_exp_minus_1)
  then have "limb64 w 2 AND 0x00000000ffffffff = take_bit 32 (limb64 w 2)"
    by (simp only: take_bit_eq_mask)
  then have "unat (limb64 w 2 AND 0x00000000ffffffff) = unat (limb64 w 2) mod 2 ^ 32"
    by (simp only: unsigned_take_bit_eq) (rule take_bit_eq_mod)
  also have "\<dots> = unat w div 2 ^ 128 mod 2 ^ 32" by (simp add: unat_limb64 mod_mod_cancel)
  finally have "unat (limb64 w 2 AND 0x00000000ffffffff) = unat w div 2 ^ 128 mod 2 ^ 32" .
  then have "limbs_nat [limb64 w 0, limb64 w 1, limb64 w 2 AND 0x00000000ffffffff] =
      2 ^ 64 * (2 ^ 64 * (unat w div 2 ^ 64 div 2 ^ 64 mod 2 ^ 32) + unat w div 2 ^ 64 mod 2 ^ 64) +
      unat w mod 2 ^ 64"
    by (simp add: unat_limb64 div_mult2_eq [symmetric])
  also have "\<dots> = unat w mod (2 ^ 64 * (2 ^ 64 * 2 ^ 32))" by (simp only: mod_mult2_eq)
  finally have "u256_to_b160 w = word_of_nat (unat w mod 2 ^ 160)"
    by (simp add: u256_to_b160_def from_limbs_def)
  then show ?thesis by (simp add: word_unat_eq_iff unat_of_nat unat_ucast)
qed

lemma b160_to_u256_eq: "b160_to_u256 a = ucast a"
proof -
  have "unat a < (2 ^ 64) ^ 4" using unat_lt [of a] by simp
  from nat_limbs [OF this] have "limbs_nat [limb64 a 0, limb64 a 1, limb64 a 2, 0] = unat a"
    using unat_lt [of a] by (simp add: unat_limb64)
  moreover have "unat (ucast a :: u256) = unat a"
    using unat_lt [of a] by (simp add: unat_ucast)
  ultimately show ?thesis
    using unat_lt [of a] by (simp add: word_unat_eq_iff b160_to_u256_def from_limbs_def unat_of_nat)
qed

lemma address_roundtrip: "u256_to_b160 (b160_to_u256 a) = a"
  using unat_lt [of a] by (simp add: u256_to_b160_eq b160_to_u256_eq word_unat_eq_iff unat_ucast)

section \<open>Algorithms of the \<^verbatim>\<open>ruint\<close> crate\<close>

record ruint =
  ruint_wrapping_mul :: "u256 \<Rightarrow> u256 \<Rightarrow> u256"
  ruint_div_assign :: "u256 \<Rightarrow> u256 \<Rightarrow> u256"
  ruint_checked_rem :: "u256 \<Rightarrow> u256 \<Rightarrow> u256 option"
  ruint_div_rem :: "u256 \<Rightarrow> u256 \<Rightarrow> u256 \<times> u256"
  ruint_add_mod :: "u256 \<Rightarrow> u256 \<Rightarrow> u256 \<Rightarrow> u256"
  ruint_pow :: "u256 \<Rightarrow> u256 \<Rightarrow> u256"
  ruint_addmul :: "u64 list \<Rightarrow> u64 list \<Rightarrow> u64 list \<Rightarrow> u64 list \<times> bool"
  ruint_div_limbs :: "u64 list \<Rightarrow> u64 list \<Rightarrow> u64 list \<times> u64 list"

text \<open>
  The documentation of the crate: wrapping multiplication, Euclidean division for a non-zero
  divisor, \<open>add_mod\<close> that is zero for a zero modulus, wrapping exponentiation, and the limb
  algorithms \<open>addmul\<close> (\<open>lhs += a * b\<close>, returning the overflow) and \<open>div\<close> (the quotient
  replaces the numerator, the remainder the divisor).
\<close>

definition ruint_ok :: "ruint \<Rightarrow> bool" where
  "ruint_ok R \<longleftrightarrow>
     (\<forall>a b. ruint_wrapping_mul R a b = a * b) \<and>
     (\<forall>a b. b \<noteq> 0 \<longrightarrow> ruint_div_assign R a b = a div b) \<and>
     (\<forall>a b. ruint_checked_rem R a b = (if b = 0 then None else Some (a mod b))) \<and>
     (\<forall>a b. b \<noteq> 0 \<longrightarrow> ruint_div_rem R a b = (a div b, a mod b)) \<and>
     (\<forall>a b m. ruint_add_mod R a b m =
        (if m = 0 then 0 else word_of_nat ((unat a + unat b) mod unat m))) \<and>
     (\<forall>a b. ruint_pow R a b = a ^ unat b) \<and>
     (\<forall>lhs a b. case ruint_addmul R lhs a b of (ls, carry) \<Rightarrow>
        length ls = length lhs \<and>
        (let full = limbs_nat lhs + limbs_nat a * limbs_nat b in
           carry = (2 ^ (64 * length lhs) \<le> full) \<and> limbs_nat ls = full mod 2 ^ (64 * length lhs))) \<and>
     (\<forall>n d. limbs_nat d \<noteq> 0 \<longrightarrow> (case ruint_div_limbs R n d of (q, r) \<Rightarrow>
        length q = length n \<and> length r = length d \<and>
        limbs_nat q = limbs_nat n div limbs_nat d \<and> limbs_nat r = limbs_nat n mod limbs_nat d))"

lemma ruint_okD:
  assumes "ruint_ok R"
  shows "ruint_wrapping_mul R a b = a * b"
    and "b \<noteq> 0 \<Longrightarrow> ruint_div_assign R a b = a div b"
    and "ruint_checked_rem R a b = (if b = 0 then None else Some (a mod b))"
    and "b \<noteq> 0 \<Longrightarrow> ruint_div_rem R a b = (a div b, a mod b)"
    and "ruint_add_mod R a b m = (if m = 0 then 0 else word_of_nat ((unat a + unat b) mod unat m))"
    and "ruint_pow R a b = a ^ unat b"
    and "ruint_addmul R lhs x y = (ls, carry) \<Longrightarrow> full = limbs_nat lhs + limbs_nat x * limbs_nat y \<Longrightarrow>
      carry = (2 ^ (64 * length lhs) \<le> full) \<and> limbs_nat ls = full mod 2 ^ (64 * length lhs)"
    and "limbs_nat d \<noteq> 0 \<Longrightarrow> ruint_div_limbs R n d = (q, r) \<Longrightarrow> limbs_nat r = limbs_nat n mod limbs_nat d"
proof -
  have "\<forall>a b. ruint_wrapping_mul R a b = a * b"
    using assms unfolding ruint_ok_def by (elim conjE)
  then show "ruint_wrapping_mul R a b = a * b" by simp
  have "\<forall>a b. b \<noteq> 0 \<longrightarrow> ruint_div_assign R a b = a div b"
    using assms unfolding ruint_ok_def by (elim conjE)
  then show "b \<noteq> 0 \<Longrightarrow> ruint_div_assign R a b = a div b" by blast
  have "\<forall>a b. ruint_checked_rem R a b = (if b = 0 then None else Some (a mod b))"
    using assms unfolding ruint_ok_def by (elim conjE)
  then show "ruint_checked_rem R a b = (if b = 0 then None else Some (a mod b))" by blast
  have "\<forall>a b. b \<noteq> 0 \<longrightarrow> ruint_div_rem R a b = (a div b, a mod b)"
    using assms unfolding ruint_ok_def by (elim conjE)
  then show "b \<noteq> 0 \<Longrightarrow> ruint_div_rem R a b = (a div b, a mod b)" by blast
  have "\<forall>a b m. ruint_add_mod R a b m =
      (if m = 0 then 0 else word_of_nat ((unat a + unat b) mod unat m))"
    using assms unfolding ruint_ok_def by (elim conjE)
  then show "ruint_add_mod R a b m = (if m = 0 then 0 else word_of_nat ((unat a + unat b) mod unat m))"
    by blast
  have "\<forall>a b. ruint_pow R a b = a ^ unat b"
    using assms unfolding ruint_ok_def by (elim conjE)
  then show "ruint_pow R a b = a ^ unat b" by blast
  have "\<forall>lhs a b. case ruint_addmul R lhs a b of (ls, carry) \<Rightarrow>
        length ls = length lhs \<and>
        (let full = limbs_nat lhs + limbs_nat a * limbs_nat b in
           carry = (2 ^ (64 * length lhs) \<le> full) \<and> limbs_nat ls = full mod 2 ^ (64 * length lhs))"
    using assms unfolding ruint_ok_def by (elim conjE)
  from this [rule_format, of lhs x y]
  show "ruint_addmul R lhs x y = (ls, carry) \<Longrightarrow> full = limbs_nat lhs + limbs_nat x * limbs_nat y \<Longrightarrow>
      carry = (2 ^ (64 * length lhs) \<le> full) \<and> limbs_nat ls = full mod 2 ^ (64 * length lhs)"
    by (simp add: Let_def)
  have "\<forall>n d. limbs_nat d \<noteq> 0 \<longrightarrow> (case ruint_div_limbs R n d of (q, r) \<Rightarrow>
        length q = length n \<and> length r = length d \<and>
        limbs_nat q = limbs_nat n div limbs_nat d \<and> limbs_nat r = limbs_nat n mod limbs_nat d)"
    using assms unfolding ruint_ok_def by (elim conjE)
  from this [rule_format, of d n]
  show "limbs_nat d \<noteq> 0 \<Longrightarrow> ruint_div_limbs R n d = (q, r) \<Longrightarrow> limbs_nat r = limbs_nat n mod limbs_nat d"
    by simp
qed

text \<open>An instance, to evaluate examples.\<close>

fun nat_limbs64 :: "nat \<Rightarrow> nat \<Rightarrow> u64 list" where
  "nat_limbs64 0 x = []"
| "nat_limbs64 (Suc n) x = word_of_nat x # nat_limbs64 n (x div 2 ^ 64)"

lemma length_nat_limbs64 [simp]: "length (nat_limbs64 n x) = n"
  by (induction n arbitrary: x) auto

lemma limbs_nat_nat_limbs64: "limbs_nat (nat_limbs64 n x) = x mod 2 ^ (64 * n)"
proof (induction n arbitrary: x)
  case (Suc n)
  have "x mod 2 ^ (64 * Suc n) = 2 ^ 64 * (x div 2 ^ 64 mod 2 ^ (64 * n)) + x mod 2 ^ 64"
    by (simp only: mult_Suc_right power_add mod_mult2_eq)
  with Suc show ?case by (simp add: unat_of_nat)
qed simp

lemma limbs_nat_bound: "limbs_nat ls < 2 ^ (64 * length ls)"
proof (induction ls)
  case (Cons l ls)
  have "unat l < 2 ^ 64" using unat_lt [of l] by simp
  with Cons show ?case by (simp add: power_add)
qed simp

definition ruint_ref :: ruint where
  "ruint_ref =
     \<lparr>ruint_wrapping_mul = (\<lambda>a b. a * b), ruint_div_assign = (\<lambda>a b. a div b),
      ruint_checked_rem = (\<lambda>a b. if b = 0 then None else Some (a mod b)),
      ruint_div_rem = (\<lambda>a b. (a div b, a mod b)),
      ruint_add_mod = (\<lambda>a b m. if m = 0 then 0 else word_of_nat ((unat a + unat b) mod unat m)),
      ruint_pow = (\<lambda>a b. a ^ unat b),
      ruint_addmul = (\<lambda>lhs a b. let full = limbs_nat lhs + limbs_nat a * limbs_nat b in
         (nat_limbs64 (length lhs) full, 2 ^ (64 * length lhs) \<le> full)),
      ruint_div_limbs = (\<lambda>n d. (nat_limbs64 (length n) (limbs_nat n div limbs_nat d),
         nat_limbs64 (length d) (limbs_nat n mod limbs_nat d)))\<rparr>"

lemma ruint_ref_ok: "ruint_ok ruint_ref"
proof -
  have "limbs_nat n div d < 2 ^ (64 * length n)" for n d
    using limbs_nat_bound [of n] div_le_dividend [of "limbs_nat n" d] by linarith
  moreover have "limbs_nat d \<noteq> 0 \<Longrightarrow> limbs_nat n mod limbs_nat d < 2 ^ (64 * length d)" for n d
    using limbs_nat_bound [of d] mod_less_divisor [of "limbs_nat d" "limbs_nat n"] by linarith
  ultimately show ?thesis
    by (simp add: ruint_ok_def ruint_ref_def limbs_nat_nat_limbs64 Let_def)
qed

section \<open>Signed arithmetic\<close>

datatype sign = SPlus | SMinus | SZero

datatype ordering = Less | Equal | Greater

definition MIN_NEGATIVE_VALUE_REPR :: "u64 list" where
  "MIN_NEGATIVE_VALUE_REPR = [0, 0, 0, 0x8000000000000000]"

definition two_compl :: "u256 \<Rightarrow> u256" where
  "two_compl w = - w"

text \<open>The second component is what \<open>val\<close> holds afterwards.\<close>

definition i256_sign :: "bool \<Rightarrow> u256 \<Rightarrow> sign \<times> u256" where
  "i256_sign DO_TWO_COMPL val =
     (if drop_bit 63 (limb64 val 3) = 0 then (if val = 0 then SZero else SPlus, val)
      else (SMinus, if DO_TWO_COMPL then two_compl val else val))"

definition i256_sign_by_ref :: "u256 \<Rightarrow> sign" where
  "i256_sign_by_ref val =
     (if drop_bit 63 (limb64 val 3) = 0 then (if val = 0 then SZero else SPlus) else SMinus)"

definition i256_cmp :: "u256 \<Rightarrow> u256 \<Rightarrow> ordering" where
  "i256_cmp first second =
     (case (bit first 255, bit second 255) of
        (True, False) \<Rightarrow> Less
      | (False, True) \<Rightarrow> Greater
      | _ \<Rightarrow> (case overflowing_sub first second of
           (tmp, uf) \<Rightarrow> if uf then Less else if tmp = 0 then Equal else Greater))"

text \<open>\<open>i256_div\<close> and \<open>i256_mod\<close> return what they leave in their second argument.\<close>

definition i256_div :: "ruint \<Rightarrow> u256 \<Rightarrow> u256 \<Rightarrow> u256" where
  "i256_div R dividend divisor =
     (case i256_sign True divisor of (divisor_sign, divisor) \<Rightarrow>
      if divisor_sign = SZero then 0
      else case i256_sign True dividend of (dividend_sign, dividend) \<Rightarrow>
        if dividend_sign = SMinus \<and> limbs64 dividend = MIN_NEGATIVE_VALUE_REPR \<and> divisor = 1
        then two_compl (from_limbs [0, 0, 0, 0x8000000000000000])
        else case ruint_div_rem R dividend divisor of (q, _) \<Rightarrow>
          if q = 0 then 0
          else if (dividend_sign, divisor_sign) \<in>
              {(SZero, SPlus), (SPlus, SZero), (SZero, SZero), (SPlus, SPlus), (SMinus, SMinus)}
          then q
          else fst (overflowing_sub 0 q))"

definition i256_mod :: "ruint \<Rightarrow> u256 \<Rightarrow> u256 \<Rightarrow> u256" where
  "i256_mod R dividend divisor =
     (case i256_sign True dividend of (dividend_sign, dividend) \<Rightarrow>
      if dividend_sign = SZero then 0
      else case i256_sign True divisor of (_, divisor) \<Rightarrow>
        case ruint_div_rem R dividend divisor of (_, r) \<Rightarrow>
          if r = 0 then r else if dividend_sign = SMinus then two_compl r else r)"

lemma bit_255: "bit (w :: u256) 255 \<longleftrightarrow> 2 ^ 255 \<le> unat w"
proof -
  have lt: "unat w div 2 ^ 255 < 2" using unat_lt [of w] by (simp add: less_mult_imp_div_less)
  have "bit w 255 \<longleftrightarrow> bit (unat w) 255" by (simp add: bit_unsigned_iff)
  also have "\<dots> \<longleftrightarrow> odd (unat w div 2 ^ 255)" by (rule bit_iff_odd)
  also have "\<dots> \<longleftrightarrow> unat w div 2 ^ 255 \<noteq> 0" using lt by (cases "unat w div 2 ^ 255") auto
  finally show ?thesis by (simp add: div_eq_0_iff not_less)
qed

lemma sint_256: "sint (w :: u256) = (if 2 ^ 255 \<le> unat w then int (unat w) - 2 ^ 256 else int (unat w))"
proof -
  have u: "int (unat w) = sint w mod 2 ^ 256" by (simp add: uint_sint take_bit_eq_mod)
  have lo: "- (2 ^ 255) \<le> sint w" and hi: "sint w < 2 ^ 255"
    using sint_greater_eq [of w] sint_less [of w] by simp_all
  show ?thesis
  proof (cases "0 \<le> sint w")
    case True
    then have "sint w mod 2 ^ 256 = sint w" using hi by simp
    then have "int (unat w) < 2 ^ 255" "int (unat w) = sint w" using u hi by simp_all
    then have "unat w < 2 ^ 255" by (metis of_nat_less_iff of_nat_numeral of_nat_power)
    with \<open>int (unat w) = sint w\<close> show ?thesis by simp
  next
    case False
    have "sint w mod 2 ^ 256 = (sint w + 2 ^ 256) mod 2 ^ 256" by simp
    also have "\<dots> = sint w + 2 ^ 256" using False lo by (intro mod_pos_pos_trivial) auto
    finally have "int (unat w) = sint w + 2 ^ 256" using u by simp
    then have "2 ^ 255 \<le> int (unat w)" using lo by simp
    then have "2 ^ 255 \<le> unat w" by (metis of_nat_le_iff of_nat_numeral of_nat_power)
    with \<open>int (unat w) = sint w + 2 ^ 256\<close> show ?thesis by simp
  qed
qed

lemma sign_bit: "drop_bit 63 (limb64 (w :: u256) 3) = 0 \<longleftrightarrow> unat w < 2 ^ 255"
proof -
  have "unat w div 2 ^ 192 < 2 ^ 64" using unat_lt [of w] by (simp add: less_mult_imp_div_less)
  then have "unat (drop_bit 63 (limb64 w 3)) = unat w div 2 ^ 192 div 2 ^ 63"
    by (subst unat_drop_bit_eq, subst drop_bit_eq_div) (simp add: unat_limb64)
  also have "\<dots> = unat w div 2 ^ 255" by (simp add: div_mult2_eq [symmetric])
  finally show ?thesis by (simp add: word_unat_eq_iff div_eq_0_iff)
qed

lemma unat_256: "n < 2 ^ 256 \<Longrightarrow> unat (word_of_nat n :: u256) = n"
  by (rule unat_word_of_nat) simp

lemma unat_neg: "w \<noteq> 0 \<Longrightarrow> unat (- w :: u256) = 2 ^ 256 - unat w"
proof -
  assume "w \<noteq> 0"
  then have lt: "2 ^ 256 - unat w < 2 ^ 256" by (simp add: word_unat_eq_iff)
  have "(word_of_nat (2 ^ 256 - unat w) :: u256) = word_of_nat (2 ^ 256) - word_of_nat (unat w)"
    using unat_lt [of w] by (intro of_nat_diff) simp
  also have "\<dots> = - w" by simp
  finally show ?thesis using lt by (metis unat_256)
qed

text \<open>Sign and modulus of the two's-complement reading.\<close>

lemma i256_sign_spec:
  assumes "i256_sign True w = (sg, m)"
  shows "int (unat m) = \<bar>sint w\<bar>" and "sg = SMinus \<longleftrightarrow> sint w < 0" and "sg = SZero \<longleftrightarrow> w = 0"
    and "sg = SZero \<longleftrightarrow> sint w = 0"
proof -
  have w: "unat w < 2 ^ 256" using unat_lt [of w] by simp
  have nz: "2 ^ 255 \<le> unat w \<Longrightarrow> w \<noteq> 0" by auto
  show "int (unat m) = \<bar>sint w\<bar>"
  proof (cases "unat w < 2 ^ 255")
    case True
    then have "m = w" using assms by (simp add: i256_sign_def sign_bit)
    with True show ?thesis by (simp add: sint_256 del: of_nat_unat)
  next
    case False
    then have m: "m = - w" using assms by (simp add: i256_sign_def sign_bit two_compl_def)
    have "int (unat m) = 2 ^ 256 - int (unat w)"
      using False w nz unat_neg [of w] m by (simp add: of_nat_diff del: of_nat_unat)
    then show ?thesis using False w by (simp add: sint_256 del: of_nat_unat)
  qed
  show "sg = SMinus \<longleftrightarrow> sint w < 0"
    using assms w by (auto simp: i256_sign_def sign_bit sint_256 simp del: of_nat_unat split: if_splits)
  show z: "sg = SZero \<longleftrightarrow> w = 0"
    using assms nz by (auto simp: i256_sign_def sign_bit split: if_splits)
  show "sg = SZero \<longleftrightarrow> sint w = 0" unfolding z
    using w by (auto simp: sint_256 word_unat_eq_iff simp del: of_nat_unat)
qed

lemma word_of_unat_div: "word_of_int (int (unat m) div int (unat n)) = (m :: u256) div n"
proof -
  have "int (unat m) div int (unat n) = int (unat (m div n))"
    by (simp only: unat_div_distrib zdiv_int)
  then show ?thesis by simp
qed

lemma word_of_unat_mod: "word_of_int (int (unat m) mod int (unat n)) = (m :: u256) mod n"
proof -
  have "int (unat m) mod int (unat n) = int (unat (m mod n))"
    by (simp only: unat_mod_distrib zmod_int)
  then show ?thesis by simp
qed

lemma i256_div_eq:
  assumes R: "ruint_ok R" and b: "b \<noteq> 0"
  shows "i256_div R a b = word_of_int (sint a sdiv sint b)"
proof -
  obtain sb n where sb: "i256_sign True b = (sb, n)" by fastforce
  obtain sa m where sa: "i256_sign True a = (sa, m)" by fastforce
  note A = i256_sign_spec [OF sa] and B = i256_sign_spec [OF sb]
  have n: "n \<noteq> 0"
  proof
    assume "n = 0"
    then have "sint b = 0" using B(1) by simp
    then show False using B(3, 4) b by simp
  qed
  have q: "ruint_div_rem R m n = (m div n, m mod n)" by (rule ruint_okD(4) [OF R n])
  have abs: "word_of_int (\<bar>sint a\<bar> div \<bar>sint b\<bar>) = m div n"
    using word_of_unat_div [of m n] by (simp only: A(1) B(1))
  have spec: "word_of_int (sint a sdiv sint b) =
      (if sa = SZero then 0 else if (sa = SMinus) = (sb = SMinus) then m div n else - (m div n))"
    unfolding signed_divide_int_def
    using abs A(2, 4) B(2, 3, 4) b by (auto simp: sgn_if)
  show ?thesis
  proof (cases "sa = SMinus \<and> limbs64 m = MIN_NEGATIVE_VALUE_REPR \<and> n = 1")
    case True
    then have m: "m = 2 ^ 255"
      using limbs_nat_limbs64 [of m] by (simp add: MIN_NEGATIVE_VALUE_REPR_def word_unat_eq_iff)
    have "m div n = 2 ^ 255" using True m by simp
    then show ?thesis unfolding spec using True B(3) b m
      by (simp add: i256_div_def sa sb two_compl_def from_limbs_def)
  next
    case False
    have "sb = SPlus \<or> sb = SMinus" using B(3) b by (cases sb) auto
    moreover have "sa = SZero \<Longrightarrow> m = 0" using A(1, 4) by (simp add: word_unat_eq_iff del: of_nat_unat)
    ultimately show ?thesis unfolding spec using False B(3) b q
      by (cases sa) (auto simp: i256_div_def sa sb overflowing_sub_def)
  qed
qed

lemma i256_mod_eq:
  assumes R: "ruint_ok R" and b: "b \<noteq> 0"
  shows "i256_mod R a b = word_of_int (sint a smod sint b)"
proof -
  obtain sb n where sb: "i256_sign True b = (sb, n)" by fastforce
  obtain sa m where sa: "i256_sign True a = (sa, m)" by fastforce
  note A = i256_sign_spec [OF sa] and B = i256_sign_spec [OF sb]
  have n: "n \<noteq> 0"
  proof
    assume "n = 0"
    then have "sint b = 0" using B(1) by simp
    then show False using B(3, 4) b by simp
  qed
  have q: "ruint_div_rem R m n = (m div n, m mod n)" by (rule ruint_okD(4) [OF R n])
  have abs: "word_of_int (\<bar>sint a\<bar> mod \<bar>sint b\<bar>) = m mod n"
    using word_of_unat_mod [of m n] by (simp only: A(1) B(1))
  have "sint a smod sint b = sgn (sint a) * (\<bar>sint a\<bar> mod \<bar>sint b\<bar>)"
    by (simp add: signed_modulo_int_def sgn_if abs_if)
  then have "word_of_int (sint a smod sint b) =
      (if sa = SZero then 0 else if sa = SMinus then - (m mod n) else m mod n)"
    using abs A(2, 4) by (auto simp: sgn_if)
  then show ?thesis by (auto simp: i256_mod_def sa sb q two_compl_def)
qed

lemma i256_cmp_eq:
  "i256_cmp a b = (if sint a < sint b then Less else if sint a = sint b then Equal else Greater)"
proof -
  have l: "unat a < 2 ^ 256" "unat b < 2 ^ 256" using unat_lt [of a] unat_lt [of b] by simp_all
  show ?thesis
    using l by (auto simp: i256_cmp_def bit_255 sint_256 overflowing_sub_def word_less_nat_alt
        word_unat_eq_iff [symmetric] simp del: of_nat_unat split: bool.splits)
qed

section \<open>The data part of the bitwise instructions\<close>

definition bool_word :: "bool \<Rightarrow> u256" where
  "bool_word b = (if b then 1 else 0)"

definition word_byte :: "u256 \<Rightarrow> nat \<Rightarrow> u8" where
  "word_byte w i = ucast (drop_bit (8 * i) w)"

definition byte_word :: "u256 \<Rightarrow> u256 \<Rightarrow> u256" where
  "byte_word offset src =
     (case u256_try_to_usize_capped 32 offset of
        Some offset \<Rightarrow> ucast (word_byte src (31 - offset))
      | None \<Rightarrow> 0)"

text \<open>
  A shift amount is \<open>u256_to_usize_saturated(op1) as u32\<close>; a shift by the width or more gives
  zero.
\<close>

definition shift_amount :: "nat \<Rightarrow> u256 \<Rightarrow> u32" where
  "shift_amount W op1 = word_of_nat (u256_to_usize_saturated W op1)"

definition shl_word :: "nat \<Rightarrow> u256 \<Rightarrow> u256 \<Rightarrow> u256" where
  "shl_word W op1 op2 = push_bit (unat (shift_amount W op1)) op2"

definition shr_word :: "nat \<Rightarrow> u256 \<Rightarrow> u256 \<Rightarrow> u256" where
  "shr_word W op1 op2 = drop_bit (unat (shift_amount W op1)) op2"

fun fill_top_limbs :: "nat \<Rightarrow> u64 list \<Rightarrow> u64 list" where
  "fill_top_limbs 0 ls = ls"
| "fill_top_limbs (Suc i) ls = (fill_top_limbs i ls)[3 - i := - 1]"

definition sar_word :: "u256 \<Rightarrow> u256 \<Rightarrow> u256" where
  "sar_word op1 op2 =
     (let sign_bit = bit op2 255 in
      case u256_try_to_usize_capped 256 op1 of
        Some shift \<Rightarrow>
          if \<not> sign_bit then drop_bit shift op2
          else let op2 = drop_bit shift op2; words = shift div 64; bits = shift mod 64;
                 ls = fill_top_limbs words (limbs64 op2) in
            from_limbs (if bits \<noteq> 0
              then ls[3 - words := ls ! (3 - words) OR push_bit (64 - bits) (- 1)] else ls)
      | None \<Rightarrow> if \<not> sign_bit then 0 else from_limbs [- 1, - 1, - 1, - 1])"

definition sign_extend_word :: "u256 \<Rightarrow> u256 \<Rightarrow> u256" where
  "sign_extend_word op1 op2 =
     (case u256_try_to_usize_capped 32 op1 of
        Some shift \<Rightarrow>
          (let bit_index = 8 * shift + 7; m = push_bit bit_index 1 - 1 in
           if bit op2 bit_index then op2 OR NOT m else op2 AND m)
      | None \<Rightarrow> op2)"

definition leading_zeros :: "'a::len word \<Rightarrow> nat" where
  "leading_zeros w = LENGTH('a) - bit_len w"

definition clz_word :: "u256 \<Rightarrow> u256" where
  "clz_word w = (if w = 0 then 256 else word_of_nat (leading_zeros w))"

section \<open>Exponents and products\<close>

text \<open>The loop of \<open>log2floor\<close> from limb \<open>i - 1\<close> down, with its running bound \<open>l\<close>.\<close>

fun log2floor_loop :: "u256 \<Rightarrow> nat \<Rightarrow> nat \<Rightarrow> nat" where
  "log2floor_loop v 0 l = l"
| "log2floor_loop v (Suc i) l =
     (if limb64 v i = 0 then log2floor_loop v i (l - 64)
      else let l = l - leading_zeros (limb64 v i) in if l = 0 then l else l - 1)"

definition log2floor :: "u256 \<Rightarrow> ('s, 'e, u64) rs" where
  "log2floor v = and_then (assert_that (v \<noteq> 0)) (\<lambda>_. ret (word_of_nat (log2floor_loop v 4 256)))"

definition GAS_EXP :: u64 where "GAS_EXP = 10"
definition EXP_BASE_NATIVE_COST :: u64 where "EXP_BASE_NATIVE_COST = 700"
definition EXP_PER_BYTE_NATIVE_COST :: u64 where "EXP_PER_BYTE_NATIVE_COST = 5000"

definition exp_cost :: "u256 \<Rightarrow> ('s, 'e, (u64 \<times> u64) option) rs" where
  "exp_cost pow =
     (if pow = 0 then ret (Some (GAS_EXP, EXP_BASE_NATIVE_COST))
      else and_then (log2floor pow) (\<lambda>l.
        let gas_byte = 50; num_bytes = l div 8 + 1 in
        ret (case checked_mul gas_byte num_bytes of
            None \<Rightarrow> None
          | Some x \<Rightarrow> (case checked_add x GAS_EXP of
              None \<Rightarrow> None
            | Some gas_cost \<Rightarrow> (case checked_mul EXP_PER_BYTE_NATIVE_COST num_bytes of
                None \<Rightarrow> None
              | Some y \<Rightarrow> (case checked_add EXP_BASE_NATIVE_COST y of
                  None \<Rightarrow> None
                | Some native_cost \<Rightarrow> Some (gas_cost, native_cost)))))))"

definition mul_mod :: "ruint \<Rightarrow> u256 \<Rightarrow> u256 \<Rightarrow> u256 \<Rightarrow> ('s, 'e, u256) rs" where
  "mul_mod R this other modulus =
     (if modulus = 0 then ret 0
      else case ruint_addmul R (replicate 8 0) (limbs64 this) (limbs64 other) of (product, overflow) \<Rightarrow>
        and_then (assert_that (\<not> overflow)) (\<lambda>_.
        case ruint_div_limbs R product (limbs64 modulus) of (_, remainder) \<Rightarrow>
        ret (from_limbs remainder)))"

section \<open>Byte order\<close>

definition swap_bytes :: "u64 \<Rightarrow> u64" where
  "swap_bytes w = from_be_bytes (rev (to_be_bytes w))"

definition bytereverse_u256 :: "u256 \<Rightarrow> u256" where
  "bytereverse_u256 v =
     from_limbs (map swap_bytes [limb64 v 3, limb64 v 2, limb64 v 1, limb64 v 0])"

text \<open>Memory of a little-endian machine: the bytes of a \<open>U256\<close>, lowest first.\<close>

definition as_le_slice :: "u256 \<Rightarrow> bytes" where
  "as_le_slice w = le_bytes 32 (unat w)"

definition of_le_slice :: "bytes \<Rightarrow> u256" where
  "of_le_slice bs = word_of_nat (le_nat bs)"

section \<open>Addresses of created contracts and precompiles\<close>

definition MAX_CREATE_RLP_ENCODING_LEN :: nat where
  "MAX_CREATE_RLP_ENCODING_LEN = 1 + 1 + 20 + 1 + 8"

definition create_quasi_rlp :: "b160 \<Rightarrow> u64 \<Rightarrow> bytes" where
  "create_quasi_rlp address nonce =
     (let address_bytes = to_be_bytes address; nonce_bytes = to_be_bytes nonce;
        skip_nonce_len = leading_zeros nonce div 8; nonce_len = 8 - skip_nonce_len in
      if nonce_len = 1 \<and> nonce_bytes ! 7 < 128
      then let payload_len = 1 + 20 + 1 in
        [0xc0 + word_of_nat payload_len, 0x80 + 20] @ address_bytes @ [nonce_bytes ! 7]
      else let payload_len = 1 + 20 + 1 + nonce_len in
        [0xc0 + word_of_nat payload_len, 0x80 + 20] @ address_bytes @
        [0x80 + word_of_nat nonce_len] @ drop skip_nonce_len nonce_bytes)"

definition is_precompile :: "b160 \<Rightarrow> bool" where
  "is_precompile address =
     (if limb64 address 1 \<noteq> 0 \<or> limb64 address 2 \<noteq> 0 then False
      else (0 < limb64 address 0 \<and> limb64 address 0 \<le> 10) \<or> limb64 address 0 = 0x100)"

section \<open>What they compute\<close>

lemma bit_limb64: "bit (limb64 w i) n \<longleftrightarrow> n < 64 \<and> bit w (64 * i + n)"
  by (simp add: limb64_def bit_ucast_iff bit_drop_bit_eq)

lemma bit_add_shift:
  fixes a b :: nat
  assumes "a < 2 ^ k"
  shows "bit (a + 2 ^ k * b) n \<longleftrightarrow> (if n < k then bit a n else bit b (n - k))"
proof (cases "n < k")
  case True
  then have "(2 :: nat) ^ k = 2 ^ n * (2 * 2 ^ (k - n - 1))"
    by (simp flip: power_add power_Suc)
  then have "(a + 2 ^ k * b) div 2 ^ n = (a + 2 ^ n * (2 * 2 ^ (k - n - 1) * b)) div 2 ^ n"
    by (simp add: mult.assoc)
  also have "\<dots> = a div 2 ^ n + 2 * 2 ^ (k - n - 1) * b" by (simp add: div_mult_self2)
  finally have "(a + 2 ^ k * b) div 2 ^ n = a div 2 ^ n + 2 * 2 ^ (k - n - 1) * b" .
  with True show ?thesis by (simp add: bit_iff_odd)
next
  case False
  then have "(2 :: nat) ^ n = 2 ^ k * 2 ^ (n - k)" by (simp flip: power_add)
  then have "(a + 2 ^ k * b) div 2 ^ n = b div 2 ^ (n - k)"
    using assms by (simp add: div_mult2_eq)
  with False show ?thesis by (simp add: bit_iff_odd)
qed

lemma bit_limbs_nat:
  "bit (limbs_nat ls) n \<longleftrightarrow> n div 64 < length ls \<and> bit (ls ! (n div 64)) (n mod 64)"
proof (induction ls arbitrary: n)
  case (Cons l ls)
  have lt: "unat l < 2 ^ 64" using unat_lt [of l] by simp
  have "\<not> n < 64 \<Longrightarrow> n div 64 = Suc ((n - 64) div 64)" "\<not> n < 64 \<Longrightarrow> (n - 64) mod 64 = n mod 64"
    by (simp_all add: le_div_geq le_mod_geq)
  then show ?case
    using bit_add_shift [OF lt] Cons by (auto simp: bit_unsigned_iff)
qed simp

lemma bit_from_limbs:
  "length ls = 4 \<Longrightarrow> n < 256 \<Longrightarrow> bit (from_limbs ls :: u256) n \<longleftrightarrow> bit (ls ! (n div 64)) (n mod 64)"
  by (simp add: from_limbs_def bit_of_nat_iff bit_limbs_nat less_mult_imp_div_less)

lemma nth_limbs64: "i < 4 \<Longrightarrow> limbs64 w ! i = limb64 w i"
  by (auto simp: limbs64_def less_Suc_eq numeral_eq_Suc)

lemma length_limbs64 [simp]: "length (limbs64 w) = 4"
  by (simp add: limbs64_def)

lemma length_fill_top_limbs [simp]: "length (fill_top_limbs k ls) = length ls"
  by (induction k) auto

lemma nth_fill_top_limbs:
  "length ls = 4 \<Longrightarrow> k \<le> 4 \<Longrightarrow> j < 4 \<Longrightarrow> fill_top_limbs k ls ! j = (if 4 - k \<le> j then - 1 else ls ! j)"
  by (induction k) (auto simp: nth_list_update)

lemma sar_small:
  assumes "shift < 256" and "bit (op2 :: u256) 255"
  defines "words \<equiv> shift div 64" and "bits \<equiv> shift mod 64"
  defines "ls \<equiv> fill_top_limbs words (limbs64 (drop_bit shift op2))"
  shows "from_limbs (if bits \<noteq> 0
      then ls[3 - words := ls ! (3 - words) OR push_bit (64 - bits) (- 1)] else ls)
    = signed_drop_bit shift op2" (is "from_limbs ?ls = _")
proof (rule bit_word_eqI)
  fix n assume "n < LENGTH(256)"
  then have n: "n < 256" by simp
  define j r where "j = n div 64" and "r = n mod 64"
  have nj: "n = 64 * j + r" "r < 64" "j < 4" using n by (auto simp: j_def r_def)
  have sh: "shift = 64 * words + bits" "bits < 64" "words < 4"
    using assms(1) by (auto simp: words_def bits_def)
  have top: "256 - shift \<le> n \<longleftrightarrow> 4 - words \<le> j \<or> (j = 3 - words \<and> bits \<noteq> 0 \<and> 64 - bits \<le> r)"
    using nj sh by linarith
  have lsj: "ls ! i = (if 4 - words \<le> i then - 1 else limb64 (drop_bit shift op2) i)" if "i < 4" for i
    using that sh by (simp add: ls_def nth_fill_top_limbs nth_limbs64)
  have "bit (from_limbs ?ls :: u256) n \<longleftrightarrow> bit (?ls ! j) r"
    using n by (subst bit_from_limbs) (auto simp: ls_def j_def r_def)
  also have "\<dots> \<longleftrightarrow> 256 - shift \<le> n \<or> bit op2 (shift + n)"
    using nj sh lsj [of j] lsj [of "3 - words"] unfolding top
    by (auto simp: ls_def nth_list_update bit_or_iff bit_not_iff bit_mask_iff bit_limb64 bit_drop_bit_eq add.assoc)
  also have "\<dots> \<longleftrightarrow> bit (signed_drop_bit shift op2) n"
    using n assms(1, 2) by (auto simp: bit_signed_drop_bit_iff)
  finally show "bit (from_limbs ?ls :: u256) n \<longleftrightarrow> bit (signed_drop_bit shift op2) n" .
qed

lemma signed_drop_bit_eq: "signed_drop_bit n w = word_of_int (sint w div 2 ^ n)"
proof -
  have "word_of_int (sint (signed_drop_bit n w)) = signed_drop_bit n w" by simp
  then show ?thesis by (simp only: sint_signed_drop_bit_eq drop_bit_eq_div)
qed

lemma sar_word_eq: "sar_word a b = word_of_int (sint b div 2 ^ unat a)"
proof (cases "unat a < 256")
  case True
  have "sar_word a b = signed_drop_bit (unat a) b"
  proof (cases "bit b 255")
    case False
    then have "signed_drop_bit (unat a) b = drop_bit (unat a) b"
      using True by (auto simp: bit_eq_iff bit_signed_drop_bit_iff bit_drop_bit_eq
          dest: bit_imp_le_length)
    with False True show ?thesis by (simp add: sar_word_def Let_def u256_try_to_usize_capped_eq)
  qed (use True sar_small in \<open>simp add: sar_word_def Let_def u256_try_to_usize_capped_eq\<close>)
  then show ?thesis by (simp add: signed_drop_bit_eq)
next
  case False
  have m1: "from_limbs [- 1, - 1, - 1, - 1] = (- 1 :: u256)"
    by (simp add: from_limbs_def unat_max_word)
  have "signed_drop_bit (unat a) b = (if bit b 255 then - 1 else 0)"
    using False signed_drop_bit_beyond [of "unat a" b] by simp
  with False m1 show ?thesis
    by (simp add: sar_word_def Let_def u256_try_to_usize_capped_eq signed_drop_bit_eq [symmetric])
qed

lemma sign_extend_word_eq:
  "sign_extend_word a b = (if unat a < 32 then signed_take_bit (8 * unat a + 7) b else b)"
proof (cases "unat a < 32")
  case True
  let ?n = "8 * unat a + 7"
  have "push_bit ?n 1 - 1 = (mask ?n :: u256)" by (simp add: mask_eq_exp_minus_1 push_bit_eq_mult)
  moreover have "(if bit b ?n then b OR NOT (mask ?n) else b AND mask ?n) = signed_take_bit ?n b"
    using True by (auto simp: bit_eq_iff bit_signed_take_bit_iff bit_or_iff bit_and_iff bit_not_iff
        bit_mask_iff min_def)
  ultimately show ?thesis using True
    by (auto simp: sign_extend_word_def u256_try_to_usize_capped_eq Let_def split: if_splits)
qed (simp add: sign_extend_word_def u256_try_to_usize_capped_eq)

lemma unat_word_byte: "unat (word_byte w i) = unat w div 256 ^ i mod 256"
proof -
  have "unat (word_byte w i) = unat (drop_bit (8 * i) w) mod 256"
    by (simp add: word_byte_def unat_ucast)
  also have "unat (drop_bit (8 * i) w) = unat w div 256 ^ i"
    by (subst unat_drop_bit_eq, subst drop_bit_eq_div) (simp add: power_mult)
  finally show ?thesis .
qed

lemma le_bytes_nth: "i < n \<Longrightarrow> le_bytes n x ! i = word_of_nat (x div 256 ^ i mod 256)"
proof (induction n arbitrary: x i)
  case (Suc n)
  then show ?case by (cases i) (simp_all add: div_mult2_eq)
qed simp

lemma byte_word_eq:
  "byte_word offset src = (if unat offset < 32 then ucast (to_be_bytes src ! unat offset) else 0)"
proof (cases "unat offset < 32")
  case True
  have "to_be_bytes src ! unat offset = le_bytes 32 (unat src) ! (31 - unat offset)"
    using True by (simp add: to_be_bytes_def be_bytes_def rev_nth)
  also have "\<dots> = word_byte src (31 - unat offset)"
    using True by (simp add: le_bytes_nth word_unat_eq_iff unat_word_byte unat_of_nat)
  finally show ?thesis using True by (simp add: byte_word_def u256_try_to_usize_capped_eq)
qed (simp add: byte_word_def u256_try_to_usize_capped_eq)

lemma unat_shift_amount:
  "W = 32 \<or> W = 64 \<Longrightarrow> unat (shift_amount W a) = min (unat a) (2 ^ 64 - 1) mod 2 ^ 32"
  by (auto simp: shift_amount_def u256_to_usize_saturated_def unat_of_nat unat_simps)

lemma shift_out: "256 \<le> n \<Longrightarrow> push_bit n (b :: u256) = 0" "256 \<le> n \<Longrightarrow> drop_bit n (b :: u256) = 0"
  by (auto simp: bit_push_bit_iff bit_drop_bit_eq intro!: bit_word_eqI dest: bit_imp_le_length)

lemma shl_word_eq:
  assumes "W = 32 \<or> W = 64" and "unat a < 2 ^ 32 \<or> 2 ^ 64 \<le> unat a"
  shows "shl_word W a b = push_bit (unat a) b" and "shr_word W a b = drop_bit (unat a) b"
proof -
  have "unat (shift_amount W a) = unat a \<or> 256 \<le> unat (shift_amount W a) \<and> 256 \<le> unat a"
    using unat_shift_amount [OF assms(1), of a] assms(2) by (auto simp: min_def)
  then have "shl_word W a b = push_bit (unat a) b \<and> shr_word W a b = drop_bit (unat a) b"
    by (auto simp: shl_word_def shr_word_def shift_out)
  then show "shl_word W a b = push_bit (unat a) b" and "shr_word W a b = drop_bit (unat a) b"
    by auto
qed

lemma bit_len_nat_eqI: "x < 2 ^ n \<Longrightarrow> 2 ^ n \<le> 2 * x \<Longrightarrow> bit_len_nat x = n"
proof -
  assume "x < 2 ^ n" and "2 ^ n \<le> 2 * x"
  then have "bit_len_nat x \<le> n" and "0 < n \<Longrightarrow> \<not> bit_len_nat x \<le> n - 1"
    by (auto simp: bit_len_nat_le power_eq_if)
  then show ?thesis by (cases n) auto
qed

lemma bit_len_nat_bounds:
  assumes "x \<noteq> 0"
  shows "0 < bit_len_nat x" and "x < 2 ^ bit_len_nat x" and "2 ^ (bit_len_nat x - 1) \<le> x"
proof -
  show "0 < bit_len_nat x" using assms bit_len_nat_le [of x 0] by auto
  then show "2 ^ (bit_len_nat x - 1) \<le> x" using bit_len_nat_le [of x "bit_len_nat x - 1"] by auto
  show "x < 2 ^ bit_len_nat x" using bit_len_nat_le [of x "bit_len_nat x"] by auto
qed

lemma bit_len_nat_shift:
  assumes "a < 2 ^ k" and "b \<noteq> 0"
  shows "bit_len_nat (a + 2 ^ k * b) = k + bit_len_nat b"
proof (rule bit_len_nat_eqI)
  note B = bit_len_nat_bounds [OF assms(2)]
  have "Suc b \<le> 2 ^ bit_len_nat b" using B(2) by simp
  then have "2 ^ k * Suc b \<le> 2 ^ k * 2 ^ bit_len_nat b" by (rule mult_le_mono2)
  then show "a + 2 ^ k * b < 2 ^ (k + bit_len_nat b)" using assms(1) by (simp add: power_add)
  have "(2 :: nat) ^ bit_len_nat b = 2 * 2 ^ (bit_len_nat b - 1)" using B(1) by (simp add: power_eq_if)
  then have "2 ^ bit_len_nat b \<le> 2 * b" using B(3) by simp
  then have "2 ^ k * 2 ^ bit_len_nat b \<le> 2 ^ k * (2 * b)" by (rule mult_le_mono2)
  also have "\<dots> \<le> 2 * (a + 2 ^ k * b)" by simp
  finally show "2 ^ (k + bit_len_nat b) \<le> 2 * (a + 2 ^ k * b)" by (simp only: power_add)
qed

lemma bit_len_limb: "bit_len (l :: u64) \<le> 64"
  using unat_lt [of l] by (simp add: bit_len_def bit_len_nat_le)

lemma log2floor_loop_eq:
  assumes "unat v < 2 ^ (64 * i)" and "v \<noteq> 0"
  shows "log2floor_loop v i (64 * i) = bit_len v - 1"
  using assms(1)
proof (induction i)
  case 0
  then show ?case using assms(2) by (simp add: word_unat_eq_iff)
next
  case (Suc i)
  let ?t = "limb64 v i"
  have "unat v div 2 ^ (64 * i) < 2 ^ 64"
    using Suc.prems by (simp add: less_mult_imp_div_less power_add)
  then have t: "unat ?t = unat v div 2 ^ (64 * i)" by (simp add: unat_limb64)
  show ?case
  proof (cases "?t = 0")
    case True
    then have "unat v < 2 ^ (64 * i)" using t by (simp add: word_unat_eq_iff div_eq_0_iff)
    with True Suc.IH show ?thesis by simp
  next
    case False
    have "unat v = unat v mod 2 ^ (64 * i) + 2 ^ (64 * i) * unat ?t" unfolding t by simp
    then have "bit_len v = 64 * i + bit_len ?t"
      using bit_len_nat_shift [of "unat v mod 2 ^ (64 * i)" "64 * i" "unat ?t"] False
      by (simp add: bit_len_def word_unat_eq_iff)
    moreover have "0 < bit_len ?t"
      using False bit_len_nat_bounds(1) by (simp add: bit_len_def word_unat_eq_iff)
    ultimately show ?thesis using False bit_len_limb [of ?t] by (simp add: leading_zeros_def Let_def)
  qed
qed

lemma bit_len_256: "bit_len (v :: u256) \<le> 256"
  using unat_lt [of v] by (simp add: bit_len_def bit_len_nat_le)

lemma wp_log2floor:
  "v \<noteq> 0 \<Longrightarrow> wp (log2floor v) Q E s = Q (word_of_nat (bit_len v - 1)) s"
  using log2floor_loop_eq [of v 4] unat_lt [of v] by (simp add: log2floor_def)

text \<open>The EVM prices an exponent by its length in bytes; no step of the computation overflows.\<close>

lemma wp_exp_cost:
  "wp (exp_cost p) Q E s = Q (Some (50 * word_of_nat (byte_len p) + GAS_EXP,
     EXP_BASE_NATIVE_COST + EXP_PER_BYTE_NATIVE_COST * word_of_nat (byte_len p))) s"
proof (cases "p = 0")
  case True
  then show ?thesis by (simp add: exp_cost_def GAS_EXP_def byte_len_def bit_len_def next_multiple_of_def)
next
  case False
  then have pos: "0 < bit_len p" using bit_len_nat_bounds(1) by (simp add: bit_len_def word_unat_eq_iff)
  let ?k = "(bit_len p - 1) div 8 + 1"
  have k: "byte_len p = ?k"
  proof -
    obtain q where q: "next_multiple_of (bit_len p) 8 = 8 * q"
      using next_multiple_of_dvd [of 8 "bit_len p"] by (auto simp: dvd_def)
    then have "bit_len p \<le> 8 * q" "8 * q < bit_len p + 8"
      using next_multiple_of_ge [of "bit_len p" 8] next_multiple_of_less [of 8 "bit_len p"] by simp_all
    with pos have "q = ?k" by linarith
    with q show ?thesis by (simp add: byte_len_def)
  qed
  have le: "?k \<le> 32" using bit_len_256 [of p] by linarith
  have u: "unat (word_of_nat (byte_len p) :: u64) = byte_len p"
    by (rule unat_word_of_nat) (use le in \<open>simp add: k\<close>)
  have "unat (word_of_nat (bit_len p - 1) div 8 :: u64) = (bit_len p - 1) div 8"
    using bit_len_256 [of p] by (simp add: unat_div_distrib unat_of_nat)
  then have "unat (word_of_nat (bit_len p - 1) div 8 + 1 :: u64) = byte_len p"
    using le by (subst unat_add_lem [THEN iffD1]) (simp_all add: k)
  then have w: "word_of_nat (bit_len p - 1) div 8 + 1 = (word_of_nat (byte_len p) :: u64)"
    using u by (simp add: word_unat_eq_iff)
  have m: "checked_mul c (word_of_nat (byte_len p)) = Some (c * word_of_nat (byte_len p))"
    "unat (c * word_of_nat (byte_len p)) \<le> 5000 * 32" if "unat c \<le> 5000" for c :: u64
  proof -
    have "unat c * byte_len p \<le> 5000 * 32" using mult_le_mono [OF that le] k by simp
    then show "checked_mul c (word_of_nat (byte_len p)) = Some (c * word_of_nat (byte_len p))"
      "unat (c * word_of_nat (byte_len p)) \<le> 5000 * 32"
      using u by (simp_all add: checked_mul_def unat_mult_lem [THEN iffD1])
  qed
  have "checked_mul 50 (word_of_nat (byte_len p)) = Some (50 * word_of_nat (byte_len p) :: u64)"
    "unat (50 * word_of_nat (byte_len p) :: u64) \<le> 5000 * 32" by (rule m, simp)+
  moreover have "checked_mul 5000 (word_of_nat (byte_len p)) = Some (5000 * word_of_nat (byte_len p) :: u64)"
    "unat (5000 * word_of_nat (byte_len p) :: u64) \<le> 5000 * 32" by (rule m, simp)+
  ultimately show ?thesis
    using False w
    by (simp add: exp_cost_def wp_log2floor Let_def checked_add_def GAS_EXP_def
        EXP_BASE_NATIVE_COST_def EXP_PER_BYTE_NATIVE_COST_def)
qed

lemma wp_mul_mod:
  assumes "ruint_ok R"
  shows "wp (mul_mod R a b m) Q E s =
     Q (if m = 0 then 0 else word_of_nat (unat a * unat b mod unat m)) s"
proof (cases "m = 0")
  case False
  obtain pr ov where p: "ruint_addmul R (replicate 8 0) (limbs64 a) (limbs64 b) = (pr, ov)" by fastforce
  obtain q r where r: "ruint_div_limbs R pr (limbs64 m) = (q, r)" by fastforce
  have z: "limbs_nat (replicate n 0) = 0" for n by (induction n) auto
  have "unat a * unat b < 2 ^ 256 * 2 ^ 256"
    using unat_lt [of a] unat_lt [of b] by (intro mult_strict_mono) auto
  then have "limbs_nat pr = unat a * unat b" "\<not> ov"
    using ruint_okD(7) [OF assms p refl] z by (simp_all add: limbs_nat_limbs64)
  moreover have "limbs_nat r = limbs_nat pr mod unat m"
    using ruint_okD(8) [OF assms _ r] False by (simp add: limbs_nat_limbs64 word_unat_eq_iff)
  ultimately show ?thesis using False p r by (simp add: mul_mod_def from_limbs_def)
qed (simp add: mul_mod_def)

section \<open>Byte order\<close>

lemma le_nat_append: "le_nat (xs @ ys) = le_nat xs + 256 ^ length xs * le_nat ys"
  by (induction xs) (auto simp: algebra_simps)

lemma unat_from_be_bytes_8: "length bs = 8 \<Longrightarrow> unat (from_be_bytes bs :: u64) = be_nat bs"
  using be_nat_bound [of bs] by (simp add: from_be_bytes_def unat_of_nat)

lemma unat_swap_bytes:
  assumes "length c = 8" and "unat l = le_nat c"
  shows "unat (swap_bytes l) = le_nat (rev c)"
proof -
  have "rev (to_be_bytes l) = c"
    using le_bytes_le_nat [of c] assms by (simp add: to_be_bytes_def be_bytes_def)
  then show ?thesis using assms by (simp add: swap_bytes_def unat_from_be_bytes_8 be_nat_def)
qed

lemma le_chunks:
  assumes "length bs = 32"
  obtains a b c d where "bs = a @ b @ c @ d" "length a = 8" "length b = 8" "length c = 8" "length d = 8"
proof
  have "take 8 (drop 8 bs) @ drop 16 bs = drop 8 bs" "take 8 (drop 16 bs) @ drop 24 bs = drop 16 bs"
    using append_take_drop_id [of 8 "drop 8 bs"] append_take_drop_id [of 8 "drop 16 bs"] by simp_all
  then show "bs = take 8 bs @ take 8 (drop 8 bs) @ take 8 (drop 16 bs) @ drop 24 bs" by simp
qed (use assms in auto)

lemma digits:
  fixes B :: nat
  assumes "a < B" "b < B" "c < B" "d < B"
  defines "n \<equiv> a + B * (b + B * (c + B * d))"
  shows "n mod B = a" "n div B mod B = b" "n div B ^ 2 mod B = c" "n div B ^ 3 mod B = d"
proof -
  have 1: "n div B = b + B * (c + B * d)" using assms by (simp add: n_def)
  then have 2: "n div B ^ 2 = c + B * d"
    using assms(2) by (simp add: div_mult2_eq power2_eq_square)
  have "n div B ^ 3 = n div B ^ 2 div B" by (simp add: div_mult2_eq [symmetric] power_eq_if mult.assoc)
  also have "\<dots> = d" unfolding 2 using assms(3) by simp
  finally have 3: "n div B ^ 3 = d" .
  show "n mod B = a" using assms(1) by (simp add: n_def)
  show "n div B mod B = b" unfolding 1 using assms(2) by simp
  show "n div B ^ 2 mod B = c" unfolding 2 using assms(3) by simp
  show "n div B ^ 3 mod B = d" unfolding 3 using assms(4) by simp
qed

lemma unat_of_le_slice: "length bs = 32 \<Longrightarrow> unat (of_le_slice bs) = le_nat bs"
  using le_nat_bound [of bs] by (simp add: of_le_slice_def unat_of_nat)

lemma bytereverse_of_le_slice:
  assumes "length bs = 32"
  shows "bytereverse_u256 (of_le_slice bs) = from_be_bytes bs"
proof -
  obtain a b c d where bs: "bs = a @ b @ c @ d"
    and len: "length a = 8" "length b = 8" "length c = 8" "length d = 8"
    using assms by (rule le_chunks)
  have small: "le_nat x < 2 ^ 64" if "length x = 8" for x using le_nat_bound [of x] that by simp
  have v: "unat (of_le_slice bs) =
      le_nat a + 2 ^ 64 * (le_nat b + 2 ^ 64 * (le_nat c + 2 ^ 64 * le_nat d))"
    using assms by (simp add: unat_of_le_slice bs le_nat_append len)
  have limbs: "unat (limb64 (of_le_slice bs) 0) = le_nat a" "unat (limb64 (of_le_slice bs) 1) = le_nat b"
    "unat (limb64 (of_le_slice bs) 2) = le_nat c" "unat (limb64 (of_le_slice bs) 3) = le_nat d"
    using digits [OF small [OF len(1)] small [OF len(2)] small [OF len(3)] small [OF len(4)]]
    unfolding unat_limb64 v by (simp_all only: power_mult power_0 power_one_right div_by_1)
  have "limbs_nat (map swap_bytes [limb64 (of_le_slice bs) 3, limb64 (of_le_slice bs) 2,
      limb64 (of_le_slice bs) 1, limb64 (of_le_slice bs) 0]) = be_nat bs"
    using unat_swap_bytes [OF _ limbs(1)] unat_swap_bytes [OF _ limbs(2)]
      unat_swap_bytes [OF _ limbs(3)] unat_swap_bytes [OF _ limbs(4)] len
    by (simp add: be_nat_def bs le_nat_append)
  then show ?thesis by (simp add: bytereverse_u256_def from_limbs_def from_be_bytes_def)
qed

lemma as_le_slice_bytereverse: "as_le_slice (bytereverse_u256 w) = to_be_bytes w"
proof -
  have w: "of_le_slice (as_le_slice w) = w"
    using unat_lt [of w] by (simp add: of_le_slice_def as_le_slice_def le_nat_le_bytes)
  have len: "length (as_le_slice w) = 32" by (simp add: as_le_slice_def)
  have "bytereverse_u256 w = from_be_bytes (as_le_slice w)"
    using bytereverse_of_le_slice [OF len] w by simp
  moreover have "unat (from_be_bytes (as_le_slice w) :: u256) = be_nat (as_le_slice w)"
    using be_nat_bound [of "as_le_slice w"] len by (simp add: from_be_bytes_def unat_of_nat)
  ultimately have "as_le_slice (bytereverse_u256 w) = le_bytes 32 (le_nat (rev (as_le_slice w)))"
    by (simp add: as_le_slice_def be_nat_def)
  also have "\<dots> = rev (as_le_slice w)" using le_bytes_le_nat [of "rev (as_le_slice w)"] len by simp
  finally show ?thesis by (simp add: to_be_bytes_def be_bytes_def as_le_slice_def)
qed

section \<open>Recursive-length-prefix encoding\<close>

text \<open>The encoding of Ethereum for strings and payloads of at most 55 bytes.\<close>

definition rlp_string :: "bytes \<Rightarrow> bytes" where
  "rlp_string bs =
     (if length bs = 1 \<and> bs ! 0 < 0x80 then bs else (0x80 + word_of_nat (length bs)) # bs)"

definition rlp_list :: "bytes list \<Rightarrow> bytes" where
  "rlp_list items = (0xc0 + word_of_nat (length (concat items))) # concat items"

text \<open>The shortest big-endian form of a number.\<close>

definition minimal_be :: "'a::len word \<Rightarrow> bytes" where
  "minimal_be w = be_bytes (byte_len w) (unat w)"

lemma byte_len_64: "byte_len (n :: u64) \<le> 8"
  using unat_lt [of n] by (simp add: byte_len_le)

lemma skip_nonce: "8 - leading_zeros (n :: u64) div 8 = byte_len n"
proof -
  have le: "bit_len n \<le> 64" by (rule bit_len_limb)
  obtain q where q: "next_multiple_of (bit_len n) 8 = 8 * q"
    using next_multiple_of_dvd [of 8 "bit_len n"] by (auto simp: dvd_def)
  then have "bit_len n \<le> 8 * q" "8 * q < bit_len n + 8"
    using next_multiple_of_ge [of "bit_len n" 8] next_multiple_of_less [of 8 "bit_len n"] by simp_all
  then have "8 - (64 - bit_len n) div 8 = q" using le by linarith
  then show ?thesis using q by (simp add: byte_len_def leading_zeros_def)
qed

lemma drop_nonce: "drop (leading_zeros (n :: u64) div 8) (to_be_bytes n) = minimal_be n"
proof -
  have "leading_zeros n div 8 = 8 - byte_len n"
    using skip_nonce [of n] by (simp add: leading_zeros_def)
  then show ?thesis
    using drop_be_bytes [of "byte_len n" 8 "unat n"] byte_len_64 [of n] byte_len_le [of n "byte_len n"]
    by (simp add: to_be_bytes_def minimal_be_def)
qed

lemma length_minimal_be [simp]: "length (minimal_be w) = byte_len w"
  by (simp add: minimal_be_def)

lemma minimal_be_inj: "minimal_be a = minimal_be b \<longleftrightarrow> a = b" for a b :: u64
proof
  assume "minimal_be a = minimal_be b"
  moreover have "be_nat (minimal_be w) = unat w" for w :: u64
    using byte_len_le [of w "byte_len w"] by (simp add: minimal_be_def be_nat_be_bytes)
  ultimately show "a = b" by (metis word_unat_eq_iff)
qed simp

lemma last_nonce_byte:
  assumes "byte_len (n :: u64) = 1"
  shows "minimal_be n = [to_be_bytes n ! 7]"
proof -
  have "leading_zeros n div 8 = 7"
    using skip_nonce [of n] assms by (simp add: leading_zeros_def)
  then have "minimal_be n = drop 7 (to_be_bytes n)" using drop_nonce [of n] by simp
  also have "\<dots> = [to_be_bytes n ! 7]"
    using id_take_nth_drop [of 7 "to_be_bytes n"] by (simp add: Cons_nth_drop_Suc [symmetric])
  finally show ?thesis .
qed

lemma create_quasi_rlp_eq:
  "create_quasi_rlp address nonce = rlp_list [rlp_string (to_be_bytes address), rlp_string (minimal_be nonce)]"
proof -
  have a: "rlp_string (to_be_bytes address) = 0x94 # to_be_bytes address"
    by (simp add: rlp_string_def)
  show ?thesis
  proof (cases "byte_len nonce = 1 \<and> to_be_bytes nonce ! 7 < 128")
    case True
    then have "rlp_string (minimal_be nonce) = [to_be_bytes nonce ! 7]"
      using last_nonce_byte by (simp add: rlp_string_def)
    with True a show ?thesis
      by (simp add: create_quasi_rlp_def skip_nonce Let_def rlp_list_def)
  next
    case False
    then have "rlp_string (minimal_be nonce) = (0x80 + word_of_nat (byte_len nonce)) # minimal_be nonce"
      using last_nonce_byte [of nonce] by (auto simp: rlp_string_def)
    with False a show ?thesis
      by (auto simp: create_quasi_rlp_def skip_nonce drop_nonce Let_def rlp_list_def add.commute)
  qed
qed

lemma rlp_string_inj:
  assumes "length x \<le> 8" and "length y \<le> 8" and "rlp_string x = rlp_string y"
  shows "x = y"
proof -
  have big: "(0x80 :: u8) \<le> 0x80 + word_of_nat k" if "k \<le> 8" for k
  proof -
    have "unat (0x80 + word_of_nat k :: u8) = 0x80 + k"
      using that by (subst unat_add_lem [THEN iffD1]) (simp_all add: unat_of_nat)
    then show ?thesis by (simp add: word_le_nat_alt)
  qed
  show ?thesis
    using assms big [of "length x"] big [of "length y"]
    by (auto simp: rlp_string_def not_less [symmetric] split: if_splits)
qed

text \<open>C35: The bytes hashed into the address of a contract created with \<open>CREATE\<close> are the RLP
  encoding of the list of the deployer's address and the nonce; they fit the fixed buffer, and
  two different deployments (another deployer or another nonce) hash different bytes.\<close>

theorem create_preimage_is_rlp:
  "create_quasi_rlp a n = rlp_list [rlp_string (to_be_bytes a), rlp_string (minimal_be n)]
   \<and> length (create_quasi_rlp a n) \<le> MAX_CREATE_RLP_ENCODING_LEN
   \<and> (create_quasi_rlp a n = create_quasi_rlp b m \<longleftrightarrow> a = b \<and> n = m)"
proof (intro conjI)
  show "create_quasi_rlp a n = rlp_list [rlp_string (to_be_bytes a), rlp_string (minimal_be n)]"
    by (rule create_quasi_rlp_eq)
  show "length (create_quasi_rlp a n) \<le> MAX_CREATE_RLP_ENCODING_LEN"
    using byte_len_64 [of n]
    by (auto simp: create_quasi_rlp_eq rlp_list_def rlp_string_def MAX_CREATE_RLP_ENCODING_LEN_def)
  show "create_quasi_rlp a n = create_quasi_rlp b m \<longleftrightarrow> a = b \<and> n = m"
  proof
    assume "create_quasi_rlp a n = create_quasi_rlp b m"
    then have "to_be_bytes a @ rlp_string (minimal_be n) = to_be_bytes b @ rlp_string (minimal_be m)"
      by (simp add: create_quasi_rlp_eq rlp_list_def rlp_string_def [of "to_be_bytes _"])
    then have "to_be_bytes a = to_be_bytes b" "rlp_string (minimal_be n) = rlp_string (minimal_be m)"
      by (simp_all add: append_eq_append_conv)
    then show "a = b \<and> n = m"
      using rlp_string_inj [of "minimal_be n" "minimal_be m"] byte_len_64 [of n] byte_len_64 [of m]
      by (simp add: to_be_bytes_inj minimal_be_inj)
  qed simp
qed

section \<open>Properties of the arithmetic\<close>

text \<open>C34: Signed arithmetic follows the EVM on the two's-complement reading of words: \<open>SDIV\<close>
  truncates towards zero and is zero for a zero divisor, \<open>SMOD\<close> takes the sign of the dividend,
  comparison is that of the signed integers, \<open>SAR\<close> rounds towards minus infinity for every
  shift amount, and \<open>SIGNEXTEND\<close> extends from the given byte.\<close>

theorem signed_arithmetic_is_evm:
  assumes "ruint_ok R"
  shows "i256_div R a b = (if b = 0 then 0 else word_of_int (sint a sdiv sint b))
    \<and> (b \<noteq> 0 \<longrightarrow> i256_mod R a b = word_of_int (sint a smod sint b))
    \<and> i256_cmp a b = (if sint a < sint b then Less else if sint a = sint b then Equal else Greater)
    \<and> sar_word a b = word_of_int (sint b div 2 ^ unat a)
    \<and> sign_extend_word a b = (if unat a < 32 then signed_take_bit (8 * unat a + 7) b else b)"
proof -
  have "i256_div R a 0 = 0" by (simp add: i256_div_def i256_sign_def limb64_def)
  then show ?thesis
    using i256_div_eq [OF assms, of b a] i256_mod_eq [OF assms, of b a] i256_cmp_eq [of a b]
      sar_word_eq [of a b] sign_extend_word_eq [of a b] by simp
qed

theorem signed_arithmetic_is_evm_witness:
  "i256_div ruint_ref (- 7) 2 = word_of_int (sint (- 7 :: u256) sdiv sint (2 :: u256))
   \<and> i256_mod ruint_ref (- 7) 2 = word_of_int (sint (- 7 :: u256) smod sint (2 :: u256))"
proof -
  note T = signed_arithmetic_is_evm [OF ruint_ref_ok, of "- 7" 2]
  have "(2 :: u256) \<noteq> 0" by simp
  then show ?thesis
    using T [THEN conjunct1] T [THEN conjunct2, THEN conjunct1] by (simp only: if_False simp_thms)
qed

text \<open>C36: \<open>SHL\<close> and \<open>SHR\<close> shift by the amount on the stack when it is below \<open>2 ^ 32\<close> or at least
  \<open>2 ^ 64\<close>; in between only its low 32 bits count, on both targets, so that a shift by \<open>2 ^ 32\<close>,
  which clears the word in the EVM, leaves it as it is.\<close>

theorem shift_amount_is_truncated:
  assumes "W = 32 \<or> W = 64"
  shows "(unat a < 2 ^ 32 \<or> 2 ^ 64 \<le> unat a \<longrightarrow>
          shl_word W a b = push_bit (unat a) b \<and> shr_word W a b = drop_bit (unat a) b)
    \<and> (unat a < 2 ^ 64 \<longrightarrow> shl_word W a b = push_bit (unat a mod 2 ^ 32) b
         \<and> shr_word W a b = drop_bit (unat a mod 2 ^ 32) b)
    \<and> shl_word W (2 ^ 32) b = b \<and> push_bit (2 ^ 32) b = 0"
proof -
  have "unat a < 2 ^ 64 \<longrightarrow> unat (shift_amount W a) = unat a mod 2 ^ 32"
    using unat_shift_amount [OF assms, of a] by auto
  moreover have "shl_word W (2 ^ 32) b = b"
    using unat_shift_amount [OF assms, of "2 ^ 32"] by (simp add: shl_word_def)
  moreover have "push_bit (2 ^ 32) b = 0" by (rule shift_out) simp
  ultimately show ?thesis using shl_word_eq [OF assms, of a b] by (simp add: shl_word_def shr_word_def)
qed

theorem shift_amount_is_truncated_witness:
  "shl_word 32 (2 ^ 32) 5 = 5 \<and> shl_word 64 3 5 = 40"
proof
  show "shl_word 32 (2 ^ 32) 5 = 5" using shift_amount_is_truncated [of 32 0 5] by blast
  have "unat (3 :: u256) < 2 ^ 64 \<longrightarrow> shl_word 64 3 5 = push_bit (unat (3 :: u256) mod 2 ^ 32) 5"
    using shift_amount_is_truncated [of 64 3 5] by blast
  then show "shl_word 64 3 5 = 40" by (simp add: push_bit_eq_mult)
qed

end
