(* ===== verification/Evm_Errors.thy ===== *)
theory Evm_Errors
  imports Resources
begin

text \<open>
  Error values as they travel through the EVM interpreter: the subsystem errors of
  \<^verbatim>\<open>zk_ee/src/system/errors\<close>, the subsystems that the interpreter calls
  (\<^verbatim>\<open>zk_ee/src/system/io.rs\<close>), the errors of the interpreter itself
  (\<^verbatim>\<open>evm_interpreter/src/errors.rs\<close>) and the exit codes of
  \<^verbatim>\<open>evm_interpreter/src/lib.rs\<close> with their \<open>From\<close> conversions. Source locations, which the
  errors carry for diagnostics only, are left out; the empty enum \<open>NoErrors\<close> is \<open>unit\<close>.
\<close>

section \<open>Subsystem errors\<close>

datatype ('i, 'c) subsystem_error =
  LeafUsage 'i | DefectLeaf string | RuntimeLeaf runtime_error | Cascaded 'c

datatype root_cause = RuntimeCause runtime_error | InternalCause string | UsageCause

text \<open>\<open>GetRootCause\<close>: the argument is the root cause of the cascaded error.\<close>

fun get_root_cause :: "('c \<Rightarrow> root_cause) \<Rightarrow> ('i, 'c) subsystem_error \<Rightarrow> root_cause" where
  "get_root_cause inner (Cascaded c) = inner c"
| "get_root_cause inner (RuntimeLeaf e) = RuntimeCause e"
| "get_root_cause inner (DefectLeaf e) = InternalCause e"
| "get_root_cause inner (LeafUsage i) = UsageCause"

fun subsystem_of_system :: "system_error \<Rightarrow> ('i, 'c) subsystem_error" where
  "subsystem_of_system (LeafRuntime e) = RuntimeLeaf e"
| "subsystem_of_system (LeafDefect e) = DefectLeaf e"

datatype nonce_error = NonceOverflowError

datatype balance_error = InsufficientBalance | BalanceOverflow

type_synonym nonce_subsystem_error = "(nonce_error, unit) subsystem_error"
type_synonym balance_subsystem_error = "(balance_error, unit) subsystem_error"
type_synonym deconstruction_subsystem_error = "(unit, balance_subsystem_error) subsystem_error"

definition no_cascade :: "unit \<Rightarrow> root_cause" where
  "no_cascade u = UsageCause"

section \<open>Call modifiers\<close>

datatype call_modifier =
  NoModifier | Constructor | Delegate | Static | DelegateStatic | ZKVMSystem | ZKVMSystemStatic
| EVMCallcode | EVMCallcodeStatic

section \<open>Errors of the interpreter\<close>

datatype evm_interface_error =
  NoDeploymentScheme | UnknownDeploymentData | BytecodeNoPadding | UnexpectedModifier call_modifier

datatype evm_cascaded_error =
  CascadedNonce nonce_subsystem_error
| CascadedBalance balance_subsystem_error
| CascadedDeconstruction deconstruction_subsystem_error

type_synonym evm_subsystem_error = "(evm_interface_error, evm_cascaded_error) subsystem_error"

fun evm_cascade_cause :: "evm_cascaded_error \<Rightarrow> root_cause" where
  "evm_cascade_cause (CascadedNonce e) = get_root_cause no_cascade e"
| "evm_cascade_cause (CascadedBalance e) = get_root_cause no_cascade e"
| "evm_cascade_cause (CascadedDeconstruction e) = get_root_cause (get_root_cause no_cascade) e"

definition evm_root_cause :: "evm_subsystem_error \<Rightarrow> root_cause" where
  "evm_root_cause = get_root_cause evm_cascade_cause"

datatype exit_code =
  Stop | Return | SelfDestruct
| ExternalCall | ConstructionCall
| Revert | CallTooDeep | OutOfFund
| OutOfGas | MemoryOOG | MemoryLimitOOG | PrecompileOOG | InvalidOperandOOG
| OpcodeNotFound | CallNotAllowedInsideStatic | StateChangeDuringStaticCall | InvalidFEOpcode
| InvalidJump | NotActivated | StackUnderflow | StackOverflow | OutOfOffset | CreateCollision
| OverflowPayment | PrecompileError | NonceOverflow | CreateContractSizeLimit
| CreateContractStartingWithEF | CreateInitcodeSizeLimit
| FatalExternalError
| FatalError evm_subsystem_error

text \<open>\<open>From<SystemError>\<close>, \<open>From<EvmSubsystemError>\<close> and \<open>is_error\<close>.\<close>

definition exit_of_system_error :: "system_error \<Rightarrow> exit_code" where
  "exit_of_system_error e =
     (case e of
        LeafRuntime OutOfErgs \<Rightarrow> OutOfGas
      | _ \<Rightarrow> FatalError (subsystem_of_system e))"

definition exit_of_evm_error :: "evm_subsystem_error \<Rightarrow> exit_code" where
  "exit_of_evm_error e =
     (case evm_root_cause e of
        RuntimeCause OutOfErgs \<Rightarrow> OutOfGas
      | _ \<Rightarrow> FatalError e)"

definition is_error :: "exit_code \<Rightarrow> bool" where
  "is_error c \<longleftrightarrow>
     c \<in> {OutOfGas, MemoryOOG, MemoryLimitOOG, PrecompileOOG, InvalidOperandOOG, OpcodeNotFound,
          CallNotAllowedInsideStatic, StateChangeDuringStaticCall, InvalidFEOpcode, InvalidJump,
          NotActivated, StackUnderflow, StackOverflow, OutOfOffset, CreateCollision,
          OverflowPayment, PrecompileError, NonceOverflow, CreateContractSizeLimit,
          CreateContractStartingWithEF, CreateInitcodeSizeLimit}"

definition is_fatal :: "exit_code \<Rightarrow> bool" where
  "is_fatal c \<longleftrightarrow> (\<exists>e. c = FatalError e)"

text \<open>
  Both conversions agree on a system error: out-of-ergs is the EVM's out-of-gas, every other
  system error ends the transaction.
\<close>

lemma exit_of_subsystem: "exit_of_evm_error (subsystem_of_system e) = exit_of_system_error e"
  by (cases e)
     (auto simp: exit_of_evm_error_def exit_of_system_error_def evm_root_cause_def
        split: runtime_error.splits)

lemma is_error_not_fatal: "is_error c \<Longrightarrow> \<not> is_fatal c"
  by (auto simp: is_error_def is_fatal_def)

end
