(* ===== verification/Evm_Gas.thy ===== *)
theory Evm_Gas
  imports Evm_Words Evm_Errors Storage_Cache
begin

text \<open>
  Gas and memory of an EVM frame: \<^verbatim>\<open>evm_interpreter/src/gas.rs\<close> on top of the system
  resources, the gas schedule (\<^verbatim>\<open>gas_constants.rs\<close>), the heap as a \<open>SliceVec\<close>
  (\<^verbatim>\<open>zk_ee/src/memory/slice_vec.rs\<close>) and its growth (\<open>resize_heap_implementation\<close> in
  \<^verbatim>\<open>evm_interpreter/src/utils.rs\<close>). \<open>W\<close> is the width of \<open>usize\<close>.
\<close>

section \<open>The gas schedule\<close>

definition GAS_BASE :: u64 where "GAS_BASE = 2"
definition GAS_VERYLOW :: u64 where "GAS_VERYLOW = 3"
definition GAS_LOW :: u64 where "GAS_LOW = 5"
definition GAS_MID :: u64 where "GAS_MID = 8"
definition GAS_HIGH :: u64 where "GAS_HIGH = 10"
definition GAS_JUMPDEST :: u64 where "GAS_JUMPDEST = 1"
definition GAS_SELFDESTRUCT :: u64 where "GAS_SELFDESTRUCT = 5000"
definition GAS_CREATE :: u64 where "GAS_CREATE = 32000"
definition GAS_CALLVALUE :: u64 where "GAS_CALLVALUE = 9000"
definition GAS_NEWACCOUNT :: u64 where "GAS_NEWACCOUNT = 25000"
definition GAS_MEMORY :: u64 where "GAS_MEMORY = 3"
definition GAS_SHA3 :: u64 where "GAS_SHA3 = 30"
definition GAS_SHA3WORD :: u64 where "GAS_SHA3WORD = 6"
definition GAS_COPY :: u64 where "GAS_COPY = 3"
definition GAS_BLOCKHASH :: u64 where "GAS_BLOCKHASH = 20"
definition INITCODE_WORD_COST :: u64 where "INITCODE_WORD_COST = 2"
definition CALL_STIPEND :: u64 where "CALL_STIPEND = 2300"

definition HEAP_EXPANSION_BASE_NATIVE_COST :: u64 where "HEAP_EXPANSION_BASE_NATIVE_COST = 35"
definition HEAP_EXPANSION_PER_BYTE_NATIVE_COST :: u64 where "HEAP_EXPANSION_PER_BYTE_NATIVE_COST = 1"
definition COPY_BASE_NATIVE_COST :: u64 where "COPY_BASE_NATIVE_COST = 80"
definition COPY_BYTE_NATIVE_COST :: u64 where "COPY_BYTE_NATIVE_COST = 1"

lemmas gas_schedule = GAS_BASE_def GAS_VERYLOW_def GAS_LOW_def GAS_MID_def GAS_HIGH_def
  GAS_JUMPDEST_def GAS_SELFDESTRUCT_def GAS_CREATE_def GAS_CALLVALUE_def GAS_NEWACCOUNT_def
  GAS_MEMORY_def GAS_SHA3_def GAS_SHA3WORD_def GAS_COPY_def GAS_BLOCKHASH_def
  INITCODE_WORD_COST_def CALL_STIPEND_def HEAP_EXPANSION_BASE_NATIVE_COST_def
  HEAP_EXPANSION_PER_BYTE_NATIVE_COST_def COPY_BASE_NATIVE_COST_def COPY_BYTE_NATIVE_COST_def

section \<open>Gas\<close>

record gas =
  gas_resources :: base_resources
  gas_paid_for_heap_growth :: u64

type_synonym 'a gas_m = "(gas, exit_code, 'a) rs"

definition gas_new :: gas where
  "gas_new = \<lparr>gas_resources = resources_empty, gas_paid_for_heap_growth = 0\<rparr>"

definition gas_native :: "gas \<Rightarrow> u64" where
  "gas_native g = native (gas_resources g)"

definition gas_left :: "gas \<Rightarrow> u64" where
  "gas_left g = ergs (gas_resources g) div ERGS_PER_GAS"

definition on_gas_resources :: "('e \<Rightarrow> 'f) \<Rightarrow> (base_resources, 'e, 'a) rs \<Rightarrow> (gas, 'f, 'a) rs" where
  "on_gas_resources = on_part gas_resources (\<lambda>r g. g\<lparr>gas_resources := r\<rparr>)"

definition gas_take_resources :: "(gas, 'e, base_resources) rs" where
  "gas_take_resources g =
     (case take_resources (gas_resources g) of (r, rest) \<Rightarrow> (Inr r, g\<lparr>gas_resources := rest\<rparr>))"

definition reclaim_resources :: "base_resources \<Rightarrow> (gas, 'e, unit) rs" where
  "reclaim_resources r = on_gas_resources (\<lambda>e. e) (resources_reclaim r)"

definition consume_all_gas :: "(gas, 'e, unit) rs" where
  "consume_all_gas = modify_st (\<lambda>g. g\<lparr>gas_resources := exhaust_ergs (gas_resources g)\<rparr>)"

definition spend_gas :: "u64 \<Rightarrow> unit gas_m" where
  "spend_gas to_spend =
     and_then (ok_or (checked_mul to_spend ERGS_PER_GAS) OutOfGas) (\<lambda>ergs_cost.
     on_gas_resources exit_of_system_error (resources_charge (from_ergs ergs_cost)))"

definition spend_gas_and_native :: "u64 \<Rightarrow> u64 \<Rightarrow> unit gas_m" where
  "spend_gas_and_native g n =
     and_then (ok_or (checked_mul g ERGS_PER_GAS) OutOfGas) (\<lambda>ergs_cost.
     on_gas_resources exit_of_system_error (resources_charge (from_ergs_and_native ergs_cost n)))"

definition pay_for_memory_growth :: "nat \<Rightarrow> nat \<Rightarrow> unit gas_m" where
  "pay_for_memory_growth current_msize new_msize =
     and_then (assert_that (current_msize \<le> new_msize)) (\<lambda>_.
     let net_byte_increase = new_msize - current_msize;
       new_heap_size_words = word_of_nat new_msize div 32 in
     and_then (assert_that (new_heap_size_words * 32 = word_of_nat new_msize)) (\<lambda>_.
     let end_cost = saturating_add (saturating_mul GAS_MEMORY new_heap_size_words)
           (saturating_mul new_heap_size_words new_heap_size_words div 512) in
     and_then (read_st gas_paid_for_heap_growth) (\<lambda>paid.
     and_then (expect (checked_sub end_cost paid)) (\<lambda>net_cost_gas.
     let net_cost_native = saturating_add HEAP_EXPANSION_BASE_NATIVE_COST
           (saturating_mul HEAP_EXPANSION_PER_BYTE_NATIVE_COST (word_of_nat net_byte_increase)) in
     and_then (spend_gas_and_native net_cost_gas net_cost_native) (\<lambda>_.
     modify_st (\<lambda>g. g\<lparr>gas_paid_for_heap_growth := end_cost\<rparr>))))))"

definition checked_next_multiple_of_32 :: "u64 \<Rightarrow> u64 option" where
  "checked_next_multiple_of_32 n =
     (if next_multiple_of (unat n) 32 < 2 ^ 64 then Some (word_of_nat (next_multiple_of (unat n) 32))
      else None)"

definition copy_cost :: "u64 \<Rightarrow> (u64 \<times> u64) option" where
  "copy_cost l =
     (case checked_next_multiple_of_32 l of None \<Rightarrow> None | Some m \<Rightarrow>
      let num_words = m div 32 in
      case checked_mul GAS_COPY num_words of None \<Rightarrow> None | Some g \<Rightarrow>
      case checked_mul COPY_BYTE_NATIVE_COST l of None \<Rightarrow> None | Some x \<Rightarrow>
      case checked_add x COPY_BASE_NATIVE_COST of None \<Rightarrow> None | Some n \<Rightarrow> Some (g, n))"

definition copy_cost_plus_very_low_gas :: "u64 \<Rightarrow> (u64 \<times> u64) option" where
  "copy_cost_plus_very_low_gas l =
     (case copy_cost l of None \<Rightarrow> None | Some (g, n) \<Rightarrow>
      case checked_add g GAS_VERYLOW of None \<Rightarrow> None | Some g \<Rightarrow> Some (g, n))"

definition apply_63_64_rule :: "ergs \<Rightarrow> ergs" where
  "apply_63_64_rule e = (let g = e div ERGS_PER_GAS in e - (g div 64) * ERGS_PER_GAS)"

section \<open>The heap\<close>

text \<open>
  A \<open>SliceVec\<close> over a slice of possibly uninitialised memory: its initialised prefix and the
  length of the slice.
\<close>

record slice_vec =
  contents :: bytes
  capacity :: nat

definition sv_new :: "nat \<Rightarrow> slice_vec" where
  "sv_new n = \<lparr>contents = [], capacity = n\<rparr>"

definition sv_freeze :: "slice_vec \<Rightarrow> bytes \<times> slice_vec" where
  "sv_freeze v = (contents v, sv_new (capacity v - length (contents v)))"

definition sv_clear :: "slice_vec \<Rightarrow> slice_vec" where
  "sv_clear v = v\<lparr>contents := []\<rparr>"

definition sv_try_push :: "u8 \<Rightarrow> (slice_vec, unit, unit) rs" where
  "sv_try_push x v =
     (if length (contents v) < capacity v then (Inr (), v\<lparr>contents := contents v @ [x]\<rparr>)
      else (Inl (Err ()), v))"

definition sv_pop :: "slice_vec \<Rightarrow> u8 option \<times> slice_vec" where
  "sv_pop v =
     (if contents v = [] then (None, v)
      else (Some (last (contents v)), v\<lparr>contents := butlast (contents v)\<rparr>))"

definition sv_top :: "slice_vec \<Rightarrow> u8 option" where
  "sv_top v = (if contents v = [] then None else Some (last (contents v)))"

definition sv_extend_from_slice :: "bytes \<Rightarrow> (slice_vec, unit, unit) rs" where
  "sv_extend_from_slice src v =
     (if length (contents v) + length src \<le> capacity v
      then (Inr (), v\<lparr>contents := contents v @ src\<rparr>) else (Inl Panic, v))"

definition sv_resize :: "nat \<Rightarrow> u8 \<Rightarrow> (slice_vec, unit, unit) rs" where
  "sv_resize new_length padding v =
     (if new_length \<ge> capacity v then (Inl (Err ()), v)
      else (Inr (), v\<lparr>contents :=
        take new_length (contents v) @ replicate (new_length - length (contents v)) padding\<rparr>))"

section \<open>Growing the heap\<close>

type_synonym 'a mem_m = "(slice_vec \<times> gas, exit_code, 'a) rs"

definition on_mem_gas :: "'a gas_m \<Rightarrow> 'a mem_m" where
  "on_mem_gas = on_part snd (\<lambda>g (h, _). (h, g)) (\<lambda>e. e)"

definition on_mem_heap :: "exit_code \<Rightarrow> (slice_vec, unit, 'a) rs \<Rightarrow> 'a mem_m" where
  "on_mem_heap e = on_part fst (\<lambda>h (_, g). (h, g)) (\<lambda>_. e)"

definition saturating_usize_add :: "nat \<Rightarrow> nat \<Rightarrow> nat \<Rightarrow> nat" where
  "saturating_usize_add W a b = min (a + b) (usize_max W)"

definition resize_heap_implementation :: "nat \<Rightarrow> nat \<Rightarrow> nat \<Rightarrow> unit mem_m" where
  "resize_heap_implementation W offset l =
     (let max_offset = saturating_usize_add W offset l in
      if max_offset > 2 ^ 32 - 1 - 31 then throw MemoryLimitOOG
      else let new_heap_size = next_multiple_of max_offset 32 in
        and_then (read_st (\<lambda>(h, _). length (contents h))) (\<lambda>current_heap_size.
        if new_heap_size > current_heap_size
        then and_then (on_mem_gas (pay_for_memory_growth current_heap_size new_heap_size)) (\<lambda>_.
             on_mem_heap MemoryOOG (sv_resize new_heap_size 0))
        else ret ()))"

definition cast_to_usize :: "nat \<Rightarrow> u256 \<Rightarrow> exit_code \<Rightarrow> ('s, exit_code, nat) rs" where
  "cast_to_usize W src error_to_set = ok_or (u256_try_to_usize W src) error_to_set"

definition cast_offset_and_len :: "nat \<Rightarrow> u256 \<Rightarrow> u256 \<Rightarrow> exit_code \<Rightarrow> ('s, exit_code, nat \<times> nat) rs" where
  "cast_offset_and_len W offset l error_to_set =
     (if l = 0 then ret (0, 0)
      else and_then (cast_to_usize W offset error_to_set) (\<lambda>offset.
           and_then (cast_to_usize W l error_to_set) (\<lambda>l.
           ret (offset, l))))"

text \<open>\<open>copy_and_zeropad_nonoverlapping\<close> into \<open>dst = heap[at..at + l]\<close>.\<close>

definition copy_and_zeropad :: "bytes \<Rightarrow> nat \<Rightarrow> bytes" where
  "copy_and_zeropad src dst_len =
     (let to_copy = min (length src) dst_len in take to_copy src @ replicate (dst_len - to_copy) 0)"

section \<open>What the gas operations do\<close>

definition out_of_resources :: "exit_code \<Rightarrow> bool" where
  "out_of_resources e \<longleftrightarrow> e = OutOfGas \<or> e = FatalError (RuntimeLeaf OutOfNativeResources)"

lemma wp_charge_gas:
  assumes "\<And>u. unat (ergs (gas_resources t)) = unat (ergs (gas_resources u)) + unat (ergs c) \<Longrightarrow>
      unat (gas_native t) = unat (gas_native u) + unat (native c) \<Longrightarrow>
      gas_paid_for_heap_growth u = gas_paid_for_heap_growth t \<Longrightarrow> Q () u"
    and "\<And>e u. out_of_resources e \<Longrightarrow> res_le (gas_resources u) (gas_resources t) \<Longrightarrow>
      gas_paid_for_heap_growth u = gas_paid_for_heap_growth t \<Longrightarrow> E e u"
  shows "wp (on_gas_resources exit_of_system_error (resources_charge c)) Q E t"
proof (cases "resources_has_enough (gas_resources t) c")
  case True
  then have le: "ergs c \<le> ergs (gas_resources t)" "native c \<le> native (gas_resources t)"
    by (auto simp: resources_has_enough_def ergs_has_enough_def native_has_enough_def)
  let ?r = "\<lparr>ergs = ergs (gas_resources t) - ergs c, native = native (gas_resources t) - native c\<rparr>"
  have "Q () (t\<lparr>gas_resources := ?r\<rparr>)"
    using le by (intro assms(1)) (auto simp: gas_native_def unat_sub word_le_nat_alt)
  then show ?thesis using le by (simp add: on_gas_resources_def wp_def resources_charge_cases on_part_def leD)
next
  case False
  then have "\<not> (native c \<le> native (gas_resources t) \<and> ergs c \<le> ergs (gas_resources t))"
    by (auto simp: resources_has_enough_def ergs_has_enough_def native_has_enough_def)
  then show ?thesis
    by (auto simp: on_gas_resources_def wp_def on_part_def resources_charge_cases not_less
        exit_of_system_error_def out_of_resources_def res_le_def saturating_sub_def checked_sub_def
        word_sub_le_iff intro!: assms(2))
qed

lemma wp_spend_gas_and_native [wp_intro]:
  assumes "\<And>u. unat (ergs (gas_resources t)) = unat (ergs (gas_resources u)) + 256 * unat g \<Longrightarrow>
      unat (gas_native t) = unat (gas_native u) + unat n \<Longrightarrow>
      gas_paid_for_heap_growth u = gas_paid_for_heap_growth t \<Longrightarrow> Q () u"
    and "\<And>e u. out_of_resources e \<Longrightarrow> res_le (gas_resources u) (gas_resources t) \<Longrightarrow>
      gas_paid_for_heap_growth u = gas_paid_for_heap_growth t \<Longrightarrow> E e u"
  shows "wp (spend_gas_and_native g n) Q E t"
proof (cases "checked_mul g ERGS_PER_GAS")
  case None
  then show ?thesis
    by (auto simp: spend_gas_and_native_def out_of_resources_def res_le_def intro!: assms(2))
next
  case (Some c)
  then have "unat c = 256 * unat g" by (simp add: checked_mul_Some ERGS_PER_GAS_def)
  with Some show ?thesis
    by (auto simp: spend_gas_and_native_def from_ergs_and_native_def intro!: wp_charge_gas assms)
qed

lemma wp_spend_gas [wp_intro]:
  assumes "\<And>u. unat (ergs (gas_resources t)) = unat (ergs (gas_resources u)) + 256 * unat g \<Longrightarrow>
      gas_native u = gas_native t \<Longrightarrow>
      gas_paid_for_heap_growth u = gas_paid_for_heap_growth t \<Longrightarrow> Q () u"
    and "\<And>e u. out_of_resources e \<Longrightarrow> res_le (gas_resources u) (gas_resources t) \<Longrightarrow>
      gas_paid_for_heap_growth u = gas_paid_for_heap_growth t \<Longrightarrow> E e u"
  shows "wp (spend_gas g) Q E t"
proof (cases "checked_mul g ERGS_PER_GAS")
  case None
  then show ?thesis
    by (auto simp: spend_gas_def out_of_resources_def res_le_def intro!: assms(2))
next
  case (Some c)
  then have "unat c = 256 * unat g" by (simp add: checked_mul_Some ERGS_PER_GAS_def)
  with Some show ?thesis
    by (auto simp: spend_gas_def from_ergs_def native_empty_def word_unat_eq_iff
        intro!: wp_charge_gas assms)
qed

section \<open>The price of memory\<close>

definition mem_cost :: "nat \<Rightarrow> nat" where
  "mem_cost w = 3 * w + w * w div 512"

lemma mem_cost_mono: "v \<le> w \<Longrightarrow> mem_cost v \<le> mem_cost w"
  by (simp add: mem_cost_def add_mono div_le_mono mult_le_mono)

lemma mem_cost_bound: "w \<le> 2 ^ 27 \<Longrightarrow> mem_cost w < 2 ^ 46"
  using mem_cost_mono [of w "2 ^ 27"] by (simp add: mem_cost_def)

text \<open>What a frame's heap and gas agree on: the gas paid is the price of the words in use.\<close>

definition heap_ok :: "slice_vec \<Rightarrow> gas \<Rightarrow> bool" where
  "heap_ok h g \<longleftrightarrow>
     32 dvd length (contents h) \<and> length (contents h) \<le> 2 ^ 32 - 32 \<and>
     length (contents h) \<le> capacity h \<and>
     unat (gas_paid_for_heap_growth g) = mem_cost (length (contents h) div 32)"

lemma heap_ok_new: "gas_paid_for_heap_growth g = 0 \<Longrightarrow> heap_ok (sv_new n) g"
  by (simp add: heap_ok_def sv_new_def mem_cost_def)

lemma end_cost_eq:
  assumes "32 dvd m" and "m \<le> 2 ^ 32 - 32"
  shows "word_of_nat m div 32 * 32 = (word_of_nat m :: u64)"
    and "unat (saturating_add (saturating_mul GAS_MEMORY (word_of_nat m div 32 :: u64))
           (saturating_mul (word_of_nat m div 32) (word_of_nat m div 32) div 512)) = mem_cost (m div 32)"
proof -
  let ?w = "word_of_nat m div 32 :: u64"
  have m: "unat (word_of_nat m :: u64) = m" using assms(2) by (intro unat_word_of_nat) simp
  then have w: "unat ?w = m div 32" by (simp add: unat_div_distrib)
  have le: "m div 32 \<le> 2 ^ 27" using assms(2) by simp
  then have sq: "m div 32 * (m div 32) \<le> 2 ^ 27 * 2 ^ 27" by (intro mult_le_mono)
  have "unat (?w * 32) = m" using w m assms(1) le by (subst unat_mult_lem [THEN iffD1]) auto
  then show "?w * 32 = word_of_nat m" using m by (simp add: word_unat_eq_iff)
  have "unat (saturating_mul ?w ?w div 512) = m div 32 * (m div 32) div 512"
    using sq by (simp add: unat_div_distrib unat_simps m)
  then show "unat (saturating_add (saturating_mul GAS_MEMORY ?w) (saturating_mul ?w ?w div 512)) =
      mem_cost (m div 32)"
    using le mem_cost_bound [OF le] by (simp add: unat_simps w GAS_MEMORY_def mem_cost_def)
qed

text \<open>
  Growing the heap pays exactly the difference of the prices, appends zeroes, and never
  underflows.
\<close>

lemma wp_pay_for_memory_growth:
  assumes "heap_ok h g" and "length (contents h) \<le> m" and "32 dvd m" and "m \<le> 2 ^ 32 - 32"
    and "\<And>u. unat (gas_paid_for_heap_growth u) = mem_cost (m div 32) \<Longrightarrow>
      unat (ergs (gas_resources g)) + 256 * mem_cost (length (contents h) div 32) =
        unat (ergs (gas_resources u)) + 256 * mem_cost (m div 32) \<Longrightarrow>
      gas_native u \<le> gas_native g \<Longrightarrow> Q () u"
    and "\<And>e u. out_of_resources e \<Longrightarrow> res_le (gas_resources u) (gas_resources g) \<Longrightarrow>
      gas_paid_for_heap_growth u = gas_paid_for_heap_growth g \<Longrightarrow> E e u"
  shows "wp (pay_for_memory_growth (length (contents h)) m) Q E g"
proof -
  let ?c = "saturating_add (saturating_mul GAS_MEMORY (word_of_nat m div 32 :: u64))
      (saturating_mul (word_of_nat m div 32) (word_of_nat m div 32) div 512)"
  note c = end_cost_eq [OF assms(3, 4)]
  have paid: "unat (gas_paid_for_heap_growth g) = mem_cost (length (contents h) div 32)"
    using assms(1) by (simp add: heap_ok_def)
  moreover have "mem_cost (length (contents h) div 32) \<le> mem_cost (m div 32)"
    using assms(2) by (intro mem_cost_mono div_le_mono)
  ultimately have le: "gas_paid_for_heap_growth g \<le> ?c" by (simp add: word_le_nat_alt c)
  have sub: "unat (?c - gas_paid_for_heap_growth g) =
      mem_cost (m div 32) - mem_cost (length (contents h) div 32)"
    using le paid c(2) by (simp add: unat_sub)
  have "mem_cost (length (contents h) div 32) \<le> mem_cost (m div 32)"
    using le paid c(2) by (simp add: word_le_nat_alt)
  then show ?thesis
    unfolding pay_for_memory_growth_def Let_def
    using assms(2) c(1) le sub paid c(2)
    by (auto simp: checked_sub_def word_le_nat_alt diff_mult_distrib2 gas_native_def
        intro!: wp_spend_gas_and_native assms(5, 6))
qed

definition grown :: "slice_vec \<Rightarrow> nat \<Rightarrow> slice_vec" where
  "grown h m = h\<lparr>contents := contents h @ replicate (m - length (contents h)) 0\<rparr>"

lemma length_grown [simp]: "length (contents (grown h m)) = max (length (contents h)) m"
  by (simp add: grown_def)

lemma grown_same: "m \<le> length (contents h) \<Longrightarrow> grown h m = h"
  by (simp add: grown_def)

lemma on_mem_wp [simp]:
  "wp (on_mem_gas m) Q E p = wp m (\<lambda>x g. Q x (fst p, g)) (\<lambda>e g. E e (fst p, g)) (snd p)"
  "wp (on_mem_heap e k) Q' E' p = wp k (\<lambda>x h. Q' x (h, snd p)) (\<lambda>_ h. E' e (h, snd p)) (fst p)"
  by (simp_all add: on_mem_gas_def on_mem_heap_def case_prod_beta)

lemma wp_sv_resize:
  "length (contents h) \<le> m \<Longrightarrow> wp (sv_resize m 0) Q E h =
     (if capacity h \<le> m then E () h else Q () (grown h m))"
  by (simp add: wp_def sv_resize_def grown_def)

lemma wp_resize_heap [wp_intro]:
  assumes ok: "heap_ok h g" and W: "32 \<le> W"
    and Q: "\<And>g' h'. heap_ok h' g' \<Longrightarrow> h' = grown h (next_multiple_of (offset + l) 32) \<Longrightarrow>
      offset + l \<le> length (contents h') \<Longrightarrow> gas_native g' \<le> gas_native g \<Longrightarrow>
      unat (ergs (gas_resources g)) + 256 * mem_cost (length (contents h) div 32) =
        unat (ergs (gas_resources g')) + 256 * mem_cost (length (contents h') div 32) \<Longrightarrow> Q () (h', g')"
    and E: "\<And>e g'. e = MemoryLimitOOG \<or> e = MemoryOOG \<or> out_of_resources e \<Longrightarrow>
      gas_native g' \<le> gas_native g \<Longrightarrow> ergs (gas_resources g') \<le> ergs (gas_resources g) \<Longrightarrow> E e (h, g')"
  shows "wp (resize_heap_implementation W offset l) Q E (h, g)"
proof (cases "offset + l > 2 ^ 32 - 32")
  case True
  have "(2 :: nat) ^ 32 \<le> 2 ^ W" using W by (rule power_increasing) simp
  with True have "saturating_usize_add W offset l > 2 ^ 32 - 1 - 31"
    by (auto simp: saturating_usize_add_def usize_max_def)
  then show ?thesis by (simp add: resize_heap_implementation_def E)
next
  case False
  have "(2 :: nat) ^ 32 \<le> 2 ^ W" using W by (rule power_increasing) simp
  then have sat: "saturating_usize_add W offset l = offset + l"
    using False by (auto simp: saturating_usize_add_def usize_max_def)
  define m where "m = next_multiple_of (offset + l) 32"
  have m: "32 dvd m" "offset + l \<le> m" "m \<le> 2 ^ 32 - 32"
    using False next_multiple_of_dvd [of 32] next_multiple_of_ge [of "offset + l" 32]
      next_multiple_of_least [of 32 "2 ^ 32 - 32" "offset + l"] by (auto simp: m_def)
  show ?thesis
  proof (cases "m > length (contents h)")
    case False
    then have "Q () (h, g)" using ok m by (intro Q) (auto simp: grown_same m_def)
    then show ?thesis using False sat m(2, 3) by (simp add: resize_heap_implementation_def m_def Let_def)
  next
    case True
    have "wp (pay_for_memory_growth (length (contents h)) m)
        (\<lambda>_ g'. wp (sv_resize m 0) (\<lambda>x h'. Q x (h', g')) (\<lambda>_ h'. E MemoryOOG (h', g')) h)
        (\<lambda>e g'. E e (h, g')) g"
    proof (rule wp_pay_for_memory_growth [OF ok _ m(1, 3)])
      fix u
      assume u: "unat (gas_paid_for_heap_growth u) = mem_cost (m div 32)"
        "unat (ergs (gas_resources g)) + 256 * mem_cost (length (contents h) div 32) =
          unat (ergs (gas_resources u)) + 256 * mem_cost (m div 32)" "gas_native u \<le> gas_native g"
      have "mem_cost (length (contents h) div 32) \<le> mem_cost (m div 32)"
        using True by (intro mem_cost_mono div_le_mono) simp
      then have le: "ergs (gas_resources u) \<le> ergs (gas_resources g)"
        using u(2) by (simp add: word_le_nat_alt)
      have "\<not> capacity h \<le> m \<Longrightarrow> heap_ok (grown h m) u"
        using u(1) m True ok by (simp add: heap_ok_def max_def) (simp add: grown_def)
      with u le True m show "wp (sv_resize m 0) (\<lambda>x h'. Q x (h', u)) (\<lambda>_ h'. E MemoryOOG (h', u)) h"
        by (auto simp: wp_sv_resize max_def m_def intro!: Q E)
    qed (use True in \<open>auto simp: res_le_def gas_native_def intro!: E\<close>)
    then show ?thesis using True sat m(2, 3) by (simp add: resize_heap_implementation_def m_def Let_def)
  qed
qed

text \<open>A sequence of memory accesses, each growing the heap as far as it needs.\<close>

fun touch_memory :: "nat \<Rightarrow> (nat \<times> nat) list \<Rightarrow> unit mem_m" where
  "touch_memory W [] = ret ()"
| "touch_memory W ((offset, l) # xs) =
     and_then (resize_heap_implementation W offset l) (\<lambda>_. touch_memory W xs)"

lemma wp_touch_memory:
  assumes "heap_ok h g" and "32 \<le> W"
  shows "wp (touch_memory W xs)
     (\<lambda>_ (h', g'). heap_ok h' g' \<and> (\<forall>(offset, l) \<in> set xs. offset + l \<le> length (contents h')) \<and>
        length (contents h) \<le> length (contents h') \<and>
        unat (ergs (gas_resources g)) + 256 * mem_cost (length (contents h) div 32) =
          unat (ergs (gas_resources g')) + 256 * mem_cost (length (contents h') div 32))
     (\<lambda>_ _. True) (h, g)"
  using assms(1)
proof (induction xs arbitrary: h g)
  case (Cons x xs)
  obtain offset l where x: "x = (offset, l)" by fastforce
  show ?case unfolding x touch_memory.simps wp_and_then
    by (rule wp_resize_heap [OF Cons.prems assms(2)], rule wp_mono [OF Cons.IH]) auto
qed simp

text \<open>C33: However a frame's memory grows, access by access, what it has paid in all is the EVM's
  price \<open>3 w + w\<^sup>2 / 512\<close> of the words it ends up with; every access it made is inside the heap,
  and no step underflows or overflows.\<close>

theorem memory_price_path_independent:
  assumes "32 \<le> W" and "gas_paid_for_heap_growth g = 0"
    and "touch_memory W xs (sv_new n, g) = (res, (h, g'))"
  shows "res \<noteq> Inl Panic \<and>
    (res = Inr () \<longrightarrow>
      unat (ergs (gas_resources g)) =
        unat (ergs (gas_resources g')) + 256 * mem_cost (length (contents h) div 32)
      \<and> (\<forall>(offset, l) \<in> set xs. offset + l \<le> length (contents h)))"
  using wp_touch_memory [OF heap_ok_new [OF assms(2), of n] assms(1), of xs] assms(3)
  by (auto simp: wp_def sv_new_def mem_cost_def [of 0] split: sum.splits fault.splits)

definition ex_gas :: gas where
  "ex_gas = \<lparr>gas_resources = \<lparr>ergs = 100000, native = 100000\<rparr>, gas_paid_for_heap_growth = 0\<rparr>"

definition ex_touch :: "(exit_code fault + unit) \<times> slice_vec \<times> gas" where
  "ex_touch = touch_memory 32 [(0, 32), (70, 1)] (sv_new 1000, ex_gas)"

lemmas mem_eval = touch_memory.simps resize_heap_implementation_def Let_def saturating_usize_add_def
  usize_max_def next_multiple_of_def and_then_def read_st_def modify_st_def assert_that_def ret_def
  ok_or_def expect_def on_mem_gas_def on_mem_heap_def on_part_def pay_for_memory_growth_def
  spend_gas_and_native_def on_gas_resources_def from_ergs_and_native_def resources_charge_cases
  sv_resize_def sv_new_def ERGS_PER_GAS_def gas_schedule checked_mul_def checked_sub_def
  saturating_add_def saturating_mul_def checked_add_def

lemma ex_touch_eval:
  "ex_touch = (Inr (), \<lparr>contents = replicate 96 0, capacity = 1000\<rparr>,
     \<lparr>gas_resources = \<lparr>ergs = 97696, native = 99834\<rparr>, gas_paid_for_heap_growth = 9\<rparr>)"
  by (simp add: ex_touch_def ex_gas_def mem_eval replicate_add [symmetric])

theorem memory_price_path_independent_witness:
  "unat (ergs (gas_resources ex_gas)) = unat (97696 :: u64) + 256 * mem_cost 3"
  using memory_price_path_independent [of 32 ex_gas "[(0, 32), (70, 1)]" 1000 "Inr ()"
      "\<lparr>contents = replicate 96 0, capacity = 1000\<rparr>"
      "\<lparr>gas_resources = \<lparr>ergs = 97696, native = 99834\<rparr>, gas_paid_for_heap_growth = 9\<rparr>"]
    ex_touch_eval by (simp add: ex_gas_def ex_touch_def)

end
