(* ===== verification/Account_Cache.thy ===== *)
theory Account_Cache
  imports Preimage_Cache Evm_Gas
begin

text \<open>
  The cache of accounts (\<^verbatim>\<open>flat_storage_model/account_cache.rs\<close>) on top of the slot cache,
  which holds the hash of an account's properties under the address 0x8003
  (\<^verbatim>\<open>flat_storage_model/storage_cache.rs\<close>), and the preimage cache, which holds the
  properties. The operations work on these three caches and the caller's resources.
\<close>

section \<open>Keys and appearances\<close>

text \<open>An address as a key is ordered by its limbs, the lowest first.\<close>

datatype bits_ord160 = BitsOrd (bits: b160)

definition bits_rank :: "bits_ord160 \<Rightarrow> nat \<times> nat \<times> nat" where
  "bits_rank k = (limb 0 (bits k), limb 1 (bits k), limb 2 (bits k))"

lemma bits_rank_inj: "bits_rank j = bits_rank k \<longleftrightarrow> j = k"
proof
  assume "bits_rank j = bits_rank k"
  then have "unat (bits j) = unat (bits k)" using limbs [of "bits j"] limbs [of "bits k"]
    by (simp add: bits_rank_def)
  then show "j = k" by (cases j; cases k) (simp add: word_unat_eq_iff)
qed simp

instantiation bits_ord160 :: linorder
begin

definition less_eq_bits_ord160 :: "bits_ord160 \<Rightarrow> bits_ord160 \<Rightarrow> bool" where
  "less_eq_bits_ord160 j k \<longleftrightarrow> bits_rank j \<le> bits_rank k"

definition less_bits_ord160 :: "bits_ord160 \<Rightarrow> bits_ord160 \<Rightarrow> bool" where
  "less_bits_ord160 j k \<longleftrightarrow> bits_rank j < bits_rank k"

instance
proof
  fix i j k :: bits_ord160
  show "j < k \<longleftrightarrow> j \<le> k \<and> \<not> k \<le> j"
    unfolding less_eq_bits_ord160_def less_bits_ord160_def by (rule less_le_not_le)
  show "j \<le> j" unfolding less_eq_bits_ord160_def by simp
  show "i \<le> k" if "i \<le> j" "j \<le> k" using that unfolding less_eq_bits_ord160_def by (rule order_trans)
  show "j = k" if "j \<le> k" "k \<le> j"
    using that unfolding less_eq_bits_ord160_def by (metis antisym bits_rank_inj)
  show "j \<le> k \<or> k \<le> j" unfolding less_eq_bits_ord160_def by (rule linear)
qed

end

datatype account_initial_appearance = AccUnset | AccRetrieved

datatype account_current_appearance = AccTouched | AccObserved

record account_cache_appearance =
  acc_initial_appearance :: account_initial_appearance
  acc_current_appearance :: account_current_appearance

definition acc_observe :: "account_cache_appearance \<Rightarrow> account_cache_appearance" where
  "acc_observe a = a\<lparr>acc_current_appearance := AccObserved\<rparr>"

section \<open>State\<close>

type_synonym account_record = "(account_properties, account_properties_metadata) cache_record"

record account_cache =
  acc_cache :: "(bits_ord160, account_record, account_cache_appearance) history_map"
  acc_tx_number :: u32

record flat_storage =
  storage_cache :: storage_values_cache
  preimages_cache :: preimages_storage
  account_data_cache :: account_cache

definition account_cache_new :: account_cache where
  "account_cache_new = \<lparr>acc_cache = hm_new, acc_tx_number = 0\<rparr>"

type_synonym flat_st = "flat_storage \<times> base_resources"

text \<open>What the callback of \<open>get_or_insert\<close> captures: the other two caches and the resources.\<close>

type_synonym backing_st = "(storage_values_cache \<times> preimages_storage) \<times> base_resources"

definition backing_slots :: "(storage_st, 'e, 'a) rs \<Rightarrow> (backing_st, 'e, 'a) rs" where
  "backing_slots = on_part (\<lambda>((s, p), r). (s, r)) (\<lambda>(s, r) ((_, p), _). ((s, p), r)) (\<lambda>e. e)"

definition backing_preimages :: "(preimages_st, 'e, 'a) rs \<Rightarrow> (backing_st, 'e, 'a) rs" where
  "backing_preimages = on_part (\<lambda>((s, p), r). (p, r)) (\<lambda>(p, r) ((s, _), _). ((s, p), r)) (\<lambda>e. e)"

definition flat_charge :: "base_resources \<Rightarrow> ('s \<times> base_resources, system_error, unit) rs" where
  "flat_charge c = on_part snd (\<lambda>r s. (fst s, r)) (\<lambda>e. e) (resources_charge c)"

definition with_inf_ergs :: "('s \<times> base_resources, 'e, 'a) rs \<Rightarrow> ('s \<times> base_resources, 'e, 'a) rs" where
  "with_inf_ergs f s =
     (case f (fst s, (snd s)\<lparr>ergs := - 1\<rparr>) of (x, (t, r)) \<Rightarrow> (x, (t, r\<lparr>ergs := ergs (snd s)\<rparr>)))"

definition on_accounts ::
    "((bits_ord160, account_record, account_cache_appearance) history_map, 'e, 'a) rs \<Rightarrow> (flat_st, 'e, 'a) rs" where
  "on_accounts =
     on_part (\<lambda>s. acc_cache (account_data_cache (fst s)))
       (\<lambda>m (f, r). (f\<lparr>account_data_cache := (account_data_cache f)\<lparr>acc_cache := m\<rparr>\<rparr>, r)) (\<lambda>e. e)"

text \<open>An internal error of the map becomes a system error.\<close>

definition defect :: "('s, internal_error, 'a) rs \<Rightarrow> ('s, system_error, 'a) rs" where
  "defect = on_part (\<lambda>s. s) (\<lambda>s _. s) LeafDefect"

definition flat_preimages :: "(preimages_st, system_error, 'a) rs \<Rightarrow> (flat_st, system_error, 'a) rs" where
  "flat_preimages =
     on_part (\<lambda>(f, r). (preimages_cache f, r)) (\<lambda>(p, r) (f, _). (f\<lparr>preimages_cache := p\<rparr>, r)) (\<lambda>e. e)"

definition flat_slots :: "(storage_st, system_error, 'a) rs \<Rightarrow> (flat_st, system_error, 'a) rs" where
  "flat_slots =
     on_part (\<lambda>(f, r). (storage_cache f, r)) (\<lambda>(s, r) (f, _). (f\<lparr>storage_cache := s\<rparr>, r)) (\<lambda>e. e)"

section \<open>The hash of an account in the storage\<close>

definition ACCOUNT_PROPERTIES_STORAGE_ADDRESS :: b160 where
  "ACCOUNT_PROPERTIES_STORAGE_ADDRESS = 0x8003"

definition address_into_special_storage_key :: "b160 \<Rightarrow> bytes32" where
  "address_into_special_storage_key a = from_be_bytes (replicate 12 0 @ to_be_bytes a)"

definition account_slot :: "b160 \<Rightarrow> warm_storage_key" where
  "account_slot a = WarmStorageKey ACCOUNT_PROPERTIES_STORAGE_ADDRESS (address_into_special_storage_key a)"

definition read_special_account_property ::
    "io_env \<Rightarrow> execution_environment_type \<Rightarrow> b160 \<Rightarrow> (storage_st, system_error, bytes32) rs" where
  "read_special_account_property env ee_type a = apply_read_impl (slot_data env) ee_type (account_slot a) False"

definition write_special_account_property ::
    "io_env \<Rightarrow> execution_environment_type \<Rightarrow> b160 \<Rightarrow> bytes32 \<Rightarrow> (storage_st, system_error, bytes32) rs" where
  "write_special_account_property env ee_type a v = apply_write_impl (slot_data env) ee_type (account_slot a) v"

section \<open>Access\<close>

definition ADDRESS_ACCESS_COST_COLD :: u64 where "ADDRESS_ACCESS_COST_COLD = 2600"
definition ADDRESS_ACCESS_COST_WARM :: u64 where "ADDRESS_ACCESS_COST_WARM = 100"
definition COLD_PROPERTIES_ACCESS_EXTRA_COST_ERGS :: ergs where
  "COLD_PROPERTIES_ACCESS_EXTRA_COST_ERGS = (ADDRESS_ACCESS_COST_COLD - ADDRESS_ACCESS_COST_WARM) * ERGS_PER_GAS"
definition WARM_PROPERTIES_ACCESS_COST_ERGS :: ergs where
  "WARM_PROPERTIES_ACCESS_COST_ERGS = ADDRESS_ACCESS_COST_WARM * ERGS_PER_GAS"
definition KNOWN_TO_BE_WARM_PROPERTIES_ACCESS_COST_ERGS :: ergs where
  "KNOWN_TO_BE_WARM_PROPERTIES_ACCESS_COST_ERGS = 5 * ERGS_PER_GAS"
definition WARM_ACCOUNT_CACHE_ACCESS_NATIVE_COST :: u64 where "WARM_ACCOUNT_CACHE_ACCESS_NATIVE_COST = 4000"
definition WARM_ACCOUNT_CACHE_WRITE_EXTRA_NATIVE_COST :: u64 where "WARM_ACCOUNT_CACHE_WRITE_EXTRA_NATIVE_COST = 1000"

definition warm_account_cost :: "execution_environment_type \<Rightarrow> bool \<Rightarrow> bool \<Rightarrow> ergs" where
  "warm_account_cost ee_type is_selfdestruct is_access_list =
     (case ee_type of
        NoEE \<Rightarrow> if is_access_list then 2400 * ERGS_PER_GAS else ergs_empty
      | EVM \<Rightarrow> if is_selfdestruct then ergs_empty else WARM_PROPERTIES_ACCESS_COST_ERGS)"

text \<open>The extra cost of a cold account: charged by the callback, or when the element is warmed up.\<close>

definition charge_cold_account ::
    "execution_environment_type \<Rightarrow> b160 \<Rightarrow> bool \<Rightarrow> ('s \<times> base_resources, system_error, unit) rs" where
  "charge_cold_account ee_type a is_selfdestruct =
     (case ee_type of
        NoEE \<Rightarrow> ret ()
      | EVM \<Rightarrow>
          let cost = (if is_precompile a then resources_empty else from_ergs COLD_PROPERTIES_ACCESS_EXTRA_COST_ERGS) in
          if is_selfdestruct then
            (case (add_ergs WARM_PROPERTIES_ACCESS_COST_ERGS :: (base_resources, system_error, unit) rs) cost of
               (Inl e, _) \<Rightarrow> panic
             | (Inr _, cost) \<Rightarrow> flat_charge cost)
          else flat_charge cost)"

definition spawn_account ::
    "io_env \<Rightarrow> execution_environment_type \<Rightarrow> b160 \<Rightarrow> bool \<Rightarrow> bool \<Rightarrow>
     (backing_st, system_error, account_record \<times> account_cache_appearance) rs" where
  "spawn_account env ee_type a is_selfdestruct observe =
     and_then (charge_cold_account ee_type a is_selfdestruct) (\<lambda>_.
     and_then (with_inf_ergs (backing_slots (read_special_account_property env NoEE a))) (\<lambda>hash.
     and_then
       (if hash = 0 then ret (TRIVIAL_VALUE, AccUnset)
        else
          and_then (backing_preimages (get_preimage env \<lparr>request_hash = hash, expected_preimage_len_in_bytes = word_of_nat ENCODED_SIZE,
               request_type = AccountDataPreimage\<rparr>)) (\<lambda>preimage.
          and_then (assert_that (length preimage = ENCODED_SIZE)) (\<lambda>_.
          ret (account_decode preimage, AccRetrieved)))) (\<lambda>(acc_data, initial_app).
     ret (cache_record_new acc_data metadata_default,
       \<lparr>acc_initial_appearance = initial_app, acc_current_appearance = (if observe then AccObserved else AccTouched)\<rparr>))))"

definition touch_account_in_tx :: "u32 \<Rightarrow> (account_record, system_error, unit) rs" where
  "touch_account_in_tx tx =
     and_then (read_st (\<lambda>x. is_marked_for_deconstruction (metadata x))) (\<lambda>marked.
     and_then (assert_that (\<not> marked)) (\<lambda>_.
     modify_st (\<lambda>x. x\<lparr>metadata := (metadata x)\<lparr>acc_last_touched_in_tx := Some tx\<rparr>\<rparr>)))"

definition warm_up_account ::
    "execution_environment_type \<Rightarrow> b160 \<Rightarrow> bool \<Rightarrow> bool \<Rightarrow> bool \<Rightarrow> u32 \<Rightarrow> (flat_st, system_error, unit) rs" where
  "warm_up_account ee_type a is_selfdestruct observe initialized_element tx =
     and_then (defect (on_accounts (hm_current (BitsOrd a)))) (\<lambda>x.
     and_then
       (if \<not> acc_considered_warm (metadata x) tx then
          and_then (if \<not> initialized_element then charge_cold_account ee_type a is_selfdestruct else ret ()) (\<lambda>_.
          on_accounts (hm_update (BitsOrd a) (touch_account_in_tx tx)))
        else ret ()) (\<lambda>_.
     if observe then on_accounts (hm_set_key_properties (BitsOrd a) acc_observe) else ret ()))"

text \<open>
  \<open>materialize_element\<close>; as for slots, the flag that the callback sets is read off beforehand. The
  item that the source returns is the element of the address from then on.
\<close>

definition materialize_account ::
    "io_env \<Rightarrow> execution_environment_type \<Rightarrow> b160 \<Rightarrow> bool \<Rightarrow> bool \<Rightarrow> bool \<Rightarrow> (flat_st, system_error, unit) rs" where
  "materialize_account env ee_type a is_selfdestruct is_access_list observe =
     and_then (flat_charge (from_ergs_and_native (warm_account_cost ee_type is_selfdestruct is_access_list)
       WARM_ACCOUNT_CACHE_ACCESS_NATIVE_COST)) (\<lambda>_.
     and_then (read_st (\<lambda>(f, _). (btree (acc_cache (account_data_cache f)) (BitsOrd a) = None, acc_tx_number (account_data_cache f))))
       (\<lambda>(initialized_element, tx).
     and_then
       (on_part (\<lambda>(f, r). (acc_cache (account_data_cache f), ((storage_cache f, preimages_cache f), r)))
         (\<lambda>(m, ((s, p), r)) (f, _). (f\<lparr>storage_cache := s, preimages_cache := p,
            account_data_cache := (account_data_cache f)\<lparr>acc_cache := m\<rparr>\<rparr>, r)) (\<lambda>e. e)
         (hm_get_or_insert (BitsOrd a) (spawn_account env ee_type a is_selfdestruct observe))) (\<lambda>_.
     warm_up_account ee_type a is_selfdestruct observe initialized_element tx)))"

section \<open>Operations on an account\<close>

text \<open>Reading and changing the element that \<open>materialize_element\<close> returned.\<close>

definition current_account :: "b160 \<Rightarrow> (flat_st, system_error, account_record) rs" where
  "current_account a = defect (on_accounts (hm_current (BitsOrd a)))"

definition update_account :: "b160 \<Rightarrow> (account_record \<Rightarrow> account_record) \<Rightarrow> (flat_st, system_error, unit) rs" where
  "update_account a f = on_accounts (hm_update (BitsOrd a) (modify_st f))"

definition observe_account :: "b160 \<Rightarrow> (flat_st, system_error, unit) rs" where
  "observe_account a = on_accounts (hm_set_key_properties (BitsOrd a) acc_observe)"

definition on_value :: "(account_properties \<Rightarrow> account_properties) \<Rightarrow> account_record \<Rightarrow> account_record" where
  "on_value f x = x\<lparr>record_value := f (record_value x)\<rparr>"

definition on_metadata ::
    "(account_properties_metadata \<Rightarrow> account_properties_metadata) \<Rightarrow> account_record \<Rightarrow> account_record" where
  "on_metadata f x = x\<lparr>metadata := f (metadata x)\<rparr>"

text \<open>A system error inside an operation whose error is a subsystem's.\<close>

definition sub :: "('s, system_error, 'a) rs \<Rightarrow> ('s, ('i, 'c) subsystem_error, 'a) rs" where
  "sub = on_part (\<lambda>s. s) (\<lambda>s _. s) subsystem_of_system"

definition update_nominal_token_value_inner ::
    "io_env \<Rightarrow> execution_environment_type \<Rightarrow> b160 \<Rightarrow> (u256 \<Rightarrow> balance_subsystem_error + u256) \<Rightarrow> bool \<Rightarrow>
     (flat_st, balance_subsystem_error, u256) rs" where
  "update_nominal_token_value_inner env ee_type a update_fn is_selfdestruct =
     and_then (sub (materialize_account env ee_type a is_selfdestruct False True)) (\<lambda>_.
     and_then (sub (charge_native WARM_ACCOUNT_CACHE_WRITE_EXTRA_NATIVE_COST)) (\<lambda>_.
     and_then (sub (current_account a)) (\<lambda>x.
     case update_fn (balance (record_value x)) of
       Inl e \<Rightarrow> throw e
     | Inr new \<Rightarrow>
         and_then (sub (observe_account a)) (\<lambda>_.
         and_then (sub (update_account a (on_value (\<lambda>v. v\<lparr>balance := new\<rparr>)))) (\<lambda>_.
         ret (balance (record_value x)))))))"

definition update_with ::
    "(u256 \<Rightarrow> u256 \<Rightarrow> u256 \<times> bool) \<Rightarrow> balance_error \<Rightarrow> u256 \<Rightarrow> u256 \<Rightarrow> balance_subsystem_error + u256" where
  "update_with op err amount old_balance =
     (case op old_balance amount of (new_value, overflow) \<Rightarrow> if overflow then Inl (LeafUsage err) else Inr new_value)"

definition transfer_nominal_token_value_inner ::
    "io_env \<Rightarrow> execution_environment_type \<Rightarrow> b160 \<Rightarrow> b160 \<Rightarrow> u256 \<Rightarrow> bool \<Rightarrow>
     (flat_st, balance_subsystem_error, unit) rs" where
  "transfer_nominal_token_value_inner env from_ee from to amount is_selfdestruct =
     and_then (update_nominal_token_value_inner env from_ee from
       (update_with overflowing_sub InsufficientBalance amount) is_selfdestruct) (\<lambda>_.
     and_then (update_nominal_token_value_inner env from_ee to
       (update_with overflowing_add BalanceOverflow amount) is_selfdestruct) (\<lambda>_.
     ret ()))"

definition accounts_begin_new_tx :: "nat \<Rightarrow> (account_cache, internal_error, unit) rs" where
  "accounts_begin_new_tx W =
     and_then (on_part acc_cache (\<lambda>m c. c\<lparr>acc_cache := m\<rparr>) (\<lambda>e. e) (hm_commit W)) (\<lambda>_.
     and_then (read_st (\<lambda>c. checked_add (acc_tx_number c) 1)) (\<lambda>n.
     and_then (expect n) (\<lambda>n. modify_st (\<lambda>c. c\<lparr>acc_tx_number := n\<rparr>))))"

definition accounts_start_frame :: "nat \<Rightarrow> (account_cache, internal_error, snapshot_id) rs" where
  "accounts_start_frame W = on_part acc_cache (\<lambda>m c. c\<lparr>acc_cache := m\<rparr>) (\<lambda>e. e) (hm_snapshot W)"

definition accounts_finish_frame :: "snapshot_id option \<Rightarrow> (account_cache, internal_error, unit) rs" where
  "accounts_finish_frame rollback_handle =
     on_part acc_cache (\<lambda>m c. c\<lparr>acc_cache := m\<rparr>) (\<lambda>e. e) (hm_finish_frame rollback_handle)"

definition read_account_balance_assuming_warm ::
    "execution_environment_type \<Rightarrow> b160 \<Rightarrow> (flat_st, system_error, u256) rs" where
  "read_account_balance_assuming_warm ee_type a =
     and_then (case ee_type of NoEE \<Rightarrow> ret ()
       | EVM \<Rightarrow> flat_charge (from_ergs KNOWN_TO_BE_WARM_PROPERTIES_ACCESS_COST_ERGS)) (\<lambda>_.
     and_then (read_st (\<lambda>(f, _). btree (acc_cache (account_data_cache f)) (BitsOrd a))) (\<lambda>entry.
     if entry = None then throw (LeafDefect ''Balance assumed warm but not in cache'')
     else and_then (current_account a) (\<lambda>x. ret (balance (record_value x)))))"

definition touch_account :: "io_env \<Rightarrow> execution_environment_type \<Rightarrow> b160 \<Rightarrow> bool \<Rightarrow> (flat_st, system_error, unit) rs" where
  "touch_account env ee_type a is_access_list = materialize_account env ee_type a False is_access_list False"

text \<open>
  \<open>read_account_properties\<close>: the caller selects fields by type. The bytecode and the delegation flag
  are computed, and may fail, only on request (\<open>None\<close> where not requested); every other field is
  a function of the account's value, which is returned whole.
\<close>

definition requested :: "bool \<Rightarrow> ('s, 'e, 'a) rs \<Rightarrow> ('s, 'e, 'a option) rs" where
  "requested b m = (if b then and_then m (\<lambda>x. ret (Some x)) else ret None)"

definition account_bytecode :: "io_env \<Rightarrow> account_properties \<Rightarrow> (flat_st, system_error, bytes) rs" where
  "account_bytecode env full_data =
     (if bytecode_hash full_data = 0 then
        and_then (assert_that (observable_bytecode_hash full_data = 0 \<and> unpadded_code_len full_data = 0 \<and>
          acc_artifacts_len full_data = 0 \<and> observable_bytecode_len full_data = 0)) (\<lambda>_.
        ret [])
      else
        and_then (full_bytecode_len full_data) (\<lambda>n.
        flat_preimages (get_preimage env \<lparr>request_hash = bytecode_hash full_data,
          expected_preimage_len_in_bytes = n, request_type = BytecodePreimage\<rparr>)))"

definition EVM_EE_BYTE :: u8 where "EVM_EE_BYTE = 1"
definition NO_EE_BYTE :: u8 where "NO_EE_BYTE = 0"

definition account_is_delegated :: "account_properties \<Rightarrow> ('s, system_error, bool) rs" where
  "account_is_delegated full_data =
     (let delegated = is_delegated (versioning full_data) in
      if delegated \<and> ee_version (versioning full_data) \<noteq> EVM_EE_BYTE
      then throw (LeafDefect ''Delegated account is not EVM'') else ret delegated)"

definition read_account_properties ::
    "io_env \<Rightarrow> execution_environment_type \<Rightarrow> b160 \<Rightarrow> bool \<Rightarrow> bool \<Rightarrow>
     (flat_st, system_error, account_properties \<times> bytes option \<times> bool option) rs" where
  "read_account_properties env ee_type a with_bytecode with_is_delegated =
     and_then (materialize_account env ee_type a False False True) (\<lambda>_.
     and_then (current_account a) (\<lambda>x.
     and_then (requested with_bytecode (account_bytecode env (record_value x))) (\<lambda>code.
     and_then (requested with_is_delegated (account_is_delegated (record_value x))) (\<lambda>delegated.
     ret (record_value x, code, delegated)))))"

definition account_increment_nonce ::
    "io_env \<Rightarrow> execution_environment_type \<Rightarrow> b160 \<Rightarrow> u64 \<Rightarrow> (flat_st, nonce_subsystem_error, u64) rs" where
  "account_increment_nonce env ee_type a increment_by =
     and_then (sub (materialize_account env ee_type a False False True)) (\<lambda>_.
     and_then (sub (charge_native WARM_ACCOUNT_CACHE_WRITE_EXTRA_NATIVE_COST)) (\<lambda>_.
     and_then (sub (current_account a)) (\<lambda>x.
     case checked_add (acc_nonce (record_value x)) increment_by of
       Some new_nonce \<Rightarrow>
         and_then (sub (observe_account a)) (\<lambda>_.
         and_then (sub (update_account a (on_value (\<lambda>v. v\<lparr>acc_nonce := new_nonce\<rparr>)))) (\<lambda>_.
         ret (acc_nonce (record_value x))))
     | None \<Rightarrow> throw (LeafUsage NonceOverflowError))))"

section \<open>Code\<close>

definition KECCAK256_BASE_NATIVE_COST :: u64 where "KECCAK256_BASE_NATIVE_COST = 2500"
definition KECCAK256_ROUND_NATIVE_COST :: u64 where "KECCAK256_ROUND_NATIVE_COST = 17500"
definition KECCAK256_CHUNK_SIZE :: nat where "KECCAK256_CHUNK_SIZE = 136"
definition CODEDEPOSIT :: u64 where "CODEDEPOSIT = 200"
definition EIP7702_DELEGATION_MARKER :: bytes where "EIP7702_DELEGATION_MARKER = [0xef, 0x01, 0x00]"

definition keccak256_native_cost :: "nat \<Rightarrow> ('s, 'e, u64) rs" where
  "keccak256_native_cost len =
     (let rounds = max 1 ((len + KECCAK256_CHUNK_SIZE - 1) div KECCAK256_CHUNK_SIZE) in
      and_then (expect (checked_mul (word_of_nat rounds) KECCAK256_ROUND_NATIVE_COST)) (\<lambda>c.
      expect (checked_add c KECCAK256_BASE_NATIVE_COST)))"

definition deployment_in_no_ee :: system_error where
  "deployment_in_no_ee = LeafDefect ''Deployment cannot happen in NoEE''"

definition code_padding :: "bytes \<Rightarrow> bytes" where
  "code_padding code = replicate (bytecode_padding_len (length code)) 0"

definition compute_bytecode_hash ::
    "io_env \<Rightarrow> execution_environment_type \<Rightarrow> bytes \<Rightarrow> bytes \<Rightarrow> (flat_st, system_error, u256) rs" where
  "compute_bytecode_hash env from_ee observable_bytecode artifacts =
     (case from_ee of
        NoEE \<Rightarrow> throw deployment_in_no_ee
      | EVM \<Rightarrow>
          and_then (charge_native (blake2s_native_cost
            (length observable_bytecode + bytecode_padding_len (length observable_bytecode) + length artifacts))) (\<lambda>_.
          ret (blake2s256 env (observable_bytecode @ code_padding observable_bytecode @ artifacts))))"

text \<open>The keccak digest of the code, and the sum of three lengths as \<open>u32\<close>.\<close>

definition observable_hash :: "io_env \<Rightarrow> bytes \<Rightarrow> (flat_st, system_error, u256) rs" where
  "observable_hash env code =
     and_then (keccak256_native_cost (length code)) (\<lambda>native_cost.
     and_then (charge_native native_cost) (\<lambda>_.
     ret (keccak_digest env code)))"

definition sum_lens :: "u32 \<Rightarrow> u32 \<Rightarrow> u32 \<Rightarrow> ('s, 'e, u32) rs" where
  "sum_lens a b c = and_then (expect (checked_add a b)) (\<lambda>x. expect (checked_add x c))"

definition save_bytecode ::
    "io_env \<Rightarrow> u256 \<Rightarrow> u32 \<Rightarrow> bytes \<Rightarrow> bytes \<Rightarrow> (flat_st, system_error, bytes) rs" where
  "save_bytecode env hash len code artifacts =
     flat_preimages (record_preimage env \<lparr>request_hash = hash, expected_preimage_len_in_bytes = len,
       request_type = BytecodePreimage\<rparr> [code, code_padding code, artifacts])"

text \<open>What \<open>deploy_code\<close> and \<open>set_bytecode_details\<close> share: artifacts, hash and preimage of EVM code.\<close>

definition prepare_code ::
    "io_env \<Rightarrow> execution_environment_type \<Rightarrow> bytes \<Rightarrow> u32 \<Rightarrow>
     (flat_st, system_error, bytes \<times> u256 \<times> u32 \<times> u8) rs" where
  "prepare_code env ee code observable_len =
     (case ee of
        NoEE \<Rightarrow> throw deployment_in_no_ee
      | EVM \<Rightarrow>
          and_then (on_part snd (\<lambda>r s. (fst s, r)) (\<lambda>e. e) (create_artifacts (usize_bits env) code)) (\<lambda>artifacts.
          let artifacts = as_slice (usize_bits env) artifacts in
          and_then (compute_bytecode_hash env ee code artifacts) (\<lambda>hash.
          let artifacts_len = word_of_nat (length artifacts) in
          and_then (sum_lens observable_len (word_of_nat (bytecode_padding_len (length code))) artifacts_len) (\<lambda>n.
          and_then (save_bytecode env hash n code artifacts) (\<lambda>deployed_code.
          ret (deployed_code, hash, artifacts_len, ARTIFACTS_CACHING_CODE_VERSION_BYTE))))))"

definition set_code ::
    "u256 \<Rightarrow> u32 \<Rightarrow> u256 \<Rightarrow> u32 \<Rightarrow> u32 \<Rightarrow> account_properties \<Rightarrow> account_properties" where
  "set_code obs_hash obs_len hash code_len artifacts_len v =
     v\<lparr>observable_bytecode_hash := obs_hash, observable_bytecode_len := obs_len, bytecode_hash := hash,
       unpadded_code_len := code_len, acc_artifacts_len := artifacts_len\<rparr>"

definition ee_byte :: "execution_environment_type \<Rightarrow> u8" where
  "ee_byte ee = (case ee of NoEE \<Rightarrow> NO_EE_BYTE | EVM \<Rightarrow> EVM_EE_BYTE)"

definition deployed_as :: "execution_environment_type \<Rightarrow> u8 \<Rightarrow> account_properties \<Rightarrow> account_properties" where
  "deployed_as ee version v =
     v\<lparr>versioning := set_code_version version (set_ee_version (ee_byte ee) (set_as_deployed (versioning v)))\<rparr>"

definition deploy_code ::
    "io_env \<Rightarrow> execution_environment_type \<Rightarrow> b160 \<Rightarrow> bytes \<Rightarrow> (flat_st, system_error, bytes) rs" where
  "deploy_code env from_ee a deployed_code =
     and_then (case from_ee of NoEE \<Rightarrow> ret ()
       | EVM \<Rightarrow> flat_charge (from_ergs
           (saturating_mul (saturating_mul CODEDEPOSIT (word_of_nat (length deployed_code))) ERGS_PER_GAS))) (\<lambda>_.
     and_then (read_st (\<lambda>(f, _). acc_tx_number (account_data_cache f))) (\<lambda>cur_tx.
     and_then (with_inf_ergs (materialize_account env from_ee a False False True)) (\<lambda>_.
     and_then (case from_ee of NoEE \<Rightarrow> throw deployment_in_no_ee | EVM \<Rightarrow> observable_hash env deployed_code) (\<lambda>obs_hash.
     let obs_len = word_of_nat (length deployed_code) in
     and_then (prepare_code env from_ee deployed_code obs_len) (\<lambda>(deployed_code, hash, artifacts_len, version).
     and_then (charge_native WARM_ACCOUNT_CACHE_WRITE_EXTRA_NATIVE_COST) (\<lambda>_.
     and_then (observe_account a) (\<lambda>_.
     and_then (update_account a (\<lambda>x.
       on_metadata (\<lambda>m. m\<lparr>deployed_in_tx := Some cur_tx, not_publish_bytecode := False\<rparr>)
         (on_value (\<lambda>v. deployed_as from_ee version (set_code obs_hash obs_len hash obs_len artifacts_len v)) x))) (\<lambda>_.
     ret deployed_code))))))))"

definition set_bytecode_details ::
    "io_env \<Rightarrow> b160 \<Rightarrow> execution_environment_type \<Rightarrow> u256 \<Rightarrow> u32 \<Rightarrow> u32 \<Rightarrow> u256 \<Rightarrow> u32 \<Rightarrow>
     (flat_st, system_error, unit) rs" where
  "set_bytecode_details env a ee code_hash unpadded_len artifacts_len obs_hash obs_len =
     and_then (read_st (\<lambda>(f, _). acc_tx_number (account_data_cache f))) (\<lambda>cur_tx.
     and_then (with_inf_ergs (materialize_account env NoEE a False False True)) (\<lambda>_.
     and_then (flat_preimages (get_preimage env \<lparr>request_hash = code_hash,
       expected_preimage_len_in_bytes = unpadded_len, request_type = BytecodePreimage\<rparr>)) (\<lambda>deployed_code.
     and_then (case ee of NoEE \<Rightarrow> ret () | EVM \<Rightarrow> assert_that (artifacts_len = 0)) (\<lambda>_.
     and_then (prepare_code env ee deployed_code obs_len) (\<lambda>(_, hash, artifacts_len, version).
     and_then (charge_native WARM_ACCOUNT_CACHE_WRITE_EXTRA_NATIVE_COST) (\<lambda>_.
     and_then (observe_account a) (\<lambda>_.
     update_account a (\<lambda>x.
       on_metadata (\<lambda>m. m\<lparr>deployed_in_tx := Some cur_tx, not_publish_bytecode := True\<rparr>)
         (on_value (\<lambda>v. deployed_as ee version (set_code obs_hash obs_len hash unpadded_len artifacts_len v)) x)))))))))"

definition delegation_code :: "b160 \<Rightarrow> bytes" where
  "delegation_code delegate = EIP7702_DELEGATION_MARKER @ to_be_bytes delegate"

definition delegated_as :: "bool \<Rightarrow> u8 \<Rightarrow> account_properties \<Rightarrow> account_properties" where
  "delegated_as delegated version v =
     v\<lparr>versioning := set_code_version version
       (if delegated then set_ee_version EVM_EE_BYTE (set_as_delegated (versioning v))
        else set_ee_version NO_EE_BYTE (unset_deployment_status (versioning v)))\<rparr>"

definition set_delegation :: "io_env \<Rightarrow> b160 \<Rightarrow> b160 \<Rightarrow> (flat_st, system_error, unit) rs" where
  "set_delegation env a delegate =
     and_then (with_inf_ergs (materialize_account env EVM a False False True)) (\<lambda>_.
     and_then
       (if delegate = 0 then ret (0, 0, 0, 0, 0, False)
        else
          let code = delegation_code delegate in
          and_then (observable_hash env code) (\<lambda>obs_hash.
          let obs_len = word_of_nat (length code) in
          and_then (compute_bytecode_hash env EVM code []) (\<lambda>hash.
          and_then (sum_lens obs_len (word_of_nat (bytecode_padding_len (length code))) 0) (\<lambda>n.
          and_then (save_bytecode env hash n code []) (\<lambda>_.
          ret (obs_hash, obs_len, hash, 0, ARTIFACTS_CACHING_CODE_VERSION_BYTE, True))))))
       (\<lambda>(obs_hash, obs_len, hash, artifacts_len, version, delegated).
     and_then (charge_native WARM_ACCOUNT_CACHE_WRITE_EXTRA_NATIVE_COST) (\<lambda>_.
     and_then (observe_account a) (\<lambda>_.
     update_account a (\<lambda>x.
       on_metadata (\<lambda>m. m\<lparr>not_publish_bytecode := False\<rparr>)
         (on_value (\<lambda>v. delegated_as delegated version (set_code obs_hash obs_len hash obs_len artifacts_len v)) x))))))"

section \<open>Deconstruction\<close>

definition beneficiary_is_empty :: "u256 \<Rightarrow> account_properties \<Rightarrow> bool" where
  "beneficiary_is_empty transfer_amount v \<longleftrightarrow>
     acc_nonce v = 0 \<and> unpadded_code_len v = 0 \<and> balance v = transfer_amount"

definition deconstruct_account ::
    "io_env \<Rightarrow> execution_environment_type \<Rightarrow> b160 \<Rightarrow> b160 \<Rightarrow> bool \<Rightarrow>
     (flat_st, deconstruction_subsystem_error, unit) rs" where
  "deconstruct_account env from_ee a beneficiary in_constructor =
     and_then (read_st (\<lambda>(f, _). acc_tx_number (account_data_cache f))) (\<lambda>cur_tx.
     and_then (sub (materialize_account env from_ee a True False True)) (\<lambda>_.
     and_then (sub (charge_native WARM_ACCOUNT_CACHE_WRITE_EXTRA_NATIVE_COST)) (\<lambda>_.
     and_then (sub (current_account a)) (\<lambda>x.
     let same_address = (a = beneficiary); transfer_amount = balance (record_value x);
         should_be_deconstructed = (deployed_in_tx (metadata x) = Some cur_tx \<or> in_constructor) in
     and_then
       (if should_be_deconstructed then
          and_then (sub (observe_account a)) (\<lambda>_.
          sub (update_account a (on_metadata (\<lambda>m. m\<lparr>is_marked_for_deconstruction := True\<rparr>))))
        else ret ()) (\<lambda>_.
     and_then
       (if \<not> same_address then
          on_part (\<lambda>s. s) (\<lambda>s _. s) Cascaded
            (transfer_nominal_token_value_inner env from_ee a beneficiary transfer_amount True)
        else if should_be_deconstructed then
          sub (update_account a (on_value (\<lambda>v. v\<lparr>balance := 0\<rparr>)))
        else ret ()) (\<lambda>_.
     if transfer_amount \<noteq> 0 \<and> from_ee = EVM then
       and_then (read_st (\<lambda>(f, _). btree (acc_cache (account_data_cache f)) (BitsOrd beneficiary))) (\<lambda>entry.
       if entry = None then throw (DefectLeaf ''Account assumed warm but not in cache'')
       else
         and_then (sub (current_account beneficiary)) (\<lambda>b.
         if beneficiary_is_empty transfer_amount (record_value b)
         then sub (flat_charge (from_ergs (GAS_NEWACCOUNT * ERGS_PER_GAS))) else ret ()))
     else ret ()))))))"

text \<open>\<open>finish_tx\<close>: the callback clears the slots of a deconstructed account in the slot cache.\<close>

definition deconstruct_pending ::
    "(bits_ord160, account_record, account_cache_appearance, storage_values_cache) pending_fn" where
  "deconstruct_pending key i st =
     (case st of ((current, cache_appearance), storage) \<Rightarrow>
        if is_marked_for_deconstruction (metadata (val current)) then
          if acc_current_appearance cache_appearance = AccObserved then
            let current = current\<lparr>val := on_metadata (\<lambda>m. m\<lparr>is_marked_for_deconstruction := False\<rparr>)
                  (on_value (\<lambda>_. TRIVIAL_VALUE) (val current))\<rparr> in
            (case clear_state_impl (bits key) storage of
               (Inr _, storage) \<Rightarrow> (Inr (), (current, cache_appearance), storage)
             | (Inl _, storage) \<Rightarrow> (Inl Panic, (current, cache_appearance), storage))
          else (Inl Panic, st)
        else (Inr (), st))"

definition accounts_finish_tx :: "(flat_storage, internal_error, unit) rs" where
  "accounts_finish_tx =
     on_part (\<lambda>f. (acc_cache (account_data_cache f), storage_cache f))
       (\<lambda>(m, s) f. f\<lparr>account_data_cache := (account_data_cache f)\<lparr>acc_cache := m\<rparr>, storage_cache := s\<rparr>) (\<lambda>e. e)
       (apply_to_last_record_of_pending_changes deconstruct_pending)"

section \<open>At the end of a block\<close>

text \<open>
  \<open>persist_changes\<close>: every changed account goes into the preimage cache and its hash into the
  slot cache, at no cost: the resources are infinite for each account.
\<close>

definition persist_account ::
    "io_env \<Rightarrow> account_record \<Rightarrow> account_record \<Rightarrow> bits_ord160 \<Rightarrow>
     (storage_values_cache \<times> preimages_storage, system_error, unit) rs" where
  "persist_account env l r addr =
     (if record_value l = record_value r then ret ()
      else
        let encoding = account_encoding (record_value r);
            properties_hash = account_compute_hash (blake2s256 env) (record_value r) in
        on_part (\<lambda>s. (s, resources_infinite)) (\<lambda>(s, _) _. s) (\<lambda>e. e)
          (and_then (backing_preimages (record_preimage env \<lparr>request_hash = properties_hash,
             expected_preimage_len_in_bytes = word_of_nat ENCODED_SIZE, request_type = AccountDataPreimage\<rparr>
             [encoding])) (\<lambda>_.
           and_then (backing_slots (write_special_account_property env NoEE (bits addr) properties_hash)) (\<lambda>_.
           ret ()))))"

definition persist_changes :: "io_env \<Rightarrow> (flat_storage, system_error, unit) rs" where
  "persist_changes env =
     on_part (\<lambda>f. (acc_cache (account_data_cache f), (storage_cache f, preimages_cache f)))
       (\<lambda>(m, (s, p)) f. f\<lparr>account_data_cache := (account_data_cache f)\<lparr>acc_cache := m\<rparr>,
          storage_cache := s, preimages_cache := p\<rparr>) (\<lambda>e. e)
       (apply_to_all_updated_elements (persist_account env))"

text \<open>
  \<open>calculate_pubdata_used_by_tx\<close>: a walk over the pending changes that skips the keys it has
  visited; sums that exceed \<open>u32\<close> and an \<open>unwrap\<close> of an error are \<open>Panic\<close>.
\<close>

definition account_pubdata :: "account_record \<Rightarrow> account_record \<Rightarrow> u32 \<Rightarrow> ('s, internal_error, u32) rs" where
  "account_pubdata i current pubdata_used =
     (if record_value current \<noteq> record_value i then
        and_then (expect (checked_add pubdata_used 32)) (\<lambda>n.
        and_then (expect_ok (diff_compression_length (record_value i) (record_value current)
          (not_publish_bytecode (metadata current)))) (\<lambda>l.
        expect (checked_add n l)))
      else ret pubdata_used)"

fun accounts_pubdata ::
    "bits_ord160 list \<Rightarrow> bits_ord160 set \<Rightarrow> u32 \<Rightarrow>
     ((bits_ord160, account_record, account_cache_appearance) history_map, internal_error, u32) rs" where
  "accounts_pubdata [] visited_elements pubdata_used = ret pubdata_used"
| "accounts_pubdata (k # ks) visited_elements pubdata_used =
     (if k \<in> visited_elements then accounts_pubdata ks visited_elements pubdata_used
      else
        and_then (hm_current k) (\<lambda>current.
        and_then (hm_initial k) (\<lambda>i.
        and_then (account_pubdata i current pubdata_used) (\<lambda>n.
        accounts_pubdata ks (insert k visited_elements) n))))"

definition accounts_calculate_pubdata_used_by_tx ::
    "((bits_ord160, account_record, account_cache_appearance) history_map, internal_error, u32) rs" where
  "accounts_calculate_pubdata_used_by_tx =
     and_then (read_st iter_altered_since_commit) (\<lambda>ks. accounts_pubdata ks {} 0)"

end
