(* ===== verification/Account_Diffs.thy ===== *)
theory Account_Diffs
  imports Preimage_Cache
begin

text \<open>
  The compressed diff of an account that is published for data availability
  (\<open>AccountProperties::diff_compression\<close> in \<^verbatim>\<open>flat_storage_model/account_cache_entry.rs\<close>), and
  the reading of the format that its comment describes. Shown here: the bytes are as many as
  \<open>diff_compression_length\<close> charges for, and whoever knows the account before the block reads
  back the account after it.
\<close>

section \<open>Writing\<close>

definition emit_out :: "bytes \<Rightarrow> (pubdata_sink \<times> 'p, 'e, unit) rs" where
  "emit_out bs = modify_st (\<lambda>(out, p). (emit bs out, p))"

definition emit_value :: "u256 \<Rightarrow> u256 \<Rightarrow> (pubdata_sink \<times> 'p, internal_error, unit) rs" where
  "emit_value old new =
     on_part fst (\<lambda>out s. (out, snd s)) (\<lambda>_. []) (optimal_compression_u256 old new)"

definition bytecode_for_diff :: "io_env \<Rightarrow> account_properties \<Rightarrow> (pubdata_sink \<times> preimages_storage, internal_error, bytes) rs" where
  "bytecode_for_diff env f =
     and_then (full_bytecode_len f) (\<lambda>len (out, p).
     case get_preimage env \<lparr>request_hash = bytecode_hash f, expected_preimage_len_in_bytes = len,
         request_type = BytecodePreimage\<rparr> (p, resources_infinite) of
       (Inr bytecode, (p, _)) \<Rightarrow> (Inr bytecode, (out, p))
     | (Inl (Err (LeafRuntime OutOfErgs)), (p, _)) \<Rightarrow> (Inl (Err ''Out of ergs on infinite ergs''), (out, p))
     | (Inl (Err (LeafRuntime OutOfNativeResources)), (p, _)) \<Rightarrow> (Inl (Err ''Out of native on infinite''), (out, p))
     | (Inl (Err (LeafDefect e)), (p, _)) \<Rightarrow> (Inl (Err e), (out, p))
     | (Inl Panic, (p, _)) \<Rightarrow> (Inl Panic, (out, p)))"

definition diff_compression ::
    "io_env \<Rightarrow> account_properties \<Rightarrow> account_properties \<Rightarrow> bool \<Rightarrow>
     (pubdata_sink \<times> preimages_storage, internal_error, unit) rs" where
  "diff_compression env i f not_publish =
     (if full_diff i f then
        and_then (emit_out [if not_publish then 0x24 else 0x04]) (\<lambda>_.
        and_then (emit_out (to_be_bytes (versioning f))) (\<lambda>_.
        and_then (emit_value (ucast (acc_nonce i)) (ucast (acc_nonce f))) (\<lambda>_.
        and_then (emit_value (balance i) (balance f)) (\<lambda>_.
        and_then
          (if not_publish then emit_out (to_be_bytes (bytecode_hash f))
           else
             and_then (emit_out (to_be_bytes (unpadded_code_len f))) (\<lambda>_.
             and_then (emit_out (to_be_bytes (acc_artifacts_len f))) (\<lambda>_.
             and_then (bytecode_for_diff env f) (\<lambda>bytecode.
             emit_out bytecode)))) (\<lambda>_.
        emit_out (to_be_bytes (observable_bytecode_len f)))))))
      else if acc_nonce i = acc_nonce f \<and> balance i = balance f then throw same_values
      else
        let metadata_byte = 4 OR (if acc_nonce i \<noteq> acc_nonce f then push_bit 3 1 else 0)
          OR (if balance i \<noteq> balance f then push_bit 3 2 else 0) in
        and_then (emit_out [metadata_byte]) (\<lambda>_.
        and_then
          (if acc_nonce i \<noteq> acc_nonce f then emit_value (ucast (acc_nonce i)) (ucast (acc_nonce f)) else ret ()) (\<lambda>_.
        if balance i \<noteq> balance f then emit_value (balance i) (balance f) else ret ())))"

section \<open>Reading\<close>

text \<open>
  What an observer reads from the stream: of an account whose code changed, the versioning word,
  nonce, balance, lengths and the code itself; otherwise the new nonce and balance.
\<close>

datatype account_change =
    FullChange (ch_versioning: u64) (ch_nonce: u64) (ch_balance: u256) (ch_unpadded_code_len: u32)
      (ch_artifacts_len: u32) (ch_bytecode: bytes) (ch_observable_bytecode_len: u32)
  | ValuesChange (ch_nonce: u64) (ch_balance: u256)

definition take_bytes :: "nat \<Rightarrow> bytes \<Rightarrow> (bytes \<times> bytes) option" where
  "take_bytes n bs = (if n \<le> length bs then Some (take n bs, drop n bs) else None)"

definition read_value :: "bool \<Rightarrow> u256 \<Rightarrow> bytes \<Rightarrow> (u256 \<times> bytes) option" where
  "read_value present old bs = (if present then decompress old bs else Some (old, bs))"

definition read_full :: "account_properties \<Rightarrow> bytes \<Rightarrow> (account_change \<times> bytes) option" where
  "read_full i bs =
     Option.bind (take_bytes 8 bs) (\<lambda>(v, bs).
     Option.bind (decompress (ucast (acc_nonce i)) bs) (\<lambda>(n, bs).
     Option.bind (decompress (balance i) bs) (\<lambda>(b, bs).
     Option.bind (take_bytes 4 bs) (\<lambda>(u, bs).
     Option.bind (take_bytes 4 bs) (\<lambda>(a, bs).
     let unpadded = from_be_bytes u :: u32; artifacts = from_be_bytes a :: u32 in
     Option.bind (take_bytes (unat unpadded + bytecode_padding_len (unat unpadded) + unat artifacts) bs) (\<lambda>(code, bs).
     Option.bind (take_bytes 4 bs) (\<lambda>(l, bs).
     Some (FullChange (from_be_bytes v) (ucast n) b unpadded artifacts code (from_be_bytes l), bs))))))))"

definition read_account_diff :: "account_properties \<Rightarrow> bytes \<Rightarrow> (account_change \<times> bytes) option" where
  "read_account_diff i bs =
     (case bs of
        [] \<Rightarrow> None
      | m # bs \<Rightarrow>
          if m = 4 then read_full i bs
          else if m \<in> {12, 20, 28} then
            Option.bind (read_value (m = 12 \<or> m = 28) (ucast (acc_nonce i)) bs) (\<lambda>(n, bs).
            Option.bind (read_value (m = 20 \<or> m = 28) (balance i) bs) (\<lambda>(b, bs).
            Some (ValuesChange (ucast n) b, bs)))
          else None)"

text \<open>The change from \<open>i\<close> to \<open>f\<close>, whose code is \<open>code\<close>.\<close>

definition account_change_of :: "account_properties \<Rightarrow> account_properties \<Rightarrow> bytes \<Rightarrow> account_change" where
  "account_change_of i f code =
     (if full_diff i f
      then FullChange (versioning f) (acc_nonce f) (balance f) (unpadded_code_len f) (acc_artifacts_len f) code
        (observable_bytecode_len f)
      else ValuesChange (acc_nonce f) (balance f))"

section \<open>Lemmas\<close>

lemma wp_emit_out [simp]: "wp (emit_out bs) Q E = (\<lambda>(out, p). Q () (emit bs out, p))"
  by (auto simp: emit_out_def fun_eq_iff)

text \<open>The bytes of a compressed value, as chosen by \<open>optimal_compression\<close>.\<close>

definition value_bytes :: "u256 \<Rightarrow> u256 \<Rightarrow> bytes" where
  "value_bytes i f = published (snd (optimal_compression_u256 i f \<lparr>hashed = [], published = []\<rparr>))"

lemma value_bytes:
  "optimal_compression_u256 i f out = (Inr (), emit (value_bytes i f) out)"
  "length (value_bytes i f) = unat (optimal_compression_length_u256 i f)" "length (value_bytes i f) \<le> 33"
  "decompress i (value_bytes i f @ rest) = Some (f, rest)"
proof -
  obtain bs where bs: "\<And>out. optimal_compression_u256 i f out = (Inr (), emit bs out)"
    "length bs = unat (optimal_compression_length_u256 i f)" "length bs \<le> 33"
    "\<And>rest. decompress i (bs @ rest) = Some (f, rest)"
    using optimal_compression_ok [of i f] by blast
  then have "value_bytes i f = bs" by (simp add: value_bytes_def emit_def)
  with bs show "optimal_compression_u256 i f out = (Inr (), emit (value_bytes i f) out)"
    "length (value_bytes i f) = unat (optimal_compression_length_u256 i f)" "length (value_bytes i f) \<le> 33"
    "decompress i (value_bytes i f @ rest) = Some (f, rest)" by simp_all
qed

lemma wp_emit_value [simp]: "wp (emit_value i f) Q E = (\<lambda>(out, p). Q () (emit (value_bytes i f) out, p))"
  by (auto simp: emit_value_def fun_eq_iff wp_def on_part_def value_bytes(1))

lemma unat_ucast_byte: "unat (ucast (b :: u8) :: u32) = unat b"
  using unat_lt [of b] by (simp add: unsigned_ucast_eq take_bit_nat_eq_self)

lemma value_length [simp]:
  "unat (nonce_length i f) = length (value_bytes (ucast (acc_nonce i)) (ucast (acc_nonce f)))"
  "unat (balance_length i f) = length (value_bytes (balance i) (balance f))"
  by (simp_all add: nonce_length_def balance_length_def value_bytes(2) unat_ucast_byte)

lemma length_lt_33: "length (value_bytes i f) < 34"
  using value_bytes(3) [of i f] by simp

text \<open>The code of an account that is in the cache, or empty.\<close>

definition code_known :: "preimages_storage \<Rightarrow> account_properties \<Rightarrow> bytes \<Rightarrow> bool" where
  "code_known p f code \<longleftrightarrow>
     (if bytecode_hash f = 0 then code = [] else preimage_map p (bytecode_hash f) = Some code) \<and>
     length code = unat (unpadded_code_len f) + bytecode_padding_len (unat (unpadded_code_len f)) + unat (acc_artifacts_len f)"

lemma bytecode_padding_len_less: "bytecode_padding_len n < 8"
  by (simp add: bytecode_padding_len_def BYTECODE_ALIGNMENT_def Let_def)

lemma full_bytecode_len_eq:
  assumes "code_known p f code" and "length code < 2 ^ 32"
  shows "full_bytecode_len f = ret (word_of_nat (length code))"
proof -
  let ?u = "unpadded_code_len f" and ?a = "acc_artifacts_len f"
  have n: "length code = unat ?u + bytecode_padding_len (unat ?u) + unat ?a" "length code < 4294967296"
    using assms by (auto simp: code_known_def)
  have "checked_add ?u (word_of_nat (bytecode_padding_len (unat ?u))) =
      Some (word_of_nat (unat ?u + bytecode_padding_len (unat ?u)))"
    using n bytecode_padding_len_less [of "unat ?u"] by (subst checked_add_Some) (simp add: unat_of_nat del: of_nat_add)
  moreover have "checked_add (word_of_nat (unat ?u + bytecode_padding_len (unat ?u))) ?a = Some (word_of_nat (length code))"
    using n by (subst checked_add_Some) (simp add: unat_of_nat del: of_nat_add)
  ultimately show ?thesis by (simp add: full_bytecode_len_def Let_def expect_def and_then_def ret_def fun_eq_iff)
qed

lemma bytecode_for_diff_known:
  assumes "code_known p f code" and "length code < 2 ^ 32"
  shows "bytecode_for_diff env f (out, p) = (Inr code, (out, p))"
  using assms
  unfolding bytecode_for_diff_def full_bytecode_len_eq [OF assms]
  by (auto simp: and_then_def ret_def code_known_def get_preimage_def expose_preimage_def
      charge_native_def on_part_def resources_charge_cases resources_infinite_def from_native_def read_st_def
      PREIMAGE_CACHE_GET_NATIVE_COST_def split: if_splits)

text \<open>What a diff emits.\<close>

definition diff_bytes :: "account_properties \<Rightarrow> account_properties \<Rightarrow> bytes \<Rightarrow> bytes" where
  "diff_bytes i f code =
     (let nonce_diff = value_bytes (ucast (acc_nonce i)) (ucast (acc_nonce f)); balance_diff = value_bytes (balance i) (balance f) in
      if full_diff i f then
        [4] @ to_be_bytes (versioning f) @ nonce_diff @ balance_diff @ to_be_bytes (unpadded_code_len f) @
        to_be_bytes (acc_artifacts_len f) @ code @ to_be_bytes (observable_bytecode_len f)
      else
        [4 + (if acc_nonce i \<noteq> acc_nonce f then 8 else 0) + (if balance i \<noteq> balance f then 16 else 0)] @
        (if acc_nonce i \<noteq> acc_nonce f then nonce_diff else []) @ (if balance i \<noteq> balance f then balance_diff else []))"

lemma emit_emit_out: "emit b (emit a out) = emit (a @ b) out"
  by (simp add: emit_def)

lemma diff_compression_emits:
  assumes "full_diff i f \<Longrightarrow> code_known p f code" and "length code < 2 ^ 32"
    and "full_diff i f \<or> acc_nonce i \<noteq> acc_nonce f \<or> balance i \<noteq> balance f"
  shows "diff_compression env i f False (out, p) = (Inr (), (emit (diff_bytes i f code) out, p))"
proof -
  have "wp (diff_compression env i f False) (\<lambda>_ t. t = (emit (diff_bytes i f code) out, p)) (\<lambda>_ _. False) (out, p)"
  proof (cases "full_diff i f")
    case True
    have "wp (bytecode_for_diff env f) Q E (o', p) = Q code (o', p)" for Q E o'
      using bytecode_for_diff_known [OF assms(1) [OF True] assms(2), of env o'] by (simp add: wp_def)
    with True show ?thesis by (simp add: diff_compression_def diff_bytes_def emit_emit_out Let_def)
  next
    case False
    with assms(3) show ?thesis by (auto simp: diff_compression_def diff_bytes_def emit_emit_out Let_def)
  qed
  from wp_total [OF this] show ?thesis by auto
qed

lemma nonce_cast: "ucast (ucast (x :: u64) :: u256) = x"
  by (rule bit_word_eqI) (simp add: bit_simps)

lemma from_to_be_bytes_small [simp]:
  "from_be_bytes (to_be_bytes (a :: u64)) = a" "from_be_bytes (to_be_bytes (b :: u32)) = b"
  by (simp_all add: from_to_be_bytes)

lemma take_bytes_append [simp]: "length xs = n \<Longrightarrow> take_bytes n (xs @ ys) = Some (xs, ys)"
  by (simp add: take_bytes_def)

lemma read_diff_bytes:
  assumes "full_diff i f \<Longrightarrow> code_known p f code"
    and "full_diff i f \<or> acc_nonce i \<noteq> acc_nonce f \<or> balance i \<noteq> balance f"
  shows "read_account_diff i (diff_bytes i f code @ rest) = Some (account_change_of i f code, rest)"
proof (cases "full_diff i f")
  case True
  then show ?thesis using assms(1)
    by (simp add: read_account_diff_def read_full_def diff_bytes_def account_change_of_def Let_def value_bytes(4)
        code_known_def nonce_cast)
next
  case False
  with assms(2) show ?thesis
    by (auto simp: read_account_diff_def read_value_def diff_bytes_def account_change_of_def Let_def value_bytes(4) nonce_cast)
qed

lemma diff_length_eq:
  assumes "full_diff i f \<Longrightarrow> code_known p f code" and "length code + 100 < 2 ^ 32"
    and "full_diff i f \<or> acc_nonce i \<noteq> acc_nonce f \<or> balance i \<noteq> balance f"
  shows "\<exists>n. diff_compression_length i f False = ret n \<and> unat n = length (diff_bytes i f code)"
proof (cases "full_diff i f")
  case True
  have k: "code_known p f code" by (rule assms(1) [OF True])
  let ?h = "1 + 8 + nonce_length i f + balance_length i f + 4 + 4"
  let ?d = "length (value_bytes (ucast (acc_nonce i)) (ucast (acc_nonce f))) + length (value_bytes (balance i) (balance f))"
  have d: "?d \<le> 66"
    using value_bytes(3) [of "ucast (acc_nonce i)" "ucast (acc_nonce f)"] value_bytes(3) [of "balance i" "balance f"] by linarith
  then have h: "unat ?h = 17 + ?d" by (simp add: unat_word_ariths)
  have c: "unat (word_of_nat (length code) :: u32) = length code" using assms(2) by (simp add: unat_of_nat)
  have 1: "checked_add ?h (word_of_nat (length code)) = Some (word_of_nat (17 + ?d + length code))"
    using assms(2) d h c by (subst checked_add_Some) (simp add: unat_of_nat del: of_nat_add)
  have 2: "checked_add (word_of_nat (17 + ?d + length code)) 4 = Some (word_of_nat (21 + ?d + length code) :: u32)"
    using assms(2) d by (subst checked_add_Some) (simp add: unat_of_nat del: of_nat_add)
  have lt: "length code < 2 ^ 32" using assms(2) by simp
  have "diff_compression_length i f False = ret (word_of_nat (21 + ?d + length code))"
    using True 1 2 by (simp add: diff_compression_length_def full_bytecode_len_eq [OF k lt] expect_def and_then_def ret_def fun_eq_iff)
  moreover have "unat (word_of_nat (21 + ?d + length code) :: u32) = 21 + ?d + length code"
    using assms(2) d by (simp add: unat_of_nat del: of_nat_add)
  ultimately show ?thesis using True by (auto simp: diff_bytes_def Let_def)
next
  case False
  let ?b = "acc_nonce i \<noteq> acc_nonce f" and ?c = "balance i \<noteq> balance f"
  let ?n = "1 + (if ?b then nonce_length i f else 0) + (if ?c then balance_length i f else 0)"
  have "unat ?n = 1 + (if ?b then unat (nonce_length i f) else 0) + (if ?c then unat (balance_length i f) else 0)"
    using value_bytes(3) [of "ucast (acc_nonce i)" "ucast (acc_nonce f)"] value_bytes(3) [of "balance i" "balance f"]
    by (simp add: unat_word_ariths)
  moreover have "diff_compression_length i f False = ret ?n"
    using False assms(3) by (auto simp: diff_compression_length_def)
  ultimately show ?thesis using False by (auto simp: diff_bytes_def Let_def)
qed

section \<open>Properties\<close>


text \<open>C38: A force deployment (format 4, bytecode not published) is charged four bytes that are never
  published: the price counts \<open>artifacts_len\<close>, as the description of the format does, and the
  encoder leaves it out.\<close>

theorem force_deployment_diff_drops_artifacts_len:
  assumes "full_diff i f"
  shows "\<exists>bs n. diff_compression env i f True (out, p) = (Inr (), (emit bs out, p))
     \<and> diff_compression_length i f True s = (Inr n, s) \<and> unat n = length bs + 4"
proof -
  let ?bs = "[0x24] @ to_be_bytes (versioning f) @ value_bytes (ucast (acc_nonce i)) (ucast (acc_nonce f)) @
    value_bytes (balance i) (balance f) @ to_be_bytes (bytecode_hash f) @ to_be_bytes (observable_bytecode_len f)"
  have "wp (diff_compression env i f True) (\<lambda>_ t. t = (emit ?bs out, p)) (\<lambda>_ _. False) (out, p)"
    using assms by (simp add: diff_compression_def emit_emit_out)
  then have "diff_compression env i f True (out, p) = (Inr (), (emit ?bs out, p))" by (auto dest: wp_total)
  moreover have "unat (1 + 8 + nonce_length i f + balance_length i f + 32 + 4 + 4) = length ?bs + 4"
    using value_bytes(3) [of "ucast (acc_nonce i)" "ucast (acc_nonce f)"] value_bytes(3) [of "balance i" "balance f"]
    by (simp add: unat_word_ariths)
  ultimately show ?thesis using assms
    by (intro exI [of _ ?bs] exI [of _ "1 + 8 + nonce_length i f + balance_length i f + 32 + 4 + 4"])
       (simp add: diff_compression_length_def ret_def)
qed

section \<open>Witnesses\<close>

definition ex_account :: account_properties where
  "ex_account = TRIVIAL_VALUE\<lparr>acc_nonce := 1, balance := 7\<rparr>"

definition ex_contract :: account_properties where
  "ex_contract = ex_account\<lparr>versioning := 1, bytecode_hash := 5, unpadded_code_len := 1, observable_bytecode_len := 1\<rparr>"

definition ex_code :: bytes where
  "ex_code = [1, 0, 0, 0, 0, 0, 0, 0]"

definition ex_preimages :: preimages_storage where
  "ex_preimages = preimages_new\<lparr>preimage_map := [5 \<mapsto> ex_code]\<rparr>"

definition ex_env :: io_env where
  "ex_env = \<lparr>usize_bits = 64, proof_env = True,
     slot_data = (\<lambda>_. \<lparr>is_new_storage_slot = True, initial_value = 0\<rparr>), preimage_query = (\<lambda>_. None),
     blake2s256 = (\<lambda>bs. word_of_nat (length bs)), keccak_digest = (\<lambda>bs. word_of_nat (length bs))\<rparr>"

definition ex_sink :: pubdata_sink where
  "ex_sink = \<lparr>hashed = [], published = []\<rparr>"

lemma ex_full_diff: "full_diff ex_account ex_contract"
  by (simp add: full_diff_def ex_account_def ex_contract_def TRIVIAL_VALUE_def)


theorem force_deployment_diff_drops_artifacts_len_witness:
  "\<exists>bs n. diff_compression ex_env ex_account ex_contract True (ex_sink, ex_preimages) = (Inr (), (emit bs ex_sink, ex_preimages))
     \<and> diff_compression_length ex_account ex_contract True () = (Inr n, ()) \<and> unat n = length bs + 4"
  by (rule force_deployment_diff_drops_artifacts_len [OF ex_full_diff])

end
