(* ===== verification/Flat_Storage.thy ===== *)
theory Flat_Storage
  imports Account_Cache Account_Diffs
begin

text \<open>
  The flat storage model (\<^verbatim>\<open>flat_storage_model/mod.rs\<close>): slots, accounts and preimages as one
  snapshottable store, the slots' part of \<^verbatim>\<open>flat_storage_model/storage_cache.rs\<close>, and the
  pubdata of a block. The operations on one account are those of \<open>Account_Cache\<close>, to which the
  model forwards.
\<close>

section \<open>Slots\<close>

definition flat_storage_read ::
    "io_env \<Rightarrow> execution_environment_type \<Rightarrow> b160 \<Rightarrow> bytes32 \<Rightarrow> (flat_st, system_error, bytes32) rs" where
  "flat_storage_read env ee_type a k =
     flat_slots (apply_read_impl (slot_data env) ee_type (WarmStorageKey a k) False)"

definition flat_storage_touch ::
    "io_env \<Rightarrow> execution_environment_type \<Rightarrow> b160 \<Rightarrow> bytes32 \<Rightarrow> bool \<Rightarrow> (flat_st, system_error, unit) rs" where
  "flat_storage_touch env ee_type a k is_access_list =
     and_then (flat_slots (apply_read_impl (slot_data env) ee_type (WarmStorageKey a k) is_access_list)) (\<lambda>_. ret ())"

definition flat_storage_write ::
    "io_env \<Rightarrow> execution_environment_type \<Rightarrow> b160 \<Rightarrow> bytes32 \<Rightarrow> bytes32 \<Rightarrow> (flat_st, system_error, bytes32) rs" where
  "flat_storage_write env ee_type a k new_value =
     flat_slots (apply_write_impl (slot_data env) ee_type (WarmStorageKey a k) new_value)"

text \<open>
  The accessed slots as \<open>iter_as_storage_types\<close> and \<open>storage_diffs_iterator\<close> list them: initial and
  current value, whether the slot is new and whether the initial value matters.
\<close>

record storage_diff =
  diff_initial_value :: bytes32
  diff_current_value :: bytes32
  diff_is_new_storage_slot :: bool
  diff_initial_value_used :: bool

definition get_storage_diff :: "warm_storage_key \<Rightarrow> (slot_map, internal_error, storage_diff) rs" where
  "get_storage_diff k =
     and_then (read_st (\<lambda>m. btree m k)) (\<lambda>entry.
     and_then (expect entry) (\<lambda>item.
     and_then (hm_current k) (\<lambda>current_record.
     and_then (hm_initial k) (\<lambda>initial_record.
     ret \<lparr>diff_initial_value = record_value initial_record, diff_current_value = record_value current_record,
       diff_is_new_storage_slot = (initial_appearance (key_properties item) = Empty),
       diff_initial_value_used = (current_appearance (key_properties item) \<in> {Observed, Updated, Deleted})\<rparr>))))"

fun storage_diffs :: "warm_storage_key list \<Rightarrow> (slot_map, internal_error, (warm_storage_key \<times> storage_diff) list) rs" where
  "storage_diffs [] = ret []"
| "storage_diffs (k # ks) =
     and_then (get_storage_diff k) (\<lambda>d.
     and_then (storage_diffs ks) (\<lambda>ds. ret ((k, d) # ds)))"

definition net_accesses_iter :: "(slot_map, internal_error, (warm_storage_key \<times> storage_diff) list) rs" where
  "net_accesses_iter = and_then (read_st hm_keys) storage_diffs"

definition net_diffs_iter :: "(slot_map, internal_error, (warm_storage_key \<times> storage_diff) list) rs" where
  "net_diffs_iter =
     and_then net_accesses_iter (\<lambda>ds.
     ret (filter (\<lambda>(_, v). diff_current_value v \<noteq> diff_initial_value v) ds))"

definition slot_pubdata :: "bytes32 \<Rightarrow> bytes32 \<Rightarrow> u32 \<Rightarrow> ('s, internal_error, u32) rs" where
  "slot_pubdata initial_v current_v pubdata_used =
     (if initial_v \<noteq> current_v then
        and_then (expect (checked_add pubdata_used 32)) (\<lambda>n.
        expect (checked_add n (ucast (optimal_compression_length (to_be_bytes initial_v) (to_be_bytes current_v)))))
      else ret pubdata_used)"

fun slots_pubdata :: "warm_storage_key list \<Rightarrow> warm_storage_key set \<Rightarrow> u32 \<Rightarrow> (slot_map, internal_error, u32) rs" where
  "slots_pubdata [] visited_elements pubdata_used = ret pubdata_used"
| "slots_pubdata (k # ks) visited_elements pubdata_used =
     (if address k = ACCOUNT_PROPERTIES_STORAGE_ADDRESS then slots_pubdata ks visited_elements pubdata_used
      else if k \<in> visited_elements then slots_pubdata ks visited_elements pubdata_used
      else
        and_then (hm_current k) (\<lambda>current.
        and_then (hm_initial k) (\<lambda>i.
        and_then (slot_pubdata (record_value i) (record_value current) pubdata_used) (\<lambda>n.
        slots_pubdata ks (insert k visited_elements) n))))"

definition slots_calculate_pubdata_used_by_tx :: "(slot_map, internal_error, u32) rs" where
  "slots_calculate_pubdata_used_by_tx =
     and_then (read_st iter_altered_since_commit) (\<lambda>ks. slots_pubdata ks {} 0)"

section \<open>The store\<close>

definition flat_construct :: flat_storage where
  "flat_construct = \<lparr>storage_cache = storage_new, preimages_cache = preimages_new, account_data_cache = account_cache_new\<rparr>"

definition on_storage_cache :: "(storage_values_cache, 'e, 'a) rs \<Rightarrow> (flat_storage, 'e, 'a) rs" where
  "on_storage_cache = on_part storage_cache (\<lambda>s f. f\<lparr>storage_cache := s\<rparr>) (\<lambda>e. e)"

definition on_preimages_cache :: "(preimages_storage, 'e, 'a) rs \<Rightarrow> (flat_storage, 'e, 'a) rs" where
  "on_preimages_cache = on_part preimages_cache (\<lambda>p f. f\<lparr>preimages_cache := p\<rparr>) (\<lambda>e. e)"

definition on_account_cache :: "(account_cache, 'e, 'a) rs \<Rightarrow> (flat_storage, 'e, 'a) rs" where
  "on_account_cache = on_part account_data_cache (\<lambda>c f. f\<lparr>account_data_cache := c\<rparr>) (\<lambda>e. e)"

record flat_snapshot =
  snap_storage :: "snapshot_id \<times> nat"
  snap_account_data :: snapshot_id
  snap_preimages :: snapshot_id

definition flat_begin_new_tx :: "nat \<Rightarrow> (flat_storage, internal_error, unit) rs" where
  "flat_begin_new_tx W =
     and_then (on_storage_cache (storage_begin_new_tx W)) (\<lambda>_.
     and_then (on_preimages_cache (preimages_begin_new_tx W)) (\<lambda>_.
     on_account_cache (accounts_begin_new_tx W)))"

definition flat_start_frame :: "nat \<Rightarrow> (flat_storage, internal_error, flat_snapshot) rs" where
  "flat_start_frame W =
     and_then (on_storage_cache (storage_start_frame W)) (\<lambda>s.
     and_then (on_preimages_cache (preimages_start_frame W)) (\<lambda>p.
     and_then (on_account_cache (accounts_start_frame W)) (\<lambda>a.
     ret \<lparr>snap_storage = s, snap_account_data = a, snap_preimages = p\<rparr>)))"

definition flat_finish_frame :: "flat_snapshot option \<Rightarrow> (flat_storage, internal_error, unit) rs" where
  "flat_finish_frame rollback_handle =
     and_then (on_storage_cache (storage_finish_frame (map_option snap_storage rollback_handle))) (\<lambda>_.
     and_then (on_preimages_cache (preimages_finish_frame (map_option snap_preimages rollback_handle))) (\<lambda>_.
     on_account_cache (accounts_finish_frame (map_option snap_account_data rollback_handle))))"

definition flat_pubdata_used_by_tx :: "(flat_storage, internal_error, u32) rs" where
  "flat_pubdata_used_by_tx =
     and_then (on_account_cache (on_part acc_cache (\<lambda>m c. c\<lparr>acc_cache := m\<rparr>) (\<lambda>e. e)
       accounts_calculate_pubdata_used_by_tx)) (\<lambda>a.
     and_then (on_storage_cache (on_cache slots_calculate_pubdata_used_by_tx)) (\<lambda>s.
     expect (checked_add a s)))"

definition persist_caches :: "io_env \<Rightarrow> (flat_storage, internal_error, unit) rs" where
  "persist_caches env = expect_ok (persist_changes env)"

section \<open>The pubdata of a block\<close>

text \<open>
  \<open>apply_storage_diffs_pubdata\<close>: the callback of the walk over the updated slots, on the output
  and the preimage cache.
\<close>

definition account_of_slot :: "bytes32 \<Rightarrow> b160" where
  "account_of_slot k = from_be_bytes (drop 12 (to_be_bytes k))"

definition publish_slot ::
    "io_env \<Rightarrow> account_cache \<Rightarrow> slot_record \<Rightarrow> slot_record \<Rightarrow> warm_storage_key \<Rightarrow>
     (pubdata_sink \<times> preimages_storage, unit, unit) rs" where
  "publish_slot env accounts l r k =
     and_then (emit_out (to_be_bytes (derive_flat_storage_key (blake2s256 env) (address k) (slot_key k)))) (\<lambda>_.
     if record_value l = record_value r then ret ()
     else if address k = ACCOUNT_PROPERTIES_STORAGE_ADDRESS then
       let a = BitsOrd (account_of_slot (slot_key k)) in
       if btree (acc_cache accounts) a = None then throw ()
       else
         (case hm_get_initial_and_last_values a (acc_cache accounts) of
            (Inr (Some (l, r)), _) \<Rightarrow>
              on_part (\<lambda>s. s) (\<lambda>s _. s) (\<lambda>_. ())
                (diff_compression env (record_value l) (record_value r) (not_publish_bytecode (metadata r)))
          | (Inl Panic, _) \<Rightarrow> panic
          | _ \<Rightarrow> throw ())
     else on_part fst (\<lambda>out s. (out, snd s)) (\<lambda>e. e)
       (optimal_compression (to_be_bytes (record_value l)) (to_be_bytes (record_value r))))"

definition apply_storage_diffs_pubdata :: "io_env \<Rightarrow> (flat_storage \<times> pubdata_sink, internal_error, unit) rs" where
  "apply_storage_diffs_pubdata env =
     and_then (on_part fst (\<lambda>f s. (f, snd s)) (\<lambda>e. e) (on_storage_cache (on_cache net_diffs_iter))) (\<lambda>ds.
     and_then (modify_st (\<lambda>(f, out). (f, emit (to_be_bytes (word_of_nat (length ds) :: u32)) out))) (\<lambda>_.
     and_then (read_st (\<lambda>(f, _). account_data_cache f)) (\<lambda>accounts.
     expect_ok (on_part (\<lambda>(f, out). (cache (storage_cache f), (out, preimages_cache f)))
       (\<lambda>(m, (out, p)) (f, _). (f\<lparr>storage_cache := (storage_cache f)\<lparr>cache := m\<rparr>, preimages_cache := p\<rparr>, out)) (\<lambda>e. e)
       (apply_to_all_updated_elements (publish_slot env accounts))))))"

end
