(* ===== verification/Transient_Storage.thy ===== *)
theory Transient_Storage
  imports Storage_Cache
begin

text \<open>
  Transient storage (\<^verbatim>\<open>storage_models/src/common_structs/generic_transient_storage.rs\<close>), a map
  of its own that every transaction starts empty, here with the slot keys and values that the
  IO subsystem uses. Shown here: it is a store with frames in which a read returns the last
  value written in the transaction, or zero.
\<close>

record transient_storage =
  ts_cache :: "(warm_storage_key, bytes32, unit) history_map"
  ts_tx_number :: u32

definition transient_new :: transient_storage where
  "transient_new = \<lparr>ts_cache = hm_new, ts_tx_number = 0\<rparr>"

definition on_ts_cache ::
    "((warm_storage_key, bytes32, unit) history_map, 'e, 'a) rs \<Rightarrow> (transient_storage, 'e, 'a) rs" where
  "on_ts_cache = on_part ts_cache (\<lambda>m t. t\<lparr>ts_cache := m\<rparr>) (\<lambda>e. e)"

definition transient_begin_new_tx :: "(transient_storage, internal_error, unit) rs" where
  "transient_begin_new_tx =
     and_then (modify_st (\<lambda>t. t\<lparr>ts_cache := hm_new\<rparr>)) (\<lambda>_.
     and_then (read_st (\<lambda>t. checked_add (ts_tx_number t) 1)) (\<lambda>n.
     and_then (expect n) (\<lambda>n. modify_st (\<lambda>t. t\<lparr>ts_tx_number := n\<rparr>))))"

definition transient_start_frame :: "nat \<Rightarrow> (transient_storage, internal_error, snapshot_id) rs" where
  "transient_start_frame W = on_ts_cache (hm_snapshot W)"

definition transient_materialize :: "warm_storage_key \<Rightarrow> (transient_storage, system_error, unit) rs" where
  "transient_materialize key =
     on_ts_cache (on_part (\<lambda>m. (m, ())) (\<lambda>s _. fst s) (\<lambda>e. e) (hm_get_or_insert key (ret (0, ()))))"

definition apply_read :: "warm_storage_key \<Rightarrow> (transient_storage, system_error, bytes32) rs" where
  "apply_read key =
     and_then (transient_materialize key) (\<lambda>_.
     on_part (\<lambda>t. t) (\<lambda>t _. t) LeafDefect (on_ts_cache (hm_current key)))"

definition apply_write :: "warm_storage_key \<Rightarrow> bytes32 \<Rightarrow> (transient_storage, system_error, unit) rs" where
  "apply_write key new_value =
     and_then (transient_materialize key) (\<lambda>_.
     on_ts_cache (hm_update key (modify_st (\<lambda>_. new_value))))"

definition transient_finish_frame :: "snapshot_id option \<Rightarrow> (transient_storage, internal_error, unit) rs" where
  "transient_finish_frame rollback_handle = on_ts_cache (hm_finish_frame rollback_handle)"

section \<open>A store with frames\<close>

abbreviation transient_values :: "transient_storage \<Rightarrow> warm_storage_key \<Rightarrow> bytes32" where
  "transient_values t \<equiv> hm_view (\<lambda>_. 0) (ts_cache t)"

definition transient_frames :: "transient_storage \<Rightarrow> (snapshot_id \<times> (warm_storage_key \<Rightarrow> bytes32)) list \<Rightarrow> bool" where
  "transient_frames t fs \<longleftrightarrow> hm_cache (\<lambda>_. 0) (ts_cache t) fs"

lemma wp_on_ts_cache [simp]:
  "wp (on_ts_cache m) Q E t = wp m (\<lambda>x c. Q x (t\<lparr>ts_cache := c\<rparr>)) (\<lambda>e c. E e (t\<lparr>ts_cache := c\<rparr>)) (ts_cache t)"
  by (simp add: on_ts_cache_def)

lemma wp_transient_materialize:
  assumes "transient_frames t fs"
    and "\<And>c. hm_cache (\<lambda>_. 0) c fs \<Longrightarrow> hm_view (\<lambda>_. 0) c = transient_values t \<Longrightarrow> btree c k \<noteq> None \<Longrightarrow> Q () (t\<lparr>ts_cache := c\<rparr>)"
  shows "wp (transient_materialize k) Q E t"
proof -
  have c: "hm_cache (\<lambda>_. 0) (ts_cache t) fs" using assms(1) by (simp add: transient_frames_def)
  show ?thesis
    unfolding transient_materialize_def wp_on_ts_cache wp_on_part
    by (rule view_get_or_insert [OF c]) (use assms(2) [of "ts_cache t"] assms(2) c in auto)
qed

lemma wp_apply_read:
  assumes "transient_frames t fs"
    and "\<And>u. transient_frames u fs \<Longrightarrow> transient_values u = transient_values t \<Longrightarrow> Q (transient_values t k) u"
  shows "wp (apply_read k) Q E t"
  unfolding apply_read_def wp_and_then
  by (rule wp_transient_materialize [OF assms(1)]) (auto intro!: view_current assms(2) simp: transient_frames_def)

lemma wp_apply_write:
  assumes "transient_frames t fs"
    and "\<And>u. transient_frames u fs \<Longrightarrow> transient_values u = (transient_values t)(k := v) \<Longrightarrow> Q () u"
  shows "wp (apply_write k v) Q E t"
  unfolding apply_write_def wp_and_then
  by (rule wp_transient_materialize [OF assms(1)])
     (auto intro!: view_update assms(2) simp: transient_frames_def modify_st_def)

definition transient_step :: "transient_storage \<Rightarrow> transient_storage \<Rightarrow> bool" where
  "transient_step t u \<longleftrightarrow> (\<exists>k v. u = snd (apply_read k t) \<or> u = snd (apply_write k v t))"

interpretation ts: frame_store transient_frames transient_values "(=)" "\<lambda>t. next_snapshot_id (ts_cache t) < usize_max W"
    "transient_start_frame W" transient_finish_frame transient_step
proof
  fix t u :: transient_storage and fs i x f
  show "\<exists>i u. transient_start_frame W t = (Inr i, u)" if "transient_frames t fs" "next_snapshot_id (ts_cache t) < usize_max W"
    using hv.start_ok [of "\<lambda>_. 0" "ts_cache t" fs W] that
    by (auto simp: transient_frames_def transient_start_frame_def on_ts_cache_def on_part_def)
  show "transient_frames u ((i, transient_values t) # fs) \<and> transient_values u = transient_values t"
    if "transient_frames t fs" "transient_start_frame W t = (Inr i, u)"
    using hv.start_frames [of "\<lambda>_. 0" "ts_cache t" fs W i] that
    by (auto simp: transient_frames_def transient_start_frame_def on_ts_cache_def on_part_def split: prod.splits sum.splits fault.splits)
  show "\<exists>u. transient_finish_frame None t = (Inr (), u) \<and> transient_frames u fs \<and> transient_values u = transient_values t"
    if "transient_frames t (f # fs)"
    using hv.keep_frame [of "\<lambda>_. 0" "ts_cache t" f fs] that
    by (auto simp: transient_frames_def transient_finish_frame_def on_ts_cache_def on_part_def)
  show "\<exists>u. transient_finish_frame (Some i) t = (Inr (), u) \<and> transient_frames u fs \<and> x = transient_values u"
    if "transient_frames t ((i, x) # fs)"
    using hv.fail_frame [of "\<lambda>_. 0" "ts_cache t" i x fs] that
    by (auto simp: transient_frames_def transient_finish_frame_def on_ts_cache_def on_part_def)
  show "transient_frames u fs" if fr: "transient_frames t fs" and st: "transient_step t u"
  proof -
    have "wp (apply_read k) (\<lambda>_ u. transient_frames u fs) (\<lambda>_ u. transient_frames u fs) t"
      "wp (apply_write k v) (\<lambda>_ u. transient_frames u fs) (\<lambda>_ u. transient_frames u fs) t" for k v
      by (rule wp_apply_read [OF fr], simp) (rule wp_apply_write [OF fr], simp)
    then show ?thesis using st wp_snd unfolding transient_step_def by metis
  qed
qed auto

lemma transient_new_frames: "transient_frames (t\<lparr>ts_cache := hm_new\<rparr>) []" "transient_values (t\<lparr>ts_cache := hm_new\<rparr>) = (\<lambda>_. 0)"
  using hm_cache_new by (simp_all add: transient_frames_def)

end
