(* ===== verification/Evm_Stack.thy ===== *)
theory Evm_Stack
  imports Evm_Errors
begin

text \<open>
  The operand stack of \<^verbatim>\<open>evm_interpreter/src/evm_stack.rs\<close>: a boxed array of 1024 possibly
  uninitialised words and a length, accessed through raw pointers. An uninitialised slot is
  \<open>None\<close>; reading one, an access past the array, and two exclusive references to one slot are
  \<open>Panic\<close>. A method that hands out \<open>&mut U256\<close> returns the value it refers to, and the write
  through the reference is \<open>set_top\<close>. The lemmas relate every operation to a plain list of
  words, top first.
\<close>

definition STACK_SIZE :: nat where
  "STACK_SIZE = 1024"

record evm_stack =
  stack_buffer :: "nat \<Rightarrow> u256 option"
  stack_len :: nat

type_synonym 'a stack_m = "(evm_stack, exit_code, 'a) rs"

definition stack_new :: evm_stack where
  "stack_new = \<lparr>stack_buffer = (\<lambda>_. None), stack_len = 0\<rparr>"

section \<open>Raw accesses\<close>

definition slot_ref :: "nat \<Rightarrow> u256 stack_m" where
  "slot_ref i s =
     (if i < STACK_SIZE
      then case stack_buffer s i of Some v \<Rightarrow> (Inr v, s) | None \<Rightarrow> (Inl Panic, s)
      else (Inl Panic, s))"

definition slot_write :: "nat \<Rightarrow> u256 \<Rightarrow> unit stack_m" where
  "slot_write i v s =
     (if i < STACK_SIZE then (Inr (), s\<lparr>stack_buffer := (stack_buffer s)(i := Some v)\<rparr>)
      else (Inl Panic, s))"

definition set_len :: "nat \<Rightarrow> unit stack_m" where
  "set_len n = modify_st (\<lambda>s. s\<lparr>stack_len := n\<rparr>)"

definition set_top :: "u256 \<Rightarrow> unit stack_m" where
  "set_top v = and_then (read_st stack_len) (\<lambda>l. slot_write (l - 1) v)"

section \<open>Operations\<close>

definition stack_swap :: "nat \<Rightarrow> unit stack_m" where
  "stack_swap n =
     and_then (read_st stack_len) (\<lambda>l.
     if l = 0 then throw StackUnderflow
     else let src_offset = l - 1 in
       if n > src_offset then throw StackUnderflow
       else let dst_offset = src_offset - n in
         and_then (assert_that (src_offset \<noteq> dst_offset)) (\<lambda>_.
         and_then (slot_ref src_offset) (\<lambda>a.
         and_then (slot_ref dst_offset) (\<lambda>b.
         and_then (slot_write src_offset b) (\<lambda>_.
         slot_write dst_offset a)))))"

definition stack_dup :: "nat \<Rightarrow> unit stack_m" where
  "stack_dup n =
     and_then (read_st stack_len) (\<lambda>l.
     if l = STACK_SIZE then throw StackOverflow
     else if n > l then throw StackUnderflow
     else let offset = l - n in
       and_then (slot_ref offset) (\<lambda>v.
       and_then (slot_write l v) (\<lambda>_.
       set_len (l + 1))))"

definition pop_and_ignore :: "unit stack_m" where
  "pop_and_ignore =
     and_then (read_st stack_len) (\<lambda>l.
     if l = 0 then throw StackUnderflow else set_len (l - 1))"

definition pop_1 :: "u256 stack_m" where
  "pop_1 =
     and_then (read_st stack_len) (\<lambda>l.
     if l < 1 then throw StackUnderflow
     else let offset = l - 1 in
       and_then (slot_ref offset) (\<lambda>p0.
       and_then (set_len offset) (\<lambda>_.
       ret p0)))"

definition pop_2 :: "(u256 \<times> u256) stack_m" where
  "pop_2 =
     and_then (read_st stack_len) (\<lambda>l.
     if l < 2 then throw StackUnderflow
     else let offset = l - 1 in
       and_then (slot_ref offset) (\<lambda>p0.
       let offset = offset - 1 in
       and_then (slot_ref offset) (\<lambda>p1.
       and_then (set_len offset) (\<lambda>_.
       ret (p0, p1)))))"

definition pop_3 :: "(u256 \<times> u256 \<times> u256) stack_m" where
  "pop_3 =
     and_then (read_st stack_len) (\<lambda>l.
     if l < 3 then throw StackUnderflow
     else let offset = l - 1 in
       and_then (slot_ref offset) (\<lambda>p0.
       let offset = offset - 1 in
       and_then (slot_ref offset) (\<lambda>p1.
       let offset = offset - 1 in
       and_then (slot_ref offset) (\<lambda>p2.
       and_then (set_len offset) (\<lambda>_.
       ret (p0, p1, p2))))))"

definition pop_4 :: "(u256 \<times> u256 \<times> u256 \<times> u256) stack_m" where
  "pop_4 =
     and_then (read_st stack_len) (\<lambda>l.
     if l < 4 then throw StackUnderflow
     else let offset = l - 1 in
       and_then (slot_ref offset) (\<lambda>p0.
       let offset = offset - 1 in
       and_then (slot_ref offset) (\<lambda>p1.
       let offset = offset - 1 in
       and_then (slot_ref offset) (\<lambda>p2.
       let offset = offset - 1 in
       and_then (slot_ref offset) (\<lambda>p3.
       and_then (set_len offset) (\<lambda>_.
       ret (p0, p1, p2, p3)))))))"

definition top_mut :: "u256 stack_m" where
  "top_mut =
     and_then (read_st stack_len) (\<lambda>l.
     if l < 1 then throw StackUnderflow else slot_ref (l - 1))"

definition pop_1_and_peek_mut :: "(u256 \<times> u256) stack_m" where
  "pop_1_and_peek_mut =
     and_then (read_st stack_len) (\<lambda>l.
     if l < 2 then throw StackUnderflow
     else let offset = l - 1 in
       and_then (slot_ref offset) (\<lambda>p0.
       and_then (set_len offset) (\<lambda>_.
       let offset = offset - 1 in
       and_then (slot_ref offset) (\<lambda>peeked.
       ret (p0, peeked)))))"

definition pop_2_and_peek_mut :: "((u256 \<times> u256) \<times> u256) stack_m" where
  "pop_2_and_peek_mut =
     and_then (read_st stack_len) (\<lambda>l.
     if l < 3 then throw StackUnderflow
     else let offset = l - 1 in
       and_then (slot_ref offset) (\<lambda>p0.
       let offset = offset - 1 in
       and_then (slot_ref offset) (\<lambda>p1.
       and_then (set_len offset) (\<lambda>_.
       let offset = offset - 1 in
       and_then (slot_ref offset) (\<lambda>peeked.
       ret ((p0, p1), peeked))))))"

definition pop_1_mut_and_peek :: "(u256 \<times> u256) stack_m" where
  "pop_1_mut_and_peek =
     and_then (read_st stack_len) (\<lambda>l.
     if l < 2 then throw StackUnderflow
     else let offset = l - 1 in
       and_then (slot_ref offset) (\<lambda>p0.
       and_then (set_len offset) (\<lambda>_.
       let offset = offset - 1 in
       and_then (slot_ref offset) (\<lambda>peeked.
       ret (p0, peeked)))))"

definition push_zero :: "unit stack_m" where
  "push_zero =
     and_then (read_st stack_len) (\<lambda>l.
     if l = STACK_SIZE then throw StackOverflow
     else and_then (slot_write l 0) (\<lambda>_. set_len (l + 1)))"

definition push_one :: "unit stack_m" where
  "push_one =
     and_then (read_st stack_len) (\<lambda>l.
     if l = STACK_SIZE then throw StackOverflow
     else and_then (slot_write l 1) (\<lambda>_. set_len (l + 1)))"

definition stack_push :: "u256 \<Rightarrow> unit stack_m" where
  "stack_push value =
     and_then (read_st stack_len) (\<lambda>l.
     if l = STACK_SIZE then throw StackOverflow
     else and_then (slot_write l value) (\<lambda>_. set_len (l + 1)))"

definition to_slice :: "(u256 list) stack_m" where
  "to_slice s =
     (if stack_len s \<le> STACK_SIZE \<and> (\<forall>i < stack_len s. stack_buffer s i \<noteq> None)
      then (Inr (map (\<lambda>i. the (stack_buffer s i)) [0..<stack_len s]), s) else (Inl Panic, s))"

definition peek_n :: "nat \<Rightarrow> u256 stack_m" where
  "peek_n index =
     and_then (read_st stack_len) (\<lambda>l.
     if l < index + 1 then throw StackUnderflow else slot_ref (l - (index + 1)))"

section \<open>The stack as a list\<close>

definition stack_ok :: "evm_stack \<Rightarrow> bool" where
  "stack_ok s \<longleftrightarrow> stack_len s \<le> STACK_SIZE \<and> (\<forall>i < stack_len s. stack_buffer s i \<noteq> None)"

definition slots :: "evm_stack \<Rightarrow> u256 list" where
  "slots s = map (\<lambda>i. the (stack_buffer s (stack_len s - Suc i))) [0..<stack_len s]"

lemma stack_ok_new: "stack_ok stack_new"
  by (simp add: stack_ok_def stack_new_def)

lemma slots_new: "slots stack_new = []"
  by (simp add: slots_def stack_new_def)

lemma length_slots [simp]: "length (slots s) = stack_len s"
  by (simp add: slots_def)

lemma slots_nth: "i < stack_len s \<Longrightarrow> slots s ! i = the (stack_buffer s (stack_len s - Suc i))"
  by (simp add: slots_def)

lemma slots_bound: "stack_ok s \<Longrightarrow> length (slots s) \<le> STACK_SIZE"
  by (simp add: stack_ok_def)

text \<open>Below the length, reading a slot is indexing the list.\<close>

lemma wp_slot_ref:
  assumes "stack_ok s" and "i < stack_len s"
  shows "wp (slot_ref i) Q E s = Q (slots s ! (stack_len s - Suc i)) s"
proof -
  obtain v where v: "stack_buffer s i = Some v" using assms by (auto simp: stack_ok_def)
  have "i < STACK_SIZE" using assms by (simp add: stack_ok_def)
  moreover have "stack_len s - Suc (stack_len s - Suc i) = i" using assms(2) by simp
  ultimately show ?thesis using v assms(2) by (simp add: wp_def slot_ref_def slots_nth)
qed

lemma wp_slot_write: "wp (slot_write i v) Q E s =
    (i < STACK_SIZE \<and> Q () (s\<lparr>stack_buffer := (stack_buffer s)(i := Some v)\<rparr>))"
  by (simp add: wp_def slot_write_def)

lemma wp_set_len [simp]: "wp (set_len n) Q E = (\<lambda>s. Q () (s\<lparr>stack_len := n\<rparr>))"
  by (simp add: set_len_def)

text \<open>Lowering the length drops the top words; writing past it pushes one.\<close>

lemma stack_ok_lower: "stack_ok s \<Longrightarrow> n \<le> stack_len s \<Longrightarrow> stack_ok (s\<lparr>stack_len := n\<rparr>)"
  by (auto simp: stack_ok_def)

lemma slots_lower: "n \<le> stack_len s \<Longrightarrow> slots (s\<lparr>stack_len := n\<rparr>) = drop (stack_len s - n) (slots s)"
  by (auto simp: list_eq_iff_nth_eq slots_nth)

lemma stack_ok_push:
  assumes "stack_ok s" and "stack_len s < STACK_SIZE"
  shows "stack_ok (s\<lparr>stack_buffer := (stack_buffer s)(stack_len s := Some v),
           stack_len := Suc (stack_len s)\<rparr>)"
  using assms by (auto simp: stack_ok_def less_Suc_eq)

lemma slots_push:
  "slots (s\<lparr>stack_buffer := (stack_buffer s)(stack_len s := Some v), stack_len := Suc (stack_len s)\<rparr>)
     = v # slots s"
  by (auto simp: list_eq_iff_nth_eq slots_nth nth_Cons split: nat.splits)

lemma stack_ok_write:
  "stack_ok s \<Longrightarrow> stack_ok (s\<lparr>stack_buffer := (stack_buffer s)(i := Some v)\<rparr>)"
  by (auto simp: stack_ok_def)

lemma slots_write:
  assumes "i < stack_len s"
  shows "slots (s\<lparr>stack_buffer := (stack_buffer s)(i := Some v)\<rparr>) =
         (slots s)[stack_len s - Suc i := v]"
proof (rule nth_equalityI)
  fix j assume "j < length (slots (s\<lparr>stack_buffer := (stack_buffer s)(i := Some v)\<rparr>))"
  then have j: "j < stack_len s" by simp
  then have "stack_len s - Suc j = i \<longleftrightarrow> stack_len s - Suc i = j" using assms by linarith
  with j show "slots (s\<lparr>stack_buffer := (stack_buffer s)(i := Some v)\<rparr>) ! j =
      (slots s)[stack_len s - Suc i := v] ! j"
    by (auto simp: slots_nth nth_list_update)
qed simp

lemma split_1: "\<not> length xs < 1 \<Longrightarrow> xs = xs ! 0 # drop 1 xs"
  by (cases xs) auto

lemma split_2: "\<not> length xs < 2 \<Longrightarrow> xs = xs ! 0 # xs ! 1 # drop 2 xs"
  by (cases xs; cases "tl xs") auto

lemma split_3: "\<not> length xs < 3 \<Longrightarrow> xs = xs ! 0 # xs ! 1 # xs ! 2 # drop 3 xs"
  by (cases xs; cases "tl xs"; cases "tl (tl xs)") (auto simp: numeral_3_eq_3)

lemma split_4: "\<not> length xs < 4 \<Longrightarrow> xs = xs ! 0 # xs ! 1 # xs ! 2 # xs ! 3 # drop 4 xs"
  by (cases xs; cases "tl xs"; cases "tl (tl xs)"; cases "tl (tl (tl xs))")
     (auto simp: numeral_3_eq_3 numeral_eq_Suc)

lemma slots_drop: "slots (s\<lparr>stack_len := stack_len s - n\<rparr>) = drop n (slots s)"
proof (cases "n \<le> stack_len s")
  case True
  then show ?thesis by (simp add: slots_lower)
qed (simp add: slots_def)

lemma stack_ok_drop: "stack_ok s \<Longrightarrow> stack_ok (s\<lparr>stack_len := stack_len s - n\<rparr>)"
  by (simp add: stack_ok_lower)

lemma wp_read_slot:
  assumes "stack_ok s" and "k < stack_len s"
  shows "wp (slot_ref (stack_len s - Suc k)) Q E s = Q (slots s ! k) s"
  using assms by (simp add: wp_slot_ref Suc_diff_Suc)

section \<open>What each operation does to the list\<close>

lemma wp_pop_1 [wp_intro]:
  assumes "stack_ok s"
    and "\<And>a t. stack_ok t \<Longrightarrow> slots s = a # slots t \<Longrightarrow> Q a t"
    and "length (slots s) < 1 \<Longrightarrow> E StackUnderflow s"
  shows "wp pop_1 Q E s"
proof (cases "stack_len s < 1")
  case False
  let ?t = "s\<lparr>stack_len := stack_len s - 1\<rparr>"
  have "Q (slots s ! 0) ?t"
    using split_1 [of "slots s"] False
    by (intro assms(2) stack_ok_drop [OF assms(1)]) (simp add: slots_drop)
  then show ?thesis using False wp_read_slot [OF assms(1), of 0] by (simp add: pop_1_def Let_def)
qed (use assms(3) in \<open>simp add: pop_1_def\<close>)

lemma wp_pop_2 [wp_intro]:
  assumes "stack_ok s"
    and "\<And>a b t. stack_ok t \<Longrightarrow> slots s = a # b # slots t \<Longrightarrow> Q (a, b) t"
    and "length (slots s) < 2 \<Longrightarrow> E StackUnderflow s"
  shows "wp pop_2 Q E s"
proof (cases "stack_len s < 2")
  case False
  let ?t = "s\<lparr>stack_len := stack_len s - 2\<rparr>"
  have "Q (slots s ! 0, slots s ! 1) ?t"
    using split_2 [of "slots s"] False
    by (intro assms(2) stack_ok_drop [OF assms(1)]) (simp add: slots_drop)
  then show ?thesis
    using False wp_read_slot [OF assms(1), of 0] wp_read_slot [OF assms(1), of 1]
    by (simp add: pop_2_def Let_def numeral_2_eq_2)
qed (use assms(3) in \<open>simp add: pop_2_def\<close>)

lemma wp_pop_3 [wp_intro]:
  assumes "stack_ok s"
    and "\<And>a b c t. stack_ok t \<Longrightarrow> slots s = a # b # c # slots t \<Longrightarrow> Q (a, b, c) t"
    and "length (slots s) < 3 \<Longrightarrow> E StackUnderflow s"
  shows "wp pop_3 Q E s"
proof (cases "stack_len s < 3")
  case False
  let ?t = "s\<lparr>stack_len := stack_len s - 3\<rparr>"
  have "Q (slots s ! 0, slots s ! 1, slots s ! 2) ?t"
    using split_3 [of "slots s"] False
    by (intro assms(2) stack_ok_drop [OF assms(1)]) (simp add: slots_drop)
  then show ?thesis
    using False wp_read_slot [OF assms(1), of 0] wp_read_slot [OF assms(1), of 1]
      wp_read_slot [OF assms(1), of 2]
    by (simp add: pop_3_def Let_def numeral_2_eq_2 numeral_3_eq_3)
qed (use assms(3) in \<open>simp add: pop_3_def\<close>)

lemma wp_pop_4 [wp_intro]:
  assumes "stack_ok s"
    and "\<And>a b c d t. stack_ok t \<Longrightarrow> slots s = a # b # c # d # slots t \<Longrightarrow> Q (a, b, c, d) t"
    and "length (slots s) < 4 \<Longrightarrow> E StackUnderflow s"
  shows "wp pop_4 Q E s"
proof (cases "stack_len s < 4")
  case False
  let ?t = "s\<lparr>stack_len := stack_len s - 4\<rparr>"
  have "Q (slots s ! 0, slots s ! 1, slots s ! 2, slots s ! 3) ?t"
    using split_4 [of "slots s"] False
    by (intro assms(2) stack_ok_drop [OF assms(1)]) (simp add: slots_drop)
  then show ?thesis
    using False wp_read_slot [OF assms(1), of 0] wp_read_slot [OF assms(1), of 1]
      wp_read_slot [OF assms(1), of 2] wp_read_slot [OF assms(1), of 3]
    by (simp add: pop_4_def Let_def numeral_eq_Suc)
qed (use assms(3) in \<open>simp add: pop_4_def\<close>)

lemma wp_pop_and_ignore [wp_intro]:
  assumes "stack_ok s"
    and "\<And>a t. stack_ok t \<Longrightarrow> slots s = a # slots t \<Longrightarrow> Q () t"
    and "length (slots s) < 1 \<Longrightarrow> E StackUnderflow s"
  shows "wp pop_and_ignore Q E s"
proof (cases "stack_len s < 1")
  case False
  let ?t = "s\<lparr>stack_len := stack_len s - 1\<rparr>"
  have "Q () ?t"
    using split_1 [of "slots s"] False
    by (intro assms(2) [of _ "slots s ! 0"] stack_ok_drop [OF assms(1)]) (simp add: slots_drop)
  then show ?thesis using False by (simp add: pop_and_ignore_def)
qed (use assms(3) in \<open>simp add: pop_and_ignore_def\<close>)

lemma wp_top_mut [wp_intro]:
  assumes "stack_ok s"
    and "\<And>a xs. slots s = a # xs \<Longrightarrow> Q a s"
    and "length (slots s) < 1 \<Longrightarrow> E StackUnderflow s"
  shows "wp top_mut Q E s"
proof (cases "stack_len s < 1")
  case False
  then show ?thesis
    using assms(2) [OF split_1] wp_read_slot [OF assms(1), of 0] by (simp add: top_mut_def)
qed (use assms(3) in \<open>simp add: top_mut_def\<close>)

lemma wp_pop_1_and_peek_mut [wp_intro]:
  assumes "stack_ok s"
    and "\<And>a b xs t. stack_ok t \<Longrightarrow> slots s = a # b # xs \<Longrightarrow> slots t = b # xs \<Longrightarrow> Q (a, b) t"
    and "length (slots s) < 2 \<Longrightarrow> E StackUnderflow s"
  shows "wp pop_1_and_peek_mut Q E s"
proof (cases "stack_len s < 2")
  case False
  let ?t = "s\<lparr>stack_len := stack_len s - 1\<rparr>"
  note ok = stack_ok_drop [OF assms(1)]
  have sl: "slots s = slots s ! 0 # slots s ! 1 # drop 2 (slots s)" by (rule split_2) (use False in simp)
  have tl: "slots ?t = slots s ! 1 # drop 2 (slots s)" by (subst slots_drop, subst sl) simp
  have "Q (slots s ! 0, slots s ! 1) ?t" by (rule assms(2) [OF ok sl tl])
  then show ?thesis
    using False wp_read_slot [OF assms(1), of 0] wp_read_slot [OF ok [of 1], of 0] tl
    by (simp add: pop_1_and_peek_mut_def Let_def)
qed (use assms(3) in \<open>simp add: pop_1_and_peek_mut_def\<close>)

lemma pop_1_mut_and_peek_eq: "pop_1_mut_and_peek = pop_1_and_peek_mut"
  by (simp add: pop_1_mut_and_peek_def pop_1_and_peek_mut_def)

lemma wp_pop_2_and_peek_mut [wp_intro]:
  assumes "stack_ok s"
    and "\<And>a b c xs t. stack_ok t \<Longrightarrow> slots s = a # b # c # xs \<Longrightarrow> slots t = c # xs \<Longrightarrow>
           Q ((a, b), c) t"
    and "length (slots s) < 3 \<Longrightarrow> E StackUnderflow s"
  shows "wp pop_2_and_peek_mut Q E s"
proof (cases "stack_len s < 3")
  case False
  let ?t = "s\<lparr>stack_len := stack_len s - 2\<rparr>"
  note ok = stack_ok_drop [OF assms(1)]
  have sl: "slots s = slots s ! 0 # slots s ! 1 # slots s ! 2 # drop 3 (slots s)"
    by (rule split_3) (use False in simp)
  have tl: "slots ?t = slots s ! 2 # drop 3 (slots s)" by (subst slots_drop, subst sl) simp
  have "Q ((slots s ! 0, slots s ! 1), slots s ! 2) ?t" by (rule assms(2) [OF ok sl tl])
  then show ?thesis
    using False wp_read_slot [OF assms(1), of 0] wp_read_slot [OF assms(1), of 1]
      wp_read_slot [OF ok [of 2], of 0] tl
    by (simp add: pop_2_and_peek_mut_def Let_def numeral_2_eq_2)
qed (use assms(3) in \<open>simp add: pop_2_and_peek_mut_def\<close>)

lemma wp_set_top [wp_intro]:
  assumes "stack_ok s" and "slots s = a # xs"
    and "\<And>t. stack_ok t \<Longrightarrow> slots t = v # xs \<Longrightarrow> Q () t"
  shows "wp (set_top v) Q E s"
proof -
  have len: "stack_len s = Suc (length xs)" using arg_cong [OF assms(2), of length] by simp
  then have "stack_len s - 1 < STACK_SIZE" using slots_bound [OF assms(1)] by simp
  moreover have "slots (s\<lparr>stack_buffer := (stack_buffer s)(stack_len s - 1 := Some v)\<rparr>) = v # xs"
    using slots_write [of "stack_len s - 1" s v] len assms(2) by simp
  ultimately show ?thesis
    by (auto simp: set_top_def wp_slot_write intro!: assms(3) stack_ok_write [OF assms(1)])
qed

lemma wp_stack_push [wp_intro]:
  assumes "stack_ok s"
    and "\<And>t. length (slots s) \<noteq> STACK_SIZE \<Longrightarrow> stack_ok t \<Longrightarrow> slots t = v # slots s \<Longrightarrow> Q () t"
    and "length (slots s) = STACK_SIZE \<Longrightarrow> E StackOverflow s"
  shows "wp (stack_push v) Q E s"
proof (cases "stack_len s = STACK_SIZE")
  case False
  then have "stack_len s < STACK_SIZE" using slots_bound [OF assms(1)] by simp
  then show ?thesis
    by (auto simp: stack_push_def wp_slot_write slots_push
        intro!: assms(2) stack_ok_push [OF assms(1)])
qed (use assms(3) in \<open>simp add: stack_push_def\<close>)

lemma push_zero_eq: "push_zero = stack_push 0"
  by (simp add: push_zero_def stack_push_def)

lemma push_one_eq: "push_one = stack_push 1"
  by (simp add: push_one_def stack_push_def)

lemma wp_stack_dup [wp_intro]:
  assumes "stack_ok s"
    and "\<And>t. length (slots s) \<noteq> STACK_SIZE \<Longrightarrow> n < length (slots s) \<Longrightarrow> stack_ok t \<Longrightarrow>
          slots t = slots s ! n # slots s \<Longrightarrow> Q () t"
    and "length (slots s) = STACK_SIZE \<Longrightarrow> E StackOverflow s"
    and "length (slots s) \<noteq> STACK_SIZE \<Longrightarrow> length (slots s) \<le> n \<Longrightarrow> E StackUnderflow s"
  shows "wp (stack_dup (Suc n)) Q E s"
proof (cases "stack_len s = STACK_SIZE \<or> stack_len s \<le> n")
  case False
  then have "stack_len s < STACK_SIZE" using slots_bound [OF assms(1)] by simp
  then show ?thesis using False
    by (auto simp: stack_dup_def Let_def wp_slot_write slots_push
        wp_read_slot [OF assms(1)] intro!: assms(2) stack_ok_push [OF assms(1)])
qed (use assms(3, 4) in \<open>auto simp: stack_dup_def\<close>)

lemma wp_stack_swap [wp_intro]:
  assumes "stack_ok s"
    and "\<And>t. Suc n < length (slots s) \<Longrightarrow> stack_ok t \<Longrightarrow>
          slots t = (slots s)[0 := slots s ! Suc n, Suc n := slots s ! 0] \<Longrightarrow> Q () t"
    and "length (slots s) \<le> Suc n \<Longrightarrow> E StackUnderflow s"
  shows "wp (stack_swap (Suc n)) Q E s"
proof (cases "stack_len s \<le> Suc n")
  case False
  then have i: "stack_len s - Suc 0 - Suc n = stack_len s - Suc (Suc n)"
    "stack_len s - Suc 0 < STACK_SIZE" "stack_len s - Suc (Suc n) < STACK_SIZE"
    using slots_bound [OF assms(1)] by auto
  have k: "stack_len s - Suc (stack_len s - Suc (Suc n)) = Suc n"
    "stack_len s - Suc (stack_len s - Suc 0) = 0" using False by auto
  let ?t = "s\<lparr>stack_buffer := (stack_buffer s)
      (stack_len s - Suc 0 \<mapsto> slots s ! Suc n, stack_len s - Suc (Suc n) \<mapsto> slots s ! 0)\<rparr>"
  have "slots ?t = (slots s)[0 := slots s ! Suc n, Suc n := slots s ! 0]"
    using False k slots_write [of "stack_len s - Suc 0" s "slots s ! Suc n"]
      slots_write [of "stack_len s - Suc (Suc n)"
        "s\<lparr>stack_buffer := (stack_buffer s)(stack_len s - Suc 0 \<mapsto> slots s ! Suc n)\<rparr>" "slots s ! 0"]
    by simp
  moreover have "stack_ok ?t"
    using stack_ok_write [OF stack_ok_write [OF assms(1)]] by simp
  ultimately have "Q () ?t" using False by (intro assms(2)) auto
  then show ?thesis using False i wp_read_slot [OF assms(1), of 0] wp_read_slot [OF assms(1), of "Suc n"]
    by (auto simp: stack_swap_def Let_def wp_slot_write)
qed (use assms(3) in \<open>auto simp: stack_swap_def Let_def\<close>)

lemma wp_to_slice: "stack_ok s \<Longrightarrow> wp to_slice Q E s = Q (rev (slots s)) s"
proof -
  assume "stack_ok s"
  moreover have "rev (slots s) = map (\<lambda>i. the (stack_buffer s i)) [0..<stack_len s]"
    by (rule nth_equalityI) (auto simp: rev_nth slots_nth)
  ultimately show ?thesis by (simp add: wp_def to_slice_def stack_ok_def)
qed

lemma wp_peek_n:
  assumes "stack_ok s"
  shows "wp (peek_n k) Q E s =
     (if k < length (slots s) then Q (slots s ! k) s else E StackUnderflow s)"
  using wp_read_slot [OF assms, of k] by (auto simp: peek_n_def)

section \<open>Refinement of a bounded list\<close>

text \<open>
  The calls the instructions make. \<open>Unary\<close>, \<open>Binary\<close> and \<open>Ternary\<close> stand for the methods
  that pop operands and then write a result through the reference to the new top.
\<close>

datatype stack_op =
  Push u256 | PushZero | PushOne | Dup nat | Swap nat | PopIgnore | Pop1 | Pop2 | Pop3 | Pop4
| Unary "u256 \<Rightarrow> u256" | Binary "u256 \<Rightarrow> u256 \<Rightarrow> u256" | BinaryMut "u256 \<Rightarrow> u256 \<Rightarrow> u256"
| Ternary "u256 \<Rightarrow> u256 \<Rightarrow> u256 \<Rightarrow> u256" | Slice | Peek nat

fun stack_exec :: "stack_op \<Rightarrow> (u256 list) stack_m" where
  "stack_exec (Push v) = and_then (stack_push v) (\<lambda>_. ret [])"
| "stack_exec PushZero = and_then push_zero (\<lambda>_. ret [])"
| "stack_exec PushOne = and_then push_one (\<lambda>_. ret [])"
| "stack_exec (Dup n) = and_then (stack_dup (Suc n)) (\<lambda>_. ret [])"
| "stack_exec (Swap n) = and_then (stack_swap (Suc n)) (\<lambda>_. ret [])"
| "stack_exec PopIgnore = and_then pop_and_ignore (\<lambda>_. ret [])"
| "stack_exec Pop1 = and_then pop_1 (\<lambda>a. ret [a])"
| "stack_exec Pop2 = and_then pop_2 (\<lambda>(a, b). ret [a, b])"
| "stack_exec Pop3 = and_then pop_3 (\<lambda>(a, b, c). ret [a, b, c])"
| "stack_exec Pop4 = and_then pop_4 (\<lambda>(a, b, c, d). ret [a, b, c, d])"
| "stack_exec (Unary f) = and_then top_mut (\<lambda>a. and_then (set_top (f a)) (\<lambda>_. ret []))"
| "stack_exec (Binary f) =
     and_then pop_1_and_peek_mut (\<lambda>(a, b). and_then (set_top (f a b)) (\<lambda>_. ret []))"
| "stack_exec (BinaryMut f) =
     and_then pop_1_mut_and_peek (\<lambda>(a, b). and_then (set_top (f a b)) (\<lambda>_. ret []))"
| "stack_exec (Ternary f) =
     and_then pop_2_and_peek_mut (\<lambda>((a, b), c). and_then (set_top (f a b c)) (\<lambda>_. ret []))"
| "stack_exec Slice = to_slice"
| "stack_exec (Peek n) = and_then (peek_n n) (\<lambda>a. ret [a])"

text \<open>The same calls on a list of at most 1024 words, top first.\<close>

definition list_push :: "u256 \<Rightarrow> (u256 list, exit_code, u256 list) rs" where
  "list_push v xs =
     (if length xs = STACK_SIZE then (Inl (Err StackOverflow), xs) else (Inr [], v # xs))"

fun list_pop :: "nat \<Rightarrow> (u256 list \<Rightarrow> u256 list \<times> u256 list) \<Rightarrow> (u256 list, exit_code, u256 list) rs" where
  "list_pop n f xs =
     (if length xs < n then (Inl (Err StackUnderflow), xs)
      else case f (take n xs) of (res, new) \<Rightarrow> (Inr res, new @ drop n xs))"

fun list_exec :: "stack_op \<Rightarrow> (u256 list, exit_code, u256 list) rs" where
  "list_exec (Push v) = list_push v"
| "list_exec PushZero = list_push 0"
| "list_exec PushOne = list_push 1"
| "list_exec (Dup n) =
     (\<lambda>xs. if length xs = STACK_SIZE then (Inl (Err StackOverflow), xs)
       else if n < length xs then (Inr [], xs ! n # xs) else (Inl (Err StackUnderflow), xs))"
| "list_exec (Swap n) =
     (\<lambda>xs. if Suc n < length xs then (Inr [], xs[0 := xs ! Suc n, Suc n := xs ! 0])
       else (Inl (Err StackUnderflow), xs))"
| "list_exec PopIgnore = list_pop 1 (\<lambda>_. ([], []))"
| "list_exec Pop1 = list_pop 1 (\<lambda>ys. (ys, []))"
| "list_exec Pop2 = list_pop 2 (\<lambda>ys. (ys, []))"
| "list_exec Pop3 = list_pop 3 (\<lambda>ys. (ys, []))"
| "list_exec Pop4 = list_pop 4 (\<lambda>ys. (ys, []))"
| "list_exec (Unary f) = list_pop 1 (\<lambda>ys. ([], [f (ys ! 0)]))"
| "list_exec (Binary f) = list_pop 2 (\<lambda>ys. ([], [f (ys ! 0) (ys ! 1)]))"
| "list_exec (BinaryMut f) = list_pop 2 (\<lambda>ys. ([], [f (ys ! 0) (ys ! 1)]))"
| "list_exec (Ternary f) = list_pop 3 (\<lambda>ys. ([], [f (ys ! 0) (ys ! 1) (ys ! 2)]))"
| "list_exec Slice = (\<lambda>xs. (Inr (rev xs), xs))"
| "list_exec (Peek n) =
     (\<lambda>xs. if n < length xs then (Inr [xs ! n], xs) else (Inl (Err StackUnderflow), xs))"

text \<open>A run of calls; a failed call leaves the stack as it was and the run goes on.\<close>

fun run_calls :: "('op \<Rightarrow> ('s, 'e, 'a) rs) \<Rightarrow> 'op list \<Rightarrow> 's \<Rightarrow> ('e fault + 'a) list \<times> 's" where
  "run_calls f [] s = ([], s)"
| "run_calls f (c # cs) s =
     (case f c s of (x, t) \<Rightarrow> case run_calls f cs t of (xs, u) \<Rightarrow> (x # xs, u))"

lemma wp_stack_exec:
  assumes "stack_ok s"
  shows "wp (stack_exec c) (\<lambda>x t. stack_ok t \<and> list_exec c (slots s) = (Inr x, slots t))
           (\<lambda>e t. stack_ok t \<and> list_exec c (slots s) = (Inl (Err e), slots t)) s"
  using assms
  by (cases c)
     (auto simp: push_zero_eq push_one_eq pop_1_mut_and_peek_eq list_push_def wp_to_slice wp_peek_n
        numeral_eq_Suc simp del: length_slots intro!: wp_intro)

lemma stack_exec_refines:
  assumes "stack_ok s" and "stack_exec c s = (x, t)"
  shows "stack_ok t \<and> list_exec c (slots s) = (x, slots t)"
  using wp_stack_exec [OF assms(1), of c] assms(2)
  by (auto simp: wp_def split: sum.splits fault.splits)

lemma stack_run_refines:
  assumes "stack_ok s" and "run_calls stack_exec cs s = (xs, t)"
  shows "stack_ok t \<and> run_calls list_exec cs (slots s) = (xs, slots t)"
  using assms
proof (induction cs arbitrary: s xs)
  case (Cons c cs)
  obtain x u where u: "stack_exec c s = (x, u)" by fastforce
  obtain ys where ys: "run_calls stack_exec cs u = (ys, t)" and xs: "xs = x # ys"
    using Cons.prems(2) u by (auto split: prod.splits)
  show ?case using stack_exec_refines [OF Cons.prems(1) u] Cons.IH [OF _ ys] xs by simp
qed simp


end
