(* ===== verification/Evm_Machine.thy ===== *)
theory Evm_Machine
  imports Evm_Gas Evm_Stack Evm_Bytecode
begin

text \<open>
  The state of an EVM frame (\<open>Interpreter\<close> in \<^verbatim>\<open>evm_interpreter/src/lib.rs\<close>), the requests with
  which it yields (\<^verbatim>\<open>evm_interpreter/src/interpreter.rs\<close>,
  \<^verbatim>\<open>zk_ee/src/system/execution_environment\<close>), and the system it runs on. The interpreter is
  generic in the system types, and so is the model: \<open>evm_system\<close> is the interface it calls
  (the block and transaction metadata, the system function \<open>keccak256\<close> and the IO subsystem
  over a state \<open>'io\<close>), an argument of every definition that uses it. Calls pass the execution
  environment type EVM. Logging and tracing have no effect on the state and are left out.
\<close>

section \<open>The system below\<close>

type_synonym ('io, 'e, 'a) io_op = "(base_resources \<times> 'io, 'e, 'a) rs"

record 'io evm_system =
  chain_id :: u64
  coinbase :: b160
  block_timestamp :: u64
  block_number :: u64
  block_gas_limit :: u64
  tx_gas_price :: u256
  eip1559_basefee :: u256
  tx_origin :: b160
  block_historical_hash :: "u64 \<Rightarrow> u256 option"
  get_blob_hash :: "nat \<Rightarrow> u256 option"
  blob_base_fee_per_gas :: u256
  keccak256 :: "bytes \<Rightarrow> (base_resources, system_error, u256) rs"
  storage_read :: "bool \<Rightarrow> b160 \<Rightarrow> u256 \<Rightarrow> ('io, system_error, u256) io_op"
  storage_write :: "bool \<Rightarrow> b160 \<Rightarrow> u256 \<Rightarrow> u256 \<Rightarrow> ('io, system_error, unit) io_op"
  get_nominal_token_balance :: "b160 \<Rightarrow> ('io, system_error, u256) io_op"
  get_selfbalance :: "b160 \<Rightarrow> ('io, system_error, u256) io_op"
  get_observable_bytecode_size :: "b160 \<Rightarrow> ('io, system_error, u32) io_op"
  get_observable_bytecode_hash :: "b160 \<Rightarrow> ('io, system_error, u256) io_op"
  get_observable_bytecode :: "b160 \<Rightarrow> ('io, system_error, bytes) io_op"
  emit_event :: "b160 \<Rightarrow> u256 list \<Rightarrow> bytes \<Rightarrow> ('io, system_error, unit) io_op"
  mark_for_deconstruction ::
    "b160 \<Rightarrow> b160 \<Rightarrow> bool \<Rightarrow> ('io, deconstruction_subsystem_error, unit) io_op"
  read_nominal_token_balance :: "b160 \<Rightarrow> ('io, system_error, u256) io_op"
  read_nonce_and_has_bytecode :: "b160 \<Rightarrow> ('io, system_error, u64 \<times> bool) io_op"
  increment_nonce :: "b160 \<Rightarrow> u64 \<Rightarrow> ('io, nonce_subsystem_error, u64) io_op"

text \<open>
  \<open>System::get_mix_hash\<close>, built without the feature \<open>prevrandao\<close>, and
  \<open>System::get_blockhash\<close>.
\<close>

definition get_mix_hash :: "'io evm_system \<Rightarrow> u256" where
  "get_mix_hash sys = 1"

definition get_blockhash :: "'io evm_system \<Rightarrow> u64 \<Rightarrow> ('s, 'e, u256) rs" where
  "get_blockhash sys n =
     (let current_block_number = block_number sys in
      if n \<ge> current_block_number \<or> n < saturating_sub current_block_number 256 then ret 0
      else expect (block_historical_hash sys (current_block_number - n - 1)))"

section \<open>Requests and results\<close>

datatype call_scheme = SchemeCall | SchemeCallCode | SchemeDelegateCall | SchemeStaticCall

datatype create_scheme = Create | Create2 u256

record evm_call_request =
  req_gas_to_pass :: u64
  req_call_value :: u256
  req_destination_address :: b160
  req_calldata :: "nat \<times> nat"
  req_modifier :: call_modifier

record evm_deployment_request =
  dep_deployment_code :: "nat \<times> nat"
  dep_scheme :: "create_scheme option"
  dep_deployer_full_resources :: base_resources
  dep_nominal_token_value :: u256

datatype external_call = CallRequest evm_call_request | CreateRequest evm_deployment_request

record external_call_request =
  available_resources :: base_resources
  ergs_to_pass :: ergs
  call_caller :: b160
  callee :: b160
  callers_caller :: b160
  modifier :: call_modifier
  call_calldata :: bytes
  nominal_token_value :: u256

definition is_transfer_allowed :: "external_call_request \<Rightarrow> bool" where
  "is_transfer_allowed r \<longleftrightarrow>
     modifier r \<in> {NoModifier, Constructor, ZKVMSystem, EVMCallcode, EVMCallcodeStatic}"

definition is_delegate :: "external_call_request \<Rightarrow> bool" where
  "is_delegate r \<longleftrightarrow> modifier r = Delegate \<or> modifier r = DelegateStatic"

definition is_callcode :: "external_call_request \<Rightarrow> bool" where
  "is_callcode r \<longleftrightarrow> modifier r = EVMCallcode \<or> modifier r = EVMCallcodeStatic"

record deployment_preparation_parameters =
  address_of_deployer :: b160
  deployment_code :: bytes
  constructor_parameters :: bytes
  ee_specific_deployment_processing_data :: "create_scheme option"
  deployer_full_resources :: base_resources
  deployment_token_value :: u256
  deployer_nonce :: "u64 option"

datatype spawn_request =
  RequestedExternalCall external_call_request
| RequestedDeployment deployment_preparation_parameters

datatype call_result = CallFailedToExecute | CallFailed bytes | CallSuccessful bytes

datatype deployment_result =
  DeploymentFailed bytes bool
| DeploymentSuccessful bytes bytes b160

datatype end_point =
  CompletedExecution base_resources bytes bool
| CompletedDeployment base_resources deployment_result

datatype preemption_point = Spawn spawn_request slice_vec | End end_point

datatype code_source = Decommitted bytes u32 u32 u8 | ConstructorCode bytes

section \<open>The frame\<close>

record interpreter =
  instruction_pointer :: nat
  gas :: gas
  stack :: evm_stack
  caller :: b160
  self_address :: b160
  calldata :: bytes
  returndata :: bytes
  heap :: slice_vec
  returndata_location :: "nat \<times> nat"
  bytecode :: bytes
  bytecode_preprocessing :: bytecode_preprocessing_data
  call_value :: u256
  is_static :: bool
  is_constructor :: bool

text \<open>The frame with the IO state and the place where an instruction leaves a request.\<close>

record 'io machine = interpreter +
  io :: 'io
  external_call_dest :: "external_call option"

type_synonym ('io, 'a) evm_m = "('io machine, exit_code, 'a) rs"
type_synonym 'io instr = "('io machine, exit_code, unit) rs"

definition on_stack :: "'a stack_m \<Rightarrow> ('io, 'a) evm_m" where
  "on_stack = on_part stack (\<lambda>s m. m\<lparr>stack := s\<rparr>) (\<lambda>e. e)"

definition on_gas :: "(gas, 'e, 'a) rs \<Rightarrow> ('io machine, 'e, 'a) rs" where
  "on_gas = on_part gas (\<lambda>g m. m\<lparr>gas := g\<rparr>) (\<lambda>e. e)"

definition on_res :: "('e \<Rightarrow> exit_code) \<Rightarrow> (base_resources, 'e, 'a) rs \<Rightarrow> ('io, 'a) evm_m" where
  "on_res conv m = on_gas (on_gas_resources conv m)"

definition on_io :: "('e \<Rightarrow> exit_code) \<Rightarrow> ('io, 'e, 'a) io_op \<Rightarrow> ('io, 'a) evm_m" where
  "on_io =
     on_part (\<lambda>m. (gas_resources (gas m), io m))
       (\<lambda>(r, i) m. m\<lparr>gas := gas m\<lparr>gas_resources := r\<rparr>, io := i\<rparr>)"

definition spend :: "u64 \<Rightarrow> u64 \<Rightarrow> 'io instr" where
  "spend g n = on_gas (spend_gas_and_native g n)"

definition resize_heap :: "nat \<Rightarrow> nat \<Rightarrow> nat \<Rightarrow> 'io instr" where
  "resize_heap W offset l =
     on_part (\<lambda>m. (heap m, gas m)) (\<lambda>(h, g) m. m\<lparr>heap := h, gas := g\<rparr>) (\<lambda>e. e)
       (resize_heap_implementation W offset l)"

definition memory_len :: "'io machine \<Rightarrow> nat" where
  "memory_len m = length (contents (heap m))"

definition clear_last_returndata :: "'io instr" where
  "clear_last_returndata = modify_st (\<lambda>m. m\<lparr>returndata_location := (0, 0)\<rparr>)"

text \<open>
  Reads and writes of \<open>n\<close> bytes of the heap, by slice or raw pointer: outside the initialised
  part they are \<open>Panic\<close>. An addition of two \<open>usize\<close> values that overflows is \<open>Panic\<close>.
\<close>

definition heap_read :: "nat \<Rightarrow> nat \<Rightarrow> ('io, bytes) evm_m" where
  "heap_read at n =
     and_then (read_st (\<lambda>m. contents (heap m))) (\<lambda>bs.
     if at + n \<le> length bs then ret (take n (drop at bs)) else panic)"

definition heap_write :: "nat \<Rightarrow> bytes \<Rightarrow> 'io instr" where
  "heap_write at src =
     and_then (read_st (\<lambda>m. contents (heap m))) (\<lambda>bs.
     if at + length src \<le> length bs
     then modify_st (\<lambda>m. m\<lparr>heap := heap m\<lparr>contents :=
            take at bs @ src @ drop (at + length src) bs\<rparr>\<rparr>)
     else panic)"

definition usize_add :: "nat \<Rightarrow> nat \<Rightarrow> nat \<Rightarrow> ('s, 'e, nat) rs" where
  "usize_add W a b = (if a + b < 2 ^ W then ret (a + b) else panic)"

definition get_bytecode_unchecked :: "'io machine \<Rightarrow> nat \<Rightarrow> u8" where
  "get_bytecode_unchecked m offset =
     (if offset < length (bytecode m) then bytecode m ! offset else OP_STOP)"

end
