(* ===== verification/Io_Subsystem.thy ===== *)
theory Io_Subsystem
  imports Flat_Storage Transient_Storage Logs_Storage Evm_Machine
begin

text \<open>
  The IO subsystem (\<open>BasicStorageModel\<close> in
  \<^verbatim>\<open>basic_system/src/system_implementation/system/basic_storage_model.rs\<close>): the flat storage,
  the transient storage, the logs and the events behind one interface with frames, and the
  system function keccak256 (\<^verbatim>\<open>basic_system/src/system_functions/keccak256.rs\<close>). The last
  definition hands this subsystem to the interpreter, as the value of the parameter that the
  EVM theories are built on.
\<close>

section \<open>State\<close>

record io_state =
  io_storage :: flat_storage
  io_transient :: transient_storage
  io_logs :: logs_storage
  io_events :: events_storage
  io_tx_number :: u32

type_synonym ('e, 'a) io_m = "(base_resources \<times> io_state, 'e, 'a) rs"

definition io_init :: io_state where
  "io_init = \<lparr>io_storage = flat_construct, io_transient = transient_new, io_logs = logs_new,
     io_events = events_new, io_tx_number = 0\<rparr>"

definition io_flat :: "(flat_st, 'e, 'a) rs \<Rightarrow> ('e, 'a) io_m" where
  "io_flat = on_part (\<lambda>(r, i). (io_storage i, r)) (\<lambda>(f, r) (_, i). (r, i\<lparr>io_storage := f\<rparr>)) (\<lambda>e. e)"

definition io_charge :: "base_resources \<Rightarrow> (system_error, unit) io_m" where
  "io_charge c = on_part fst (\<lambda>r s. (r, snd s)) (\<lambda>e. e) (resources_charge c)"

definition on_transient :: "(transient_storage, 'e, 'a) rs \<Rightarrow> (io_state, 'e, 'a) rs" where
  "on_transient = on_part io_transient (\<lambda>t i. i\<lparr>io_transient := t\<rparr>) (\<lambda>e. e)"

definition on_logs :: "(logs_storage, 'e, 'a) rs \<Rightarrow> (io_state, 'e, 'a) rs" where
  "on_logs = on_part io_logs (\<lambda>l i. i\<lparr>io_logs := l\<rparr>) (\<lambda>e. e)"

definition on_events :: "(events_storage, 'e, 'a) rs \<Rightarrow> (io_state, 'e, 'a) rs" where
  "on_events = on_part io_events (\<lambda>l i. i\<lparr>io_events := l\<rparr>) (\<lambda>e. e)"

definition on_flat :: "(flat_storage, 'e, 'a) rs \<Rightarrow> (io_state, 'e, 'a) rs" where
  "on_flat = on_part io_storage (\<lambda>f i. i\<lparr>io_storage := f\<rparr>) (\<lambda>e. e)"

definition io_part :: "('e \<Rightarrow> 'f) \<Rightarrow> (io_state, 'e, 'a) rs \<Rightarrow> ('f, 'a) io_m" where
  "io_part = on_part snd (\<lambda>i s. (fst s, i))"

section \<open>Hashing\<close>

definition KECCAK256_STATIC_COST_ERGS :: ergs where "KECCAK256_STATIC_COST_ERGS = 30 * ERGS_PER_GAS"
definition KECCAK256_PER_WORD_COST_ERGS :: ergs where "KECCAK256_PER_WORD_COST_ERGS = 6 * ERGS_PER_GAS"

definition keccak256_execute :: "io_env \<Rightarrow> bytes \<Rightarrow> (base_resources, system_error, u256) rs" where
  "keccak256_execute env src =
     (let words = (length src + 31) div 32 in
      and_then (expect (ergs_times KECCAK256_PER_WORD_COST_ERGS (word_of_nat words))) (\<lambda>word_cost.
      and_then (expect (checked_add KECCAK256_STATIC_COST_ERGS word_cost)) (\<lambda>ergs_cost.
      and_then (keccak256_native_cost (length src)) (\<lambda>native_cost.
      and_then (resources_charge (from_ergs_and_native ergs_cost native_cost)) (\<lambda>_.
      ret (keccak_digest env src))))))"

section \<open>Slots\<close>

definition TLOAD_COST :: u64 where "TLOAD_COST = 100"
definition TSTORE_COST :: u64 where "TSTORE_COST = 100"
definition WARM_TSTORAGE_READ_NATIVE_COST :: u64 where "WARM_TSTORAGE_READ_NATIVE_COST = 4000"
definition WARM_TSTORAGE_WRITE_NATIVE_COST :: u64 where "WARM_TSTORAGE_WRITE_NATIVE_COST = 4000"

definition ee_ergs :: "execution_environment_type \<Rightarrow> u64 \<Rightarrow> ergs" where
  "ee_ergs ee_type evm_gas = (case ee_type of NoEE \<Rightarrow> ergs_empty | EVM \<Rightarrow> evm_gas * ERGS_PER_GAS)"

definition io_storage_read ::
    "io_env \<Rightarrow> bool \<Rightarrow> execution_environment_type \<Rightarrow> b160 \<Rightarrow> bytes32 \<Rightarrow> (system_error, bytes32) io_m" where
  "io_storage_read env transient ee_type a k =
     (if transient then
        and_then (io_charge (from_ergs_and_native (ee_ergs ee_type TLOAD_COST) WARM_TSTORAGE_READ_NATIVE_COST)) (\<lambda>_.
        io_part (\<lambda>e. e) (on_transient (apply_read (WarmStorageKey a k))))
      else io_flat (flat_storage_read env ee_type a k))"

definition io_storage_write ::
    "io_env \<Rightarrow> bool \<Rightarrow> execution_environment_type \<Rightarrow> b160 \<Rightarrow> bytes32 \<Rightarrow> bytes32 \<Rightarrow> (system_error, unit) io_m" where
  "io_storage_write env transient ee_type a k value_to_write =
     (if transient then
        and_then (io_charge (from_ergs_and_native (ee_ergs ee_type TSTORE_COST) WARM_TSTORAGE_WRITE_NATIVE_COST)) (\<lambda>_.
        io_part (\<lambda>e. e) (on_transient (apply_write (WarmStorageKey a k) value_to_write)))
      else and_then (io_flat (flat_storage_write env ee_type a k value_to_write)) (\<lambda>_. ret ()))"

definition io_storage_touch ::
    "io_env \<Rightarrow> execution_environment_type \<Rightarrow> b160 \<Rightarrow> bytes32 \<Rightarrow> bool \<Rightarrow> (system_error, unit) io_m" where
  "io_storage_touch env ee_type a k is_access_list = io_flat (flat_storage_touch env ee_type a k is_access_list)"

section \<open>Events and messages\<close>

definition LOG_COST :: u64 where "LOG_COST = 375"
definition LOGTOPIC_COST :: u64 where "LOGTOPIC_COST = 375"
definition LOGDATA_COST :: u64 where "LOGDATA_COST = 8"
definition EVENT_STORAGE_BASE_NATIVE_COST :: u64 where "EVENT_STORAGE_BASE_NATIVE_COST = 6000"
definition EVENT_TOPIC_NATIVE_COST :: u64 where "EVENT_TOPIC_NATIVE_COST = 200"
definition EVENT_DATA_PER_BYTE_COST :: u64 where "EVENT_DATA_PER_BYTE_COST = 2"

text \<open>Sums and products of \<open>u64\<close> costs; a result that does not fit is \<open>Panic\<close>.\<close>

definition u64_sum :: "nat list \<Rightarrow> ('s, 'e, u64) rs" where
  "u64_sum ns = (if sum_list ns < 2 ^ 64 then ret (word_of_nat (sum_list ns)) else panic)"

definition event_ergs :: "execution_environment_type \<Rightarrow> nat \<Rightarrow> nat \<Rightarrow> ('s, system_error, ergs) rs" where
  "event_ergs ee_type topics_len data_len =
     (case ee_type of
        NoEE \<Rightarrow> ret ergs_empty
      | EVM \<Rightarrow>
          and_then (u64_sum [unat LOG_COST, unat LOGTOPIC_COST * topics_len, data_len * unat LOGDATA_COST]) (\<lambda>cost.
          ok_or (checked_mul cost ERGS_PER_GAS) (LeafRuntime OutOfErgs)))"

definition io_emit_event ::
    "execution_environment_type \<Rightarrow> b160 \<Rightarrow> bytes32 list \<Rightarrow> bytes \<Rightarrow> (system_error, unit) io_m" where
  "io_emit_event ee_type a topics data =
     and_then (event_ergs ee_type (length topics) (length data)) (\<lambda>cost.
     and_then (u64_sum [unat EVENT_STORAGE_BASE_NATIVE_COST, unat EVENT_TOPIC_NATIVE_COST * length topics,
       unat EVENT_DATA_PER_BYTE_COST * length data]) (\<lambda>native_cost.
     and_then (io_charge (from_ergs_and_native cost native_cost)) (\<lambda>_.
     and_then (read_st (\<lambda>(_, i). io_tx_number i)) (\<lambda>tx.
     io_part LeafDefect (on_events (push_event tx a topics data))))))"

definition io_emit_l1_message :: "io_env \<Rightarrow> b160 \<Rightarrow> bytes \<Rightarrow> (system_error, bytes32) io_m" where
  "io_emit_l1_message env a data =
     and_then (keccak256_native_cost L2_TO_L1_LOG_SERIALIZE_SIZE) (\<lambda>c1.
     and_then (keccak256_native_cost 64) (\<lambda>c2.
     and_then (keccak256_native_cost (length data)) (\<lambda>c3.
     and_then (u64_sum [unat c1, 3 * unat c2, unat c3, unat EVENT_STORAGE_BASE_NATIVE_COST,
       unat EVENT_DATA_PER_BYTE_COST * length data]) (\<lambda>native_cost.
     and_then (io_charge (from_native native_cost)) (\<lambda>_.
     and_then (on_part fst (\<lambda>r s. (r, snd s)) (\<lambda>e. e) (keccak256_execute env data)) (\<lambda>data_hash.
     and_then (read_st (\<lambda>(_, i). io_tx_number i)) (\<lambda>tx.
     and_then (io_part LeafDefect (on_logs (push_message tx a data data_hash))) (\<lambda>_.
     ret data_hash))))))))"

definition io_emit_l1_l2_tx_log :: "bytes32 \<Rightarrow> bool \<Rightarrow> (system_error, unit) io_m" where
  "io_emit_l1_l2_tx_log tx_hash success =
     and_then (read_st (\<lambda>(_, i). io_tx_number i)) (\<lambda>tx.
     io_part LeafDefect (on_logs (push_l1_l2_tx_log tx tx_hash success)))"

section \<open>Accounts\<close>

definition io_read_account_properties ::
    "io_env \<Rightarrow> execution_environment_type \<Rightarrow> b160 \<Rightarrow> bool \<Rightarrow> bool \<Rightarrow>
     (system_error, account_properties \<times> bytes option \<times> bool option) io_m" where
  "io_read_account_properties env ee_type a with_bytecode with_is_delegated =
     io_flat (read_account_properties env ee_type a with_bytecode with_is_delegated)"

definition io_get_nominal_token_balance :: "io_env \<Rightarrow> execution_environment_type \<Rightarrow> b160 \<Rightarrow> (system_error, u256) io_m" where
  "io_get_nominal_token_balance env ee_type a =
     and_then (io_read_account_properties env ee_type a False False) (\<lambda>(v, _). ret (balance v))"

definition io_get_observable_bytecode :: "io_env \<Rightarrow> execution_environment_type \<Rightarrow> b160 \<Rightarrow> (system_error, bytes) io_m" where
  "io_get_observable_bytecode env ee_type a =
     and_then (io_read_account_properties env ee_type a True False) (\<lambda>(_, code, _). expect code)"

definition EMPTY_CODE_HASH :: u256 where
  "EMPTY_CODE_HASH = 0xc5d2460186f7233c927e7db2dcc703c0e500b653ca82273b7bfad8045d85a470"

definition io_get_observable_bytecode_hash :: "io_env \<Rightarrow> execution_environment_type \<Rightarrow> b160 \<Rightarrow> (system_error, u256) io_m" where
  "io_get_observable_bytecode_hash env ee_type a =
     and_then (io_read_account_properties env ee_type a False False) (\<lambda>(v, _).
     ret (if observable_bytecode_hash v = 0 \<and> ee_type = EVM then
            if acc_nonce v = 0 \<and> balance v = 0 then 0 else EMPTY_CODE_HASH
          else observable_bytecode_hash v))"

definition io_get_observable_bytecode_size :: "io_env \<Rightarrow> execution_environment_type \<Rightarrow> b160 \<Rightarrow> (system_error, u32) io_m" where
  "io_get_observable_bytecode_size env ee_type a =
     and_then (io_read_account_properties env ee_type a False False) (\<lambda>(v, _). ret (observable_bytecode_len v))"

definition io_get_selfbalance :: "execution_environment_type \<Rightarrow> b160 \<Rightarrow> (system_error, u256) io_m" where
  "io_get_selfbalance ee_type a = io_flat (read_account_balance_assuming_warm ee_type a)"

definition io_read_nonce :: "io_env \<Rightarrow> execution_environment_type \<Rightarrow> b160 \<Rightarrow> (system_error, u64) io_m" where
  "io_read_nonce env ee_type a =
     and_then (io_read_account_properties env ee_type a False False) (\<lambda>(v, _). ret (acc_nonce v))"

definition io_update_account_nominal_token_balance ::
    "io_env \<Rightarrow> execution_environment_type \<Rightarrow> b160 \<Rightarrow> u256 \<Rightarrow> bool \<Rightarrow> (balance_subsystem_error, u256) io_m" where
  "io_update_account_nominal_token_balance env ee_type a diff should_subtract =
     io_flat (update_nominal_token_value_inner env ee_type a
       (\<lambda>old_value.
          if should_subtract then
            (case checked_sub old_value diff of Some v \<Rightarrow> Inr v | None \<Rightarrow> Inl (LeafUsage InsufficientBalance))
          else
            (case checked_add old_value diff of Some v \<Rightarrow> Inr v | None \<Rightarrow> Inl (LeafUsage BalanceOverflow))) False)"

section \<open>Frames and transactions\<close>

record io_snapshot =
  snap_io :: flat_snapshot
  snap_transient :: snapshot_id
  snap_messages :: nat
  snap_events :: nat

definition start_io_frame :: "nat \<Rightarrow> (io_state, internal_error, io_snapshot) rs" where
  "start_io_frame W =
     and_then (on_flat (flat_start_frame W)) (\<lambda>f.
     and_then (on_transient (transient_start_frame W)) (\<lambda>t.
     and_then (on_logs logs_start_frame) (\<lambda>l.
     and_then (on_events events_start_frame) (\<lambda>e.
     ret \<lparr>snap_io = f, snap_transient = t, snap_messages = l, snap_events = e\<rparr>))))"

definition finish_io_frame :: "io_snapshot option \<Rightarrow> (io_state, internal_error, unit) rs" where
  "finish_io_frame rollback_handle =
     and_then (on_flat (flat_finish_frame (map_option snap_io rollback_handle))) (\<lambda>_.
     and_then (on_transient (transient_finish_frame (map_option snap_transient rollback_handle))) (\<lambda>_.
     and_then (on_logs (logs_finish_frame (map_option snap_messages rollback_handle))) (\<lambda>_.
     on_events (events_finish_frame (map_option snap_events rollback_handle)))))"

definition begin_next_tx :: "nat \<Rightarrow> (io_state, internal_error, unit) rs" where
  "begin_next_tx W =
     and_then (on_flat (flat_begin_new_tx W)) (\<lambda>_.
     and_then (on_transient transient_begin_new_tx) (\<lambda>_.
     modify_st (\<lambda>i. i\<lparr>io_logs := logs_begin_new_tx (io_logs i), io_events := events_begin_new_tx (io_events i)\<rparr>)))"

definition finish_tx :: "(io_state, internal_error, unit) rs" where
  "finish_tx =
     and_then (on_flat accounts_finish_tx) (\<lambda>_.
     and_then (read_st (\<lambda>i. checked_add (io_tx_number i) 1)) (\<lambda>n.
     and_then (expect n) (\<lambda>n. modify_st (\<lambda>i. i\<lparr>io_tx_number := n\<rparr>))))"

definition net_pubdata_used :: "(io_state, internal_error, u64) rs" where
  "net_pubdata_used =
     and_then (on_flat flat_pubdata_used_by_tx) (\<lambda>a.
     and_then (on_logs calculate_pubdata_used_by_tx) (\<lambda>b.
     ret (ucast a + ucast b)))"

section \<open>The system that the interpreter runs on\<close>

text \<open>The metadata of block and transaction are those of \<open>md\<close>; everything else is the IO subsystem.\<close>

definition io_system :: "io_env \<Rightarrow> unit evm_system \<Rightarrow> io_state evm_system" where
  "io_system env md =
     \<lparr>chain_id = chain_id md, coinbase = coinbase md, block_timestamp = block_timestamp md,
      block_number = block_number md, block_gas_limit = block_gas_limit md, tx_gas_price = tx_gas_price md,
      eip1559_basefee = eip1559_basefee md, tx_origin = tx_origin md,
      block_historical_hash = block_historical_hash md, get_blob_hash = get_blob_hash md,
      blob_base_fee_per_gas = blob_base_fee_per_gas md,
      keccak256 = keccak256_execute env,
      storage_read = (\<lambda>transient a k. io_storage_read env transient EVM a k),
      storage_write = (\<lambda>transient a k v. io_storage_write env transient EVM a k v),
      get_nominal_token_balance = io_get_nominal_token_balance env EVM,
      get_selfbalance = io_get_selfbalance EVM,
      get_observable_bytecode_size = io_get_observable_bytecode_size env EVM,
      get_observable_bytecode_hash = io_get_observable_bytecode_hash env EVM,
      get_observable_bytecode = io_get_observable_bytecode env EVM,
      emit_event = io_emit_event EVM,
      mark_for_deconstruction = (\<lambda>a beneficiary in_constructor.
        io_flat (deconstruct_account env EVM a beneficiary in_constructor)),
      read_nominal_token_balance = (\<lambda>a.
        and_then (io_read_account_properties env EVM a False False) (\<lambda>(v, _). ret (balance v))),
      read_nonce_and_has_bytecode = (\<lambda>a.
        and_then (io_read_account_properties env EVM a False False) (\<lambda>(v, _).
        ret (acc_nonce v, observable_bytecode_len v > 0))),
      increment_nonce = (\<lambda>a n. io_flat (account_increment_nonce env EVM a n))\<rparr>"

end
