(* ===== verification/Cache_Values.thy ===== *)
theory Cache_Values
  imports Cache_View
begin

text \<open>
  Rules for a revertible map in front of a source whose answers are not fixed beforehand: the
  map is seen through \<open>hm_values\<close>, the current values of its cached keys, and the frames are
  those of \<open>hm_frames\<close>. Used for accounts and preimages; slots and transient slots, whose
  initial values are given, use the rules of \<open>Cache_View\<close>.
\<close>

definition hm_props :: "('k, 'v, 'kp) history_map \<Rightarrow> 'k \<rightharpoonup> 'kp" where
  "hm_props m k = map_option key_properties (btree m k)"

text \<open>
  \<open>hm_kept P m fs\<close>: the map is in good order, its frames bring back the values in \<open>fs\<close>, and every
  record of its history satisfies \<open>P\<close>, which may depend on whether the record is newer than the
  last commit and on the properties of the key.
\<close>

definition rec_ok :: "(bool \<Rightarrow> 'kp \<Rightarrow> 'v \<Rightarrow> bool) \<Rightarrow> ('k, 'v, 'kp) spec_map \<Rightarrow> bool" where
  "rec_ok P A \<longleftrightarrow> (\<forall>k i x. (i, x) \<in> set (hist A k) \<longrightarrow> (\<exists>kp. props A k = Some kp \<and> P (frozen_id A < i) kp x))"

definition hm_kept ::
    "(bool \<Rightarrow> 'kp \<Rightarrow> 'v \<Rightarrow> bool) \<Rightarrow> ('k, 'v, 'kp) history_map \<Rightarrow> (snapshot_id \<times> ('k \<rightharpoonup> 'v)) list \<Rightarrow> bool" where
  "hm_kept P m fs \<longleftrightarrow> (\<exists>A. hm_rel m A \<and> spec_wf A \<and> spec_frames A fs \<and> rec_ok P A)"

lemma hm_keptE:
  assumes "hm_kept P m fs"
  obtains A where "hm_rel m A" "spec_wf A" "spec_frames A fs" "rec_ok P A"
  using assms by (auto simp: hm_kept_def)

lemma hm_keptI:
  "hm_rel m (spec_exec op A) \<Longrightarrow> spec_wf A \<Longrightarrow> spec_frames A fs \<Longrightarrow> write_op op \<Longrightarrow> rec_ok P (spec_exec op A) \<Longrightarrow> hm_kept P m fs"
  unfolding hm_kept_def using spec_frames_step spec_wf_exec by blast

lemma values_cached: "hm_kept P m fs \<Longrightarrow> btree m k = None \<longleftrightarrow> hm_values m k = None"
  by (erule hm_keptE) (simp add: hm_rel_absent hm_values_spec spec_values_def split: list.splits)

lemma hm_rel_props: "hm_rel m A \<Longrightarrow> hm_props m = props A"
  using hm_rel_fields(4) by (auto simp: hm_props_def fun_eq_iff)

lemma hm_kept_current:
  assumes "hm_kept P m fs" and "hm_values m k = Some v"
  shows "\<exists>b kp. hm_props m k = Some kp \<and> P b kp v"
proof -
  obtain A where A: "hm_rel m A" "rec_ok P A" by (rule hm_keptE [OF assms(1)])
  then have "(fst (hd (hist A k)), v) \<in> set (hist A k)"
    using assms(2) by (auto simp: hm_values_spec [OF A(1)] spec_values_def split: list.splits)
  then show ?thesis using A(2) hm_rel_props [OF A(1)] unfolding rec_ok_def by metis
qed

lemma spec_values_write: "spec_values (spec_write k v A) = (spec_values A)(k \<mapsto> v)"
  by (auto simp: spec_values_def spec_write_def fun_eq_iff split: list.splits)

lemma rec_ok_write:
  assumes "rec_ok P A" and "spec_wf A" and "hist A k \<noteq> []" and "\<And>kp. props A k = Some kp \<Longrightarrow> P True kp v"
  shows "rec_ok P (spec_write k v A)"
proof -
  obtain kp where kp: "props A k = Some kp"
    using assms(1,3) unfolding rec_ok_def by (metis list.set_sel(1) prod.collapse)
  then have "P (frozen_id A < i) kp x" if "(i, x) \<in> set (hist A k)" for i x
    using assms(1) that unfolding rec_ok_def by fastforce
  moreover have "frozen_id A < next_id A" using assms(2) by (simp add: spec_wf_def)
  ultimately show ?thesis
    using assms(1,4) kp list.set_sel(2) [OF assms(3)] unfolding rec_ok_def by (auto simp: spec_write_def)
qed

lemma values_get_or_insert:
  assumes fr: "hm_kept P m fs"
    and old: "\<And>v. hm_values m k = Some v \<Longrightarrow> Q () (m, x)"
    and new: "hm_values m k = None \<Longrightarrow> wp spawn (\<lambda>(v, kp) x'. P False kp v \<and> (\<forall>m'. hm_kept P m' fs \<longrightarrow>
        hm_values m' = (hm_values m)(k \<mapsto> v) \<longrightarrow> hm_props m' = (hm_props m)(k \<mapsto> kp) \<longrightarrow> Q () (m', x')))
        (\<lambda>e x'. E e (m, x')) x"
  shows "wp (hm_get_or_insert k spawn) Q E (m, x)"
proof -
  obtain A where A: "hm_rel m A" "spec_wf A" "spec_frames A fs" "rec_ok P A" by (rule hm_keptE [OF fr])
  have vals: "hm_values m k = None \<longleftrightarrow> hist A k = []"
    by (simp add: hm_values_spec [OF A(1)] spec_values_def split: list.splits)
  show ?thesis
  proof (rule wp_hm_get_or_insert [OF A(1)])
    show "Q () (m, x)" if "hist A k \<noteq> []" using old vals that by (cases "hm_values m k") auto
    assume none: "hist A k = []"
    have ins: "hm_kept P m' fs \<and> hm_values m' = (hm_values m)(k \<mapsto> v) \<and> hm_props m' = (hm_props m)(k \<mapsto> kp)"
      if "hm_rel m' (spec_insert k v kp A)" and "P False kp v" for m' v kp
    proof -
      have "rec_ok P (spec_insert k v kp A)" using A(4) that(2) none by (auto simp: rec_ok_def spec_insert_def)
      then show ?thesis
        using that(1) hm_keptI [of m' "GetOrInsert k v kp" A fs P] A none hm_values_spec [OF that(1)] hm_values_spec [OF A(1)]
          hm_rel_props [OF that(1)] hm_rel_props [OF A(1)]
        by (auto simp: spec_values_def spec_insert_def fun_eq_iff)
    qed
    show "wp spawn (\<lambda>(v, kp) x'. \<forall>m'. hm_rel m' (spec_insert k v kp A) \<longrightarrow> Q () (m', x')) (\<lambda>e x'. E e (m, x')) x"
      using new vals none by (auto elim!: wp_mono dest!: ins)
  qed
qed

lemma values_current:
  assumes fr: "hm_kept P m fs" and v: "hm_values m k = Some v" and post: "Q v m"
  shows "wp (hm_current k) Q E m"
proof -
  obtain A where A: "hm_rel m A" by (rule hm_keptE [OF fr])
  have h: "hist A k \<noteq> []" "snd (hd (hist A k)) = v"
    using v by (auto simp: hm_values_spec [OF A(1)] spec_values_def split: list.splits)
  show ?thesis using wp_hm_current [OF A(1) h(1)] by (rule wp_mono) (use post h(2) in auto)
qed

lemma values_set_key_properties:
  assumes fr: "hm_kept P m fs" and v: "hm_values m k \<noteq> None" and g: "\<And>b kp x. P b kp x \<Longrightarrow> P b (g kp) x"
    and post: "\<And>m'. hm_kept P m' fs \<Longrightarrow> hm_values m' = hm_values m \<Longrightarrow>
      hm_props m' = (hm_props m)(k := map_option g (hm_props m k)) \<Longrightarrow> Q () m'"
  shows "wp (hm_set_key_properties k g) Q E m"
proof -
  obtain A where A: "hm_rel m A" "spec_wf A" "spec_frames A fs" "rec_ok P A" by (rule hm_keptE [OF fr])
  have h: "hist A k \<noteq> []" using v by (auto simp: hm_values_spec [OF A(1)] spec_values_def split: list.splits)
  show ?thesis
  proof (rule wp_hm_set_key_properties [OF A(1) h])
    fix m' assume m': "hm_rel m' (spec_set_props k g A)"
    have "rec_ok P (spec_set_props k g A)" using A(4) g by (fastforce simp: rec_ok_def spec_set_props_def)
    then have "hm_kept P m' fs" using m' hm_keptI [of m' "KeyPropertiesMut k g" A fs P] A h by simp
    then show "Q () m'"
      using post hm_values_spec [OF m'] hm_values_spec [OF A(1)] hm_rel_props [OF m'] hm_rel_props [OF A(1)]
      by (auto simp: spec_values_def spec_set_props_def fun_eq_iff)
  qed
qed

lemma values_update:
  assumes fr: "hm_kept P m fs" and v: "hm_values m k = Some v" and f: "f v = (res, v')" and np: "res \<noteq> Inl Panic"
    and P: "\<And>kp. hm_props m k = Some kp \<Longrightarrow> P True kp v'"
    and ok: "\<And>m'. res = Inr () \<Longrightarrow> hm_kept P m' fs \<Longrightarrow> hm_values m' = (hm_values m)(k \<mapsto> v') \<Longrightarrow>
      hm_props m' = hm_props m \<Longrightarrow> Q () m'"
    and err: "\<And>m' e. res = Inl (Err e) \<Longrightarrow> hm_kept P m' fs \<Longrightarrow> E e m'"
  shows "wp (hm_update k f) Q E m"
proof -
  obtain A where A: "hm_rel m A" "spec_wf A" "spec_frames A fs" "rec_ok P A" by (rule hm_keptE [OF fr])
  have h: "hist A k \<noteq> []" "snd (hd (hist A k)) = v"
    using v by (auto simp: hm_values_spec [OF A(1)] spec_values_def split: list.splits)
  have fr': "hm_kept P m' fs" if "hm_rel m' (spec_write k v' A)" for m'
    using that hm_keptI [of m' "Update k (\<lambda>_. (Inr (), v'))" A fs P] A h P hm_rel_props [OF A(1)] rec_ok_write [OF A(4,2) h(1)] by simp
  show ?thesis
  proof (rule wp_hm_update [OF A(1) h(1) _ np])
    show "f (snd (hd (hist A k))) = (res, v')" using f h(2) by simp
    show "Q () m'" if "res = Inr ()" and m': "hm_rel m' (spec_write k v' A)" for m'
      using ok that(1) fr' [OF m'] hm_values_spec [OF m'] hm_values_spec [OF A(1)] hm_rel_props [OF m'] hm_rel_props [OF A(1)]
      by (simp add: spec_values_write) (simp add: spec_write_def)
    show "E e m'" if "res = Inl (Err e)" "hm_rel m' (if fst (hd (hist A k)) = next_id A then spec_write k v' A else A)" for e m'
      using err that fr' A by (auto simp: hm_kept_def split: if_splits)
  qed
qed

text \<open>A callback that panics makes the update panic.\<close>

lemma update_panics:
  assumes fr: "hm_kept P m fs" and v: "hm_values m k = Some v" and f: "fst (f v) = Inl Panic"
  shows "fst (hm_update k f m) = Inl Panic"
proof -
  obtain e where e: "btree m k = Some e" using v values_cached [OF fr] by fastforce
  then obtain r where r: "cells (records_memory_pool m) (head e) = Some r" "val r = v"
    using v by (auto simp: hm_values_def)
  have eq: "fst (hm_update k f m) = Inl Panic \<longleftrightarrow> \<not> wp (hm_update k f) (\<lambda>_ _. True) (\<lambda>_ _. True) m"
    by (auto simp: wp_def split: prod.splits sum.splits fault.splits)
  show ?thesis unfolding eq using f e r
    by (cases "touch_ss_id r = next_snapshot_id m")
       (auto simp: hm_update_def wp_result_only create_element_def split: option.splits)
qed

section \<open>Frames\<close>

lemma hm_kept_snapshot:
  assumes "hm_kept P m fs" and "hm_snapshot W m = (Inr i, m')"
  shows "hm_kept P m' ((i, hm_values m) # fs) \<and> hm_values m' = hm_values m"
proof -
  obtain A where A: "hm_rel m A" "spec_wf A" "spec_frames A fs" "rec_ok P A" by (rule hm_keptE [OF assms(1)])
  note snap = snapshot_res [OF assms(2)]
  have good: "hm_good m A" using A by (simp add: hm_good_def)
  note s = snap [OF good]
  have "rec_ok P (spec_snapshot A)" using A(4) by (simp add: rec_ok_def spec_snapshot_def)
  moreover have "spec_values (spec_snapshot A) = spec_values A" by (simp add: spec_values_def spec_snapshot_def fun_eq_iff)
  ultimately show ?thesis
    using s spec_frames_start [OF A(3,2)] spec_wf_snapshot [OF A(2)] hm_values_spec [OF A(1)] hm_values_spec [OF s(2)]
    by (auto simp: hm_kept_def)
qed

lemma rec_ok_rollback: "rec_ok P A \<Longrightarrow> rec_ok P (spec_rollback i A)"
  by (auto simp: rec_ok_def spec_rollback_def dest: set_dropWhileD)

interpretation hk: frame_store "hm_kept P" hm_values "(\<subseteq>\<^sub>m)" "\<lambda>m. next_snapshot_id m < usize_max W"
    "hm_snapshot W" hm_finish_frame "\<lambda>m m'. \<forall>fs. hm_kept P m fs \<longrightarrow> hm_kept P m' fs"
proof
  fix m m' :: "('c, 'b, 'a) history_map" and fs f i x
  show "\<exists>i t. hm_snapshot W m = (Inr i, t)" if "hm_kept P m fs" "next_snapshot_id m < usize_max W"
    using that by (simp add: hm_snapshot_def hm_run_simps)
  show "hm_kept P m' ((i, hm_values m) # fs) \<and> hm_values m' = hm_values m"
    if "hm_kept P m fs" "hm_snapshot W m = (Inr i, m')" using hm_kept_snapshot [OF that] .
  show "\<exists>t. hm_finish_frame None m = (Inr (), t) \<and> hm_kept P t fs \<and> hm_values t = hm_values m"
    if "hm_kept P m (f # fs)"
    using that by (auto simp: hm_finish_frame_def ret_def hm_kept_def spec_frames_def)
  show "\<exists>t. hm_finish_frame (Some i) m = (Inr (), t) \<and> hm_kept P t fs \<and> x \<subseteq>\<^sub>m hm_values t"
    if fr: "hm_kept P m ((i, x) # fs)"
  proof -
    obtain A where A: "hm_rel m A" "spec_wf A" "spec_frames A ((i, x) # fs)" "rec_ok P A" by (rule hm_keptE [OF fr])
    have i: "frozen_id A \<le> i" "i < next_id A" using A(3) by (auto simp: spec_frames_def)
    have "wp (hm_rollback i) (\<lambda>_ m'. hm_rel m' (spec_rollback i A)) (\<lambda>_ _. False) m"
      using i by (intro wp_hm_rollback [OF A(1,2)]) auto
    from wp_total [OF this] obtain t where t: "hm_rollback i m = (Inr (), t)" "hm_rel t (spec_rollback i A)" by auto
    then show ?thesis
      using spec_frames_rollback [OF A(3)] spec_wf_rollback [OF A(2) i(1)] hm_values_spec [OF t(2)] rec_ok_rollback [OF A(4)]
      by (auto simp: hm_finish_frame_def hm_kept_def)
  qed
qed (auto intro: map_le_trans)

section \<open>The walk over the pending changes\<close>

lemma spec_values_overwrite:
  "spec_values (spec_overwrite k v kp A) = (spec_values A)(k \<mapsto> v)" "props (spec_overwrite k v kp A) = (props A)(k \<mapsto> kp)"
  by (auto simp: spec_values_def spec_overwrite_def fun_eq_iff)

text \<open>
  \<open>J\<close> relates, for the pending changes that are left, the values and key properties of the map
  to the state that the callback captures. With \<open>b\<close> the callback may panic, and the walk then panics as well.
\<close>

definition or_panics :: "bool \<Rightarrow> ('s, 'e, 'a) rs \<Rightarrow> ('a \<Rightarrow> 's \<Rightarrow> bool) \<Rightarrow> 's \<Rightarrow> bool" where
  "or_panics b m Q s \<longleftrightarrow> wp m Q (\<lambda>_ _. False) s \<or> b \<and> fst (m s) = Inl Panic"

definition walked :: "('k, 'v, 'kp) spec_map \<Rightarrow> ('k, 'v, 'kp) history_map \<Rightarrow> bool" where
  "walked A m \<longleftrightarrow> (\<exists>B. hm_rel m B \<and> spec_wf B \<and>
     (\<forall>j. length (hist B j) = length (hist A j) \<and> (hist A j \<noteq> [] \<longrightarrow> last (hist B j) = last (hist A j))))"

lemma pending_walk:
  assumes step: "\<And>k j qs i r kp x V P. J ((k, j) # qs) V P x \<Longrightarrow> V k = Some (val r) \<Longrightarrow> P k = Some kp \<Longrightarrow>
      b \<and> fst (do_fn k i ((r, kp), x)) = Inl Panic \<or>
      (\<exists>r' kp' x'. do_fn k i ((r, kp), x) = (Inr (), (r', kp'), x') \<and> touch_ss_id r' = touch_ss_id r \<and>
        previous r' = previous r \<and> J qs (V(k \<mapsto> val r')) (P(k \<mapsto> kp')) x')"
    and "hm_rel m A" and "spec_wf A" and "\<And>k i. (k, i) \<in> set ps \<Longrightarrow> length (hist A k) \<ge> 2" and "J ps (hm_values m) (hm_props m) x"
  shows "or_panics b (apply_to_pending do_fn ps) (\<lambda>_ s. walked A (fst s) \<and> J [] (hm_values (fst s)) (hm_props (fst s)) (snd s)) (m, x)"
  using assms
proof (induction ps arbitrary: m A x)
  case Nil
  then show ?case by (auto simp: or_panics_def walked_def)
next
  case (Cons kj ps)
  obtain k j where kj: "kj = (k, j)" by fastforce
  have k: "length (hist A k) \<ge> 2" using Cons.prems(4) [of k j] kj by simp
  then have "hist A k \<noteq> []" by auto
  then obtain L F e where L: "btree m k = Some e" "element_ok (cells (records_memory_pool m)) e (L k)" "L k \<noteq> []" "head e = hd (L k)"
    using hm_rel_getE [OF Cons.prems(2)] by metis
  then obtain r where r: "cells (records_memory_pool m) (head e) = Some r"
    using element_ok_live [of _ e "L k" "head e"] by auto
  note over = hm_rel_overwrite [OF Cons.prems(2) k L(1) r]
  obtain i where i: "cells (records_memory_pool m) (initial e) = Some i" using over(2) [OF refl refl] by blast
  have here: "hm_values m k = Some (val r)" "hm_props m k = Some (key_properties e)"
    using L(1) r by (auto simp: hm_values_def hm_props_def)
  have st: "b \<and> fst (do_fn k i ((r, key_properties e), x)) = Inl Panic \<or>
      (\<exists>r' kp' x'. do_fn k i ((r, key_properties e), x) = (Inr (), (r', kp'), x') \<and> touch_ss_id r' = touch_ss_id r \<and>
        previous r' = previous r \<and> J ps ((hm_values m)(k \<mapsto> val r')) ((hm_props m)(k \<mapsto> kp')) x')"
    using Cons.prems(5) kj here by (intro Cons.prems(1)) auto
  note defs = L(1) r i over(1) [OF refl refl] kj
  from st show ?case
  proof (elim disjE conjE exE)
    assume "b" and p: "fst (do_fn k i ((r, key_properties e), x)) = Inl Panic"
    obtain r' kp x' where "do_fn k i ((r, key_properties e), x) = (Inl Panic, (r', kp), x')" using p by (metis prod.collapse)
    then have "fst (apply_to_pending do_fn (kj # ps) (m, x)) = Inl Panic"
      using defs by (simp add: on_map_def on_pool_def on_part_def deref_def assign_def put_element_def hm_run_simps)
    then show ?thesis using \<open>b\<close> by (simp add: or_panics_def)
  next
    fix r' kp' x'
    assume d: "do_fn k i ((r, key_properties e), x) = (Inr (), (r', kp'), x')" and keep: "touch_ss_id r' = touch_ss_id r"
      "previous r' = previous r" and J: "J ps ((hm_values m)(k \<mapsto> val r')) ((hm_props m)(k \<mapsto> kp')) x'"
    let ?m = "m\<lparr>records_memory_pool := (records_memory_pool m)\<lparr>cells := (cells (records_memory_pool m))(head e \<mapsto> r')\<rparr>,
          btree := (btree m)(k \<mapsto> e\<lparr>key_properties := kp'\<rparr>)\<rparr>"
    note rel = over(3) [OF keep, of kp']
    have vals: "hm_values ?m = (hm_values m)(k \<mapsto> val r')" "hm_props ?m = (hm_props m)(k \<mapsto> kp')"
      using hm_values_spec [OF rel] hm_values_spec [OF Cons.prems(2)] hm_rel_props [OF rel] hm_rel_props [OF Cons.prems(2)]
      by (simp_all add: spec_values_overwrite)
    let ?A = "spec_overwrite k (val r') kp' A"
    have "or_panics b (apply_to_pending do_fn ps) (\<lambda>_ s. walked ?A (fst s) \<and> J [] (hm_values (fst s)) (hm_props (fst s)) (snd s)) (?m, x')"
    proof (rule Cons.IH [OF _ rel spec_wf_overwrite [OF Cons.prems(3) k]])
      show "length (hist (spec_overwrite k (val r') kp' A) k') \<ge> 2" if "(k', i') \<in> set ps" for k' i'
        using Cons.prems(4) [of k' i'] spec_overwrite_ends [OF k, of "val r'" kp' k'] that by simp
      show "J ps (hm_values ?m) (hm_props ?m) x'" unfolding vals by (rule J)
    qed (rule Cons.prems(1), auto)
    moreover have "apply_to_pending do_fn (kj # ps) (m, x) = apply_to_pending do_fn ps (?m, x')"
      using defs d by (simp add: on_map_def on_pool_def on_part_def deref_def assign_def put_element_def hm_run_simps)
    moreover have "walked A m'" if "walked ?A m'" for m'
    proof -
      obtain B where B: "hm_rel m' B" "spec_wf B" "\<forall>j. length (hist B j) = length (hist ?A j) \<and>
          (hist ?A j \<noteq> [] \<longrightarrow> last (hist B j) = last (hist ?A j))" using \<open>walked ?A m'\<close> by (auto simp: walked_def)
      then have "\<forall>j. length (hist B j) = length (hist A j) \<and> (hist A j \<noteq> [] \<longrightarrow> last (hist B j) = last (hist A j))"
        using spec_overwrite_ends [OF k, of "val r'" kp'] by (metis length_0_conv)
      then show ?thesis using B(1,2) by (auto simp: walked_def)
    qed
    ultimately show ?thesis by (auto simp: or_panics_def wp_def split: sum.splits fault.splits)
  qed
qed

text \<open>A commit makes every record old; what is left of a key are its newest and its first record.\<close>

lemma rec_ok_commit:
  assumes "\<And>k. hist B k \<noteq> [] \<Longrightarrow> \<exists>kp. props B k = Some kp \<and> P False kp (snd (hd (hist B k))) \<and> P False kp (snd (last (hist B k)))"
    and wf: "spec_wf B"
  shows "rec_ok P (spec_commit B)"
proof -
  have "\<exists>kp. props B k = Some kp \<and> P (next_id B < i) kp x" if x: "(i, x) \<in> set (squash (hist B k))" for k i x
  proof -
    have ne: "hist B k \<noteq> []" using x by (auto simp: squash_def)
    have "(i, x) \<in> set (hist B k)" using x set_squash [of "hist B k"] by blast
    then have i: "i \<le> next_id B" using spec_wfD(3) [OF wf, of k] by (auto simp: key_wf_def)
    have "(i, x) = hd (hist B k) \<or> (i, x) = last (hist B k)"
      using x by (cases "hist B k"; cases "tl (hist B k)") (auto simp: squash_def split: if_splits)
    then show ?thesis using assms(1) [OF ne] i by (metis not_less snd_conv)
  qed
  then show ?thesis by (simp add: rec_ok_def spec_commit_def)
qed

end
