(* ===== verification/Io_Frames.thy ===== *)
theory Io_Frames
  imports Io_Subsystem Cache_Values
begin

text \<open>
  Every operation of the IO subsystem works inside the open call frames. An operation that
  returns, with a result or an error, keeps what the frames have to bring back
  (\<open>keeps\<close>, proved through the structure of the operations); so the IO subsystem is a
  \<open>frame_store\<close>, composed of the stores of slots, accounts, preimages, transient slots, logs
  and events. A panic ends the program, frames included.
\<close>

section \<open>Operations that keep a condition on the state\<close>

named_theorems keeps_intro

definition keeps :: "('s \<Rightarrow> bool) \<Rightarrow> ('s, 'e, 'a) rs \<Rightarrow> bool" where
  "keeps I m \<longleftrightarrow> (\<forall>s. I s \<longrightarrow> fst (m s) \<noteq> Inl Panic \<longrightarrow> I (snd (m s)))"

lemma keepsI: "(\<And>s x t. I s \<Longrightarrow> m s = (x, t) \<Longrightarrow> x \<noteq> Inl Panic \<Longrightarrow> I t) \<Longrightarrow> keeps I m"
  unfolding keeps_def by (metis prod.collapse)

lemma keepsD: "keeps I m \<Longrightarrow> I s \<Longrightarrow> m s = (x, t) \<Longrightarrow> x \<noteq> Inl Panic \<Longrightarrow> I t"
  unfolding keeps_def by (metis fst_conv snd_conv)

lemma keeps_returned:
  "(\<And>s. I s \<Longrightarrow> fst (m s) \<noteq> Inl Panic \<Longrightarrow> wp m (\<lambda>_. I) (\<lambda>_. I) s) \<Longrightarrow> keeps I m"
  unfolding keeps_def by (intro allI impI) (rule wp_snd, blast)

lemma keeps_simple [keeps_intro]:
  "keeps I (ret x)" "keeps I (throw e)" "keeps I panic" "keeps I (read_st f)" "keeps I (expect y)"
  "keeps I (assert_that b)" "keeps I (ok_or y e)"
  by (auto intro!: keepsI simp: ret_def throw_def panic_def read_st_def expect_def assert_that_def ok_or_def split: option.splits if_splits)

lemma keeps_and_then [keeps_intro]:
  "keeps I m \<Longrightarrow> (\<And>x. keeps I (f x)) \<Longrightarrow> keeps I (and_then m f)"
  by (rule keepsI) (auto simp: and_then_def split: prod.splits sum.splits dest: keepsD)

lemma keeps_modify_st: "(\<And>s. I s \<Longrightarrow> I (f s)) \<Longrightarrow> keeps I (modify_st f)"
  by (auto intro!: keepsI simp: modify_st_def)

lemma keeps_if [keeps_intro]: "(b \<Longrightarrow> keeps I m) \<Longrightarrow> (\<not> b \<Longrightarrow> keeps I n) \<Longrightarrow> keeps I (if b then m else n)"
  by simp

lemma keeps_cases [keeps_intro]:
  "(\<And>x. keeps I (f x)) \<Longrightarrow> keeps I n \<Longrightarrow> keeps I (case y of Some x \<Rightarrow> f x | None \<Rightarrow> n)"
  "keeps I m \<Longrightarrow> keeps I n \<Longrightarrow> keeps I (case ee of NoEE \<Rightarrow> m | EVM \<Rightarrow> n)"
  "(\<And>a b. keeps I (g a b)) \<Longrightarrow> keeps I (case p of (a, b) \<Rightarrow> g a b)"
  "(\<And>a. keeps I (k a)) \<Longrightarrow> (\<And>b. keeps I (l b)) \<Longrightarrow> keeps I (case z of Inl a \<Rightarrow> k a | Inr b \<Rightarrow> l b)"
  by (auto split: option.splits execution_environment_type.splits prod.splits sum.splits)

lemma keeps_let [keeps_intro]: "(\<And>x. keeps I (f x)) \<Longrightarrow> keeps I (let x = y in f x)"
  by simp

lemma keeps_on_part:
  "keeps J m \<Longrightarrow> (\<And>s. I s \<Longrightarrow> J (get s)) \<Longrightarrow> (\<And>s t. I s \<Longrightarrow> J t \<Longrightarrow> I (put t s)) \<Longrightarrow> keeps I (on_part get put conv m)"
  by (rule keepsI) (auto simp: on_part_def split: prod.splits sum.splits fault.splits dest: keepsD)

lemma keeps_True: "keeps (\<lambda>_. True) m"
  by (simp add: keeps_def)

lemma keeps_expect_ok [keeps_intro]: "keeps I m \<Longrightarrow> keeps I (expect_ok m)"
  by (rule keepsI) (auto simp: expect_ok_def split: prod.splits sum.splits dest: keepsD)

section \<open>The map\<close>

abbreviation map_keeps ::
    "(bool \<Rightarrow> 'kp \<Rightarrow> 'v \<Rightarrow> bool) \<Rightarrow> (snapshot_id \<times> ('k \<rightharpoonup> 'v)) list \<Rightarrow> (('k, 'v, 'kp) history_map, 'e, 'a) rs \<Rightarrow> bool" where
  "map_keeps P fs \<equiv> keeps (\<lambda>m. hm_kept P m fs)"

lemma hm_current_unchanged: "hm_current k m = (x, t) \<Longrightarrow> t = m"
  by (auto simp: hm_current_def hm_run_simps on_pool_def on_part_def deref_def split: option.splits if_splits)

lemma keeps_hm_current [keeps_intro]: "keeps I (hm_current k)"
  by (rule keepsI) (auto dest: hm_current_unchanged)

lemma uncached_panics:
  "btree m k = None \<Longrightarrow> fst (hm_update k f m) = Inl Panic"
  "btree m k = None \<Longrightarrow> fst (hm_set_key_properties k g m) = Inl Panic"
  by (simp_all add: hm_update_def hm_set_key_properties_def and_then_def read_st_def expect_def panic_def)

lemma map_keeps_update:
  assumes f: "\<And>b kp v. P b kp v \<Longrightarrow> fst (f v) \<noteq> Inl Panic \<Longrightarrow> P True kp (snd (f v))"
  shows "map_keeps P fs (hm_update k f)"
proof (rule keeps_returned)
  fix m assume fr: "hm_kept P m fs" and np: "fst (hm_update k f m) \<noteq> Inl Panic"
  have "btree m k \<noteq> None" using uncached_panics(1) [of m k f] np by auto
  then obtain v where v: "hm_values m k = Some v" using values_cached [OF fr, of k] by auto
  have "fst (f v) \<noteq> Inl Panic" using update_panics [OF fr v, of f] np by auto
  moreover have "P True kp (snd (f v))" if "hm_props m k = Some kp" for kp
    using hm_kept_current [OF fr v] that f \<open>fst (f v) \<noteq> Inl Panic\<close> by auto
  ultimately show "wp (hm_update k f) (\<lambda>_ m'. hm_kept P m' fs) (\<lambda>_ m'. hm_kept P m' fs) m"
    by (intro values_update [OF fr v, of f "fst (f v)" "snd (f v)"]) auto
qed

lemma map_keeps_set_key_properties:
  "(\<And>b kp x. P b kp x \<Longrightarrow> P b (g kp) x) \<Longrightarrow> map_keeps P fs (hm_set_key_properties k g)"
proof (rule keeps_returned)
  fix m assume g: "\<And>b kp x. P b kp x \<Longrightarrow> P b (g kp) x" and fr: "hm_kept P m fs" and np: "fst (hm_set_key_properties k g m) \<noteq> Inl Panic"
  have "btree m k \<noteq> None" using np by (rule contrapos_nn) (rule uncached_panics(2))
  then have v: "hm_values m k \<noteq> None" using values_cached [OF fr, of k] by auto
  show "wp (hm_set_key_properties k g) (\<lambda>_ m'. hm_kept P m' fs) (\<lambda>_ m'. hm_kept P m' fs) m"
    using g fr v by (intro values_set_key_properties [OF fr v]) auto
qed

lemma keeps_get_or_insert:
  assumes "keeps J spawn" and new: "\<And>y v kp t. spawn y = (Inr (v, kp), t) \<Longrightarrow> P False kp v"
  shows "keeps (\<lambda>s. hm_kept P (fst s) fs \<and> J (snd s)) (hm_get_or_insert k spawn)"
proof (rule keeps_returned)
  fix s assume I: "hm_kept P (fst s) fs \<and> J (snd s)" and np: "fst (hm_get_or_insert k spawn s) \<noteq> Inl Panic"
  obtain m y where s: "s = (m, y)" by (cases s)
  have fr: "hm_kept P m fs" and J: "J y" using I s by auto
  have "wp spawn (\<lambda>(v, kp) y'. P False kp v \<and> J y') (\<lambda>_. J) y" if "hm_values m k = None"
  proof -
    have "btree m k = None" using that values_cached [OF fr, of k] by simp
    then have "fst (spawn y) \<noteq> Inl Panic"
      using np s by (cases "spawn y") (auto simp: hm_get_or_insert_def and_then_def read_st_def on_part_def)
    then show ?thesis using keepsD [OF assms(1) J] new by (cases "spawn y") (auto simp: wp_def split: sum.splits fault.splits)
  qed
  then show "wp (hm_get_or_insert k spawn) (\<lambda>_ s. hm_kept P (fst s) fs \<and> J (snd s)) (\<lambda>_ s. hm_kept P (fst s) fs \<and> J (snd s)) s"
    unfolding s by (intro values_get_or_insert [OF fr]) (use fr J in \<open>auto elim!: wp_mono\<close>)
qed

section \<open>The flat storage\<close>

text \<open>
  The conditions: of each cache with its frames, whatever the resources are. Of an account, a record
  that is marked for deconstruction is of the current transaction, and the account is observed.
\<close>

definition any_rec :: "bool \<Rightarrow> 'kp \<Rightarrow> 'v \<Rightarrow> bool" where
  "any_rec = (\<lambda>_ _ _. True)"

definition mark_ok :: "bool \<Rightarrow> account_cache_appearance \<Rightarrow> account_record \<Rightarrow> bool" where
  "mark_ok new appearance x \<longleftrightarrow> (is_marked_for_deconstruction (metadata x) \<longrightarrow> new \<and> acc_current_appearance appearance = AccObserved)"

definition preimages_ok :: "(snapshot_id \<times> (u256 \<rightharpoonup> (publication_elem, unit) cache_record)) list \<Rightarrow> preimages_storage \<Rightarrow> bool" where
  "preimages_ok fs p \<longleftrightarrow> hm_kept any_rec (publication_storage p) fs"

definition accounts_ok :: "(snapshot_id \<times> (bits_ord160 \<rightharpoonup> account_record)) list \<Rightarrow> account_cache \<Rightarrow> bool" where
  "accounts_ok fs c \<longleftrightarrow> hm_kept mark_ok (acc_cache c) fs"

definition flat_ok where
  "flat_ok oracle start fs1 fs2 fs3 f \<longleftrightarrow>
     slot_frames oracle start (storage_cache f) fs1 \<and> preimages_ok fs2 (preimages_cache f) \<and> accounts_ok fs3 (account_data_cache f)"

lemma keeps_charges [keeps_intro]:
  "keeps (\<lambda>s. I (fst s)) (charge_native n)" "keeps (\<lambda>s. I (fst s)) (flat_charge c)"
  unfolding charge_native_def flat_charge_def by (rule keeps_on_part [OF keeps_True]; simp)+

lemma keeps_conversions [keeps_intro]:
  "keeps I m \<Longrightarrow> keeps I (defect m)" "keeps I n \<Longrightarrow> keeps I (sub n)"
  by (auto simp: defect_def sub_def intro!: keeps_on_part)

lemma keeps_with_inf_ergs [keeps_intro]:
  "keeps (\<lambda>s. I (fst s)) m \<Longrightarrow> keeps (\<lambda>s. I (fst s)) (with_inf_ergs m)"
  by (auto simp: keeps_def with_inf_ergs_def split: prod.splits) (metis fst_conv snd_conv)

lemma keeps_requested [keeps_intro]: "keeps I m \<Longrightarrow> keeps I (requested b m)"
  by (auto simp: requested_def intro!: keeps_intro)

lemma keeps_native_cost [keeps_intro]: "keeps I (keccak256_native_cost n)" "keeps I (full_bytecode_len v)" "keeps I (sum_lens a b c)"
  unfolding keccak256_native_cost_def full_bytecode_len_def sum_lens_def by (intro keeps_intro)+

text \<open>Preimages.\<close>

lemma keeps_add_preimage [keeps_intro]: "map_keeps any_rec fs (add_preimage W hash n ty)"
  unfolding add_preimage_def
  by (intro keeps_intro map_keeps_update keeps_on_part [where J = "\<lambda>s. hm_kept any_rec (fst s) fs \<and> True"] keeps_get_or_insert)
     (auto simp: any_rec_def)

lemma keeps_preimages [keeps_intro]:
  "keeps (\<lambda>s. preimages_ok fs (fst s)) (get_preimage env q)"
  "keeps (\<lambda>s. preimages_ok fs (fst s)) (record_preimage env q bs)"
proof -
  have set: "preimages_ok fs (p\<lparr>preimage_map := m\<rparr>) = preimages_ok fs p" for p m by (simp add: preimages_ok_def)
  show "keeps (\<lambda>s. preimages_ok fs (fst s)) (get_preimage env q)"
    unfolding get_preimage_def expose_preimage_def
    by (intro keeps_intro keeps_modify_st) (auto simp: set split: prod.splits)
  have ins: "keeps (preimages_ok fs) (insert_verified_preimage env ty h x)" for ty h x
    unfolding insert_verified_preimage_def on_publication_def
    by (intro keeps_intro keeps_modify_st keeps_on_part [where J = "preimages_ok fs"]
        keeps_on_part [where J = "\<lambda>m. hm_kept any_rec m fs"]) (auto simp: set preimages_ok_def)
  show "keeps (\<lambda>s. preimages_ok fs (fst s)) (record_preimage env q bs)"
    unfolding record_preimage_def on_preimages_def
    by (intro keeps_intro keeps_on_part [OF ins]) auto
qed

text \<open>Slots: reads need no room in the refund counter.\<close>

lemma keeps_read [keeps_intro]: "keeps (\<lambda>s. slot_frames oracle start (fst s) fs) (apply_read_impl oracle ee k al)"
proof (rule keeps_returned)
  fix s :: storage_st assume fr: "slot_frames oracle start (fst s) fs"
  have "wp (slot_exec oracle (ReadSlot ee k al)) (\<lambda>_ t. slot_frames oracle start (fst t) fs) (\<lambda>_ t. slot_frames oracle start (fst t) fs) s"
    using wp_slot_exec [OF fr, of "ReadSlot ee k al" "snd s"] by simp
  then show "wp (apply_read_impl oracle ee k al) (\<lambda>_ t. slot_frames oracle start (fst t) fs) (\<lambda>_ t. slot_frames oracle start (fst t) fs) s"
    by simp
qed

text \<open>Accounts.\<close>

lemma keeps_flat_parts [keeps_intro]:
  "keeps (\<lambda>s. preimages_ok fs2 (fst s)) m1 \<Longrightarrow> keeps (\<lambda>s. flat_ok oracle start fs1 fs2 fs3 (fst s)) (flat_preimages m1)"
  "keeps (\<lambda>s. slot_frames oracle start (fst s) fs1) m2 \<Longrightarrow> keeps (\<lambda>s. flat_ok oracle start fs1 fs2 fs3 (fst s)) (flat_slots m2)"
  "map_keeps mark_ok fs3 m3 \<Longrightarrow> keeps (\<lambda>s. flat_ok oracle start fs1 fs2 fs3 (fst s)) (on_accounts m3)"
  unfolding flat_preimages_def flat_slots_def on_accounts_def
  by (erule keeps_on_part; auto simp: flat_ok_def accounts_ok_def split: prod.splits)+

definition backing_ok where
  "backing_ok oracle start fs1 fs2 s \<longleftrightarrow> slot_frames oracle start (fst s) fs1 \<and> preimages_ok fs2 (snd s)"

lemma keeps_backing_parts [keeps_intro]:
  "keeps (\<lambda>s. preimages_ok fs2 (fst s)) m1 \<Longrightarrow> keeps (\<lambda>s. backing_ok oracle start fs1 fs2 (fst s)) (backing_preimages m1)"
  "keeps (\<lambda>s. slot_frames oracle start (fst s) fs1) m2 \<Longrightarrow> keeps (\<lambda>s. backing_ok oracle start fs1 fs2 (fst s)) (backing_slots m2)"
  unfolding backing_preimages_def backing_slots_def
  by (erule keeps_on_part; auto simp: backing_ok_def split: prod.splits)+

lemma keeps_charge_cold [keeps_intro]: "keeps (\<lambda>s. I (fst s)) (charge_cold_account ee a sd)"
  unfolding charge_cold_account_def
  by (auto simp: Let_def split: execution_environment_type.splits prod.splits sum.splits intro!: keeps_intro)

lemma keeps_spawn [keeps_intro]:
  "keeps (\<lambda>s. backing_ok (slot_data env) start fs1 fs2 (fst s)) (spawn_account env ee a sd obs)"
  unfolding spawn_account_def read_special_account_property_def by (intro keeps_intro)

lemma spawn_account_unmarked: "spawn_account env ee a sd obs y = (Inr (v, kp), t) \<Longrightarrow> mark_ok b kp v"
  by (auto simp: spawn_account_def mark_ok_def cache_record_new_def metadata_default_def and_then_def ret_def
      split: prod.splits sum.splits)

abbreviation flat_keeps where
  "flat_keeps env start fs1 fs2 fs3 \<equiv> keeps (\<lambda>s. flat_ok (slot_data env) start fs1 fs2 fs3 (fst s))"

lemma keeps_observe [keeps_intro]: "map_keeps mark_ok fs (hm_set_key_properties k acc_observe)"
  by (rule map_keeps_set_key_properties) (auto simp: mark_ok_def acc_observe_def)

lemma keeps_materialize [keeps_intro]: "flat_keeps env start fs1 fs2 fs3 (materialize_account env ee a sd al obs)"
proof -
  have "map_keeps mark_ok fs3 (hm_update (BitsOrd a) (touch_account_in_tx tx))" for tx
    by (rule map_keeps_update) (auto simp: mark_ok_def touch_account_in_tx_def and_then_def read_st_def assert_that_def panic_def ret_def modify_st_def)
  then have warm: "flat_keeps env start fs1 fs2 fs3 (warm_up_account ee a sd obs i tx)" for i tx
    unfolding warm_up_account_def by (intro keeps_intro)
  show ?thesis
    unfolding materialize_account_def
    by (intro keeps_intro warm keeps_on_part [OF keeps_get_or_insert [where fs = fs3, OF keeps_spawn [of env start fs1 fs2] spawn_account_unmarked]])
       (auto simp: flat_ok_def backing_ok_def accounts_ok_def split: prod.splits)
qed

lemma keeps_account_steps [keeps_intro]:
  "flat_keeps env start fs1 fs2 fs3 (current_account a)" "flat_keeps env start fs1 fs2 fs3 (observe_account a)"
  unfolding current_account_def observe_account_def by (intro keeps_intro)+

lemma keeps_update_account:
  assumes "\<And>x. is_marked_for_deconstruction (metadata (f x)) \<Longrightarrow> is_marked_for_deconstruction (metadata x)"
  shows "flat_keeps env start fs1 fs2 fs3 (update_account a f)"
  unfolding update_account_def
  by (intro keeps_intro map_keeps_update) (use assms in \<open>auto simp: mark_ok_def modify_st_def\<close>)

lemma keeps_update_value [keeps_intro]:
  "flat_keeps env start fs1 fs2 fs3 (update_account a (on_value g))"
  "(\<And>m. is_marked_for_deconstruction (h m) = is_marked_for_deconstruction m) \<Longrightarrow>
     flat_keeps env start fs1 fs2 fs3 (update_account a (\<lambda>x. on_metadata h (on_value g x)))"
  by (rule keeps_update_account; simp add: on_value_def on_metadata_def)+

lemma keeps_code_steps [keeps_intro]:
  "flat_keeps env start fs1 fs2 fs3 (compute_bytecode_hash env' ee code arts)"
  "flat_keeps env start fs1 fs2 fs3 (observable_hash env' code)"
  "flat_keeps env start fs1 fs2 fs3 (prepare_code env' ee code n)"
  "flat_keeps env start fs1 fs2 fs3 (account_bytecode env' v)"
  "flat_keeps env start fs1 fs2 fs3 (account_is_delegated v)"
proof -
  have arts: "flat_keeps env start fs1 fs2 fs3 (on_part snd (\<lambda>r s. (fst s, r)) (\<lambda>e. e) m)" for m :: "(base_resources, system_error, 'z) rs"
    by (rule keeps_on_part [OF keeps_True]) auto
  show "flat_keeps env start fs1 fs2 fs3 (compute_bytecode_hash env' ee code arts)" for ee code arts
    unfolding compute_bytecode_hash_def by (intro keeps_intro)
  then show "flat_keeps env start fs1 fs2 fs3 (prepare_code env' ee code n)"
    unfolding prepare_code_def save_bytecode_def by (intro keeps_intro arts)
  show "flat_keeps env start fs1 fs2 fs3 (observable_hash env' code)" "flat_keeps env start fs1 fs2 fs3 (account_bytecode env' v)"
    "flat_keeps env start fs1 fs2 fs3 (account_is_delegated v)"
    unfolding observable_hash_def account_bytecode_def account_is_delegated_def by (intro keeps_intro)+
qed

lemma keeps_balance [keeps_intro]:
  "flat_keeps env start fs1 fs2 fs3 (update_nominal_token_value_inner env ee a f sd)"
  "flat_keeps env start fs1 fs2 fs3 (transfer_nominal_token_value_inner env ee from to amount sd)"
  unfolding transfer_nominal_token_value_inner_def update_nominal_token_value_inner_def by (intro keeps_intro)+

lemma keeps_account_ops [keeps_intro]:
  "flat_keeps env start fs1 fs2 fs3 (read_account_balance_assuming_warm ee a)"
  "flat_keeps env start fs1 fs2 fs3 (touch_account env ee a al)"
  "flat_keeps env start fs1 fs2 fs3 (read_account_properties env ee a wb wd)"
  "flat_keeps env start fs1 fs2 fs3 (account_increment_nonce env ee a n)"
  unfolding read_account_balance_assuming_warm_def touch_account_def read_account_properties_def account_increment_nonce_def
  by (intro keeps_intro)+

lemma keeps_code_ops [keeps_intro]:
  "flat_keeps env start fs1 fs2 fs3 (deploy_code env ee a code)"
  "flat_keeps env start fs1 fs2 fs3 (set_bytecode_details env a ee h n al oh on)"
  "flat_keeps env start fs1 fs2 fs3 (set_delegation env a d)"
  unfolding deploy_code_def set_bytecode_details_def set_delegation_def save_bytecode_def by (intro keeps_intro; simp)+

text \<open>The mark is set on an account that has just been observed.\<close>

lemma sub_accounts_seq:
  "and_then (sub (on_accounts m)) (\<lambda>_. sub (on_accounts n)) = sub (on_accounts (and_then m (\<lambda>_. n)))"
  by (rule ext) (auto simp: sub_def on_accounts_def on_part_def and_then_def split: prod.splits sum.splits fault.splits)

lemma keeps_mark [keeps_intro]:
  "flat_keeps env start fs1 fs2 fs3 (and_then (sub (observe_account a)) (\<lambda>_.
     sub (update_account a (on_metadata (\<lambda>m. m\<lparr>is_marked_for_deconstruction := True\<rparr>)))))"
proof -
  let ?f = "on_metadata (\<lambda>m. m\<lparr>is_marked_for_deconstruction := True\<rparr>)" and ?k = "BitsOrd a"
  have "map_keeps mark_ok fs3 (and_then (hm_set_key_properties ?k acc_observe) (\<lambda>_. hm_update ?k (modify_st ?f)))"
  proof (rule keeps_returned)
    fix m :: "(bits_ord160, account_record, account_cache_appearance) history_map"
    assume fr: "hm_kept mark_ok m fs3"
      and np: "fst (and_then (hm_set_key_properties ?k acc_observe) (\<lambda>_. hm_update ?k (modify_st ?f)) m) \<noteq> Inl Panic"
    have "btree m ?k \<noteq> None" using np
      by (rule contrapos_nn) (simp add: hm_set_key_properties_def and_then_def read_st_def expect_def panic_def)
    then obtain v where v: "hm_values m ?k = Some v" using values_cached [OF fr, of ?k] by auto
    show "wp (and_then (hm_set_key_properties ?k acc_observe) (\<lambda>_. hm_update ?k (modify_st ?f)))
        (\<lambda>_ m'. hm_kept mark_ok m' fs3) (\<lambda>_ m'. hm_kept mark_ok m' fs3) m"
      unfolding wp_and_then
    proof (rule values_set_key_properties [OF fr])
      show "hm_values m ?k \<noteq> None" using v by simp
      show "mark_ok b (acc_observe kp) x" if "mark_ok b kp x" for b kp x using that by (auto simp: mark_ok_def acc_observe_def)
      fix m' assume m': "hm_kept mark_ok m' fs3" "hm_values m' = hm_values m"
        "hm_props m' = (hm_props m)(?k := map_option acc_observe (hm_props m ?k))"
      show "wp (hm_update ?k (modify_st ?f)) (\<lambda>_ m'. hm_kept mark_ok m' fs3) (\<lambda>_ m'. hm_kept mark_ok m' fs3) m'"
        by (rule values_update [OF m'(1), of ?k v "modify_st ?f" "Inr ()" "?f v"])
           (use m' v in \<open>auto simp: modify_st_def mark_ok_def acc_observe_def\<close>)
    qed
  qed
  from keeps_conversions(2) [OF keeps_flat_parts(3) [OF this]] show ?thesis
    unfolding observe_account_def update_account_def sub_accounts_seq .
qed

lemma keeps_deconstruct [keeps_intro]: "flat_keeps env start fs1 fs2 fs3 (deconstruct_account env ee a b c)"
proof -
  have casc: "flat_keeps env start fs1 fs2 fs3 (on_part (\<lambda>s. s) (\<lambda>s _. s) Cascaded m)"
    if "flat_keeps env start fs1 fs2 fs3 m" for m :: "(flat_st, balance_subsystem_error, unit) rs"
    by (rule keeps_on_part [OF that]) auto
  show ?thesis unfolding deconstruct_account_def by (intro keeps_intro casc)
qed

lemma keeps_slot_reads [keeps_intro]:
  "flat_keeps env start fs1 fs2 fs3 (flat_storage_read env ee a k)"
  "flat_keeps env start fs1 fs2 fs3 (flat_storage_touch env ee a k al)"
  unfolding flat_storage_read_def flat_storage_touch_def by (intro keeps_intro)+

section \<open>Frames of the flat storage\<close>

type_synonym flat_obs =
  "((warm_storage_key \<Rightarrow> slot_record) \<times> base_resources option) \<times> (u256 \<rightharpoonup> (publication_elem, unit) cache_record) \<times>
   (bits_ord160 \<rightharpoonup> account_record)"

definition flat_obs :: "io_env \<Rightarrow> flat_storage \<Rightarrow> flat_obs" where
  "flat_obs env f = (slot_obs (slot_data env) (storage_cache f), hm_values (publication_storage (preimages_cache f)),
     hm_values (acc_cache (account_data_cache f)))"

definition flat_frames :: "io_env \<Rightarrow> (warm_storage_key \<Rightarrow> bytes32) \<Rightarrow> flat_storage \<Rightarrow> (flat_snapshot \<times> flat_obs) list \<Rightarrow> bool" where
  "flat_frames env start f fs \<longleftrightarrow>
     flat_ok (slot_data env) start (map (map_prod snap_storage fst) fs) (map (map_prod snap_preimages (fst \<circ> snd)) fs)
       (map (map_prod snap_account_data (snd \<circ> snd)) fs) f"

definition flat_ext :: "flat_obs \<Rightarrow> flat_obs \<Rightarrow> bool" where
  "flat_ext x y \<longleftrightarrow> fst x = fst y \<and> fst (snd x) \<subseteq>\<^sub>m fst (snd y) \<and> snd (snd x) \<subseteq>\<^sub>m snd (snd y)"

definition flat_room :: "nat \<Rightarrow> flat_storage \<Rightarrow> bool" where
  "flat_room W f \<longleftrightarrow> next_snapshot_id (cache (storage_cache f)) < usize_max W \<and>
     next_snapshot_id (publication_storage (preimages_cache f)) < usize_max W \<and>
     next_snapshot_id (acc_cache (account_data_cache f)) < usize_max W"

datatype flat_op =
    StorageRead execution_environment_type b160 bytes32
  | StorageTouch execution_environment_type b160 bytes32 bool
  | StorageWrite b160 bytes32 bytes32
  | AddToRefundCounter base_resources
  | ReadAccountProperties execution_environment_type b160 bool bool
  | GetSelfbalance execution_environment_type b160
  | TouchAccount execution_environment_type b160 bool
  | IncrementNonce execution_environment_type b160 u64
  | UpdateBalance execution_environment_type b160 "u256 \<Rightarrow> balance_subsystem_error + u256"
  | TransferTokens execution_environment_type b160 b160 u256
  | DeployCode execution_environment_type b160 bytes
  | SetBytecodeDetails b160 execution_environment_type u256 u32 u32 u256 u32
  | SetDelegation b160 b160
  | MarkForDeconstruction execution_environment_type b160 b160 bool

text \<open>The outcome: whether the operation panicked, and the state it leaves.\<close>

definition outcome :: "('s, 'e, 'a) rs \<Rightarrow> 's \<Rightarrow> bool \<times> 's" where
  "outcome m s = (fst (m s) = Inl Panic, snd (m s))"

fun flat_exec :: "io_env \<Rightarrow> flat_op \<Rightarrow> flat_st \<Rightarrow> bool \<times> flat_st" where
  "flat_exec env (StorageRead ee a k) = outcome (flat_storage_read env ee a k)"
| "flat_exec env (StorageTouch ee a k al) = outcome (flat_storage_touch env ee a k al)"
| "flat_exec env (StorageWrite a k v) = outcome (flat_storage_write env EVM a k v)"
| "flat_exec env (AddToRefundCounter r) = outcome (flat_slots (add_to_refund_counter r))"
| "flat_exec env (ReadAccountProperties ee a wb wd) = outcome (read_account_properties env ee a wb wd)"
| "flat_exec env (GetSelfbalance ee a) = outcome (read_account_balance_assuming_warm ee a)"
| "flat_exec env (TouchAccount ee a al) = outcome (touch_account env ee a al)"
| "flat_exec env (IncrementNonce ee a n) = outcome (account_increment_nonce env ee a n)"
| "flat_exec env (UpdateBalance ee a f) = outcome (update_nominal_token_value_inner env ee a f False)"
| "flat_exec env (TransferTokens ee from to amount) = outcome (transfer_nominal_token_value_inner env ee from to amount False)"
| "flat_exec env (DeployCode ee a code) = outcome (deploy_code env ee a code)"
| "flat_exec env (SetBytecodeDetails a ee h n al oh on) = outcome (set_bytecode_details env a ee h n al oh on)"
| "flat_exec env (SetDelegation a d) = outcome (set_delegation env a d)"
| "flat_exec env (MarkForDeconstruction ee a b c) = outcome (deconstruct_account env ee a b c)"

text \<open>Only the operations that add to the refund counter need room there.\<close>

definition flat_step :: "io_env \<Rightarrow> flat_storage \<Rightarrow> flat_storage \<Rightarrow> bool" where
  "flat_step env f g \<longleftrightarrow>
     (\<exists>op r r'. flat_exec env op (f, r) = (False, (g, r')))"

lemma keeps_outcome: "outcome m s = (False, t) \<Longrightarrow> I s \<Longrightarrow> keeps I m \<Longrightarrow> I t"
  unfolding outcome_def keeps_def by (metis Pair_inject)

lemma slot_op_outcome:
  assumes fr: "slot_frames oracle start (storage_cache f) fs"
    and run: "outcome (flat_slots (slot_exec oracle op)) (f, r) = (False, (g, r'))"
  shows "slot_frames oracle start (storage_cache g) fs \<and> g = f\<lparr>storage_cache := storage_cache g\<rparr>"
proof -
  obtain x s'' r'' where e: "slot_exec oracle op (storage_cache f, r) = (x, (s'', r''))" by (metis prod.exhaust)
  have "x \<noteq> Inl Panic" using run e by (auto simp: outcome_def flat_slots_def on_part_def)
  then have "slot_frames oracle start s'' fs" using wp_snd [OF wp_slot_exec [OF fr, of op r]] e by simp
  moreover have "g = f\<lparr>storage_cache := s''\<rparr>" using run e by (simp add: outcome_def flat_slots_def on_part_def split: sum.splits fault.splits)
  ultimately show ?thesis by simp
qed

lemma flat_ok_slots:
  "flat_ok oracle start fs1 fs2 fs3 f \<Longrightarrow> slot_frames oracle start s fs1 \<Longrightarrow> flat_ok oracle start fs1 fs2 fs3 (f\<lparr>storage_cache := s\<rparr>)"
  by (simp add: flat_ok_def)

lemma flat_exec_ok:
  assumes ok: "flat_ok (slot_data env) start fs1 fs2 fs3 f"
    and run: "flat_exec env op (f, r) = (False, (g, r'))"
  shows "flat_ok (slot_data env) start fs1 fs2 fs3 g"
proof -
  have slots: "slot_frames (slot_data env) start (storage_cache f) fs1" using ok by (simp add: flat_ok_def)
  have slot: "flat_ok (slot_data env) start fs1 fs2 fs3 g"
    if "outcome (flat_slots (slot_exec (slot_data env) sop)) (f, r) = (False, (g, r'))" for sop
  proof -
    have "slot_frames (slot_data env) start (storage_cache g) fs1" "g = f\<lparr>storage_cache := storage_cache g\<rparr>"
      using slot_op_outcome [OF slots that] by blast+
    then show ?thesis using flat_ok_slots [OF ok] by metis
  qed
  note keep = keeps_outcome [where s = "(f, r)" and t = "(g, r')" and I = "\<lambda>s. flat_ok (slot_data env) start fs1 fs2 fs3 (fst s)", simplified]
  show ?thesis
  proof (cases op)
    case (StorageWrite a k v)
    have "outcome (flat_slots (slot_exec (slot_data env) (WriteSlot (WarmStorageKey a k) v))) (f, r) = (False, (g, r'))"
      using run StorageWrite
      by (auto simp: outcome_def flat_storage_write_def flat_slots_def on_part_def and_then_def ret_def split: prod.splits sum.splits fault.splits)
    then show ?thesis by (rule slot)
  next
    case (AddToRefundCounter x)
    then show ?thesis using slot [of "AddRefund x"] run by simp
  qed (use run ok in \<open>auto elim!: keep intro!: keeps_intro\<close>)
qed

lemma flat_start_frame_run:
  assumes "storage_start_frame W (storage_cache f) = (x1, s)" and "hm_snapshot W (publication_storage (preimages_cache f)) = (x2, p)"
    and "hm_snapshot W (acc_cache (account_data_cache f)) = (x3, c)"
  shows "flat_start_frame W f = (Inr h, g) \<longleftrightarrow>
     x1 = Inr (snap_storage h) \<and> x2 = Inr (snap_preimages h) \<and> x3 = Inr (snap_account_data h) \<and>
     g = f\<lparr>storage_cache := s, preimages_cache := (preimages_cache f)\<lparr>publication_storage := p\<rparr>,
       account_data_cache := (account_data_cache f)\<lparr>acc_cache := c\<rparr>\<rparr>"
  using assms
  by (cases x1; cases x2; cases x3; cases h)
     (auto simp: flat_start_frame_def on_storage_cache_def on_preimages_cache_def on_account_cache_def
      preimages_start_frame_def on_publication_def accounts_start_frame_def on_part_def and_then_def ret_def split: fault.splits)

lemma flat_finish_frame_ok:
  assumes "storage_finish_frame (map_option snap_storage h) (storage_cache f) = (Inr (), s)"
    and "hm_finish_frame (map_option snap_preimages h) (publication_storage (preimages_cache f)) = (Inr (), p)"
    and "hm_finish_frame (map_option snap_account_data h) (acc_cache (account_data_cache f)) = (Inr (), c)"
  shows "flat_finish_frame h f = (Inr (), f\<lparr>storage_cache := s, preimages_cache := (preimages_cache f)\<lparr>publication_storage := p\<rparr>,
         account_data_cache := (account_data_cache f)\<lparr>acc_cache := c\<rparr>\<rparr>)"
  using assms
  by (simp add: flat_finish_frame_def on_storage_cache_def on_preimages_cache_def on_account_cache_def
      preimages_finish_frame_def on_publication_def accounts_finish_frame_def on_part_def and_then_def)

lemmas flat_frames_defs = flat_frames_def flat_ok_def preimages_ok_def accounts_ok_def

interpretation fl: frame_store "flat_frames env start" "flat_obs env" flat_ext "flat_room W"
    "flat_start_frame W" flat_finish_frame "flat_step env"
proof
  fix f g :: flat_storage and fs x h i
  show "flat_ext x x" for x by (simp add: flat_ext_def)
  show "flat_ext x z" if "flat_ext x y" "flat_ext y z" for x y z
    using that by (auto simp: flat_ext_def intro: map_le_trans)
  show "\<exists>i g. flat_start_frame W f = (Inr i, g)" if fr: "flat_frames env start f fs" and room: "flat_room W f"
  proof -
    obtain i1 s where 1: "storage_start_frame W (storage_cache f) = (Inr i1, s)"
      using sv.start_ok [of "slot_data env" start "storage_cache f" _ W] fr room unfolding flat_frames_defs flat_room_def by blast
    obtain i2 p where 2: "hm_snapshot W (publication_storage (preimages_cache f)) = (Inr i2, p)"
      using hk.start_ok [of any_rec "publication_storage (preimages_cache f)" _ W] fr room unfolding flat_frames_defs flat_room_def by blast
    obtain i3 c where 3: "hm_snapshot W (acc_cache (account_data_cache f)) = (Inr i3, c)"
      using hk.start_ok [of mark_ok "acc_cache (account_data_cache f)" _ W] fr room unfolding flat_frames_defs flat_room_def by blast
    show ?thesis
      by (intro exI [of _ "\<lparr>snap_storage = i1, snap_account_data = i3, snap_preimages = i2\<rparr>"] exI)
         (simp add: flat_start_frame_run [OF 1 2 3])
  qed
  show "flat_frames env start g ((h, flat_obs env f) # fs) \<and> flat_obs env g = flat_obs env f"
    if fr: "flat_frames env start f fs" and st: "flat_start_frame W f = (Inr h, g)"
  proof -
    obtain x1 s x2 p x3 c where run: "storage_start_frame W (storage_cache f) = (x1, s)"
      "hm_snapshot W (publication_storage (preimages_cache f)) = (x2, p)" "hm_snapshot W (acc_cache (account_data_cache f)) = (x3, c)"
      by (metis prod.exhaust)
    note st' = st [unfolded flat_start_frame_run [OF run]]
    show ?thesis
      using sv.start_frames [of "slot_data env" start "storage_cache f" "map (map_prod snap_storage fst) fs" W "snap_storage h" s]
        hk.start_frames [of any_rec "publication_storage (preimages_cache f)" "map (map_prod snap_preimages (fst \<circ> snd)) fs" W "snap_preimages h" p]
        hk.start_frames [of mark_ok "acc_cache (account_data_cache f)" "map (map_prod snap_account_data (snd \<circ> snd)) fs" W "snap_account_data h" c] fr run st'
      by (simp add: flat_frames_defs flat_obs_def)
  qed
  show "\<exists>t. flat_finish_frame None f = (Inr (), t) \<and> flat_frames env start t fs \<and> flat_obs env t = flat_obs env f"
    if fr: "flat_frames env start f (x # fs)"
  proof -
    note parts = fr [unfolded flat_frames_defs list.map, THEN conjunct1] fr [unfolded flat_frames_defs list.map, THEN conjunct2, THEN conjunct1]
      fr [unfolded flat_frames_defs list.map, THEN conjunct2, THEN conjunct2]
    obtain s where 1: "storage_finish_frame None (storage_cache f) = (Inr (), s)"
        "slot_frames (slot_data env) start s (map (map_prod snap_storage fst) fs)" "slot_obs (slot_data env) s = slot_obs (slot_data env) (storage_cache f)"
      using sv.keep_frame [OF parts(1)] by blast
    obtain p where 2: "hm_finish_frame None (publication_storage (preimages_cache f)) = (Inr (), p)"
        "hm_kept any_rec p (map (map_prod snap_preimages (fst \<circ> snd)) fs)" "hm_values p = hm_values (publication_storage (preimages_cache f))"
      using hk.keep_frame [OF parts(2)] by blast
    obtain c where 3: "hm_finish_frame None (acc_cache (account_data_cache f)) = (Inr (), c)"
        "hm_kept mark_ok c (map (map_prod snap_account_data (snd \<circ> snd)) fs)" "hm_values c = hm_values (acc_cache (account_data_cache f))"
      using hk.keep_frame [OF parts(3)] by blast
    show ?thesis
      using flat_finish_frame_ok [of None f s p c] 1 2 3 by (simp add: flat_frames_defs flat_obs_def)
  qed
  show "\<exists>t. flat_finish_frame (Some i) f = (Inr (), t) \<and> flat_frames env start t fs \<and> flat_ext x (flat_obs env t)"
    if fr: "flat_frames env start f ((i, x) # fs)" for x
  proof -
    note parts = fr [unfolded flat_frames_defs list.map map_prod_simp, THEN conjunct1]
      fr [unfolded flat_frames_defs list.map map_prod_simp, THEN conjunct2, THEN conjunct1]
      fr [unfolded flat_frames_defs list.map map_prod_simp, THEN conjunct2, THEN conjunct2]
    obtain s where 1: "storage_finish_frame (Some (snap_storage i)) (storage_cache f) = (Inr (), s)"
        "slot_frames (slot_data env) start s (map (map_prod snap_storage fst) fs)" "fst x = slot_obs (slot_data env) s"
      using sv.fail_frame [OF parts(1)] by blast
    obtain p where 2: "hm_finish_frame (Some (snap_preimages i)) (publication_storage (preimages_cache f)) = (Inr (), p)"
        "hm_kept any_rec p (map (map_prod snap_preimages (fst \<circ> snd)) fs)" "fst (snd x) \<subseteq>\<^sub>m hm_values p"
      using hk.fail_frame [OF parts(2)] by auto
    obtain c where 3: "hm_finish_frame (Some (snap_account_data i)) (acc_cache (account_data_cache f)) = (Inr (), c)"
        "hm_kept mark_ok c (map (map_prod snap_account_data (snd \<circ> snd)) fs)" "snd (snd x) \<subseteq>\<^sub>m hm_values c"
      using hk.fail_frame [OF parts(3)] by auto
    show ?thesis
      using flat_finish_frame_ok [of "Some i" f s p c] 1 2 3 by (simp add: flat_frames_defs flat_obs_def flat_ext_def)
  qed
  show "flat_frames env start g fs" if "flat_frames env start f fs" "flat_step env f g"
    using that flat_exec_ok unfolding flat_frames_def flat_step_def by blast
qed

section \<open>Frames of the IO subsystem\<close>

type_synonym io_obs = "flat_obs \<times> (warm_storage_key \<Rightarrow> bytes32) \<times> logs_storage \<times> events_storage"

definition io_obs :: "io_env \<Rightarrow> io_state \<Rightarrow> io_obs" where
  "io_obs env i = (flat_obs env (io_storage i), transient_values (io_transient i), io_logs i, io_events i)"

definition io_ext :: "io_obs \<Rightarrow> io_obs \<Rightarrow> bool" where
  "io_ext x y \<longleftrightarrow> flat_ext (fst x) (fst y) \<and> snd x = snd y"

definition io_frames :: "io_env \<Rightarrow> (warm_storage_key \<Rightarrow> bytes32) \<Rightarrow> io_state \<Rightarrow> (io_snapshot \<times> io_obs) list \<Rightarrow> bool" where
  "io_frames env start i fs \<longleftrightarrow>
     flat_frames env start (io_storage i) (map (map_prod snap_io fst) fs) \<and>
     transient_frames (io_transient i) (map (map_prod snap_transient (fst \<circ> snd)) fs) \<and>
     logs_frames (io_logs i) (map (map_prod snap_messages (fst \<circ> snd \<circ> snd)) fs) \<and>
     events_frames (io_events i) (map (map_prod snap_events (snd \<circ> snd \<circ> snd)) fs)"

definition io_room :: "nat \<Rightarrow> io_state \<Rightarrow> bool" where
  "io_room W i \<longleftrightarrow> flat_room W (io_storage i) \<and> next_snapshot_id (ts_cache (io_transient i)) < usize_max W"

text \<open>
  The operations of the interface. Those that read single properties of an account are
  \<open>ReadAccountProperties\<close> followed by a projection.
\<close>

datatype io_op =
    FlatOp flat_op
  | TransientRead execution_environment_type b160 bytes32
  | TransientWrite execution_environment_type b160 bytes32 bytes32
  | EmitEvent execution_environment_type b160 "bytes32 list" bytes
  | EmitL1Message b160 bytes
  | EmitL1L2TxLog bytes32 bool

fun io_exec :: "io_env \<Rightarrow> io_op \<Rightarrow> base_resources \<times> io_state \<Rightarrow> bool \<times> base_resources \<times> io_state" where
  "io_exec env (FlatOp op) (r, i) = (case flat_exec env op (io_storage i, r) of (p, (f, r')) \<Rightarrow> (p, (r', i\<lparr>io_storage := f\<rparr>)))"
| "io_exec env (TransientRead ee a k) s = outcome (io_storage_read env True ee a k) s"
| "io_exec env (TransientWrite ee a k v) s = outcome (io_storage_write env True ee a k v) s"
| "io_exec env (EmitEvent ee a topics data) s = outcome (io_emit_event ee a topics data) s"
| "io_exec env (EmitL1Message a data) s = outcome (io_emit_l1_message env a data) s"
| "io_exec env (EmitL1L2TxLog h ok) s = outcome (io_emit_l1_l2_tx_log h ok) s"

fun io_op_room :: "io_op \<Rightarrow> bool" where
  "io_op_room (EmitL1Message a data) = (length data + 92 < 2 ^ 32)"
| "io_op_room _ = True"

definition io_step :: "io_env \<Rightarrow> io_state \<Rightarrow> io_state \<Rightarrow> bool" where
  "io_step env i j \<longleftrightarrow> (\<exists>op r r'. io_op_room op \<and> io_exec env op (r, i) = (False, (r', j)))"

lemma keeps_io_parts [keeps_intro]:
  "keeps (\<lambda>s. I (snd s)) (on_part fst (\<lambda>r s. (r, snd s)) (\<lambda>e. e) m1)"
  "keeps I m2 \<Longrightarrow> keeps (\<lambda>s. I (snd s)) (io_part conv m2)"
  by (rule keeps_on_part [OF keeps_True]; simp) (auto simp: io_part_def elim: keeps_on_part)

lemma keeps_io_costs [keeps_intro]:
  "keeps (\<lambda>s. I (snd s)) (io_charge c)" "keeps J (u64_sum ns)" "keeps J (event_ergs ee n l)"
  unfolding io_charge_def u64_sum_def event_ergs_def by (intro keeps_intro)+

lemma keeps_transient [keeps_intro]:
  "keeps (\<lambda>t. transient_frames t fs) (apply_read k)" "keeps (\<lambda>t. transient_frames t fs) (apply_write k v)"
  by (auto intro!: keeps_returned wp_apply_read wp_apply_write)

lemma keeps_push_event [keeps_intro]: "keeps (\<lambda>l. events_frames l fs) (push_event tx a topics data)"
proof (rule keepsI)
  fix s x t assume fr: "events_frames s fs" and run: "push_event tx a topics data s = (x, t)"
  then have "x = Inr ()" by (auto simp: ev_defs)
  then have "event_pushed s t" using run unfolding event_pushed_def by blast
  then show "events_frames t fs" using fr ev.step_frames by blast
qed

lemma keeps_push_log:
  assumes "message_fits op" "op = PushMessage tx a d h \<or> op = PushL1Tx tx h ok"
  shows "keeps (\<lambda>l. logs_frames l fs) (logs_exec op)"
proof (rule keepsI)
  fix s x t assume fr: "logs_frames s fs" and run: "logs_exec op s = (x, t)" "x \<noteq> Inl Panic"
  then have "x = Inr ()"
    using assms(2) by (auto simp: push_message_def push_l1_l2_tx_log_def add_pubdata_def logs_defs split: option.splits if_splits)
  then have "log_pushed s t" using assms run unfolding log_pushed_def by blast
  then show "logs_frames t fs" using fr lg.step_frames by blast
qed

lemma keeps_io_state_parts [keeps_intro]:
  "keeps (\<lambda>t. transient_frames t (map (map_prod snap_transient (fst \<circ> snd)) fs)) m1 \<Longrightarrow>
     keeps (\<lambda>i. io_frames env start i fs) (on_transient m1)"
  "keeps (\<lambda>l. logs_frames l (map (map_prod snap_messages (fst \<circ> snd \<circ> snd)) fs)) m2 \<Longrightarrow>
     keeps (\<lambda>i. io_frames env start i fs) (on_logs m2)"
  "keeps (\<lambda>l. events_frames l (map (map_prod snap_events (snd \<circ> snd \<circ> snd)) fs)) m3 \<Longrightarrow>
     keeps (\<lambda>i. io_frames env start i fs) (on_events m3)"
  unfolding on_transient_def on_logs_def on_events_def by (erule keeps_on_part; simp add: io_frames_def)+

lemma keeps_messages [keeps_intro]:
  "length d + 92 < 2 ^ 32 \<Longrightarrow> keeps (\<lambda>l. logs_frames l fs) (push_message tx a d h)"
  "keeps (\<lambda>l. logs_frames l fs) (push_l1_l2_tx_log tx h ok)"
  using keeps_push_log [of "PushMessage tx a d h" tx a d h ok fs] keeps_push_log [of "PushL1Tx tx h ok" tx a d h ok fs] by simp_all

lemma io_exec_frames:
  assumes fr: "io_frames env start i fs" and room: "io_op_room op" and run: "io_exec env op (r, i) = (False, (r', j))"
  shows "io_frames env start j fs"
proof -
  note keep = keeps_outcome [where s = "(r, i)" and t = "(r', j)" and I = "\<lambda>s. io_frames env start (snd s) fs", simplified]
  show ?thesis
  proof (cases op)
    case (FlatOp fop)
    obtain g r'' where g: "flat_exec env fop (io_storage i, r) = (False, (g, r''))" "j = i\<lparr>io_storage := g\<rparr>"
      using run FlatOp by (auto split: prod.splits)
    have "flat_frames env start g (map (map_prod snap_io fst) fs)"
      using flat_exec_ok [OF _ g(1)] fr room FlatOp unfolding io_frames_def flat_frames_def by auto
    then show ?thesis using fr g(2) by (simp add: io_frames_def)
  next
    case (EmitL1Message a d)
    have "length d + 92 < 2 ^ 32" using room EmitL1Message by simp
    then have "keeps (\<lambda>s. io_frames env start (snd s) fs) (io_emit_l1_message env a d)"
      unfolding io_emit_l1_message_def by (intro keeps_intro)
    then show ?thesis using keep fr run EmitL1Message by (metis io_exec.simps(5))
  qed (use run fr in \<open>auto elim!: keep intro!: keeps_intro
        simp: io_storage_read_def io_storage_write_def io_emit_event_def io_emit_l1_l2_tx_log_def\<close>)
qed

lemma start_io_frame_run:
  assumes "flat_start_frame W (io_storage i) = (x1, f)" and "transient_start_frame W (io_transient i) = (x2, t)"
    and "logs_start_frame (io_logs i) = (x3, l)" and "events_start_frame (io_events i) = (x4, e)"
  shows "start_io_frame W i = (Inr h, j) \<longleftrightarrow>
     x1 = Inr (snap_io h) \<and> x2 = Inr (snap_transient h) \<and> x3 = Inr (snap_messages h) \<and> x4 = Inr (snap_events h) \<and>
     j = i\<lparr>io_storage := f, io_transient := t, io_logs := l, io_events := e\<rparr>"
  using assms
  by (cases x1; cases x2; cases x3; cases x4; cases h)
     (auto simp: start_io_frame_def on_flat_def on_transient_def on_logs_def on_events_def on_part_def and_then_def ret_def
        split: fault.splits)

lemma finish_io_frame_ok:
  assumes "flat_finish_frame (map_option snap_io h) (io_storage i) = (Inr (), f)"
    and "transient_finish_frame (map_option snap_transient h) (io_transient i) = (Inr (), t)"
    and "logs_finish_frame (map_option snap_messages h) (io_logs i) = (Inr (), l)"
    and "events_finish_frame (map_option snap_events h) (io_events i) = (Inr (), e)"
  shows "finish_io_frame h i = (Inr (), i\<lparr>io_storage := f, io_transient := t, io_logs := l, io_events := e\<rparr>)"
  using assms by (simp add: finish_io_frame_def on_flat_def on_transient_def on_logs_def on_events_def on_part_def and_then_def)

lemma io_framesD:
  assumes "io_frames env start i fs"
  shows "flat_frames env start (io_storage i) (map (map_prod snap_io fst) fs)"
    and "transient_frames (io_transient i) (map (map_prod snap_transient (fst \<circ> snd)) fs)"
    and "logs_frames (io_logs i) (map (map_prod snap_messages (fst \<circ> snd \<circ> snd)) fs)"
    and "events_frames (io_events i) (map (map_prod snap_events (snd \<circ> snd \<circ> snd)) fs)"
  using assms by (auto simp: io_frames_def)

interpretation iofs: frame_store "io_frames env start" "io_obs env" io_ext "io_room W" "start_io_frame W" finish_io_frame "io_step env"
proof
  fix i j :: io_state and fs x h k
  show "io_ext x x" for x using fl.ext_refl by (simp add: io_ext_def)
  show "io_ext x z" if "io_ext x y" "io_ext y z" for x y z
    using that by (auto simp: io_ext_def flat_ext_def intro: map_le_trans)
  show "\<exists>h j. start_io_frame W i = (Inr h, j)" if fr: "io_frames env start i fs" and room: "io_room W i"
  proof -
    obtain i1 f where 1: "flat_start_frame W (io_storage i) = (Inr i1, f)"
      using fl.start_ok [OF io_framesD(1) [OF fr]] room unfolding io_room_def by blast
    obtain i2 t where 2: "transient_start_frame W (io_transient i) = (Inr i2, t)"
      using ts.start_ok [OF io_framesD(2) [OF fr]] room unfolding io_room_def by blast
    obtain i3 l where 3: "logs_start_frame (io_logs i) = (Inr i3, l)" using lg.start_ok [OF io_framesD(3) [OF fr]] by blast
    obtain i4 e where 4: "events_start_frame (io_events i) = (Inr i4, e)" using ev.start_ok [OF io_framesD(4) [OF fr]] by blast
    show ?thesis
      by (intro exI [of _ "\<lparr>snap_io = i1, snap_transient = i2, snap_messages = i3, snap_events = i4\<rparr>"] exI)
         (simp add: start_io_frame_run [OF 1 2 3 4])
  qed
  show "io_frames env start j ((h, io_obs env i) # fs) \<and> io_obs env j = io_obs env i"
    if fr: "io_frames env start i fs" and st: "start_io_frame W i = (Inr h, j)"
  proof -
    obtain x1 f x2 t x3 l x4 e where run: "flat_start_frame W (io_storage i) = (x1, f)"
      "transient_start_frame W (io_transient i) = (x2, t)" "logs_start_frame (io_logs i) = (x3, l)" "events_start_frame (io_events i) = (x4, e)"
      by (metis prod.exhaust)
    have st': "x1 = Inr (snap_io h)" "x2 = Inr (snap_transient h)" "x3 = Inr (snap_messages h)" "x4 = Inr (snap_events h)"
      "j = i\<lparr>io_storage := f, io_transient := t, io_logs := l, io_events := e\<rparr>"
      using st unfolding start_io_frame_run [OF run] by auto
    note run' = run [unfolded st'(1-4)]
    show ?thesis
      using fl.start_frames [OF io_framesD(1) [OF fr] run'(1)] ts.start_frames [OF io_framesD(2) [OF fr] run'(2)]
        lg.start_frames [OF io_framesD(3) [OF fr] run'(3)] ev.start_frames [OF io_framesD(4) [OF fr] run'(4)] st'(5)
      by (auto simp: io_frames_def io_obs_def)
  qed
  show "\<exists>j. finish_io_frame None i = (Inr (), j) \<and> io_frames env start j fs \<and> io_obs env j = io_obs env i"
    if fr: "io_frames env start i (x # fs)"
  proof -
    note parts = io_framesD [OF fr, unfolded list.map]
    obtain f where 1: "flat_finish_frame None (io_storage i) = (Inr (), f)"
        "flat_frames env start f (map (map_prod snap_io fst) fs)" "flat_obs env f = flat_obs env (io_storage i)"
      using fl.keep_frame [OF parts(1)] by blast
    obtain t where 2: "transient_finish_frame None (io_transient i) = (Inr (), t)"
        "transient_frames t (map (map_prod snap_transient (fst \<circ> snd)) fs)" "transient_values t = transient_values (io_transient i)"
      using ts.keep_frame [OF parts(2)] by blast
    obtain l where 3: "logs_finish_frame None (io_logs i) = (Inr (), l)"
        "logs_frames l (map (map_prod snap_messages (fst \<circ> snd \<circ> snd)) fs)" "l = io_logs i"
      using lg.keep_frame [OF parts(3)] by blast
    obtain e where 4: "events_finish_frame None (io_events i) = (Inr (), e)"
        "events_frames e (map (map_prod snap_events (snd \<circ> snd \<circ> snd)) fs)" "e = io_events i"
      using ev.keep_frame [OF parts(4)] by blast
    show ?thesis using finish_io_frame_ok [of None i f t l e] 1 2 3 4 by (simp add: io_frames_def io_obs_def)
  qed
  show "\<exists>j. finish_io_frame (Some h) i = (Inr (), j) \<and> io_frames env start j fs \<and> io_ext y (io_obs env j)"
    if fr: "io_frames env start i ((h, y) # fs)" for y
  proof -
    note parts = io_framesD [OF fr, unfolded list.map map_prod_simp comp_def]
    obtain f where 1: "flat_finish_frame (Some (snap_io h)) (io_storage i) = (Inr (), f)"
        "flat_frames env start f (map (map_prod snap_io fst) fs)" "flat_ext (fst y) (flat_obs env f)"
      using fl.fail_frame [OF parts(1)] by blast
    obtain t where 2: "transient_finish_frame (Some (snap_transient h)) (io_transient i) = (Inr (), t)"
        "transient_frames t (map (map_prod snap_transient (fst \<circ> snd)) fs)" "fst (snd y) = transient_values t"
      using ts.fail_frame [OF parts(2)] by (auto simp: comp_def)
    obtain l where 3: "logs_finish_frame (Some (snap_messages h)) (io_logs i) = (Inr (), l)"
        "logs_frames l (map (map_prod snap_messages (fst \<circ> snd \<circ> snd)) fs)" "fst (snd (snd y)) = l"
      using lg.fail_frame [OF parts(3)] by (auto simp: comp_def)
    obtain e where 4: "events_finish_frame (Some (snap_events h)) (io_events i) = (Inr (), e)"
        "events_frames e (map (map_prod snap_events (snd \<circ> snd \<circ> snd)) fs)" "snd (snd (snd y)) = e"
      using ev.fail_frame [OF parts(4)] by (auto simp: comp_def)
    have "snd y = (transient_values t, l, e)" using 2 3 4 by (metis prod.collapse)
    then show ?thesis using finish_io_frame_ok [of "Some h" i f t l e] 1 2 3 4 by (simp add: io_frames_def io_obs_def io_ext_def)
  qed
  show "io_frames env start j fs" if "io_frames env start i fs" "io_step env i j"
    using that io_exec_frames unfolding io_step_def by blast
qed

end
