(* ===== verification/Io_Transactions.thy ===== *)
theory Io_Transactions
  imports Io_Frames
begin

text \<open>
  The IO subsystem over the transactions of a block: the states in which transactions begin
  (\<open>io_tx_begins\<close>), what may happen inside one (\<open>io_run\<close>), and its end. \<open>finish_tx\<close> walks over the
  accounts with pending changes and deconstructs those that were marked; the walk is shown to
  reach every marked account and to return, and the state it leaves is one from which the next
  transaction can begin.
\<close>

section \<open>Clearing the slots of an address\<close>

lemma hm_rel_finite:
  assumes "hm_rel m A"
  shows "finite (dom (btree m))"
proof -
  obtain L F where L: "hm_ok m L F" using assms by (rule hm_relE)
  have ne: "L k \<noteq> []" if "k \<in> dom (btree m)" for k using hm_okD(7) [OF L, of k] that by auto
  have "inj_on (\<lambda>k. hd (L k)) (dom (btree m))"
    using hm_okD(5) [OF L] ne by (intro inj_onI) (metis disjoint_iff hd_in_set)
  moreover have "(\<lambda>k. hd (L k)) ` dom (btree m) \<subseteq> {..<brk (records_memory_pool m)}"
  proof (rule image_subsetI)
    fix k assume k: "k \<in> dom (btree m)"
    have "cells (records_memory_pool m) (hd (L k)) \<noteq> None" using hm_okD(6) [OF L] hd_in_set [OF ne [OF k]] by blast
    then show "hd (L k) \<in> {..<brk (records_memory_pool m)}" using hm_okD(1) [OF L] unfolding pool_ok_def by blast
  qed
  ultimately show ?thesis using finite_imageD finite_subset by blast
qed

lemma hm_keys_set: "hm_cache init m fs \<Longrightarrow> set (hm_keys m) = {k. btree m k \<noteq> None}"
  by (erule hm_cacheE, drule hm_rel_finite) (auto simp: hm_keys_def)

definition zeroed :: "slot_record \<Rightarrow> slot_record" where
  "zeroed x = x\<lparr>record_value := 0\<rparr>"

lemma zeroed_idem [simp]: "zeroed (zeroed x) = zeroed x"
  by (simp add: zeroed_def)

abbreviation zero_slot :: "warm_storage_key \<Rightarrow> (slot_map, internal_error, unit) rs" where
  "zero_slot k \<equiv> and_then (hm_update k (modify_st (\<lambda>x. x\<lparr>record_value := 0\<rparr>))) (\<lambda>_. hm_set_key_properties k appearance_delete)"

abbreviation same_keys :: "slot_map \<Rightarrow> slot_map \<Rightarrow> bool" where
  "same_keys m m' \<equiv> \<forall>k. btree m k \<noteq> None \<longleftrightarrow> btree m' k \<noteq> None"

abbreviation zeroed_in :: "warm_storage_key set \<Rightarrow> (warm_storage_key \<Rightarrow> slot_record) \<Rightarrow> warm_storage_key \<Rightarrow> slot_record" where
  "zeroed_in K v k \<equiv> if k \<in> K then zeroed (v k) else v k"

lemma wp_zero_slot:
  assumes c: "hm_cache init m fs" and k: "btree m k \<noteq> None"
  shows "wp (zero_slot k) (\<lambda>_ m'. hm_cache init m' fs \<and> same_keys m m' \<and> hm_view init m' = zeroed_in {k} (hm_view init m))
    (\<lambda>_ _. False) m"
  unfolding wp_and_then
proof (rule view_update [OF c k])
  show "modify_st (\<lambda>x. x\<lparr>record_value := 0\<rparr>) (hm_view init m k) = (Inr (), zeroed (hm_view init m k))"
    by (simp add: modify_st_def zeroed_def)
  fix m1 :: slot_map assume m1: "hm_cache init m1 fs" "hm_view init m1 = (hm_view init m)(k := zeroed (hm_view init m k))"
    "\<forall>k'. btree m k' \<noteq> None \<longleftrightarrow> btree m1 k' \<noteq> None"
  have k1: "btree m1 k \<noteq> None" using m1(3) k by simp
  show "wp (hm_set_key_properties k appearance_delete) (\<lambda>_ m'. hm_cache init m' fs \<and> same_keys m m' \<and>
     hm_view init m' = zeroed_in {k} (hm_view init m)) (\<lambda>_ _. False) m1"
    by (rule view_set_key_properties [OF m1(1) k1]) (use m1 in \<open>auto simp: fun_eq_iff\<close>)
qed

lemma wp_for_each_zero:
  assumes "hm_cache init m fs" and "\<forall>k \<in> set ks. btree m k \<noteq> None"
  shows "wp (for_each_key zero_slot ks) (\<lambda>_ m'. hm_cache init m' fs \<and> same_keys m m' \<and>
        hm_view init m' = zeroed_in (set ks) (hm_view init m)) (\<lambda>_ _. False) m"
  using assms
proof (induction ks arbitrary: m)
  case (Cons k ks)
  have k: "btree m k \<noteq> None" using Cons.prems(2) by simp
  have "wp (for_each_key zero_slot ks) (\<lambda>_ m'. hm_cache init m' fs \<and> same_keys m m' \<and>
        hm_view init m' = zeroed_in (set (k # ks)) (hm_view init m)) (\<lambda>_ _. False) m1"
    if m1: "hm_cache init m1 fs \<and> same_keys m m1 \<and> hm_view init m1 = zeroed_in {k} (hm_view init m)" for m1
  proof -
    have c1: "hm_cache init m1 fs" and "\<forall>k \<in> set ks. btree m1 k \<noteq> None" using Cons.prems(2) m1 by auto
    from Cons.IH [OF this] show ?thesis by (rule wp_mono) (use m1 in \<open>auto simp: fun_eq_iff\<close>)
  qed
  then show ?case unfolding for_each_key.simps wp_and_then [of "zero_slot k"]
    by (rule wp_mono [OF wp_zero_slot [OF Cons.prems(1) k]]) auto
qed simp

abbreviation slots_of :: "slot_map \<Rightarrow> b160 set \<Rightarrow> warm_storage_key set" where
  "slots_of m as \<equiv> {k. address k \<in> as \<and> btree m k \<noteq> None}"

lemma wp_clear_state:
  assumes c: "hm_cache init (cache s) fs"
  shows "wp (clear_state_impl a) (\<lambda>_ t. hm_cache init (cache t) fs \<and> t = s\<lparr>cache := cache t\<rparr> \<and> same_keys (cache s) (cache t) \<and>
       hm_view init (cache t) = zeroed_in (slots_of (cache s) {a}) (hm_view init (cache s))) (\<lambda>_ _. False) s"
proof -
  let ?ks = "filter (\<lambda>k. lower_bound a \<le> k \<and> k \<le> upper_bound a) (hm_keys (cache s))"
  have ks: "set ?ks = slots_of (cache s) {a}"
    using hm_keys_set [OF c] between_bounds [of a] by auto
  then have "\<forall>k \<in> set ?ks. btree (cache s) k \<noteq> None" by auto
  from wp_for_each_zero [OF c this, unfolded ks]
  have "wp (for_each_range (lower_bound a) (upper_bound a) zero_slot)
      (\<lambda>_ m. hm_cache init m fs \<and> same_keys (cache s) m \<and> hm_view init m = zeroed_in (slots_of (cache s) {a}) (hm_view init (cache s)))
      (\<lambda>_ _. False) (cache s)"
    unfolding for_each_range_def wp_and_then wp_read_st .
  then show ?thesis unfolding clear_state_impl_def on_cache_def wp_on_part
    by (rule wp_mono) simp_all
qed

section \<open>The deconstruction of marked accounts\<close>

definition deconstructed :: "account_record \<Rightarrow> account_record" where
  "deconstructed x = on_metadata (\<lambda>m. m\<lparr>is_marked_for_deconstruction := False\<rparr>) (on_value (\<lambda>_. TRIVIAL_VALUE) x)"

lemma deconstructed_unmarked [simp]: "\<not> is_marked_for_deconstruction (metadata (deconstructed x))"
  by (simp add: deconstructed_def on_metadata_def)

definition marked_in :: "(bits_ord160 \<rightharpoonup> account_record) \<Rightarrow> bits_ord160 set" where
  "marked_in V = {k. \<exists>x. V k = Some x \<and> is_marked_for_deconstruction (metadata x)}"

definition deconstruct_in :: "bits_ord160 set \<Rightarrow> (bits_ord160 \<rightharpoonup> account_record) \<Rightarrow> bits_ord160 \<rightharpoonup> account_record" where
  "deconstruct_in S V k = (if k \<in> S then map_option deconstructed (V k) else V k)"

text \<open>What the walk has done when \<open>rem\<close> is left of the pending changes of the keys \<open>K\<close>.\<close>

definition walk_inv where
  "walk_inv init fs K V0 P0 s0 (rem :: (bits_ord160 \<times> snapshot_id) list) V P s \<longleftrightarrow> (\<exists>S. S \<subseteq> marked_in V0 \<and> marked_in V0 \<inter> K - fst ` set rem \<subseteq> S \<and>
     V = deconstruct_in S V0 \<and> P = P0 \<and> hm_cache init (cache s) fs \<and> same_keys (cache s0) (cache s) \<and> s = s0\<lparr>cache := cache s\<rparr> \<and>
     hm_view init (cache s) = zeroed_in (slots_of (cache s0) (bits ` S)) (hm_view init (cache s0)))"

lemma deconstruct_run:
  assumes c: "hm_cache init (cache s) fs" and "is_marked_for_deconstruction (metadata (val r))" and "acc_current_appearance kp = AccObserved"
  shows "\<exists>t. deconstruct_pending k i ((r, kp), s) = (Inr (), (r\<lparr>val := deconstructed (val r)\<rparr>, kp), t) \<and>
     hm_cache init (cache t) fs \<and> t = s\<lparr>cache := cache t\<rparr> \<and> same_keys (cache s) (cache t) \<and>
     hm_view init (cache t) = zeroed_in (slots_of (cache s) {bits k}) (hm_view init (cache s))"
proof -
  obtain t where "clear_state_impl (bits k) s = (Inr (), t)" "hm_cache init (cache t) fs \<and> t = s\<lparr>cache := cache t\<rparr> \<and>
      same_keys (cache s) (cache t) \<and> hm_view init (cache t) = zeroed_in (slots_of (cache s) {bits k}) (hm_view init (cache s))"
    using wp_total [OF wp_clear_state [OF c, of "bits k"]] by auto
  then show ?thesis using assms(2,3) by (simp add: deconstruct_pending_def deconstructed_def)
qed

lemma walk_step:
  assumes J: "walk_inv init fs K V0 P0 s0 ((k, j) # qs) V P s" and V: "V k = Some (val r)" and P: "P k = Some kp"
    and obs: "\<And>x kp. V0 k = Some x \<Longrightarrow> is_marked_for_deconstruction (metadata x) \<Longrightarrow> P0 k = Some kp \<Longrightarrow> acc_current_appearance kp = AccObserved"
  shows "\<exists>r' kp' t. deconstruct_pending k i ((r, kp), s) = (Inr (), (r', kp'), t) \<and> touch_ss_id r' = touch_ss_id r \<and>
     previous r' = previous r \<and> walk_inv init fs K V0 P0 s0 qs (V(k \<mapsto> val r')) (P(k \<mapsto> kp')) t"
proof -
  obtain S where S: "S \<subseteq> marked_in V0" "marked_in V0 \<inter> K - fst ` set ((k, j) # qs) \<subseteq> S" "V = deconstruct_in S V0" "P = P0"
    and s: "hm_cache init (cache s) fs" "same_keys (cache s0) (cache s)" "s = s0\<lparr>cache := cache s\<rparr>"
      "hm_view init (cache s) = zeroed_in (slots_of (cache s0) (bits ` S)) (hm_view init (cache s0))"
    using J unfolding walk_inv_def by blast
  have same: "V(k \<mapsto> val r) = V" "P(k \<mapsto> kp) = P" using V P by auto
  show ?thesis
  proof (cases "is_marked_for_deconstruction (metadata (val r))")
    case True
    then have k: "k \<notin> S" using V S(3) by (auto simp: deconstruct_in_def) (metis deconstructed_unmarked)
    then have V0: "V0 k = Some (val r)" using V S(3) by (simp add: deconstruct_in_def)
    then have "acc_current_appearance kp = AccObserved" using obs True P S(4) by blast
    then obtain t where t: "deconstruct_pending k i ((r, kp), s) = (Inr (), (r\<lparr>val := deconstructed (val r)\<rparr>, kp), t)"
        "hm_cache init (cache t) fs" "t = s\<lparr>cache := cache t\<rparr>" "same_keys (cache s) (cache t)"
        "hm_view init (cache t) = zeroed_in (slots_of (cache s) {bits k}) (hm_view init (cache s))"
      using deconstruct_run [OF s(1) True, of kp k i] by blast
    have "V(k \<mapsto> deconstructed (val r)) = deconstruct_in (insert k S) V0"
      using V0 S(3) by (auto simp: deconstruct_in_def fun_eq_iff)
    moreover have "hm_view init (cache t) = zeroed_in (slots_of (cache s0) (bits ` insert k S)) (hm_view init (cache s0))"
      using t(5) s(2,4) by (auto simp: fun_eq_iff)
    moreover have "insert k S \<subseteq> marked_in V0" using S(1) V0 True by (auto simp: marked_in_def)
    moreover have "marked_in V0 \<inter> K - fst ` set qs \<subseteq> insert k S" using S(2) by auto
    moreover have "t = s0\<lparr>cache := cache t\<rparr>" by (rule trans [OF t(3)]) (subst s(3), simp)
    ultimately have "walk_inv init fs K V0 P0 s0 qs (V(k \<mapsto> deconstructed (val r))) P t"
      unfolding walk_inv_def using t(2,4) s(2) S(4) by (intro exI [of _ "insert k S"]) auto
    then show ?thesis using t(1) same(2) by auto
  next
    case False
    then have "k \<notin> marked_in V0 - S" using V S(3) by (auto simp: marked_in_def deconstruct_in_def)
    then have "marked_in V0 \<inter> K - fst ` set qs \<subseteq> S" using S(2) by auto
    then have "walk_inv init fs K V0 P0 s0 qs V P s" unfolding walk_inv_def using S s by blast
    moreover have "deconstruct_pending k i ((r, kp), s) = (Inr (), (r, kp), s)" using False by (simp add: deconstruct_pending_def)
    ultimately show ?thesis using same by metis
  qed
qed

lemma marked_pending:
  assumes A: "hm_rel m A" "spec_wf A" "rec_ok mark_ok A" and k: "k \<in> marked_in (hm_values m)"
  shows "k \<in> fst ` set (pend A) \<and> (\<exists>kp. hm_props m k = Some kp \<and> acc_current_appearance kp = AccObserved)"
proof -
  obtain x where x: "hm_values m k = Some x" "is_marked_for_deconstruction (metadata x)" using k by (auto simp: marked_in_def)
  have h: "(fst (hd (hist A k)), x) \<in> set (hist A k)"
    using x(1) by (auto simp: hm_values_spec [OF A(1)] spec_values_def split: list.splits)
  then obtain kp where "props A k = Some kp" "mark_ok (frozen_id A < fst (hd (hist A k))) kp x"
    using A(3) unfolding rec_ok_def by blast
  then show ?thesis using pending_newer [OF A(2) h] x(2) hm_rel_props [OF A(1)] by (force simp: mark_ok_def)
qed

lemma initial_unmarked:
  assumes wf: "spec_wf A" and ok: "rec_ok mark_ok A" and ne: "hist A k \<noteq> []"
  shows "\<not> is_marked_for_deconstruction (metadata (snd (last (hist A k))))"
proof -
  obtain kp where "mark_ok (frozen_id A < fst (last (hist A k))) kp (snd (last (hist A k)))"
    using ok last_in_set [OF ne] unfolding rec_ok_def by (metis prod.collapse)
  moreover have "fst (last (hist A k)) = 0" using spec_wfD(4) [OF wf, of k] ne by (simp add: desc_def)
  ultimately show ?thesis by (simp add: mark_ok_def)
qed

lemma finish_walk:
  assumes fr: "hm_kept mark_ok m fs3" and c: "hm_cache init (cache s) fs"
  shows "\<exists>m' s'. apply_to_last_record_of_pending_changes deconstruct_pending (m, s) = (Inr (), (m', s')) \<and>
     hm_values m' = deconstruct_in (marked_in (hm_values m)) (hm_values m) \<and> hm_props m' = hm_props m \<and>
     (\<exists>B. hm_rel m' B \<and> spec_wf B \<and> (\<forall>k. hist B k \<noteq> [] \<longrightarrow>
        \<not> is_marked_for_deconstruction (metadata (snd (last (hist B k)))))) \<and>
     hm_cache init (cache s') fs \<and> s' = s\<lparr>cache := cache s'\<rparr> \<and> same_keys (cache s) (cache s') \<and>
     hm_view init (cache s') = zeroed_in (slots_of (cache s) (bits ` marked_in (hm_values m))) (hm_view init (cache s))"
proof -
  let ?V = "hm_values m" and ?P = "hm_props m"
  obtain A where A: "hm_rel m A" "spec_wf A" "rec_ok mark_ok A" by (rule hm_keptE [OF fr])
  let ?ps = "pend A" let ?K = "fst ` set ?ps"
  have ps: "pending_updated_elements m = ?ps" using hm_rel_fields [OF A(1)] by simp
  note mark = marked_pending [OF A]
  have start: "walk_inv init fs ?K ?V ?P s ?ps ?V ?P s"
    unfolding walk_inv_def using c by (intro exI [of _ "{}"]) (auto simp: deconstruct_in_def fun_eq_iff)
  have "or_panics False (apply_to_pending deconstruct_pending ?ps) (\<lambda>_ t. walked A (fst t) \<and>
      walk_inv init fs ?K ?V ?P s [] (hm_values (fst t)) (hm_props (fst t)) (snd t)) (m, s)"
  proof (rule pending_walk [where J = "walk_inv init fs ?K ?V ?P s", OF _ A(1,2) _ start])
    show "length (hist A k) \<ge> 2" if "(k, i) \<in> set ?ps" for k i using pending_updated [OF A(2) that] .
  next
    fix k j qs i kp x V P and r :: "account_record history_record"
    assume w: "walk_inv init fs ?K ?V ?P s ((k, j) # qs) V P x" "V k = Some (val r)" "P k = Some kp"
    have "acc_current_appearance kp = AccObserved"
      if "?V k = Some x" "is_marked_for_deconstruction (metadata x)" "?P k = Some kp" for x kp
      using mark [of k] that by (auto simp: marked_in_def)
    from walk_step [OF w this] show "False \<and> fst (deconstruct_pending k i ((r, kp), x)) = Inl Panic \<or>
        (\<exists>r' kp' x'. deconstruct_pending k i ((r, kp), x) = (Inr (), (r', kp'), x') \<and> touch_ss_id r' = touch_ss_id r \<and>
        previous r' = previous r \<and> walk_inv init fs ?K ?V ?P s qs (V(k \<mapsto> val r')) (P(k \<mapsto> kp')) x')"
      by simp
  qed
  then obtain t where t: "apply_to_pending deconstruct_pending ?ps (m, s) = (Inr (), t)" "walked A (fst t)"
      "walk_inv init fs ?K ?V ?P s [] (hm_values (fst t)) (hm_props (fst t)) (snd t)"
    unfolding or_panics_def using wp_total by fastforce
  obtain S where S: "S \<subseteq> marked_in ?V" "marked_in ?V \<inter> ?K \<subseteq> S" and J: "hm_values (fst t) = deconstruct_in S ?V" "hm_props (fst t) = ?P"
      "hm_cache init (cache (snd t)) fs" "same_keys (cache s) (cache (snd t))" "snd t = s\<lparr>cache := cache (snd t)\<rparr>"
      "hm_view init (cache (snd t)) = zeroed_in (slots_of (cache s) (bits ` S)) (hm_view init (cache s))"
    using t(3) unfolding walk_inv_def by auto
  have eq: "S = marked_in ?V" using S mark by blast
  obtain B where B: "hm_rel (fst t) B" "spec_wf B" "\<forall>k. length (hist B k) = length (hist A k) \<and>
      (hist A k \<noteq> [] \<longrightarrow> last (hist B k) = last (hist A k))" using t(2) by (auto simp: walked_def)
  have "\<not> is_marked_for_deconstruction (metadata (snd (last (hist B k))))" if k: "hist B k \<noteq> []" for k
  proof -
    have "hist A k \<noteq> []" using B(3) k by (metis length_0_conv)
    then show ?thesis using B(3) initial_unmarked [OF A(2,3)] by simp
  qed
  then show ?thesis using t(1) J B(1,2) ps unfolding eq
    by (cases t) (auto simp: apply_to_last_record_of_pending_changes_def and_then_def read_st_def)
qed

section \<open>Between transactions\<close>

text \<open>What holds when no transaction runs: the caches are sound and no account is marked.\<close>

definition accounts_settled :: "account_cache \<Rightarrow> bool" where
  "accounts_settled c \<longleftrightarrow> (\<exists>B. hm_rel (acc_cache c) B \<and> spec_wf B \<and> (\<forall>k. hist B k \<noteq> [] \<longrightarrow>
     \<not> is_marked_for_deconstruction (metadata (snd (hd (hist B k)))) \<and> \<not> is_marked_for_deconstruction (metadata (snd (last (hist B k))))))"

definition io_settled :: "io_env \<Rightarrow> io_state \<Rightarrow> bool" where
  "io_settled env i \<longleftrightarrow> (let s = storage_cache (io_storage i) in
     hm_cache (initial_record (slot_data env)) (cache s) [] \<and>
     (\<forall>k v tx. initial_values s k = Some (v, tx) \<longrightarrow> tx \<le> current_tx_number s) \<and>
     preimages_ok [] (preimages_cache (io_storage i)) \<and> accounts_settled (account_data_cache (io_storage i)) \<and>
     cumulative (log_list (io_logs i)))"

lemma commit_kept:
  assumes "hm_rel m B" and wf: "spec_wf B" and run: "hm_commit W m = (Inr (), m')"
    and ends: "\<And>k. hist B k \<noteq> [] \<Longrightarrow> \<exists>kp. props B k = Some kp \<and> P False kp (snd (hd (hist B k))) \<and> P False kp (snd (last (hist B k)))"
  shows "hm_kept P m' []"
proof -
  have "next_snapshot_id m < usize_max W" using run by (auto simp: hm_commit_def hm_snapshot_def hm_run_simps split: if_splits)
  then have "wp (hm_commit W) (\<lambda>_ m'. hm_rel m' (spec_commit B)) (\<lambda>_ _. False) m"
    using hm_rel_fields(1) [OF assms(1)] by (intro wp_hm_commit [OF assms(1) wf]) auto
  then have "hm_rel m' (spec_commit B)" using run by (simp add: wp_def)
  moreover have "rec_ok P (spec_commit B)" by (rule rec_ok_commit [OF _ wf]) (rule ends)
  ultimately show ?thesis using spec_wf_commit [OF wf] by (auto simp: hm_kept_def spec_frames_def)
qed

lemma spec_props: "hm_rel m A \<Longrightarrow> hist A k \<noteq> [] \<Longrightarrow> props A k \<noteq> None"
  using hm_rel_absent hm_rel_fields(4) by (metis option.map_disc_iff)

lemma io_init_settled: "io_settled env io_init"
proof -
  let ?A = "\<lparr>hist = \<lambda>_. [], props = Map.empty, next_id = 1, frozen_id = 0, pend = []\<rparr>"
  have "accounts_settled account_cache_new"
    unfolding accounts_settled_def account_cache_new_def using hm_rel_new spec_wf_new by (intro exI [of _ ?A]) simp
  moreover have "preimages_ok [] preimages_new"
    unfolding preimages_ok_def preimages_new_def hm_kept_def using hm_rel_new spec_wf_new
    by (intro exI [of _ ?A]) (simp add: spec_frames_def rec_ok_def)
  ultimately show ?thesis
    using hm_cache_new
    by (simp add: io_settled_def io_init_def flat_construct_def storage_new_def logs_new_def hl_new_def vec_new_def
        cumulative_def total_pubdata_def logs_size_def)
qed

lemma begin_next_tx_parts:
  assumes "begin_next_tx W i = (Inr (), j)"
  obtains s p c n t where "storage_begin_new_tx W (storage_cache (io_storage i)) = (Inr (), s)"
    "hm_commit W (publication_storage (preimages_cache (io_storage i))) = (Inr (), p)"
    "hm_commit W (acc_cache (account_data_cache (io_storage i))) = (Inr (), c)"
    "j = i\<lparr>io_storage := \<lparr>storage_cache = s, preimages_cache = (preimages_cache (io_storage i))\<lparr>publication_storage := p\<rparr>,
       account_data_cache = \<lparr>acc_cache = c, acc_tx_number = n\<rparr>\<rparr>, io_transient := \<lparr>ts_cache = hm_new, ts_tx_number = t\<rparr>,
       io_logs := logs_begin_new_tx (io_logs i), io_events := events_begin_new_tx (io_events i)\<rparr>"
proof -
  let ?f = "io_storage i"
  obtain x1 s where 1: "storage_begin_new_tx W (storage_cache ?f) = (x1, s)" by (metis prod.exhaust)
  obtain x2 p where 2: "hm_commit W (publication_storage (preimages_cache ?f)) = (x2, p)" by (metis prod.exhaust)
  obtain x3 c where 3: "hm_commit W (acc_cache (account_data_cache ?f)) = (x3, c)" by (metis prod.exhaust)
  note run = assms 1 2 3 that
  show ?thesis
    using run
    by (cases x1; cases x2; cases x3; cases ?f; cases "io_transient i"; cases "account_data_cache ?f")
       (auto simp: begin_next_tx_def on_flat_def flat_begin_new_tx_def on_storage_cache_def on_preimages_cache_def on_account_cache_def
        preimages_begin_new_tx_def on_publication_def accounts_begin_new_tx_def on_transient_def transient_begin_new_tx_def
        on_part_def and_then_def read_st_def modify_st_def expect_def panic_def ret_def split: fault.splits option.splits)
qed

lemma begin_next_tx_frames:
  assumes se: "io_settled env i" and run: "begin_next_tx W i = (Inr (), j)"
  shows "io_frames env (slot_value (slot_data env) (storage_cache (io_storage j))) j []"
proof -
  obtain s p c n t where r: "storage_begin_new_tx W (storage_cache (io_storage i)) = (Inr (), s)"
      "hm_commit W (publication_storage (preimages_cache (io_storage i))) = (Inr (), p)"
      "hm_commit W (acc_cache (account_data_cache (io_storage i))) = (Inr (), c)"
    and j: "j = i\<lparr>io_storage := \<lparr>storage_cache = s, preimages_cache = (preimages_cache (io_storage i))\<lparr>publication_storage := p\<rparr>,
       account_data_cache = \<lparr>acc_cache = c, acc_tx_number = n\<rparr>\<rparr>, io_transient := \<lparr>ts_cache = hm_new, ts_tx_number = t\<rparr>,
       io_logs := logs_begin_new_tx (io_logs i), io_events := events_begin_new_tx (io_events i)\<rparr>"
    by (rule begin_next_tx_parts [OF run])
  note se' = se [unfolded io_settled_def Let_def]
  have "slot_frames (slot_data env) (slot_value (slot_data env) s) s []"
    using begin_new_tx_frames [OF _ _ r(1)] se' by blast
  moreover have "hm_kept any_rec p []"
  proof -
    obtain A where A: "hm_rel (publication_storage (preimages_cache (io_storage i))) A" "spec_wf A"
      using se' by (auto simp: preimages_ok_def hm_kept_def)
    show ?thesis by (rule commit_kept [OF A r(2)]) (use spec_props [OF A(1)] in \<open>auto simp: any_rec_def\<close>)
  qed
  moreover have "hm_kept mark_ok c []"
  proof -
    obtain B where B: "hm_rel (acc_cache (account_data_cache (io_storage i))) B" "spec_wf B" and un: "\<forall>k. hist B k \<noteq> [] \<longrightarrow>
        \<not> is_marked_for_deconstruction (metadata (snd (hd (hist B k)))) \<and> \<not> is_marked_for_deconstruction (metadata (snd (last (hist B k))))"
      using se' by (auto simp: accounts_settled_def)
    show ?thesis by (rule commit_kept [OF B r(3)]) (use un spec_props [OF B(1)] in \<open>auto simp: mark_ok_def\<close>)
  qed
  moreover have "transient_frames \<lparr>ts_cache = hm_new, ts_tx_number = t\<rparr> []"
    using transient_new_frames(1) [of "\<lparr>ts_cache = hm_new, ts_tx_number = t\<rparr>"] by simp
  ultimately show ?thesis using se' j
    by (simp add: io_frames_def flat_frames_defs logs_frames_def logs_begin_new_tx_def events_frames_def
        events_begin_new_tx_def hl_len_def vec_len_def)
qed

text \<open>The observations of the properties: a cached account, the value of a slot, a cached slot.\<close>

definition io_account :: "io_state \<Rightarrow> b160 \<Rightarrow> account_record option" where
  "io_account i a = hm_values (acc_cache (account_data_cache (io_storage i))) (BitsOrd a)"

definition io_slot :: "io_env \<Rightarrow> io_state \<Rightarrow> warm_storage_key \<Rightarrow> bytes32" where
  "io_slot env i = slot_value (slot_data env) (storage_cache (io_storage i))"

definition slot_cached :: "io_state \<Rightarrow> warm_storage_key \<Rightarrow> bool" where
  "slot_cached i k \<longleftrightarrow> btree (cache (storage_cache (io_storage i))) k \<noteq> None"

definition marked_account :: "io_state \<Rightarrow> b160 \<Rightarrow> bool" where
  "marked_account i a \<longleftrightarrow> (\<exists>x. io_account i a = Some x \<and> is_marked_for_deconstruction (metadata x))"

lemma finish_tx_effect:
  assumes fr: "io_frames env start i []" and n: "io_tx_number i \<noteq> - 1"
  shows "\<exists>j. finish_tx i = (Inr (), j) \<and> io_settled env j \<and> io_tx_number j = io_tx_number i + 1 \<and>
    io_transient j = io_transient i \<and> io_logs j = io_logs i \<and> io_events j = io_events i \<and>
    preimages_cache (io_storage j) = preimages_cache (io_storage i) \<and>
    (\<forall>a. io_account j a = (if marked_account i a then map_option deconstructed (io_account i a) else io_account i a)) \<and>
    (\<forall>k. io_slot env j k = (if marked_account i (address k) \<and> slot_cached i k then 0 else io_slot env i k))"
proof -
  let ?f = "io_storage i" and ?init = "initial_record (slot_data env)"
  let ?m = "acc_cache (account_data_cache ?f)" and ?s = "storage_cache ?f"
  note fr' = fr [unfolded io_frames_def flat_frames_defs, simplified]
  have kept: "hm_kept mark_ok ?m []" and c: "hm_cache ?init (cache ?s) []" using fr' by (simp_all add: slot_frames_def)
  obtain m' s' where w: "apply_to_last_record_of_pending_changes deconstruct_pending (?m, ?s) = (Inr (), (m', s'))"
      "hm_values m' = deconstruct_in (marked_in (hm_values ?m)) (hm_values ?m)"
    and B: "\<exists>B. hm_rel m' B \<and> spec_wf B \<and> (\<forall>k. hist B k \<noteq> [] \<longrightarrow> \<not> is_marked_for_deconstruction (metadata (snd (last (hist B k)))))"
    and s: "hm_cache ?init (cache s') []" "s' = ?s\<lparr>cache := cache s'\<rparr>"
      "hm_view ?init (cache s') = zeroed_in (slots_of (cache ?s) (bits ` marked_in (hm_values ?m))) (hm_view ?init (cache ?s))"
    using finish_walk [OF kept c] by blast
  let ?j = "i\<lparr>io_storage := ?f\<lparr>account_data_cache := (account_data_cache ?f)\<lparr>acc_cache := m'\<rparr>, storage_cache := s'\<rparr>,
      io_tx_number := io_tx_number i + 1\<rparr>"
  have add: "checked_add (io_tx_number i) 1 = Some (io_tx_number i + 1)"
  proof -
    have "unat (io_tx_number i) \<noteq> unat (- 1 :: u32)" using n by (simp add: word_unat_eq_iff)
    then show ?thesis using unat_lt [of "io_tx_number i"] by (simp add: checked_add_def unat_max_word)
  qed
  have run: "finish_tx i = (Inr (), ?j)"
    using w(1) add
    by (simp add: finish_tx_def on_flat_def accounts_finish_tx_def on_part_def and_then_def read_st_def expect_def ret_def modify_st_def)
  have un: "\<not> is_marked_for_deconstruction (metadata x)" if "hm_values m' k = Some x" for k x
    using that w(2) by (auto simp: deconstruct_in_def marked_in_def split: if_splits)
  have "accounts_settled (account_data_cache (io_storage ?j))"
  proof -
    obtain B where B': "hm_rel m' B" "spec_wf B" "\<forall>k. hist B k \<noteq> [] \<longrightarrow> \<not> is_marked_for_deconstruction (metadata (snd (last (hist B k))))"
      using B by blast
    have "\<not> is_marked_for_deconstruction (metadata (snd (hd (hist B k))))" if "hist B k \<noteq> []" for k
      using un [of k] that hm_values_spec [OF B'(1)] by (cases "hist B k") (auto simp: spec_values_def)
    then show ?thesis using B' by (auto simp: accounts_settled_def)
  qed
  moreover have iv: "initial_values s' = initial_values ?s" "current_tx_number s' = current_tx_number ?s" using s(2)
    by (metis storage_values_cache.select_convs storage_values_cache.surjective storage_values_cache.update_convs(1))+
  ultimately have "io_settled env ?j"
    using fr' s(1) by (simp add: io_settled_def slot_frames_def logs_frames_def preimages_ok_def)
  moreover have marks: "marked_account i a \<longleftrightarrow> BitsOrd a \<in> marked_in (hm_values ?m)" for a
    by (simp add: marked_account_def io_account_def marked_in_def)
  moreover have "address k \<in> bits ` marked_in (hm_values ?m) \<longleftrightarrow> marked_account i (address k)" for k
    unfolding marks by (metis (no_types, lifting) bits_ord160.collapse bits_ord160.sel image_iff)
  then have "io_slot env ?j k = (if marked_account i (address k) \<and> slot_cached i k then 0 else io_slot env i k)" for k
    by (auto simp: io_slot_def slot_value_def s(3) slot_cached_def zeroed_def)
  ultimately show ?thesis using run w(2) by (intro exI [of _ ?j]) (auto simp: io_account_def deconstruct_in_def)
qed

section \<open>The transactions of a block\<close>

text \<open>
  A run inside a transaction: operations that return, and completed frames, each kept or failed;
  and the states in which the transactions of a block begin.
\<close>

definition io_run :: "nat \<Rightarrow> io_env \<Rightarrow> io_state \<Rightarrow> io_state \<Rightarrow> bool" where
  "io_run W env = frame_store.balanced (start_io_frame W) finish_io_frame (io_step env)"

inductive io_tx_begins :: "nat \<Rightarrow> io_env \<Rightarrow> io_state \<Rightarrow> bool" for W env where
  io_first_tx: "begin_next_tx W io_init = (Inr (), i) \<Longrightarrow> io_tx_begins W env i"
| io_next_tx: "io_tx_begins W env i \<Longrightarrow> io_run W env i j \<Longrightarrow> finish_tx j = (Inr (), k) \<Longrightarrow>
    begin_next_tx W k = (Inr (), l) \<Longrightarrow> io_tx_begins W env l"

lemma finish_tx_settled:
  assumes fr: "io_frames env start i []" and run: "finish_tx i = (Inr (), j)"
  shows "io_settled env j"
proof -
  have "io_tx_number i \<noteq> - 1"
  proof
    assume "io_tx_number i = - 1"
    then have "checked_add (io_tx_number i) 1 = None" by (simp add: checked_add_def unat_max_word)
    moreover obtain x g where "accounts_finish_tx (io_storage i) = (x, g)" by (metis prod.exhaust)
    ultimately show False using run
      by (cases x) (simp_all add: finish_tx_def on_flat_def on_part_def and_then_def read_st_def expect_def panic_def split: fault.splits)
  qed
  from finish_tx_effect [OF fr this] run show ?thesis by auto
qed

lemma io_tx_begins_frames: "io_tx_begins W env i \<Longrightarrow> io_frames env (io_slot env i) i []"
proof (induction rule: io_tx_begins.induct)
  case (io_first_tx i)
  show ?case using begin_next_tx_frames [OF io_init_settled io_first_tx] by (simp add: io_slot_def)
next
  case (io_next_tx i j k l)
  have "io_frames env (io_slot env i) j []"
    using iofs.balanced_frames io_next_tx.IH io_next_tx.hyps(2) unfolding io_run_def by blast
  then show ?case using begin_next_tx_frames [OF finish_tx_settled [OF _ io_next_tx.hyps(3)] io_next_tx.hyps(4)] by (simp add: io_slot_def)
qed

lemma io_run_frames: "io_tx_begins W env i \<Longrightarrow> io_run W env i j \<Longrightarrow> io_frames env (io_slot env i) j []"
  using iofs.balanced_frames io_tx_begins_frames unfolding io_run_def by blast

section \<open>Properties\<close>

text \<open>C2: Whatever a transaction has done, a call frame that is opened next and fails leaves the IO
  subsystem as it was when the frame was opened: every storage slot with its warmth, the refund
  counter, every account that was cached, the transient slots, the logs and the events. This holds
  for every sequence of operations that returned and of nested frames inside, kept or failed, and
  finishing the frame itself always succeeds.\<close>

theorem io_failed_frame_restores:
  assumes "io_tx_begins W env i" and "io_run W env i j" and "start_io_frame W j = (Inr h, k)" and "io_run W env k l"
  shows "\<exists>n. finish_io_frame (Some h) l = (Inr (), n) \<and> io_slot env n = io_slot env j \<and>
    slot_obs (slot_data env) (storage_cache (io_storage n)) = slot_obs (slot_data env) (storage_cache (io_storage j)) \<and>
    (\<forall>a. io_account j a \<noteq> None \<longrightarrow> io_account n a = io_account j a) \<and>
    transient_values (io_transient n) = transient_values (io_transient j) \<and> io_logs n = io_logs j \<and> io_events n = io_events j"
proof -
  have "io_frames env (io_slot env i) j []" using io_run_frames [OF assms(1,2)] .
  from iofs.failed_frame_restores [OF this assms(3)] assms(4)
  obtain n where n: "finish_io_frame (Some h) l = (Inr (), n)" "io_ext (io_obs env j) (io_obs env n)"
    unfolding io_run_def by blast
  have accs: "hm_values (acc_cache (account_data_cache (io_storage j))) \<subseteq>\<^sub>m hm_values (acc_cache (account_data_cache (io_storage n)))"
    and rest: "slot_obs (slot_data env) (storage_cache (io_storage j)) = slot_obs (slot_data env) (storage_cache (io_storage n))"
      "(transient_values (io_transient j), io_logs j, io_events j) = (transient_values (io_transient n), io_logs n, io_events n)"
    using n(2) by (simp_all add: io_ext_def io_obs_def flat_ext_def flat_obs_def)
  then show ?thesis using n(1)
    by (intro exI [of _ n]) (auto simp: io_account_def map_le_def dom_def io_slot_def slot_value_def slot_obs_def fun_eq_iff)
qed

text \<open>C3: At the end of every transaction, \<open>finish_tx\<close> returns and deconstructs exactly the accounts that
  were marked when it was called: their properties become trivial, the mark is gone, and every slot
  of theirs in the cache is zero. Every other account, every other slot, the preimages, the
  transient slots, the logs and the events stay; the transaction counter goes up by one.\<close>

theorem finish_tx_deconstructs_marked:
  assumes "io_tx_begins W env i" and "io_run W env i j" and "io_tx_number j \<noteq> - 1"
  shows "\<exists>k. finish_tx j = (Inr (), k) \<and> io_tx_number k = io_tx_number j + 1 \<and>
    (\<forall>a. io_account k a = (if marked_account j a then map_option deconstructed (io_account j a) else io_account j a)) \<and>
    (\<forall>a. \<not> marked_account k a) \<and>
    (\<forall>s. io_slot env k s = (if marked_account j (address s) \<and> slot_cached j s then 0 else io_slot env j s)) \<and>
    preimages_cache (io_storage k) = preimages_cache (io_storage j) \<and>
    io_transient k = io_transient j \<and> io_logs k = io_logs j \<and> io_events k = io_events j"
proof -
  obtain k where k: "finish_tx j = (Inr (), k)" "io_tx_number k = io_tx_number j + 1"
      "preimages_cache (io_storage k) = preimages_cache (io_storage j)"
      "io_transient k = io_transient j" "io_logs k = io_logs j" "io_events k = io_events j"
    and acc: "\<forall>a. io_account k a = (if marked_account j a then map_option deconstructed (io_account j a) else io_account j a)"
    and sl: "\<forall>s. io_slot env k s = (if marked_account j (address s) \<and> slot_cached j s then 0 else io_slot env j s)"
    using finish_tx_effect [OF io_run_frames [OF assms(1,2)] assms(3)] by blast
  have "\<not> marked_account k a" for a
  proof (cases "marked_account j a")
    case True
    then show ?thesis using acc by (auto simp: marked_account_def [of k])
  next
    case False
    then have "io_account k a = io_account j a" using acc by simp
    then show ?thesis using False by (simp add: marked_account_def)
  qed
  then show ?thesis using k acc sl by (intro exI [of _ k]) simp
qed

section \<open>Witnesses\<close>

text \<open>
  A block whose oracle knows no slot: the transaction writes a slot of the address 7, which is
  then marked for deconstruction.
\<close>

definition io_ex_env :: io_env where
  "io_ex_env = \<lparr>usize_bits = 64, proof_env = False, slot_data = \<lambda>_. \<lparr>is_new_storage_slot = True, initial_value = 0\<rparr>,
     preimage_query = \<lambda>_. None, blake2s256 = \<lambda>_. 0, keccak_digest = \<lambda>_. 0\<rparr>"

definition ex_rich :: base_resources where
  "ex_rich = \<lparr>ergs = 1000000000, native = 1000000000\<rparr>"

definition ex_io0 :: io_state where
  "ex_io0 = snd (begin_next_tx 64 io_init)"

definition ex_write :: io_op where "ex_write = FlatOp (StorageWrite 7 1 9)"
definition ex_overwrite :: io_op where "ex_overwrite = FlatOp (StorageWrite 7 1 4)"
definition ex_mark :: io_op where "ex_mark = FlatOp (MarkForDeconstruction EVM 7 7 True)"

definition ex_io1 :: io_state where "ex_io1 = snd (snd (io_exec io_ex_env ex_write (ex_rich, ex_io0)))"
definition ex_io2 :: io_state where "ex_io2 = snd (snd (io_exec io_ex_env ex_mark (ex_rich, ex_io1)))"

lemmas io_begin_simps = begin_next_tx_def on_flat_def flat_begin_new_tx_def on_storage_cache_def on_preimages_cache_def on_account_cache_def
        preimages_begin_new_tx_def on_publication_def accounts_begin_new_tx_def on_transient_def transient_begin_new_tx_def
  io_init_def flat_construct_def storage_begin_new_tx_def storage_new_def on_cache_def on_counter_def hm_commit_def hc_defs hm_run_simps checked_add_def
  preimages_new_def account_cache_new_def transient_new_def logs_begin_new_tx_def events_begin_new_tx_def logs_new_def events_new_def
  total_pubdata_def hl_new_def hl_len_def vec_new_def vec_len_def

abbreviation "ex_empty \<equiv> \<lparr>btree = Map.empty, next_snapshot_id = 2, frozen_snapshot_id = 1,
     pending_updated_elements = [], records_memory_pool = pool_new\<rparr>"

lemma ex_io0_eval: "ex_io0 = \<lparr>io_storage = \<lparr>storage_cache = ex_tx0,
     preimages_cache = \<lparr>preimage_map = Map.empty, publication_storage = ex_empty\<rparr>,
     account_data_cache = \<lparr>acc_cache = ex_empty, acc_tx_number = 1\<rparr>\<rparr>,
     io_transient = \<lparr>ts_cache = hm_new, ts_tx_number = 1\<rparr>, io_logs = logs_new, io_events = events_new, io_tx_number = 0\<rparr>"
  and ex_io0_begin: "begin_next_tx 64 io_init = (Inr (), ex_io0)"
  by (simp_all add: ex_io0_def ex_tx0_eval io_begin_simps)

lemmas io_exec_simps = outcome_def flat_storage_write_def flat_slots_def slot_run_simps io_ex_env_def ex_rich_def

lemmas io_start_simps = start_io_frame_def on_flat_def on_transient_def on_logs_def on_events_def flat_start_frame_def
  on_storage_cache_def on_preimages_cache_def on_account_cache_def preimages_start_frame_def on_publication_def
  accounts_start_frame_def transient_start_frame_def on_ts_cache_def logs_start_frame_def events_start_frame_def
  on_log_list_def on_ev_list_def hl_snapshot_def storage_start_frame_def slot_run_simps

lemma ex_io1_run: "fst (io_exec io_ex_env ex_write (ex_rich, ex_io0)) = False"
  by (simp add: ex_io0_eval ex_tx0_eval ex_write_def io_exec_simps)

abbreviation "ex_slot_cache \<equiv> \<lparr>cache = \<lparr>btree = [WarmStorageKey 7 1 \<mapsto> \<lparr>key_properties = \<lparr>initial_appearance = Empty, current_appearance = Updated\<rparr>,
        initial = 0, first = 1, head = 1\<rparr>], next_snapshot_id = 2, frozen_snapshot_id = 1, pending_updated_elements = [(WarmStorageKey 7 1, 2)],
      records_memory_pool = \<lparr>pool_head = None, pool_last = None,
        cells = [0 \<mapsto> \<lparr>touch_ss_id = 0, val = \<lparr>record_value = 0, metadata = \<lparr>last_touched_in_tx = None\<rparr>\<rparr>, previous = None\<rparr>,
          1 \<mapsto> \<lparr>touch_ss_id = 2, val = \<lparr>record_value = 9, metadata = \<lparr>last_touched_in_tx = Some 1\<rparr>\<rparr>, previous = Some 0\<rparr>], brk = 2\<rparr>\<rparr>,
    access_list_slots = {}, current_tx_number = 1, initial_values = [WarmStorageKey 7 1 \<mapsto> (0, 1)],
    evm_refunds_counter = \<lparr>history = [(\<lparr>ergs = 0, native = 0\<rparr>, ())], last_snapshot_id = 0\<rparr>\<rparr>"

lemma ex_io1_eval: "ex_io1 = ex_io0\<lparr>io_storage := (io_storage ex_io0)\<lparr>storage_cache := ex_slot_cache\<rparr>\<rparr>"
  by (simp add: ex_io1_def ex_io0_eval ex_tx0_eval ex_write_def io_exec_simps)

lemmas ex_account_simps = deconstruct_account_def materialize_account_def warm_up_account_def spawn_account_def charge_cold_account_def
  warm_account_cost_def flat_charge_def charge_native_def current_account_def update_account_def observe_account_def on_accounts_def
  backing_slots_def with_inf_ergs_def read_special_account_property_def touch_account_in_tx_def sub_def defect_def metadata_default_def
  on_metadata_def on_value_def acc_observe_def acc_considered_warm_def is_precompile_def
  WARM_PROPERTIES_ACCESS_COST_ERGS_def COLD_PROPERTIES_ACCESS_EXTRA_COST_ERGS_def ADDRESS_ACCESS_COST_COLD_def ADDRESS_ACCESS_COST_WARM_def
  WARM_ACCOUNT_CACHE_ACCESS_NATIVE_COST_def WARM_ACCOUNT_CACHE_WRITE_EXTRA_NATIVE_COST_def from_native_def account_slot_def
  ACCOUNT_PROPERTIES_STORAGE_ADDRESS_def TRIVIAL_VALUE_def

lemma ex_io2_run: "fst (io_exec io_ex_env ex_mark (ex_rich, ex_io1)) = False"
  by (simp add: ex_io1_eval ex_io0_eval ex_mark_def io_exec_simps ex_account_simps Let_def)

lemma ex_io2_marked: "marked_account ex_io2 7" "slot_cached ex_io2 (WarmStorageKey 7 1)" "io_tx_number ex_io2 = 0"
  "io_slot io_ex_env ex_io1 (WarmStorageKey 7 1) = 9"
  by (simp_all add: ex_io2_def ex_io1_eval ex_io0_eval ex_mark_def io_exec_simps ex_account_simps Let_def marked_account_def io_account_def
      slot_cached_def hm_values_def io_slot_def slot_value_def hm_view_def)

lemma ex_io_begins: "io_tx_begins 64 io_ex_env ex_io0"
  by (rule io_first_tx [OF ex_io0_begin])

lemma ex_io_step:
  assumes "io_op_room op" and "fst (io_exec io_ex_env op (ex_rich, i)) = False"
  shows "io_step io_ex_env i (snd (snd (io_exec io_ex_env op (ex_rich, i))))"
  unfolding io_step_def using assms by (metis prod.collapse)

lemma ex_io_reach1: "io_run 64 io_ex_env ex_io0 ex_io1"
proof -
  have "io_op_room ex_write" by (simp add: ex_write_def)
  then show ?thesis unfolding io_run_def ex_io1_def by (intro iofs.bal_step [OF iofs.bal_refl] ex_io_step ex_io1_run)
qed

lemma ex_io_reach2: "io_run 64 io_ex_env ex_io0 ex_io2"
proof -
  have "io_op_room ex_mark" by (simp add: ex_mark_def)
  then show ?thesis using ex_io_reach1 unfolding io_run_def ex_io2_def by (intro iofs.bal_step [OF _ ex_io_step] ex_io2_run)
qed

theorem finish_tx_deconstructs_marked_witness:
  "\<exists>k. finish_tx ex_io2 = (Inr (), k) \<and> \<not> marked_account k 7 \<and> io_account k 7 = map_option deconstructed (io_account ex_io2 7) \<and>
     io_slot io_ex_env k (WarmStorageKey 7 1) = 0"
proof -
  have "io_tx_number ex_io2 \<noteq> - 1" by (simp add: ex_io2_marked)
  from finish_tx_deconstructs_marked [OF ex_io_begins ex_io_reach2 this] show ?thesis
    using ex_io2_marked by fastforce
qed

theorem io_failed_frame_restores_witness:
  "\<exists>h k n. start_io_frame 64 ex_io1 = (Inr h, k) \<and>
     finish_io_frame (Some h) (snd (snd (io_exec io_ex_env ex_overwrite (ex_rich, k)))) = (Inr (), n) \<and>
     io_slot io_ex_env n (WarmStorageKey 7 1) = 9"
proof -
  obtain h k where st: "start_io_frame 64 ex_io1 = (Inr h, k)"
    and ok: "fst (io_exec io_ex_env ex_overwrite (ex_rich, k)) = False" "io_op_room ex_overwrite"
  proof
    let ?r = "start_io_frame 64 ex_io1"
    have r: "\<exists>h. fst ?r = Inr h"
      by (simp add: ex_io1_eval ex_io0_eval io_start_simps)
    show "?r = (Inr (projr (fst ?r)), snd ?r)" using r by (cases ?r) auto
    show "fst (io_exec io_ex_env ex_overwrite (ex_rich, snd ?r)) = False"
       "io_op_room ex_overwrite"
      by (simp_all add: ex_overwrite_def io_exec_simps ex_io1_eval ex_io0_eval io_start_simps)
  qed
  have run: "io_run 64 io_ex_env k (snd (snd (io_exec io_ex_env ex_overwrite (ex_rich, k))))"
    unfolding io_run_def by (rule iofs.bal_step [OF iofs.bal_refl ex_io_step [OF ok(2,1)]])
  from io_failed_frame_restores [OF ex_io_begins ex_io_reach1 st run] st show ?thesis
    using ex_io2_marked(4) by (metis (no_types))
qed

end
