(* ===== verification/Flat_Tree.thy ===== *)
theory Flat_Tree
  imports Flat_Storage
begin

text \<open>
  The committed state (\<^verbatim>\<open>flat_storage_model/simple_growable_storage.rs\<close>): a linked list of
  leaves, sorted by key, in the leaves of a Merkle tree that fills up from the left. The
  commitment is the root and the number of leaves in use; \<open>verify_and_apply_batch\<close> checks all reads
  of a block against it and computes the commitment after the writes. Everything it knows about
  the tree comes from an oracle, which may answer anything. Also here: the checks of a single
  Merkle path.

  The hasher is a parameter (the trait \<open>FlatStorageHasher\<close>); the source instantiates it with
  \<open>blake2s_hasher\<close>. Positions in the tree, \<open>u64\<close> in the source, are natural numbers: they are compared,
  halved and counted up, with the overflow of the count written out. A \<open>BTreeMap\<close> is the list of
  its entries in the order of the keys.
\<close>

section \<open>Ordered maps\<close>

fun bt_insert :: "'k::linorder \<Rightarrow> 'v \<Rightarrow> ('k \<times> 'v) list \<Rightarrow> ('k \<times> 'v) list" where
  "bt_insert k v [] = [(k, v)]"
| "bt_insert k v ((k', v') # xs) =
     (if k < k' then (k, v) # (k', v') # xs
      else if k = k' then (k, v) # xs
      else (k', v') # bt_insert k v xs)"

section \<open>Leaves, hasher, commitment\<close>

definition MIN_KEY_LEAF_MARKER_IDX :: nat where "MIN_KEY_LEAF_MARKER_IDX = 0"
definition MAX_KEY_LEAF_MARKER_IDX :: nat where "MAX_KEY_LEAF_MARKER_IDX = 1"

record flat_storage_leaf =
  leaf_key :: bytes32
  leaf_value :: bytes32
  leaf_next :: nat

definition empty_leaf :: flat_storage_leaf where
  "empty_leaf = \<lparr>leaf_key = 0, leaf_value = 0, leaf_next = 0\<rparr>"

definition leaf_digest :: "flat_storage_leaf \<Rightarrow> bytes" where
  "leaf_digest leaf = to_be_bytes (leaf_key leaf) @ to_be_bytes (leaf_value leaf) @ le_bytes 8 (leaf_next leaf)"

record 'h tree_hasher =
  hash_leaf :: "flat_storage_leaf \<Rightarrow> 'h"
  hash_node :: "'h \<Rightarrow> 'h \<Rightarrow> 'h"

definition blake2s_hasher :: "(bytes \<Rightarrow> bytes32) \<Rightarrow> bytes32 tree_hasher" where
  "blake2s_hasher blake2s =
     \<lparr>hash_leaf = \<lambda>leaf. blake2s (leaf_digest leaf),
      hash_node = \<lambda>left right. blake2s (to_be_bytes left @ to_be_bytes right)\<rparr>"

record 'h flat_storage_commitment =
  com_root :: 'h
  next_free_slot :: nat

record leaf_update_record =
  upd_value :: "bytes32 option"
  upd_next :: "nat option"

definition set_next :: "nat \<Rightarrow> leaf_update_record \<Rightarrow> leaf_update_record option" where
  "set_next v u = (if upd_next u = None then Some (u\<lparr>upd_next := Some v\<rparr>) else None)"

record 'h leaf_proof =
  proof_index :: nat
  proof_leaf :: flat_storage_leaf
  proof_path :: "'h list"

section \<open>One Merkle path\<close>

fun root_from_path :: "'h tree_hasher \<Rightarrow> 'h list \<Rightarrow> nat \<Rightarrow> 'h \<Rightarrow> nat \<times> 'h" where
  "root_from_path H [] index current = (index, current)"
| "root_from_path H (p # path) index current =
     root_from_path H path (index div 2)
       (if even index then hash_node H current p else hash_node H p current)"

definition recompute_root_from_proof :: "'h tree_hasher \<Rightarrow> 'h leaf_proof \<Rightarrow> ('s, 'e, 'h) rs" where
  "recompute_root_from_proof H p =
     (let (index, current) = root_from_path H (proof_path p) (proof_index p) (hash_leaf H (proof_leaf p)) in
      and_then (assert_that (index = 0)) (\<lambda>_. ret current))"

definition verify_proof_for_root :: "'h tree_hasher \<Rightarrow> 'h leaf_proof \<Rightarrow> 'h \<Rightarrow> ('s, 'e, bool) rs" where
  "verify_proof_for_root H p root = and_then (recompute_root_from_proof H p) (\<lambda>computed. ret (computed = root))"

fun empty_hashes_loop :: "'h tree_hasher \<Rightarrow> nat \<Rightarrow> 'h \<Rightarrow> 'h list" where
  "empty_hashes_loop H 0 prev = []"
| "empty_hashes_loop H (Suc i) prev =
     (let node_hash = hash_node H prev prev in node_hash # empty_hashes_loop H i node_hash)"

definition compute_empty_hashes :: "'h tree_hasher \<Rightarrow> nat \<Rightarrow> 'h list" where
  "compute_empty_hashes H N =
     (let empty_leaf_hash = hash_leaf H empty_leaf in empty_leaf_hash # empty_hashes_loop H (N - 1) empty_leaf_hash)"

section \<open>The oracle\<close>

text \<open>
  The oracle with its state: an answer that cannot be deserialised is \<open>None\<close>. A path has the height
  of the tree by its type; a list of another length is not one.
\<close>

record ('h, 'o) tree_oracle =
  previous_index_query :: "bytes32 \<Rightarrow> 'o \<Rightarrow> nat option \<times> 'o"
  exact_index_query :: "bytes32 \<Rightarrow> 'o \<Rightarrow> nat option \<times> 'o"
  proof_for_index_query :: "nat \<Rightarrow> 'o \<Rightarrow> 'h leaf_proof option \<times> 'o"

type_synonym 'h leaf_entry = "'h leaf_proof \<times> leaf_update_record option"

record ('h, 'o) batch_state =
  key_to_index_cache :: "(bytes32 \<times> nat) list"
  index_to_leaf_cache :: "(nat \<times> 'h leaf_entry) list"
  batch_new_writes :: "(nat \<times> flat_storage_leaf) list"
  batch_next_free_slot :: nat
  batch_oracle :: 'o

type_synonym ('h, 'o, 'a) batch_m = "(('h, 'o) batch_state, internal_error, 'a) rs"

definition ask :: "('o \<Rightarrow> 'a option \<times> 'o) \<Rightarrow> ('h, 'o, 'a) batch_m" where
  "ask q s = (case q (batch_oracle s) of (x, o') \<Rightarrow> expect x (s\<lparr>batch_oracle := o'\<rparr>))"

definition get_prev_index :: "('h, 'o) tree_oracle \<Rightarrow> bytes32 \<Rightarrow> ('h, 'o, nat) batch_m" where
  "get_prev_index Or flat_key = ask (previous_index_query Or flat_key)"

definition get_index :: "('h, 'o) tree_oracle \<Rightarrow> bytes32 \<Rightarrow> ('h, 'o, nat) batch_m" where
  "get_index Or flat_key = ask (exact_index_query Or flat_key)"

definition get_proof_for_index :: "('h, 'o) tree_oracle \<Rightarrow> nat \<Rightarrow> nat \<Rightarrow> ('h, 'o, 'h leaf_proof) batch_m" where
  "get_proof_for_index Or N index =
     and_then (ask (proof_for_index_query Or index)) (\<lambda>p.
     and_then (assert_that (length (proof_path p) = N)) (\<lambda>_.
     and_then (assert_that (proof_index p = index)) (\<lambda>_. ret p)))"

section \<open>Reads\<close>

definition cached_leaf :: "nat \<Rightarrow> ('h, 'o, 'h leaf_entry option) batch_m" where
  "cached_leaf index = read_st (\<lambda>s. map_of (index_to_leaf_cache s) index)"

text \<open>\<open>insert\<close> into both caches; the key must be new.\<close>

definition insert_key :: "bytes32 \<Rightarrow> nat \<Rightarrow> ('h, 'o, unit) batch_m" where
  "insert_key key index =
     and_then (read_st (\<lambda>s. map_of (key_to_index_cache s) key)) (\<lambda>existing.
     and_then (modify_st (\<lambda>s. s\<lparr>key_to_index_cache := bt_insert key index (key_to_index_cache s)\<rparr>)) (\<lambda>_.
     assert_that (existing = None)))"

definition insert_leaf :: "nat \<Rightarrow> 'h leaf_entry \<Rightarrow> ('h, 'o, unit) batch_m" where
  "insert_leaf index e = modify_st (\<lambda>s. s\<lparr>index_to_leaf_cache := bt_insert index e (index_to_leaf_cache s)\<rparr>)"

definition cache_proof :: "nat \<Rightarrow> 'h leaf_entry \<Rightarrow> ('h, 'o, unit) batch_m" where
  "cache_proof index e =
     and_then (insert_key (leaf_key (proof_leaf (fst e))) index) (\<lambda>_. insert_leaf index e)"

text \<open>The neighbours of a key that is claimed to be absent, from the cache or the oracle.\<close>

definition load_previous :: "('h, 'o) tree_oracle \<Rightarrow> nat \<Rightarrow> nat \<Rightarrow> bytes32 \<Rightarrow> nat \<Rightarrow> ('h, 'o, nat) batch_m" where
  "load_previous Or N saved flat_key index =
     and_then (cached_leaf index) (\<lambda>e.
     case e of
       None \<Rightarrow>
         and_then (get_proof_for_index Or N index) (\<lambda>prev.
         and_then (assert_that (leaf_key (proof_leaf prev) < flat_key)) (\<lambda>_.
         and_then (assert_that (leaf_next (proof_leaf prev) < saved)) (\<lambda>_.
         and_then (cache_proof index (prev, None)) (\<lambda>_.
         ret (leaf_next (proof_leaf prev))))))
     | Some (prev, _) \<Rightarrow>
         and_then (assert_that (leaf_key (proof_leaf prev) < flat_key)) (\<lambda>_.
         ret (leaf_next (proof_leaf prev))))"

definition load_next :: "('h, 'o) tree_oracle \<Rightarrow> nat \<Rightarrow> bytes32 \<Rightarrow> nat \<Rightarrow> ('h, 'o, unit) batch_m" where
  "load_next Or N flat_key index =
     and_then (cached_leaf index) (\<lambda>e.
     case e of
       None \<Rightarrow>
         and_then (get_proof_for_index Or N index) (\<lambda>next_leaf.
         and_then (assert_that (flat_key < leaf_key (proof_leaf next_leaf))) (\<lambda>_.
         cache_proof index (next_leaf, None)))
     | Some (next_leaf, _) \<Rightarrow> assert_that (flat_key < leaf_key (proof_leaf next_leaf)))"

definition load_neighbours :: "('h, 'o) tree_oracle \<Rightarrow> nat \<Rightarrow> nat \<Rightarrow> bytes32 \<Rightarrow> ('h, 'o, unit) batch_m" where
  "load_neighbours Or N saved flat_key =
     and_then (get_prev_index Or flat_key) (\<lambda>previous_idx.
     and_then (assert_that (previous_idx < saved)) (\<lambda>_.
     and_then (load_previous Or N saved flat_key previous_idx) (\<lambda>next_idx.
     load_next Or N flat_key next_idx)))"

definition check_existing_read :: "('h, 'o) tree_oracle \<Rightarrow> nat \<Rightarrow> bytes32 \<Rightarrow> bytes32 \<Rightarrow> ('h, 'o, unit) batch_m" where
  "check_existing_read Or N flat_key v =
     and_then (get_index Or flat_key) (\<lambda>index.
     and_then (cached_leaf index) (\<lambda>e.
     let check = (\<lambda>leaf. and_then (assert_that (leaf_key leaf = flat_key)) (\<lambda>_. assert_that (leaf_value leaf = v))) in
     case e of
       None \<Rightarrow>
         and_then (get_proof_for_index Or N index) (\<lambda>leaf.
         and_then (check (proof_leaf leaf)) (\<lambda>_.
         cache_proof index (leaf, None)))
     | Some (leaf, _) \<Rightarrow> check (proof_leaf leaf)))"

definition verify_read ::
    "('h, 'o) tree_oracle \<Rightarrow> nat \<Rightarrow> nat \<Rightarrow> bytes32 \<Rightarrow> storage_diff \<Rightarrow> ('h, 'o, unit) batch_m" where
  "verify_read Or N saved flat_key v =
     and_then (assert_that (diff_initial_value_used v)) (\<lambda>_.
     if diff_is_new_storage_slot v then load_neighbours Or N saved flat_key
     else check_existing_read Or N flat_key (diff_current_value v))"

section \<open>Writes\<close>

definition append_leaf :: "bytes32 \<Rightarrow> bytes32 \<Rightarrow> ('h, 'o, unit) batch_m" where
  "append_leaf flat_key v =
     and_then (read_st batch_next_free_slot) (\<lambda>index.
     and_then (assert_that (index + 1 < 2 ^ 64)) (\<lambda>_.
     and_then (modify_st (\<lambda>s. s\<lparr>batch_next_free_slot := index + 1\<rparr>)) (\<lambda>_.
     and_then (insert_key flat_key index) (\<lambda>_.
     modify_st (\<lambda>s. s\<lparr>batch_new_writes := batch_new_writes s @
       [(index, \<lparr>leaf_key = flat_key, leaf_value = v, leaf_next = 0\<rparr>)]\<rparr>)))))"

definition check_existing_write ::
    "('h, 'o) tree_oracle \<Rightarrow> nat \<Rightarrow> bytes32 \<Rightarrow> bytes32 \<Rightarrow> bytes32 \<Rightarrow> ('h, 'o, unit) batch_m" where
  "check_existing_write Or N flat_key initial_v current_v =
     (let modification = \<lparr>upd_value = Some current_v, upd_next = None\<rparr>;
          check = (\<lambda>leaf. and_then (assert_that (leaf_key leaf = flat_key)) (\<lambda>_. assert_that (leaf_value leaf = initial_v))) in
      and_then (read_st (\<lambda>s. map_of (key_to_index_cache s) flat_key)) (\<lambda>cached.
      case cached of
        Some existing_index \<Rightarrow>
          and_then (cached_leaf existing_index) (\<lambda>e.
          and_then (expect e) (\<lambda>(existing_leaf, old).
          and_then (check (proof_leaf existing_leaf)) (\<lambda>_.
          and_then (assert_that (old = None)) (\<lambda>_.
          insert_leaf existing_index (existing_leaf, Some modification)))))
      | None \<Rightarrow>
          and_then (get_index Or flat_key) (\<lambda>index.
          and_then (get_proof_for_index Or N index) (\<lambda>leaf.
          and_then (check (proof_leaf leaf)) (\<lambda>_.
          and_then (insert_key (leaf_key (proof_leaf leaf)) index) (\<lambda>_.
          and_then (cached_leaf index) (\<lambda>existing.
          and_then (insert_leaf index (leaf, Some modification)) (\<lambda>_.
          assert_that (existing = None)))))))))"

definition batch_write ::
    "('h, 'o) tree_oracle \<Rightarrow> nat \<Rightarrow> nat \<Rightarrow> bytes32 \<Rightarrow> storage_diff \<Rightarrow> ('h, 'o, unit) batch_m" where
  "batch_write Or N saved flat_key v =
     (if diff_is_new_storage_slot v then
        and_then (load_neighbours Or N saved flat_key) (\<lambda>_. append_leaf flat_key (diff_current_value v))
      else check_existing_write Or N flat_key (diff_initial_value v) (diff_current_value v))"

fun for_each :: "('a \<Rightarrow> ('s, 'e, unit) rs) \<Rightarrow> 'a list \<Rightarrow> ('s, 'e, unit) rs" where
  "for_each f [] = ret ()"
| "for_each f (x # xs) = and_then (f x) (\<lambda>_. for_each f xs)"

section \<open>Relinking\<close>

definition link_first :: "nat \<Rightarrow> nat \<Rightarrow> nat \<Rightarrow> ('h, 'o, unit) batch_m" where
  "link_first saved first_index second_index =
     and_then (cached_leaf first_index) (\<lambda>e.
     and_then (expect e) (\<lambda>(leaf, modification).
     and_then
       (if first_index = MIN_KEY_LEAF_MARKER_IDX then
          and_then (assert_that (modification = None)) (\<lambda>_. assert_that (leaf_key (proof_leaf leaf) = 0))
        else ret ()) (\<lambda>_.
     if saved \<le> second_index then
       (case modification of
          Some u \<Rightarrow> and_then (expect (set_next second_index u)) (\<lambda>u. insert_leaf first_index (leaf, Some u))
        | None \<Rightarrow> insert_leaf first_index (leaf, Some \<lparr>upd_value = None, upd_next = Some second_index\<rparr>))
     else ret ())))"

text \<open>The \<open>current_index - saved_next_free_slot\<close> of the source is an index into the new leaves.\<close>

definition link_next :: "nat \<Rightarrow> nat \<Rightarrow> nat \<Rightarrow> ('h, 'o, unit) batch_m" where
  "link_next saved current_index next_index =
     and_then (cached_leaf current_index) (\<lambda>e.
     case e of
       Some (leaf, modification) \<Rightarrow>
         if saved \<le> next_index then
           (case modification of
              Some u \<Rightarrow>
                if leaf_next (proof_leaf leaf) \<noteq> next_index
                then and_then (expect (set_next next_index u)) (\<lambda>u. insert_leaf current_index (leaf, Some u))
                else ret ()
            | None \<Rightarrow>
                insert_leaf current_index (leaf, Some \<lparr>upd_value = None,
                  upd_next = if leaf_next (proof_leaf leaf) \<noteq> next_index then Some next_index else None\<rparr>))
         else ret ()
     | None \<Rightarrow>
         and_then (assert_that (saved \<le> current_index)) (\<lambda>_.
         and_then (read_st batch_new_writes) (\<lambda>ws.
         let idx = current_index - saved in
         and_then (assert_that (idx < length ws)) (\<lambda>_.
         and_then (assert_that (fst (ws ! idx) = current_index)) (\<lambda>_.
         modify_st (\<lambda>s. s\<lparr>batch_new_writes := ws[idx := (fst (ws ! idx), (snd (ws ! idx))\<lparr>leaf_next := next_index\<rparr>)]\<rparr>))))))"

fun link_rest :: "nat \<Rightarrow> nat \<Rightarrow> (bytes32 \<times> nat) list \<Rightarrow> ('h, 'o, nat) batch_m" where
  "link_rest saved current_index [] = ret current_index"
| "link_rest saved current_index ((_, next_index) # keys) =
     and_then (link_next saved current_index next_index) (\<lambda>_. link_rest saved next_index keys)"

definition check_last :: "nat \<Rightarrow> ('h, 'o, unit) batch_m" where
  "check_last last_index =
     and_then (cached_leaf last_index) (\<lambda>e.
     and_then (expect e) (\<lambda>(leaf, modification).
     if last_index = MAX_KEY_LEAF_MARKER_IDX then
       and_then (assert_that (modification = None)) (\<lambda>_. assert_that (leaf_key (proof_leaf leaf) = - 1))
     else ret ()))"

definition relink :: "nat \<Rightarrow> ('h, 'o, unit) batch_m" where
  "relink saved =
     and_then (read_st key_to_index_cache) (\<lambda>keys.
     case keys of
       (_, first_index) # (_, second_index) # rest \<Rightarrow>
         and_then (link_first saved first_index second_index) (\<lambda>_.
         and_then (link_rest saved second_index rest) (\<lambda>last_index.
         check_last last_index))
     | _ \<Rightarrow> panic)"

definition load_rightmost :: "('h, 'o) tree_oracle \<Rightarrow> nat \<Rightarrow> nat \<Rightarrow> ('h, 'o, unit) batch_m" where
  "load_rightmost Or N saved =
     and_then (assert_that (1 \<le> saved)) (\<lambda>_.
     and_then (cached_leaf (saved - 1)) (\<lambda>e.
     if e = None then
       and_then (get_proof_for_index Or N (saved - 1)) (\<lambda>p. insert_leaf (saved - 1) (p, None))
     else ret ()))"

section \<open>Joining the paths\<close>

text \<open>
  A node of the partial tree: its position in its level, the position of its leftmost leaf, and
  its hash before and after the writes, where it has one.
\<close>

record 'h join_node =
  node_index :: nat
  node_leaf :: nat
  read_hash :: "'h option"
  write_hash :: "'h option"

type_synonym 'a join_m = "(unit, internal_error, 'a) rs"

definition updated_leaf :: "flat_storage_leaf \<Rightarrow> leaf_update_record \<Rightarrow> flat_storage_leaf" where
  "updated_leaf leaf u =
     leaf\<lparr>leaf_value := (case upd_value u of Some v \<Rightarrow> v | None \<Rightarrow> leaf_value leaf),
       leaf_next := (case upd_next u of Some n \<Rightarrow> n | None \<Rightarrow> leaf_next leaf)\<rparr>"

definition leaf_node :: "'h tree_hasher \<Rightarrow> nat \<times> 'h leaf_entry \<Rightarrow> 'h join_node" where
  "leaf_node H e = (case e of (index, leaf, modification) \<Rightarrow>
     \<lparr>node_index = index, node_leaf = index, read_hash = Some (hash_leaf H (proof_leaf leaf)),
      write_hash = map_option (\<lambda>u. hash_leaf H (updated_leaf (proof_leaf leaf) u)) modification\<rparr>)"

definition new_leaf_node :: "'h tree_hasher \<Rightarrow> nat \<times> flat_storage_leaf \<Rightarrow> 'h join_node" where
  "new_leaf_node H e = (case e of (index, leaf) \<Rightarrow>
     \<lparr>node_index = index, node_leaf = index, read_hash = None, write_hash = Some (hash_leaf H leaf)\<rparr>)"

definition sibling_in :: "(nat \<times> 'h leaf_entry) list \<Rightarrow> 'h list \<Rightarrow> nat \<Rightarrow> 'h join_node \<Rightarrow> 'h" where
  "sibling_in leaves empty_hashes level a =
     (case map_of leaves (node_leaf a) of
        Some (leaf, _) \<Rightarrow> proof_path leaf ! level
      | None \<Rightarrow> empty_hashes ! level)"

definition process_single ::
    "'h tree_hasher \<Rightarrow> (nat \<times> 'h leaf_entry) list \<Rightarrow> 'h list \<Rightarrow> nat \<Rightarrow> 'h join_node \<Rightarrow> 'h join_node" where
  "process_single H leaves empty_hashes level a =
     (let proof = sibling_in leaves empty_hashes level a;
          up = (\<lambda>h. if even (node_index a) then hash_node H h proof else hash_node H proof h) in
      \<lparr>node_index = node_index a div 2, node_leaf = node_leaf a,
       read_hash = map_option up (read_hash a), write_hash = map_option up (write_hash a)\<rparr>)"

definition can_merge :: "nat \<Rightarrow> nat \<Rightarrow> bool" where
  "can_merge a b \<longleftrightarrow> a div 2 = b div 2"

definition merge_nodes ::
    "'h tree_hasher \<Rightarrow> 'h \<Rightarrow> nat \<Rightarrow> 'h join_node \<Rightarrow> 'h join_node \<Rightarrow> 'h join_node join_m" where
  "merge_nodes H empty_path saved a b =
     and_then
       (case (read_hash a, read_hash b) of
          (Some x, Some y) \<Rightarrow> ret (Some (hash_node H x y), x, y)
        | (Some x, None) \<Rightarrow> ret (Some (hash_node H x empty_path), x, empty_path)
        | (None, Some y) \<Rightarrow> ret (Some (hash_node H empty_path y), empty_path, y)
        | (None, None) \<Rightarrow>
            and_then (assert_that (saved \<le> node_leaf a)) (\<lambda>_.
            and_then (assert_that (saved \<le> node_leaf b)) (\<lambda>_.
            ret (None, empty_path, empty_path)))) (\<lambda>(rd, a_read, b_read).
     and_then
       (case (write_hash a, write_hash b) of
          (Some x, Some y) \<Rightarrow> ret (Some (hash_node H x y))
        | (Some x, None) \<Rightarrow> ret (Some (hash_node H x b_read))
        | (None, Some y) \<Rightarrow> ret (Some (hash_node H a_read y))
        | (None, None) \<Rightarrow> and_then (assert_that (rd \<noteq> None)) (\<lambda>_. ret None)) (\<lambda>wr.
     ret \<lparr>node_index = node_index a div 2, node_leaf = node_leaf a, read_hash = rd, write_hash = wr\<rparr>))"

text \<open>
  One level. The source walks over the windows of two neighbours, and two flags say that the second
  of a pair has been merged already: a pair that merges is left behind, else the first goes up alone.
\<close>

fun join_level ::
    "'h tree_hasher \<Rightarrow> (nat \<times> 'h leaf_entry) list \<Rightarrow> 'h list \<Rightarrow> nat \<Rightarrow> nat \<Rightarrow> 'h join_node list \<Rightarrow>
     'h join_node list join_m" where
  "join_level H leaves empty_hashes saved level [] = ret []"
| "join_level H leaves empty_hashes saved level [a] = ret [process_single H leaves empty_hashes level a]"
| "join_level H leaves empty_hashes saved level (a # b # rest) =
     and_then (assert_that (node_index a \<noteq> node_index b)) (\<lambda>_.
     if can_merge (node_index a) (node_index b) then
       and_then (merge_nodes H (empty_hashes ! level) saved a b) (\<lambda>n.
       and_then (join_level H leaves empty_hashes saved level rest) (\<lambda>ns. ret (n # ns)))
     else
       and_then (join_level H leaves empty_hashes saved level (b # rest)) (\<lambda>ns.
       ret (process_single H leaves empty_hashes level a # ns)))"

fun join_levels ::
    "'h tree_hasher \<Rightarrow> (nat \<times> 'h leaf_entry) list \<Rightarrow> 'h list \<Rightarrow> nat \<Rightarrow> nat list \<Rightarrow> 'h join_node list \<Rightarrow>
     'h join_node list join_m" where
  "join_levels H leaves empty_hashes saved [] nodes = ret nodes"
| "join_levels H leaves empty_hashes saved (level # levels) nodes =
     and_then (assert_that (nodes \<noteq> [])) (\<lambda>_.
     and_then (join_level H leaves empty_hashes saved level nodes) (\<lambda>nodes.
     join_levels H leaves empty_hashes saved levels nodes))"

section \<open>The batch\<close>

definition flat_key_of :: "(bytes \<Rightarrow> bytes32) \<Rightarrow> warm_storage_key \<Rightarrow> bytes32" where
  "flat_key_of blake2s k = derive_flat_storage_key blake2s (address k) (slot_key k)"

definition is_read :: "storage_diff \<Rightarrow> bool" where
  "is_read v \<longleftrightarrow> diff_current_value v = diff_initial_value v"

definition gather_batch ::
    "(bytes \<Rightarrow> bytes32) \<Rightarrow> ('h, 'o) tree_oracle \<Rightarrow> nat \<Rightarrow> nat \<Rightarrow> (warm_storage_key \<times> storage_diff) list \<Rightarrow>
     ('h, 'o, unit) batch_m" where
  "gather_batch blake2s Or N saved source =
     (let reads = filter (\<lambda>(_, v). is_read v) source; writes = filter (\<lambda>(_, v). \<not> is_read v) source;
          num_new_writes = length (filter (\<lambda>(_, v). diff_is_new_storage_slot v) writes);
          num_nonexisting_reads = length (filter (\<lambda>(_, v). diff_is_new_storage_slot v) reads) in
      and_then (for_each (\<lambda>(k, v). verify_read Or N saved (flat_key_of blake2s k) v) reads) (\<lambda>_.
      and_then (for_each (\<lambda>(k, v). batch_write Or N saved (flat_key_of blake2s k) v) writes) (\<lambda>_.
      if num_nonexisting_reads + num_new_writes = 0 then ret ()
      else
        and_then (relink saved) (\<lambda>_.
        if num_new_writes > 0 then load_rightmost Or N saved else ret ()))))"

definition join_nodes :: "'h tree_hasher \<Rightarrow> ('h, 'o) batch_state \<Rightarrow> 'h join_node list" where
  "join_nodes H s = map (leaf_node H) (index_to_leaf_cache s) @ map (new_leaf_node H) (batch_new_writes s)"

definition settle_root ::
    "(warm_storage_key \<times> storage_diff) list \<Rightarrow> 'h join_node list \<Rightarrow> ('h flat_storage_commitment, internal_error, unit) rs" where
  "settle_root source nodes =
     (let writes = filter (\<lambda>(_, v). \<not> is_read v) source;
          num_new_writes = length (filter (\<lambda>(_, v). diff_is_new_storage_slot v) writes) in
      case nodes of
        [n] \<Rightarrow>
          and_then (expect (read_hash n)) (\<lambda>rd.
          and_then (read_st com_root) (\<lambda>root.
          and_then (assert_that (rd = root)) (\<lambda>_.
          case write_hash n of
            Some new_root \<Rightarrow>
              and_then (if length writes > 0 then assert_that (new_root \<noteq> root) else ret ()) (\<lambda>_.
              modify_st (\<lambda>c. c\<lparr>com_root := new_root\<rparr>))
          | None \<Rightarrow> assert_that (num_new_writes = 0))))
      | _ \<Rightarrow> panic)"

definition verify_and_apply_batch ::
    "(bytes \<Rightarrow> bytes32) \<Rightarrow> 'h tree_hasher \<Rightarrow> ('h, 'o) tree_oracle \<Rightarrow> nat \<Rightarrow> (warm_storage_key \<times> storage_diff) list \<Rightarrow>
     ('h flat_storage_commitment \<times> 'o, internal_error, unit) rs" where
  "verify_and_apply_batch blake2s H Or N source =
     (if source = [] then ret ()
      else
        and_then (read_st (\<lambda>(c, _). next_free_slot c)) (\<lambda>saved.
        and_then
          (on_part (\<lambda>(c, o'). \<lparr>key_to_index_cache = [], index_to_leaf_cache = [], batch_new_writes = [],
               batch_next_free_slot = next_free_slot c, batch_oracle = o'\<rparr>)
             (\<lambda>s (c, _). (c\<lparr>next_free_slot := batch_next_free_slot s\<rparr>, batch_oracle s)) (\<lambda>e. e)
             (and_then (gather_batch blake2s Or N saved source) (\<lambda>_. read_st (\<lambda>s. s)))) (\<lambda>s.
        and_then (on_part (\<lambda>_. ()) (\<lambda>_ cs. cs) (\<lambda>e. e)
          (join_levels H (index_to_leaf_cache s) (compute_empty_hashes H N) saved [0..<N] (join_nodes H s))) (\<lambda>nodes.
        on_part fst (\<lambda>c s. (c, snd s)) (\<lambda>e. e) (settle_root source nodes)))))"

definition update_commitment ::
    "(bytes \<Rightarrow> bytes32) \<Rightarrow> 'h tree_hasher \<Rightarrow> ('h, 'o) tree_oracle \<Rightarrow> nat \<Rightarrow> slot_map \<Rightarrow>
     ('h flat_storage_commitment option \<times> 'o, internal_error, unit) rs" where
  "update_commitment blake2s H Or N m =
     and_then (read_st fst) (\<lambda>state_commitment.
     case state_commitment of
       Some c \<Rightarrow>
         (case net_accesses_iter m of
            (Inr source, _) \<Rightarrow>
              expect_ok (on_part (\<lambda>s. (c, snd s)) (\<lambda>(c, o') _. (Some c, o')) (\<lambda>e. e) (verify_and_apply_batch blake2s H Or N source))
          | _ \<Rightarrow> panic)
     | None \<Rightarrow> ret ())"

end
