(* ===== verification/Flat_Tree_Paths.thy ===== *)
theory Flat_Tree_Paths
  imports Flat_Tree
begin

text \<open>
  Joining Merkle paths. A tree is given by its leaves; \<open>tree_node\<close> is the hash of a node of it. If the
  paths that were joined lead to the root of a tree, and no two different inputs that were hashed
  collide, the leaves and siblings they started from are those of the tree (\<open>read_down\<close>), and the
  hash computed for the writes is the root of the tree after the writes.
\<close>

section \<open>Ordered maps\<close>

definition bt_sorted :: "('k::linorder \<times> 'v) list \<Rightarrow> bool" where
  "bt_sorted xs \<longleftrightarrow> sorted_wrt (<) (map fst xs)"

lemma bt_sorted_Nil [simp]: "bt_sorted []"
  by (simp add: bt_sorted_def)

lemma set_bt_insert: "set (map fst (bt_insert k v xs)) = insert k (set (map fst xs))"
  by (induction k v xs rule: bt_insert.induct) auto

lemma bt_sorted_insert [simp]: "bt_sorted xs \<Longrightarrow> bt_sorted (bt_insert k v xs)"
proof (induction k v xs rule: bt_insert.induct)
  case (2 k v k' v' xs)
  have "set (map fst (bt_insert k v xs)) = insert k (set (map fst xs))" by (rule set_bt_insert)
  with 2 show ?case by (fastforce simp: bt_sorted_def)
qed (simp add: bt_sorted_def)

lemma map_of_bt_insert [simp]: "bt_sorted xs \<Longrightarrow> map_of (bt_insert k v xs) = (map_of xs)(k \<mapsto> v)"
proof (induction k v xs rule: bt_insert.induct)
  case (2 k v k' v' xs)
  have "map_of xs k = None" if "k < k'" using 2(2) that by (auto simp: bt_sorted_def map_of_eq_None_iff)
  with 2 show ?case by (auto simp: bt_sorted_def fun_eq_iff)
qed auto

lemma bt_sorted_distinct: "bt_sorted xs \<Longrightarrow> distinct (map fst xs)"
  by (simp add: bt_sorted_def strict_sorted_iff)

lemma bt_map_of: "bt_sorted xs \<Longrightarrow> map_of xs k = Some v \<longleftrightarrow> (k, v) \<in> set xs"
  using bt_sorted_distinct by (metis map_of_eq_Some_iff)

section \<open>Trees\<close>

fun tree_node :: "'h tree_hasher \<Rightarrow> (nat \<Rightarrow> flat_storage_leaf) \<Rightarrow> nat \<Rightarrow> nat \<Rightarrow> 'h" where
  "tree_node H T 0 i = hash_leaf H (T i)"
| "tree_node H T (Suc l) i = hash_node H (tree_node H T l (2 * i)) (tree_node H T l (2 * i + 1))"

lemma tree_node_cong:
  assumes "\<And>k. k div 2 ^ l = i \<Longrightarrow> T k = T' k"
  shows "tree_node H T l i = tree_node H T' l i"
  using assms
proof (induction l arbitrary: i)
  case (Suc l)
  have "T k = T' k" if "k div 2 ^ l = 2 * i \<or> k div 2 ^ l = 2 * i + 1" for k
  proof (rule Suc.prems)
    have "k div 2 ^ Suc l = k div 2 ^ l div 2" by (simp add: div_mult2_eq [symmetric] mult.commute)
    then show "k div 2 ^ Suc l = i" using that by auto
  qed
  then show ?case using Suc.IH by auto
qed simp

lemma tree_node_shift: "tree_node H (\<lambda>k. T (k - d * 2 ^ l)) l (j + d) = tree_node H T l j"
proof (induction l arbitrary: j d)
  case (Suc l)
  have "tree_node H (\<lambda>k. T (k - d * 2 ^ Suc l)) l (2 * (j + d)) = tree_node H T l (2 * j)"
    using Suc.IH [of "2 * d" "2 * j"] by (simp add: algebra_simps)
  moreover have "tree_node H (\<lambda>k. T (k - d * 2 ^ Suc l)) l (2 * (j + d) + 1) = tree_node H T l (2 * j + 1)"
    using Suc.IH [of "2 * d" "2 * j + 1"] by (simp add: algebra_simps)
  ultimately show ?case by simp
qed simp

abbreviation empty_node :: "'h tree_hasher \<Rightarrow> nat \<Rightarrow> 'h" where
  "empty_node H l \<equiv> tree_node H (\<lambda>_. empty_leaf) l 0"

lemma empty_node: "tree_node H (\<lambda>_. empty_leaf) l i = empty_node H l"
  by (induction l arbitrary: i) (simp_all, metis)

lemma empty_subtree: "(\<And>k. k div 2 ^ l = i \<Longrightarrow> T k = empty_leaf) \<Longrightarrow> tree_node H T l i = empty_node H l"
  using tree_node_cong [of l i T "\<lambda>_. empty_leaf" H] empty_node [of H l i] by simp

lemma nth_empty_hashes_loop: "i < n \<Longrightarrow> empty_hashes_loop H n (empty_node H l) ! i = empty_node H (l + i + 1)"
proof (induction n arbitrary: i l)
  case (Suc n)
  have "hash_node H (empty_node H l) (empty_node H l) = empty_node H (Suc l)" using empty_node [of H l "Suc 0"] by simp
  then show ?case using Suc.IH [of "i - 1" "Suc l"] Suc.prems by (cases i) (simp_all add: Let_def)
qed simp

lemma nth_empty_hashes: "l < N \<Longrightarrow> compute_empty_hashes H N ! l = empty_node H l"
  using nth_empty_hashes_loop [of "l - 1" "N - 1" H 0] by (cases l) (simp_all add: compute_empty_hashes_def Let_def)

text \<open>The pairs that are hashed in a tree of height \<open>N\<close>.\<close>

definition tree_pairs :: "'h tree_hasher \<Rightarrow> (nat \<Rightarrow> flat_storage_leaf) \<Rightarrow> nat \<Rightarrow> ('h \<times> 'h) set" where
  "tree_pairs H T N = {(tree_node H T l (2 * i), tree_node H T l (2 * i + 1)) | l i. l < N \<and> i < 2 ^ (N - Suc l)}"

section \<open>One level up\<close>

definition sibling :: "nat \<Rightarrow> nat" where
  "sibling i = (if even i then i + 1 else i - 1)"

lemma sibling_neq [simp]: "sibling i \<noteq> i"
  by (cases i) (auto simp: sibling_def)

lemma sibling_div [simp]: "sibling i div 2 = i div 2"
  by (auto simp: sibling_def elim: oddE)

lemma same_parent: "i div 2 = j div 2 \<Longrightarrow> i = j \<or> i = sibling j"
  by (cases "even j"; cases "even i") (auto simp: sibling_def elim!: evenE oddE)

text \<open>The pairs that are hashed for the reads, while a level is joined.\<close>

definition single_pair :: "(nat \<times> 'h leaf_entry) list \<Rightarrow> 'h list \<Rightarrow> nat \<Rightarrow> 'h join_node \<Rightarrow> ('h \<times> 'h) set" where
  "single_pair leaves em level a =
     (case read_hash a of
        None \<Rightarrow> {}
      | Some h \<Rightarrow> let p = sibling_in leaves em level a in {if even (node_index a) then (h, p) else (p, h)})"

definition merge_pair :: "'h \<Rightarrow> 'h join_node \<Rightarrow> 'h join_node \<Rightarrow> ('h \<times> 'h) set" where
  "merge_pair e a b =
     (if read_hash a = None \<and> read_hash b = None then {}
      else {(case_option e (\<lambda>h. h) (read_hash a), case_option e (\<lambda>h. h) (read_hash b))})"

fun level_pairs :: "(nat \<times> 'h leaf_entry) list \<Rightarrow> 'h list \<Rightarrow> nat \<Rightarrow> 'h join_node list \<Rightarrow> ('h \<times> 'h) set" where
  "level_pairs leaves em level [] = {}"
| "level_pairs leaves em level [a] = single_pair leaves em level a"
| "level_pairs leaves em level (a # b # rest) =
     (if can_merge (node_index a) (node_index b)
      then merge_pair (em ! level) a b \<union> level_pairs leaves em level rest
      else single_pair leaves em level a \<union> level_pairs leaves em level (b # rest))"

fun run_pairs ::
    "'h tree_hasher \<Rightarrow> (nat \<times> 'h leaf_entry) list \<Rightarrow> 'h list \<Rightarrow> nat \<Rightarrow> nat list \<Rightarrow> 'h join_node list \<Rightarrow> ('h \<times> 'h) set" where
  "run_pairs H leaves em saved [] ns = {}"
| "run_pairs H leaves em saved (level # levels) ns =
     level_pairs leaves em level ns \<union>
     (case join_level H leaves em saved level ns () of
        (Inr ns', _) \<Rightarrow> run_pairs H leaves em saved levels ns'
      | _ \<Rightarrow> {})"

definition nodes_sorted :: "'h join_node list \<Rightarrow> bool" where
  "nodes_sorted ns \<longleftrightarrow> sorted_wrt (<) (map node_index ns)"

abbreviation indices :: "'h join_node list \<Rightarrow> nat set" where
  "indices ns \<equiv> node_index ` set ns"

text \<open>What two merged nodes give.\<close>

definition merged :: "'h tree_hasher \<Rightarrow> 'h \<Rightarrow> 'h join_node \<Rightarrow> 'h join_node \<Rightarrow> 'h join_node \<Rightarrow> bool" where
  "merged H e a b n \<longleftrightarrow>
     node_index n = node_index a div 2 \<and> node_leaf n = node_leaf a \<and>
     (let x = case_option e (\<lambda>h. h) (read_hash a); y = case_option e (\<lambda>h. h) (read_hash b) in
      read_hash n = (if read_hash a = None \<and> read_hash b = None then None else Some (hash_node H x y)) \<and>
      write_hash n = (if write_hash a = None \<and> write_hash b = None then None
        else Some (hash_node H (case_option x (\<lambda>h. h) (write_hash a)) (case_option y (\<lambda>h. h) (write_hash b)))))"

lemma returns_merge_nodes:
  "(\<And>n. merged H e a b n \<Longrightarrow> Q n s) \<Longrightarrow> returns (merge_nodes H e saved a b) Q s"
  by (auto simp: merge_nodes_def merged_def split: option.splits)

text \<open>How a node of the next level comes about.\<close>

definition node_up ::
    "'h tree_hasher \<Rightarrow> (nat \<times> 'h leaf_entry) list \<Rightarrow> 'h list \<Rightarrow> nat \<Rightarrow> 'h join_node list \<Rightarrow> 'h join_node \<Rightarrow> bool" where
  "node_up H leaves em level ns n \<longleftrightarrow>
     (\<exists>a \<in> set ns. n = process_single H leaves em level a \<and> sibling (node_index a) \<notin> indices ns) \<or>
     (\<exists>a \<in> set ns. \<exists>b \<in> set ns. even (node_index a) \<and> node_index b = node_index a + 1 \<and> merged H (em ! level) a b n)"

lemma join_level_cong:
  assumes "returns (join_level H leaves em saved level ns) Q ()" and "join_level H leaves em saved level ns u = (Inr ns', v)"
  shows "Q ns' ()"
  using assms by (simp add: returns_def)

text \<open>In an ordered level a merged pair is a left and a right node.\<close>

lemma node_up_mono:
  assumes "node_up H leaves em level ns n" and "set ns \<subseteq> set ms"
    and "\<And>i. i \<in> indices ns \<Longrightarrow> sibling i \<notin> indices ns \<Longrightarrow> sibling i \<notin> indices ms"
  shows "node_up H leaves em level ms n"
  using assms unfolding node_up_def by (metis imageI subsetD)

definition joined_up where
  "joined_up H leaves em level ns ns' \<longleftrightarrow> nodes_sorted ns' \<and> indices ns' = (\<lambda>i. i div 2) ` indices ns \<and>
     (\<forall>n \<in> set ns'. node_up H leaves em level ns n)"

lemma joined_up_cons:
  assumes up: "joined_up H leaves em level rest ns'" and n: "node_up H leaves em level (ms @ rest) n"
    and idx: "\<And>i. i \<in> indices ms \<Longrightarrow> i div 2 = node_index n" "ms \<noteq> []"
    and above: "\<And>i. i \<in> indices rest \<Longrightarrow> node_index n < i div 2"
  shows "joined_up H leaves em level (ms @ rest) (n # ns')"
proof -
  have *: "nodes_sorted ns'" "indices ns' = (\<lambda>i. i div 2) ` indices rest" "\<forall>n \<in> set ns'. node_up H leaves em level rest n"
    using up by (auto simp: joined_up_def)
  have "node_index n < j" if "j \<in> indices ns'" for j using that above unfolding *(2) by auto
  then have "nodes_sorted (n # ns')" using *(1) by (auto simp: nodes_sorted_def)
  moreover have "indices (n # ns') = (\<lambda>i. i div 2) ` indices (ms @ rest)"
  proof -
    have "(\<lambda>i. i div 2) ` indices ms = {node_index n}" using idx by (cases ms) auto
    then show ?thesis using *(2) by (simp add: image_Un)
  qed
  moreover have "node_up H leaves em level (ms @ rest) m" if "m \<in> set ns'" for m
  proof (rule node_up_mono)
    show "node_up H leaves em level rest m" using *(3) that by blast
    show "sibling i \<notin> indices (ms @ rest)" if "i \<in> indices rest" "sibling i \<notin> indices rest" for i
    proof
      assume "sibling i \<in> indices (ms @ rest)"
      then have "sibling i \<in> indices ms" using that(2) by (auto simp: image_Un)
      then show False using idx(1) above [OF that(1)] by (metis less_irrefl sibling_div)
    qed
  qed auto
  ultimately show ?thesis using n by (simp add: joined_up_def)
qed

lemma join_level_up:
  assumes "nodes_sorted ns"
  shows "returns (join_level H leaves em saved level ns) (\<lambda>ns' _. joined_up H leaves em level ns ns') ()"
  using assms
proof (induction H leaves em saved level ns rule: join_level.induct)
  case (1 H leaves em saved level)
  then show ?case by (simp add: joined_up_def nodes_sorted_def)
next
  case (2 H leaves em saved level a)
  then show ?case by (simp add: joined_up_def nodes_sorted_def process_single_def Let_def node_up_def)
next
  case (3 H leaves em saved level a b rest)
  have lt: "node_index a < node_index b" "\<And>i. i \<in> indices rest \<Longrightarrow> node_index b < i" and so: "nodes_sorted rest" "nodes_sorted (b # rest)"
    using 3(3) by (auto simp: nodes_sorted_def)
  show ?case
  proof (cases "can_merge (node_index a) (node_index b)")
    case True
    then have ab: "even (node_index a)" "node_index b = node_index a + 1" using lt(1) by (auto simp: can_merge_def) presburger+
    have "joined_up H leaves em level ([a, b] @ rest) (n # ns')"
      if m: "merged H (em ! level) a b n" and up: "joined_up H leaves em level rest ns'" for n ns'
    proof (rule joined_up_cons [OF up])
      show "node_up H leaves em level ([a, b] @ rest) n" using m ab unfolding node_up_def by auto
      have n: "node_index n = node_index a div 2" using m by (simp add: merged_def)
      show "i div 2 = node_index n" if "i \<in> indices [a, b]" for i using that ab n by auto
      show "node_index n < i div 2" if "i \<in> indices rest" for i using lt(2) [OF that] ab n by presburger
    qed simp
    then show ?thesis using True by (auto intro!: returns_merge_nodes returns_mono [OF 3(1) [OF True so(1)]])
  next
    case False
    have up1: "a div 2 < i div 2" if "a < b" "b \<le> i" "a div 2 \<noteq> b div 2" for a b i :: nat
      using div_le_mono [of a b 2] div_le_mono [of b i 2] that by simp
    have ab: "node_index a div 2 < i div 2" if "i \<in> indices (b # rest)" for i
    proof (rule up1 [OF lt(1)])
      show "node_index b \<le> i" using lt(2) [of i] that by (cases "i = node_index b") auto
    qed (use False in \<open>simp add: can_merge_def\<close>)
    have "joined_up H leaves em level ([a] @ b # rest) (process_single H leaves em level a # ns')"
      if up: "joined_up H leaves em level (b # rest) ns'" for ns'
    proof (rule joined_up_cons [OF up])
      have "sibling (node_index a) \<notin> indices (b # rest)" using ab sibling_div less_irrefl by metis
      then show "node_up H leaves em level ([a] @ b # rest) (process_single H leaves em level a)" unfolding node_up_def by auto
    qed (use ab in \<open>auto simp: process_single_def Let_def\<close>)
    then show ?thesis using False by (auto intro!: returns_mono [OF 3(2) [OF False so(2)]])
  qed
qed

section \<open>From the root down\<close>

lemma nodes_sorted_inj: "nodes_sorted ns \<Longrightarrow> a \<in> set ns \<Longrightarrow> b \<in> set ns \<Longrightarrow> node_index a = node_index b \<Longrightarrow> a = b"
  by (auto simp: nodes_sorted_def strict_sorted_iff distinct_map dest: inj_onD)

lemma level_pairs_of:
  assumes "nodes_sorted ns"
  shows "(\<forall>a \<in> set ns. sibling (node_index a) \<notin> indices ns \<longrightarrow> single_pair leaves em level a \<subseteq> level_pairs leaves em level ns) \<and>
    (\<forall>a \<in> set ns. \<forall>b \<in> set ns. even (node_index a) \<longrightarrow> node_index b = node_index a + 1 \<longrightarrow>
      merge_pair (em ! level) a b \<subseteq> level_pairs leaves em level ns)"
  using assms
proof (induction leaves em level ns rule: level_pairs.induct)
  case (3 leaves em level c d rest)
  have lt: "node_index c < node_index d" "\<And>x. x \<in> set rest \<Longrightarrow> node_index d < node_index x"
    and so: "nodes_sorted rest" "nodes_sorted (d # rest)"
    using 3(3) by (auto simp: nodes_sorted_def)
  show ?case
  proof (cases "can_merge (node_index c) (node_index d)")
    case True
    then have cd: "even (node_index c)" "node_index d = node_index c + 1"
      using lt(1) unfolding can_merge_def by presburger+
    note IH = 3(1) [OF True so(1)]
    have lp: "level_pairs leaves em level (c # d # rest) = merge_pair (em ! level) c d \<union> level_pairs leaves em level rest"
      using True by simp
    have pair: "a = c \<and> b = d \<or> a \<in> set rest \<and> b \<in> set rest"
      if ab: "a \<in> set (c # d # rest)" "b \<in> set (c # d # rest)" "even (node_index a)" "node_index b = node_index a + 1" for a b
    proof -
      consider "a = c" | "a = d" | "a \<in> set rest" using ab(1) by auto
      then show ?thesis
      proof cases
        case 1
        then show ?thesis using nodes_sorted_inj [OF 3(3) ab(2), of d] ab(4) cd by simp
      next
        case 2
        then show ?thesis using ab(3) cd by simp
      next
        case 3
        then have "node_index d < node_index b" using lt(2) [OF 3] ab(4) by simp
        then show ?thesis using 3 ab(2) lt(1) by auto
      qed
    qed
    have alone: "a \<in> set rest" if "a \<in> set (c # d # rest)" "sibling (node_index a) \<notin> indices (c # d # rest)" for a
      using that cd by (auto simp: sibling_def)
    show ?thesis
      unfolding lp
    proof (intro conjI ballI impI)
      fix a assume a: "a \<in> set (c # d # rest)" "sibling (node_index a) \<notin> indices (c # d # rest)"
      then have "sibling (node_index a) \<notin> indices rest" by auto
      then show "single_pair leaves em level a \<subseteq> merge_pair (em ! level) c d \<union> level_pairs leaves em level rest"
        using IH alone [OF a] by blast
    next
      fix a b assume ab: "a \<in> set (c # d # rest)" "b \<in> set (c # d # rest)" "even (node_index a)" "node_index b = node_index a + 1"
      show "merge_pair (em ! level) a b \<subseteq> merge_pair (em ! level) c d \<union> level_pairs leaves em level rest"
        using IH pair [OF ab] ab(3,4) by blast
    qed
  next
    case False
    note IH = 3(2) [OF False so(2)]
    have lp: "level_pairs leaves em level (c # d # rest) = single_pair leaves em level c \<union> level_pairs leaves em level (d # rest)"
      using False by simp
    have pair: "a \<noteq> c \<and> b \<noteq> c"
      if ab: "a \<in> set (c # d # rest)" "b \<in> set (c # d # rest)" "even (node_index a)" "node_index b = node_index a + 1" for a b
    proof -
      have le: "node_index c \<le> node_index a" using ab(1) lt(1) lt(2) [of a] by (cases "a \<in> set rest") auto
      have "a \<noteq> c"
      proof
        assume "a = c"
        then have "node_index b \<le> node_index d" using ab(4) lt(1) by simp
        then have "b = d \<or> b = c" using ab(2) lt(2) [of b] by (cases "b \<in> set rest") auto
        then show False using \<open>a = c\<close> ab(3,4) False by (auto simp: can_merge_def)
      qed
      then show ?thesis using ab(4) le by auto
    qed
    show ?thesis
      unfolding lp
    proof (intro conjI ballI impI)
      fix a assume a: "a \<in> set (c # d # rest)" "sibling (node_index a) \<notin> indices (c # d # rest)"
      then have "sibling (node_index a) \<notin> indices (d # rest)" "a = c \<or> a \<in> set (d # rest)" by auto
      then show "single_pair leaves em level a \<subseteq> single_pair leaves em level c \<union> level_pairs leaves em level (d # rest)"
        using IH by blast
    next
      fix a b assume ab: "a \<in> set (c # d # rest)" "b \<in> set (c # d # rest)" "even (node_index a)" "node_index b = node_index a + 1"
      then have "a \<in> set (d # rest)" "b \<in> set (d # rest)" using pair [OF ab] by auto
      then show "merge_pair (em ! level) a b \<subseteq> single_pair leaves em level c \<union> level_pairs leaves em level (d # rest)"
        using IH ab(3,4) by blast
    qed
  qed
qed auto

abbreviation no_collision :: "'h tree_hasher \<Rightarrow> ('h \<times> 'h) set \<Rightarrow> bool" where
  "no_collision H A \<equiv> inj_on (\<lambda>(x, y). hash_node H x y) A"

text \<open>A node whose parent is that of a tree is itself that of the tree, and so is its sibling.\<close>

definition node_of :: "'h tree_hasher \<Rightarrow> (nat \<Rightarrow> flat_storage_leaf) \<Rightarrow> nat \<Rightarrow> 'h join_node \<Rightarrow> bool" where
  "node_of H T l n \<longleftrightarrow> (\<forall>h. read_hash n = Some h \<longrightarrow> h = tree_node H T l (node_index n))"

lemma read_down:
  assumes so: "nodes_sorted ns" and up: "joined_up H leaves em level ns ns'"
    and A: "no_collision H A" "level_pairs leaves em level ns \<subseteq> A"
    and tp: "(tree_node H T l (2 * (node_index a div 2)), tree_node H T l (2 * (node_index a div 2) + 1)) \<in> A"
    and a: "a \<in> set ns" "read_hash a = Some h"
    and n: "n \<in> set ns'" "node_index n = node_index a div 2" "node_of H T (Suc l) n"
  shows "h = tree_node H T l (node_index a) \<and> read_hash n \<noteq> None \<and>
    (sibling (node_index a) \<notin> indices ns \<longrightarrow> sibling_in leaves em level a = tree_node H T l (sibling (node_index a)))"
proof -
  have pairs: "x = tree_node H T l (2 * (node_index a div 2)) \<and> y = tree_node H T l (2 * (node_index a div 2) + 1)"
    if "(x, y) \<in> level_pairs leaves em level ns" "read_hash n = Some (hash_node H x y)" for x y
    using inj_onD [OF A(1), of "(x, y)"] A(2) tp that n(2,3) by (auto simp: node_of_def)
  have "node_up H leaves em level ns n" using up n(1) by (simp add: joined_up_def)
  then consider c where "c \<in> set ns" "n = process_single H leaves em level c" "sibling (node_index c) \<notin> indices ns"
    | c d where "c \<in> set ns" "d \<in> set ns" "even (node_index c)" "node_index d = node_index c + 1" "merged H (em ! level) c d n"
    unfolding node_up_def by blast
  then show ?thesis
  proof cases
    case (1 c)
    then have "node_index a = node_index c \<or> node_index a = sibling (node_index c)"
      using n(2) by (intro same_parent) (simp add: process_single_def Let_def)
    moreover have "node_index a \<in> indices ns" using a(1) by (rule imageI)
    ultimately have "node_index c = node_index a" using 1(3) by metis
    then have c: "c = a" by (rule nodes_sorted_inj [OF so 1(1) a(1)])
    let ?p = "sibling_in leaves em level a"
    let ?xy = "if even (node_index a) then (h, ?p) else (?p, h)"
    have "?xy \<in> level_pairs leaves em level ns"
      using level_pairs_of [OF so, of leaves em level] a 1(3) c by (auto simp: single_pair_def Let_def)
    moreover have "read_hash n = Some (hash_node H (fst ?xy) (snd ?xy))" using 1(2) a(2) c by (simp add: process_single_def Let_def)
    ultimately have "fst ?xy = tree_node H T l (2 * (node_index a div 2))" "snd ?xy = tree_node H T l (2 * (node_index a div 2) + 1)" "read_hash n \<noteq> None"
      using pairs [of "fst ?xy" "snd ?xy"] by auto
    then show ?thesis by (auto simp: sibling_def elim!: oddE evenE split: if_splits)
  next
    case (2 c d)
    have idx: "node_index a = node_index c \<or> node_index a = node_index d"
      using n(2) 2(3,4,5) same_parent [of "node_index a" "node_index c"] by (simp add: merged_def sibling_def)
    then have cd: "a = c \<or> a = d" using nodes_sorted_inj [OF so a(1) 2(1)] nodes_sorted_inj [OF so a(1) 2(2)] by blast
    let ?x = "case_option (em ! level) (\<lambda>h. h) (read_hash c)" and ?y = "case_option (em ! level) (\<lambda>h. h) (read_hash d)"
    have "\<not> (read_hash c = None \<and> read_hash d = None)" using cd a(2) by auto
    moreover have "merge_pair (em ! level) c d \<subseteq> level_pairs leaves em level ns"
      using level_pairs_of [OF so, of leaves em level] 2(1-4) by blast
    ultimately have "(?x, ?y) \<in> level_pairs leaves em level ns" "read_hash n = Some (hash_node H ?x ?y)"
      using 2(5) unfolding merge_pair_def merged_def Let_def by (simp_all split: if_splits)
    from pairs [OF this] this(2) have "?x = tree_node H T l (node_index c)" "?y = tree_node H T l (node_index d)" "read_hash n \<noteq> None"
      using idx 2(3,4) by auto
    moreover have "sibling (node_index a) \<in> indices ns"
      using cd imageI [OF 2(1), of node_index] imageI [OF 2(2), of node_index] 2(3,4) unfolding sibling_def
      by (elim disjE) simp_all
    ultimately show ?thesis using cd a(2) by auto
  qed
qed

end
