(* ===== verification/Flat_Tree_Roots.thy ===== *)
theory Flat_Tree_Roots
  imports Flat_Tree_Paths
begin

text \<open>
  The root after the writes. Going up from the leaves, the joined nodes are those of the tree after
  the writes; no leaf can be smuggled in to the right of the used ones.
\<close>

section \<open>And up again\<close>

text \<open>
  A level while it is joined: \<open>T\<close> is the tree before the writes and \<open>T'\<close> the tree after them. The
  nodes that have no hash before the writes lie right of all used leaves; the leaves in \<open>M\<close> are
  below nodes of the level.
\<close>

definition node_written ::
    "'h tree_hasher \<Rightarrow> (nat \<Rightarrow> flat_storage_leaf) \<Rightarrow> (nat \<Rightarrow> flat_storage_leaf) \<Rightarrow> nat \<Rightarrow> bool \<Rightarrow> nat \<Rightarrow> 'h join_node \<Rightarrow> bool" where
  "node_written H T T' saved fresh l n \<longleftrightarrow>
     (case write_hash n of
        Some h \<Rightarrow> h = tree_node H T' l (node_index n)
      | None \<Rightarrow> \<forall>k. k div 2 ^ l = node_index n \<longrightarrow> T' k = T k) \<and>
     (read_hash n = None \<longrightarrow> saved \<le> node_index n * 2 ^ l \<and> saved \<le> node_leaf n \<and> fresh)"

definition covered :: "nat set \<Rightarrow> nat \<Rightarrow> 'h join_node list \<Rightarrow> bool" where
  "covered M l ns \<longleftrightarrow> (\<forall>k \<in> M. k div 2 ^ l \<in> indices ns)"

lemma div_Suc_level: "k div 2 ^ Suc l = k div 2 ^ l div (2::nat)"
  by (simp add: div_mult2_eq [symmetric] mult.commute)

lemma halves: "m div 2 = i \<Longrightarrow> m = 2 * i \<or> m = 2 * i + (1::nat)"
  by presburger

lemma covered_up: "covered M l ns \<Longrightarrow> joined_up H leaves em level ns ns' \<Longrightarrow> covered M (Suc l) ns'"
  by (auto simp: covered_def joined_up_def div_Suc_level simp del: power_Suc)

lemma above_saved:
  assumes "saved \<le> i * 2 ^ l" and "k div 2 ^ l = i"
  shows "saved \<le> (k::nat)"
  using assms by (metis div_times_less_eq_dividend le_trans)

lemma outside_unchanged:
  assumes "\<And>k. T' k \<noteq> T k \<Longrightarrow> k \<in> M" and "covered M l ns" and "i \<notin> indices ns"
  shows "tree_node H T' l i = tree_node H T l i"
  by (rule tree_node_cong) (use assms in \<open>auto simp: covered_def\<close>)

text \<open>The hash that stands for a node before and after the writes.\<close>

lemma hash_before:
  assumes "node_of H T l a" and "node_written H T T' saved fresh l a" and "\<And>k. saved \<le> k \<Longrightarrow> T k = empty_leaf"
  shows "case_option (empty_node H l) (\<lambda>h. h) (read_hash a) = tree_node H T l (node_index a)"
proof (cases "read_hash a")
  case None
  then have "saved \<le> node_index a * 2 ^ l" using assms(2) by (simp add: node_written_def)
  then show ?thesis using None assms(3) above_saved [of saved "node_index a" l]
    by (simp add: empty_subtree [of l "node_index a" T H])
qed (use assms(1) in \<open>simp add: node_of_def\<close>)

lemma hash_after:
  assumes "node_of H T l a" and w: "node_written H T T' saved fresh l a" and "\<And>k. saved \<le> k \<Longrightarrow> T k = empty_leaf"
  shows "case_option (case_option (empty_node H l) (\<lambda>h. h) (read_hash a)) (\<lambda>h. h) (write_hash a) = tree_node H T' l (node_index a)"
proof (cases "write_hash a")
  case None
  then have "tree_node H T l (node_index a) = tree_node H T' l (node_index a)"
    using w by (intro tree_node_cong) (simp add: node_written_def)
  then show ?thesis using None hash_before [OF assms] by simp
qed (use w in \<open>simp add: node_written_def\<close>)

lemma single_written:
  assumes ch: "\<And>k. T' k \<noteq> T k \<Longrightarrow> k \<in> M" and cov: "covered M l ns"
    and fresh: "fresh \<Longrightarrow> saved - 1 \<in> M \<and> 0 < saved \<and> (\<forall>k \<in> fst ` set leaves. k < saved)"
    and em: "em ! l = empty_node H l" and T: "\<And>k. saved \<le> k \<Longrightarrow> T k = empty_leaf"
    and a: "node_written H T T' saved fresh l a" "sibling (node_index a) \<notin> indices ns"
    and S: "read_hash a \<noteq> None \<Longrightarrow> sibling_in leaves em l a = tree_node H T l (sibling (node_index a))"
  shows "node_written H T T' saved fresh (Suc l) (process_single H leaves em l a)"
proof -
  let ?i = "node_index a"
  have left: "saved \<le> (?i - 1) * 2 ^ l" if "read_hash a = None" "odd ?i"
  proof (rule ccontr)
    assume *: "\<not> saved \<le> (?i - 1) * 2 ^ l"
    have "saved \<le> ?i * 2 ^ l" "fresh" using that(1) a(1) by (auto simp: node_written_def)
    moreover have "?i * 2 ^ l = (?i - 1) * 2 ^ l + 2 ^ l" using that(2) by (cases ?i) auto
    ultimately have "(saved - 1) div 2 ^ l = ?i - 1" using * fresh by (intro div_nat_eqI) (auto simp: mult.commute)
    then have "?i - 1 \<in> indices ns" using cov fresh \<open>fresh\<close> unfolding covered_def by metis
    then show False using a(2) that(2) by (simp add: sibling_def)
  qed
  have below: "saved \<le> ?i div 2 * 2 ^ Suc l" if "read_hash a = None"
  proof (cases "even ?i")
    case True
    then show ?thesis using that a(1) by (auto simp: node_written_def elim!: evenE)
  qed (use left [OF that] in \<open>auto elim!: oddE\<close>)
  have sib: "sibling_in leaves em l a = tree_node H T' l (sibling ?i)"
  proof (cases "read_hash a = None")
    case True
    have "T k = empty_leaf" if "k div 2 ^ l = sibling ?i" for k
    proof (rule T, rule above_saved [OF below [OF True]])
      show "k div 2 ^ Suc l = ?i div 2" using that by (simp add: div_Suc_level del: power_Suc)
    qed
    then have "tree_node H T' l (sibling ?i) = empty_node H l"
      using outside_unchanged [where H = H, OF ch cov a(2)] by (simp add: empty_subtree [of l "sibling ?i" T H])
    moreover have "node_leaf a \<notin> fst ` set leaves" using True a(1) fresh by (fastforce simp: node_written_def)
    then have "map_of leaves (node_leaf a) = None" by (simp add: map_of_eq_None_iff)
    ultimately show ?thesis by (simp add: sibling_in_def em)
  qed (use S outside_unchanged [where H = H, OF ch cov a(2)] in simp)
  have same: "T' k = T k" if "k div 2 ^ Suc l = ?i div 2" "write_hash a = None" for k
  proof (cases "k div 2 ^ l = ?i")
    case True
    then show ?thesis using a(1) that(2) by (simp add: node_written_def)
  next
    case False
    then have "k div 2 ^ l = sibling ?i" using that(1) same_parent unfolding div_Suc_level by blast
    then show ?thesis using ch [of k] cov a(2) unfolding covered_def by metis
  qed
  show ?thesis
  proof (cases "write_hash a")
    case None
    then show ?thesis using a(1) same below unfolding node_written_def by (simp add: process_single_def Let_def)
  next
    case (Some h)
    then have h: "h = tree_node H T' l ?i" using a(1) by (simp add: node_written_def)
    have "(if even ?i then hash_node H h (sibling_in leaves em l a) else hash_node H (sibling_in leaves em l a) h) = tree_node H T' (Suc l) (?i div 2)"
      unfolding sib h by (auto simp: sibling_def elim!: evenE oddE)
    then show ?thesis using Some a(1) below unfolding node_written_def
      by (simp add: process_single_def Let_def del: tree_node.simps split: if_splits)
  qed
qed

lemma merged_written:
  assumes em: "em ! l = empty_node H l" and T: "\<And>k. saved \<le> k \<Longrightarrow> T k = empty_leaf"
    and a: "node_of H T l a" "node_written H T T' saved fresh l a" and b: "node_of H T l b" "node_written H T T' saved fresh l b"
    and ab: "even (node_index a)" "node_index b = node_index a + 1" and n: "merged H (em ! l) a b n"
  shows "node_written H T T' saved fresh (Suc l) n"
proof -
  have idx: "node_index n = node_index a div 2" "node_index a = 2 * node_index n" "node_index b = 2 * node_index n + 1" "node_leaf n = node_leaf a"
    using n ab by (auto simp: merged_def)
  have rd: "saved \<le> node_index n * 2 ^ Suc l \<and> saved \<le> node_leaf n \<and> fresh" if "read_hash n = None"
  proof -
    have "read_hash a = None" using that n by (simp add: merged_def Let_def split: if_splits)
    then show ?thesis using a(2) idx(2,4) by (simp add: node_written_def)
  qed
  show ?thesis
  proof (cases "write_hash n")
    case None
    then have "write_hash a = None" "write_hash b = None" using n by (simp_all add: merged_def Let_def split: if_splits)
    then have "T' k = T k" if "k div 2 ^ l = 2 * node_index n \<or> k div 2 ^ l = 2 * node_index n + 1" for k
      using that a(2) b(2) idx(2,3) by (auto simp: node_written_def)
    moreover have "k div 2 ^ l = 2 * node_index n \<or> k div 2 ^ l = 2 * node_index n + 1" if "k div 2 ^ Suc l = node_index n" for k
      using that unfolding div_Suc_level by (rule halves)
    ultimately show ?thesis using None rd unfolding node_written_def by auto
  next
    case (Some h)
    then have "h = hash_node H (tree_node H T' l (node_index a)) (tree_node H T' l (node_index b))"
      using n hash_after [OF a T] hash_after [OF b T] by (simp add: merged_def Let_def em split: if_splits)
    then show ?thesis using Some rd idx(2,3) unfolding node_written_def by simp
  qed
qed

lemma level_written:
  assumes "joined_up H leaves em l ns ns'"
    and ch: "\<And>k. T' k \<noteq> T k \<Longrightarrow> k \<in> M" and cov: "covered M l ns"
    and fresh: "fresh \<Longrightarrow> saved - 1 \<in> M \<and> 0 < saved \<and> (\<forall>k \<in> fst ` set leaves. k < saved)"
    and em: "em ! l = empty_node H l" and T: "\<And>k. saved \<le> k \<Longrightarrow> T k = empty_leaf"
    and W: "\<And>a. a \<in> set ns \<Longrightarrow> node_written H T T' saved fresh l a" and R: "\<And>a. a \<in> set ns \<Longrightarrow> node_of H T l a"
    and S: "\<And>a. a \<in> set ns \<Longrightarrow> read_hash a \<noteq> None \<Longrightarrow> sibling (node_index a) \<notin> indices ns \<Longrightarrow>
      sibling_in leaves em l a = tree_node H T l (sibling (node_index a))"
    and n: "n \<in> set ns'"
  shows "node_written H T T' saved fresh (Suc l) n"
proof -
  have "node_up H leaves em l ns n" using assms(1) n by (simp add: joined_up_def)
  then show ?thesis
    unfolding node_up_def
  proof (elim disjE bexE conjE)
    fix a assume a: "a \<in> set ns" "n = process_single H leaves em l a" "sibling (node_index a) \<notin> indices ns"
    show ?thesis unfolding a(2) by (rule single_written [OF ch cov fresh em T W [OF a(1)] a(3) S [OF a(1) _ a(3)]])
  next
    fix a b assume ab: "a \<in> set ns" "b \<in> set ns" "even (node_index a)" "node_index b = node_index a + 1" "merged H (em ! l) a b n"
    show ?thesis by (rule merged_written [OF em T R [OF ab(1)] W [OF ab(1)] R [OF ab(2)] W [OF ab(2)] ab(3-5)])
  qed
qed

section \<open>All levels\<close>

lemma join_levels_step:
  assumes "join_levels H leaves em saved [l..<N] ns () = (Inr ns', ())" and "l < N"
  obtains ns1 where "join_level H leaves em saved l ns () = (Inr ns1, ())"
    and "join_levels H leaves em saved [Suc l..<N] ns1 () = (Inr ns', ())"
    and "run_pairs H leaves em saved [l..<N] ns = level_pairs leaves em l ns \<union> run_pairs H leaves em saved [Suc l..<N] ns1"
  using assms by (auto simp: upt_conv_Cons and_then_def assert_that_def split: prod.splits sum.splits if_splits)

lemma join_levels_up:
  assumes "join_level H leaves em saved l ns () = (Inr ns1, ())" and "nodes_sorted ns"
  shows "joined_up H leaves em l ns ns1"
  using join_level_up [OF assms(2)] assms(1) by (rule join_level_cong)

definition block_pairs :: "'h tree_hasher \<Rightarrow> (nat \<Rightarrow> flat_storage_leaf) \<Rightarrow> nat \<Rightarrow> nat \<Rightarrow> ('h \<times> 'h) set" where
  "block_pairs H T N d =
     {(tree_node H T l (2 * i), tree_node H T l (2 * i + 1)) | l i. l < N \<and> i div 2 ^ (N - Suc l) = d}"

lemma div_level: "l < N \<Longrightarrow> i div 2 ^ (N - l) = i div 2 div 2 ^ (N - Suc l)" for i :: nat
  by (simp add: div_mult2_eq [symmetric] Suc_diff_Suc [symmetric])

lemma join_level_indices: "returns (join_level H leaves em saved l ns) (\<lambda>ns' _. indices ns' = (\<lambda>i. i div 2) ` indices ns) ()"
proof (induction H leaves em saved l ns rule: join_level.induct)
  case (3 H leaves em saved level a b rest)
  show ?case
  proof (cases "can_merge (node_index a) (node_index b)")
    case True
    then show ?thesis
      by (auto simp: can_merge_def merged_def intro!: returns_merge_nodes returns_mono [OF 3(1)])
  next
    case False
    then show ?thesis by (simp add: process_single_def Let_def) (intro impI returns_mono [OF 3(2)], simp_all)
  qed
qed (simp_all add: process_single_def Let_def)

lemma indices_top:
  assumes "join_levels H leaves em saved [l..<N] ns () = (Inr ns', ())" and "l \<le> N"
  shows "indices ns' = (\<lambda>i. i div 2 ^ (N - l)) ` indices ns"
  using assms
proof (induction "N - l" arbitrary: l ns)
  case (Suc x)
  then have l: "l < N" by simp
  obtain ns1 where 1: "join_level H leaves em saved l ns () = (Inr ns1, ())"
    and 2: "join_levels H leaves em saved [Suc l..<N] ns1 () = (Inr ns', ())"
    using Suc.prems(1) l by (rule join_levels_step)
  have "indices ns' = (\<lambda>i. i div 2 ^ (N - Suc l)) ` indices ns1"
    by (rule Suc.hyps(1)) (use Suc.hyps(2) l 2 in auto)
  moreover have "indices ns1 = (\<lambda>i. i div 2) ` indices ns" using join_level_indices 1 by (rule join_level_cong)
  ultimately show ?case by (simp add: image_image div_level [OF l])
qed (simp add: ret_def)

lemma level_reads:
  assumes run: "join_levels H leaves em saved [l..<N] ns () = (Inr ns', ())" "l < N" "nodes_sorted ns" "indices ns' = {d}"
    and A: "no_collision H A" "level_pairs leaves em l ns \<subseteq> A" "block_pairs H T N d \<subseteq> A"
    and up: "joined_up H leaves em l ns ns1" and above: "\<And>n. n \<in> set ns1 \<Longrightarrow> node_of H T (Suc l) n"
    and a: "a \<in> set ns" "read_hash a \<noteq> None"
  shows "read_hash a = Some (tree_node H T l (node_index a)) \<and>
    (sibling (node_index a) \<notin> indices ns \<longrightarrow> sibling_in leaves em l a = tree_node H T l (sibling (node_index a)))"
proof -
  obtain h where h: "read_hash a = Some h" using a(2) by blast
  have "node_index a div 2 \<in> indices ns1" using up a(1) by (simp add: joined_up_def)
  then obtain n where n: "n \<in> set ns1" "node_index n = node_index a div 2" by fastforce
  have "node_index a div 2 ^ (N - l) \<in> indices ns'" using indices_top [OF run(1)] run(2) a(1) by simp
  then have "(tree_node H T l (2 * (node_index a div 2)), tree_node H T l (2 * (node_index a div 2) + 1)) \<in> A"
    using A(3) run(2) unfolding run(4) block_pairs_def div_level [OF run(2)] by blast
  then show ?thesis using read_down [OF run(3) up A(1,2) _ a(1) h n above [OF n(1)]] h by simp
qed

lemma join_reads:
  assumes "join_levels H leaves em saved [l..<N] ns () = (Inr ns', ())" and "l \<le> N" and "nodes_sorted ns"
    and A: "no_collision H A" "run_pairs H leaves em saved [l..<N] ns \<subseteq> A" "block_pairs H T N d \<subseteq> A"
    and top: "\<And>n. n \<in> set ns' \<Longrightarrow> node_of H T N n" "indices ns' = {d}"
  shows "a \<in> set ns \<Longrightarrow> node_of H T l a"
  using assms(1-3) A(2)
proof (induction "N - l" arbitrary: l ns a)
  case 0
  then show ?case using top by (simp add: ret_def)
next
  case (Suc x)
  then have l: "l < N" by simp
  obtain ns1 where 1: "join_level H leaves em saved l ns () = (Inr ns1, ())"
    and 2: "join_levels H leaves em saved [Suc l..<N] ns1 () = (Inr ns', ())"
    and 3: "run_pairs H leaves em saved [l..<N] ns = level_pairs leaves em l ns \<union> run_pairs H leaves em saved [Suc l..<N] ns1"
    using Suc.prems(2) l by (rule join_levels_step)
  have up: "joined_up H leaves em l ns ns1" by (rule join_levels_up [OF 1 Suc.prems(4)])
  have IH: "node_of H T (Suc l) n" if "n \<in> set ns1" for n
    by (rule Suc.hyps(1)) (use Suc.hyps(2) l 2 3 up that Suc.prems(5) in \<open>auto simp: joined_up_def\<close>)
  have "level_pairs leaves em l ns \<subseteq> A" using 3 Suc.prems(5) by simp
  then show ?case
    using level_reads [OF Suc.prems(2) l Suc.prems(4) top(2) A(1) _ A(3) up IH Suc.prems(1)] by (auto simp: node_of_def)
qed

lemma join_writes:
  assumes "join_levels H leaves em sv [l..<N] ns () = (Inr ns', ())" and "l \<le> N" and "nodes_sorted ns"
    and A: "no_collision H A" "run_pairs H leaves em sv [l..<N] ns \<subseteq> A" "block_pairs H T N d \<subseteq> A"
    and top: "\<And>n. n \<in> set ns' \<Longrightarrow> node_of H T N n" "indices ns' = {d}"
    and ch: "\<And>k. T' k \<noteq> T k \<Longrightarrow> k \<in> M" and cov: "covered M l ns"
    and fresh: "fresh \<Longrightarrow> saved - 1 \<in> M \<and> 0 < saved \<and> (\<forall>k \<in> fst ` set leaves. k < saved)"
    and em: "\<And>l. l < N \<Longrightarrow> em ! l = empty_node H l" and T: "\<And>k. saved \<le> k \<Longrightarrow> T k = empty_leaf"
    and W: "\<And>a. a \<in> set ns \<Longrightarrow> node_written H T T' saved fresh l a"
  shows "n \<in> set ns' \<Longrightarrow> node_written H T T' saved fresh N n"
  using assms(1-3) A(2) cov W
proof (induction "N - l" arbitrary: l ns)
  case 0
  then show ?case by (simp add: ret_def)
next
  case (Suc x)
  then have l: "l < N" by simp
  obtain ns1 where 1: "join_level H leaves em sv l ns () = (Inr ns1, ())"
    and 2: "join_levels H leaves em sv [Suc l..<N] ns1 () = (Inr ns', ())"
    and 3: "run_pairs H leaves em sv [l..<N] ns = level_pairs leaves em l ns \<union> run_pairs H leaves em sv [Suc l..<N] ns1"
    using Suc.prems(2) l by (rule join_levels_step)
  have up: "joined_up H leaves em l ns ns1" by (rule join_levels_up [OF 1 Suc.prems(4)])
  have R: "node_of H T l a" if "a \<in> set ns" for a
    using Suc.prems(2-4) A(1) Suc.prems(5) A(3) top that by (rule join_reads)
  have R1: "node_of H T (Suc l) a" if "a \<in> set ns1" for a
    by (rule join_reads [OF 2 _ _ A(1) _ A(3) top that]) (use l up 3 Suc.prems(5) in \<open>auto simp: joined_up_def\<close>)
  have lp: "level_pairs leaves em l ns \<subseteq> A" using 3 Suc.prems(5) by simp
  have S: "sibling_in leaves em l a = tree_node H T l (sibling (node_index a))"
    if "a \<in> set ns" "read_hash a \<noteq> None" "sibling (node_index a) \<notin> indices ns" for a
    using level_reads [OF Suc.prems(2) l Suc.prems(4) top(2) A(1) lp A(3) up R1 that(1,2)] that(3) by simp
  show ?case
  proof (rule Suc.hyps(1) [OF _ Suc.prems(1) 2])
    show "node_written H T T' saved fresh (Suc l) a" if "a \<in> set ns1" for a
      using level_written [OF up ch Suc.prems(6) fresh em [OF l] T Suc.prems(7) R S that] .
    show "covered M (Suc l) ns1" by (rule covered_up [OF Suc.prems(6) up])
  qed (use Suc.hyps(2) l up 3 Suc.prems(5) in \<open>auto simp: joined_up_def\<close>)
qed

section \<open>No leaf right of the used ones\<close>

text \<open>
  The nodes of the proven leaves come before those of the new leaves. If a leaf was proven at a position
  that is not in use yet, the buffer is not ordered: two nodes for the same position stay in it to the end,
  unless a pair is merged in the wrong order, and then the read is that of an empty leaf.
\<close>

definition parts_apart :: "'h join_node list \<Rightarrow> 'h join_node list \<Rightarrow> bool" where
  "parts_apart P Q \<longleftrightarrow> P = [] \<or> \<not> can_merge (node_index (last P)) (node_index (hd Q)) \<or> sibling (node_index (last P)) \<in> indices P"

lemma can_merge_sibling: "can_merge i j \<Longrightarrow> i \<noteq> j \<Longrightarrow> j = sibling i"
  using same_parent [of j i] by (auto simp: can_merge_def)

lemma join_level_split:
  assumes "nodes_sorted P" and "Q \<noteq> []" and "parts_apart P Q"
    and "join_level H leaves em saved l (P @ Q) () = (Inr ns, ())"
  shows "\<exists>P' Q'. ns = P' @ Q' \<and> join_level H leaves em saved l P () = (Inr P', ()) \<and>
    join_level H leaves em saved l Q () = (Inr Q', ()) \<and>
    level_pairs leaves em l (P @ Q) = level_pairs leaves em l P \<union> level_pairs leaves em l Q"
  using assms
proof (induction H leaves em saved l P arbitrary: ns rule: join_level.induct)
  case (1 H leaves em saved l)
  then show ?case by (simp add: ret_def)
next
  case (2 H leaves em saved l a)
  then obtain q qs where Q: "Q = q # qs" by (cases Q) auto
  have "\<not> can_merge (node_index a) (node_index q)" using 2(3) Q by (auto simp: parts_apart_def)
  then show ?case using 2(4) Q
    by (auto simp: and_then_def assert_that_def ret_def panic_def split: prod.splits sum.splits if_splits)
next
  case (3 H leaves em saved l a b rest)
  have so: "nodes_sorted rest" "nodes_sorted (b # rest)" and lt: "node_index a < node_index b" "\<And>i. i \<in> indices rest \<Longrightarrow> node_index b < i"
    using 3(3) by (auto simp: nodes_sorted_def)
  show ?case
  proof (cases "can_merge (node_index a) (node_index b)")
    case True
    have "parts_apart rest Q" if "rest \<noteq> []"
    proof -
      have "node_index b < node_index (last rest)" using lt(2) that by simp
      moreover have "node_index b = sibling (node_index a)" using can_merge_sibling [OF True] lt(1) by simp
      ultimately have "sibling (node_index (last rest)) \<noteq> node_index b" "sibling (node_index (last rest)) \<noteq> node_index a"
        using sibling_div by (metis can_merge_def can_merge_sibling lt(1) less_irrefl less_trans True)+
      then show ?thesis using 3(5) that by (simp add: parts_apart_def)
    qed
    then have "parts_apart rest Q" by (cases "rest = []") (simp_all add: parts_apart_def)
    note IH = 3(1) [OF True so(1) 3(4) this]
    show ?thesis using 3(6) True IH
      by (fastforce simp: and_then_def assert_that_def ret_def panic_def split: prod.splits sum.splits if_splits)
  next
    case False
    let ?z = "node_index (last (b # rest))"
    have "node_index b \<le> ?z" using lt(2) [of "node_index (last rest)"] by (cases "rest = []") auto
    then have "node_index a div 2 < ?z div 2"
      using False lt(1) div_le_mono [of "node_index a" "node_index b" 2] div_le_mono [of "node_index b" ?z 2]
      unfolding can_merge_def by linarith
    then have "sibling ?z \<noteq> node_index a" by (metis less_irrefl sibling_div)
    then have "parts_apart (b # rest) Q" using 3(5) by (auto simp: parts_apart_def split: if_splits)
    note IH = 3(2) [OF False so(2) 3(4) this]
    show ?thesis using 3(6) False IH
      by (fastforce simp: and_then_def assert_that_def ret_def panic_def split: prod.splits sum.splits if_splits)
  qed
qed

lemma nodes_sorted_hd: "nodes_sorted ns \<Longrightarrow> i \<in> indices ns \<Longrightarrow> node_index (hd ns) \<le> i"
  by (cases ns) (auto simp: nodes_sorted_def)

lemma nodes_sorted_last: "nodes_sorted ns \<Longrightarrow> i \<in> indices ns \<Longrightarrow> i \<le> node_index (last ns)"
  by (induction ns) (auto simp: nodes_sorted_def intro: less_imp_le)

lemma nodes_sorted_append: "nodes_sorted (xs @ ys) \<Longrightarrow> nodes_sorted xs"
  by (simp add: nodes_sorted_def sorted_wrt_append)

lemma hd_up:
  assumes up: "joined_up H leaves em l D D'" and D: "D \<noteq> []" "nodes_sorted D"
  shows "D' \<noteq> [] \<and> nodes_sorted D' \<and> node_index (hd D') = node_index (hd D) div 2"
proof -
  have D': "nodes_sorted D'" "indices D' = (\<lambda>i. i div 2) ` indices D" using up by (auto simp: joined_up_def)
  then have ne: "D' \<noteq> []" using D(1) by auto
  have "node_index (hd D) div 2 \<in> indices D'" unfolding D'(2) using D(1) by simp
  then have "node_index (hd D') \<le> node_index (hd D) div 2" by (rule nodes_sorted_hd [OF D'(1)])
  moreover have "node_index (hd D') \<in> (\<lambda>i. i div 2) ` indices D" using ne unfolding D'(2) [symmetric] by simp
  then have "node_index (hd D) div 2 \<le> node_index (hd D')" using nodes_sorted_hd [OF D(2)] div_le_mono by auto
  ultimately show ?thesis using ne D'(1) by simp
qed

lemma parts_apart_prefix:
  assumes "nodes_sorted (C @ [c])" and "sibling (node_index c) \<notin> indices (C @ [c])"
  shows "parts_apart C (c # Q)"
proof (cases "C = []")
  case False
  then have "node_index (last C) < node_index c" "node_index (last C) \<in> indices (C @ [c])"
    using assms(1) by (auto simp: nodes_sorted_def sorted_wrt_append)
  then have "\<not> can_merge (node_index c) (node_index (last C))" using assms(2) can_merge_sibling by (metis less_irrefl)
  then show ?thesis by (auto simp: parts_apart_def can_merge_def)
qed (simp add: parts_apart_def)

lemma join_level_equal:
  assumes C: "nodes_sorted C" "C \<noteq> []" and D: "D \<noteq> []" and eq: "node_index (last C) = node_index (hd D)"
    and run: "join_level H leaves em saved l (C @ D) () = (Inr ns, ())"
  shows "parts_apart C D"
proof (rule ccontr)
  assume "\<not> parts_apart C D"
  then have alone: "sibling (node_index (last C)) \<notin> indices C" by (simp add: parts_apart_def)
  obtain c d where cd: "C = butlast C @ [c]" "D = d # tl D" "c = last C" using C(2) D by (metis append_butlast_last_id list.collapse)
  then have "parts_apart (butlast C) (c # D)" using parts_apart_prefix [of "butlast C" c] C alone by simp
  moreover have "join_level H leaves em saved l (butlast C @ c # D) () = (Inr ns, ())" using run cd(1) by (metis append.assoc append_Cons append_Nil)
  moreover have "nodes_sorted (butlast C)" using C(1) cd(1) nodes_sorted_append by metis
  ultimately obtain Q' where "join_level H leaves em saved l (c # D) () = (Inr Q', ())"
    using join_level_split [of "butlast C" "c # D"] by blast
  then have "join_level H leaves em saved l (c # d # tl D) () = (Inr Q', ())" using cd(2) by simp
  moreover have "node_index c = node_index d" using eq cd(2,3) by (metis list.sel(1))
  ultimately show False by (simp add: and_then_def assert_that_def panic_def)
qed

lemma dup_panics:
  assumes "nodes_sorted C" and "nodes_sorted D" and "D \<noteq> []" and "node_index (hd D) \<in> indices C" and "l \<le> N"
  shows "join_levels H leaves em saved [l..<N] (C @ D) () \<noteq> (Inr [n], ())"
  using assms
proof (induction "N - l" arbitrary: l C D)
  case 0
  then have "C \<noteq> []" by auto
  then show ?case using 0 by (auto simp: ret_def append_eq_Cons_conv)
next
  case (Suc x)
  then have l: "l < N" by simp
  show ?case
  proof
    assume "join_levels H leaves em saved [l..<N] (C @ D) () = (Inr [n], ())"
    then obtain ns where 1: "join_level H leaves em saved l (C @ D) () = (Inr ns, ())"
      and 2: "join_levels H leaves em saved [Suc l..<N] ns () = (Inr [n], ())"
      using l by (rule join_levels_step)
    let ?c = "node_index (last C)" and ?x = "node_index (hd D)"
    have C: "C \<noteq> []" using Suc.prems(4) by auto
    have le: "?x \<le> ?c" by (rule nodes_sorted_last [OF Suc.prems(1,4)])
    have "parts_apart C D"
    proof (cases "can_merge ?c ?x \<and> ?c \<noteq> ?x")
      case True
      then have "?x = sibling ?c" using can_merge_sibling by blast
      then show ?thesis using Suc.prems(4) by (simp add: parts_apart_def)
    next
      case False
      then show ?thesis
        using join_level_equal [OF Suc.prems(1) C Suc.prems(3) _ 1] by (auto simp: parts_apart_def)
    qed
    then obtain C' D' where ns: "ns = C' @ D'" and C': "join_level H leaves em saved l C () = (Inr C', ())"
      and D': "join_level H leaves em saved l D () = (Inr D', ())"
      using join_level_split [OF Suc.prems(1,3) _ 1] by blast
    have up: "joined_up H leaves em l C C'" "joined_up H leaves em l D D'"
      using join_levels_up [OF C' Suc.prems(1)] join_levels_up [OF D' Suc.prems(2)] by blast+
    have "node_index (hd D') \<in> indices C'"
      using hd_up [OF up(2) Suc.prems(3,2)] up(1) Suc.prems(4) by (simp add: joined_up_def)
    moreover have "D' \<noteq> []" "nodes_sorted D'" "nodes_sorted C'"
      using hd_up [OF up(2) Suc.prems(3,2)] up(1) by (auto simp: joined_up_def)
    ultimately show False using Suc.hyps(1) [of "Suc l" C' D'] Suc.hyps(2) l 2 ns by simp
  qed
qed

lemma empty_down:
  assumes C: "nodes_sorted C" "\<And>a. a \<in> set C \<Longrightarrow> read_hash a \<noteq> None" and up: "joined_up H leaves em l C C'"
    and A: "no_collision H A" "level_pairs leaves em l C \<subseteq> A" "(empty_node H l, empty_node H l) \<in> A"
    and c': "c' \<in> set C'" "read_hash c' = Some (empty_node H (Suc l))"
  shows "\<exists>c \<in> set C. node_index c div 2 = node_index c' \<and> read_hash c = Some (empty_node H l)"
proof -
  have e: "empty_node H (Suc l) = hash_node H (empty_node H l) (empty_node H l)" using empty_node [of H l "Suc 0"] by simp
  have pairs: "x = empty_node H l \<and> y = empty_node H l"
    if "(x, y) \<in> level_pairs leaves em l C" "hash_node H x y = empty_node H (Suc l)" for x y
    using inj_onD [OF A(1), of "(x, y)" "(empty_node H l, empty_node H l)"] A(2,3) that unfolding e by auto
  have "node_up H leaves em l C c'" using up c'(1) by (simp add: joined_up_def)
  then show ?thesis
    unfolding node_up_def
  proof (elim disjE bexE conjE)
    fix c assume c: "c \<in> set C" "c' = process_single H leaves em l c" "sibling (node_index c) \<notin> indices C"
    obtain h where h: "read_hash c = Some h" using C(2) [OF c(1)] by blast
    let ?p = "sibling_in leaves em l c"
    have "single_pair leaves em l c \<subseteq> level_pairs leaves em l C" using level_pairs_of [OF C(1)] c by blast
    then have "h = empty_node H l" using c'(2) h pairs [of h ?p] pairs [of ?p h] unfolding c(2)
      by (auto simp: single_pair_def process_single_def Let_def simp del: tree_node.simps split: if_splits)
    then show ?thesis using c h by (auto simp: process_single_def Let_def)
  next
    fix a b assume ab: "a \<in> set C" "b \<in> set C" "even (node_index a)" "node_index b = node_index a + 1" "merged H (em ! l) a b c'"
    obtain x y where xy: "read_hash a = Some x" "read_hash b = Some y" using C(2) ab(1,2) by blast
    have "merge_pair (em ! l) a b \<subseteq> level_pairs leaves em l C" using level_pairs_of [OF C(1)] ab(1-4) by blast
    then have "(x, y) \<in> level_pairs leaves em l C" "hash_node H x y = empty_node H (Suc l)"
      using xy ab(5) c'(2) by (simp_all add: merge_pair_def merged_def del: tree_node.simps)
    then have "x = empty_node H l" using pairs by blast
    then show ?thesis using ab xy by (auto simp: merged_def)
  qed
qed

lemma join_level_cross:
  assumes C: "nodes_sorted (C @ [c])" "sibling (node_index c) \<notin> indices (C @ [c])"
    and m: "can_merge (node_index c) (node_index d)" and run: "join_level H leaves em saved l (C @ c # d # ds) () = (Inr ns, ())"
  obtains C' m D' where "ns = C' @ m # D'" and "join_level H leaves em saved l C () = (Inr C', ())"
    and "join_level H leaves em saved l ds () = (Inr D', ())" and "merged H (em ! l) c d m"
    and "merge_pair (em ! l) c d \<subseteq> level_pairs leaves em l (C @ c # d # ds)"
proof -
  have "nodes_sorted C" using C(1) by (rule nodes_sorted_append)
  then obtain C' Q' where *: "ns = C' @ Q'" "join_level H leaves em saved l C () = (Inr C', ())"
    "join_level H leaves em saved l (c # d # ds) () = (Inr Q', ())"
    "level_pairs leaves em l (C @ c # d # ds) = level_pairs leaves em l C \<union> level_pairs leaves em l (c # d # ds)"
    using join_level_split [OF _ _ parts_apart_prefix [OF C] run] by blast
  obtain m D' where q: "merge_nodes H (em ! l) saved c d () = (Inr m, ())" "join_level H leaves em saved l ds () = (Inr D', ())" "Q' = m # D'"
    using *(3) m by (auto simp: and_then_def assert_that_def panic_def ret_def split: prod.splits sum.splits if_splits)
  have "returns (merge_nodes H (em ! l) saved c d) (\<lambda>n _. merged H (em ! l) c d n) ()" by (rule returns_merge_nodes)
  then have "merged H (em ! l) c d m" using q(1) by (simp add: returns_def)
  then show thesis using that [of C' m D'] * q m by auto
qed

lemma cross_sorted:
  assumes C: "nodes_sorted (C @ [c])" "node_index c = x + 1" "x \<notin> indices C" "even x"
    and D: "nodes_sorted (d # ds)" "node_index d = x"
    and up: "joined_up H leaves em l C C'" "joined_up H leaves em l ds D'" and m: "node_index m = x div 2"
    and run: "join_levels H leaves em saved [Suc l..<N] (C' @ m # D') () = (Inr [n], ())" "Suc l \<le> N"
  shows "nodes_sorted (C' @ m # D')"
proof -
  have "i div 2 < x div 2" if "i \<in> indices C" for i
  proof -
    have "i < x + 1" "i \<noteq> x" using C(1-3) that by (auto simp: nodes_sorted_def sorted_wrt_append)
    then show ?thesis using C(4) by (auto elim!: evenE)
  qed
  then have left: "\<And>i. i \<in> indices C' \<Longrightarrow> i < x div 2" and C': "nodes_sorted C'" using up(1) by (auto simp: joined_up_def)
  have Cm: "nodes_sorted (C' @ [m])" using C' left m by (auto simp: nodes_sorted_def sorted_wrt_append)
  have so: "nodes_sorted ds" "nodes_sorted D'" and idx: "indices D' = (\<lambda>i. i div 2) ` indices ds"
    using D(1) up(2) by (auto simp: nodes_sorted_def joined_up_def)
  have "x div 2 < i div 2" if "i \<in> indices ds" for i
  proof -
    have "ds \<noteq> []" using that by auto
    note hd = hd_up [OF up(2) this so(1)]
    have "node_index (hd ds) \<noteq> x + 1"
    proof
      assume "node_index (hd ds) = x + 1"
      then have "node_index (hd D') \<in> indices (C' @ [m])" using hd m C(4) by simp
      then show False using dup_panics [OF Cm so(2) _ _ run(2)] hd run(1) by simp
    qed
    moreover have "x < node_index (hd ds)" using D \<open>ds \<noteq> []\<close> by (auto simp: nodes_sorted_def)
    ultimately have "x + 2 \<le> i" using nodes_sorted_hd [OF so(1) that] by simp
    then show ?thesis using div_le_mono [of "x + 2" i 2] by simp
  qed
  then have "\<And>i. i \<in> indices D' \<Longrightarrow> x div 2 < i" unfolding idx by auto
  then show ?thesis using Cm so(2) left m by (fastforce simp: nodes_sorted_def sorted_wrt_append)
qed

lemma cross_empty:
  assumes run: "join_levels H leaves em saved [l..<N] (C @ c # d # ds) () = (Inr [n], ())" "l < N"
    and A: "no_collision H A" "run_pairs H leaves em saved [l..<N] (C @ c # d # ds) \<subseteq> A" "block_pairs H T N (node_index n) \<subseteq> A"
    and top: "node_of H T N n" and em: "em ! l = empty_node H l" and T: "\<And>k. saved \<le> k \<Longrightarrow> T k = empty_leaf" "saved \<le> x * 2 ^ l"
    and C: "nodes_sorted (C @ [c])" "node_index c = x + 1" "x \<notin> indices C" "even x" "read_hash c = Some h"
    and D: "nodes_sorted (d # ds)" "node_index d = x" "read_hash d = None"
  shows "h = empty_node H l"
proof -
  obtain ns where 1: "join_level H leaves em saved l (C @ c # d # ds) () = (Inr ns, ())"
    and 2: "join_levels H leaves em saved [Suc l..<N] ns () = (Inr [n], ())"
    and 3: "run_pairs H leaves em saved [l..<N] (C @ c # d # ds) =
      level_pairs leaves em l (C @ c # d # ds) \<union> run_pairs H leaves em saved [Suc l..<N] ns"
    using run by (rule join_levels_step)
  have "sibling (node_index c) \<notin> indices (C @ [c])" "can_merge (node_index c) (node_index d)"
    using C(2-4) D(2) by (auto simp: sibling_def can_merge_def)
  then obtain C' m D' where ns: "ns = C' @ m # D'" and C': "join_level H leaves em saved l C () = (Inr C', ())"
    and D': "join_level H leaves em saved l ds () = (Inr D', ())" and m: "merged H (em ! l) c d m"
    and mp: "merge_pair (em ! l) c d \<subseteq> level_pairs leaves em l (C @ c # d # ds)"
    using join_level_cross [OF C(1) _ _ 1] by blast
  have up: "joined_up H leaves em l C C'" "joined_up H leaves em l ds D'"
    by (rule join_levels_up [OF C'], use C(1) nodes_sorted_append in blast, rule join_levels_up [OF D'],
        use D(1) in \<open>simp add: nodes_sorted_def\<close>)
  have mi: "node_index m = x div 2" using m C(2,4) by (simp add: merged_def)
  have so: "nodes_sorted ns"
    unfolding ns by (rule cross_sorted [OF C(1-4) D(1,2) up mi]) (use 2 ns run(2) in auto)
  have "node_of H T (Suc l) m"
    by (rule join_reads [OF 2 _ so A(1) _ A(3)]) (use run(2) top A(2) ns 3 in auto)
  moreover have "read_hash m = Some (hash_node H h (empty_node H l))" using m C(5) D(3) em by (simp add: merged_def Let_def)
  ultimately have eq: "hash_node H h (empty_node H l) = hash_node H (tree_node H T l x) (tree_node H T l (x + 1))"
    using mi C(4) by (simp add: node_of_def)
  have "(h, empty_node H l) \<in> A" using mp 3 A(2) C(5) D(3) em by (auto simp: merge_pair_def)
  moreover have "(tree_node H T l x, tree_node H T l (x + 1)) \<in> A"
  proof -
    have "x div 2 div 2 ^ (N - Suc l) = node_index n"
      using indices_top [OF 2] run(2) ns mi by (auto simp: image_Un)
    then show ?thesis using A(3) run(2) C(4) unfolding block_pairs_def by force
  qed
  ultimately have "h = tree_node H T l x" using inj_onD [OF A(1), of "(h, empty_node H l)" "(tree_node H T l x, tree_node H T l (x + 1))"] eq by simp
  also have "\<dots> = empty_node H l" using T above_saved [OF T(2)] by (intro empty_subtree) blast
  finally show ?thesis .
qed

lemma reads_up:
  assumes "joined_up H leaves em l ns ns'" and "n \<in> set ns'"
  shows "(\<forall>a \<in> set ns. read_hash a = None) \<Longrightarrow> read_hash n = None"
    and "(\<forall>a \<in> set ns. read_hash a \<noteq> None) \<Longrightarrow> read_hash n \<noteq> None"
proof -
  have "node_up H leaves em l ns n" using assms by (simp add: joined_up_def)
  then show "(\<forall>a \<in> set ns. read_hash a = None) \<Longrightarrow> read_hash n = None"
    and "(\<forall>a \<in> set ns. read_hash a \<noteq> None) \<Longrightarrow> read_hash n \<noteq> None"
    unfolding node_up_def by (auto simp: process_single_def merged_def Let_def)
qed

lemma gap_empty:
  assumes run: "join_levels H leaves em saved [l..<N] (C @ D) () = (Inr [n], ())" "l \<le> N"
    and A: "no_collision H A" "run_pairs H leaves em saved [l..<N] (C @ D) \<subseteq> A" "block_pairs H T N (node_index n) \<subseteq> A"
      "\<And>l. l < N \<Longrightarrow> (empty_node H l, empty_node H l) \<in> A"
    and top: "node_of H T N n" and em: "\<And>l. l < N \<Longrightarrow> em ! l = empty_node H l"
    and T: "\<And>k. saved \<le> k \<Longrightarrow> T k = empty_leaf" "saved \<le> node_index (hd D) * 2 ^ l"
    and C: "nodes_sorted C" "\<forall>a \<in> set C. read_hash a \<noteq> None"
    and D: "nodes_sorted D" "D \<noteq> []" "\<forall>a \<in> set D. read_hash a = None"
    and gap: "node_index (hd D) = Suc y" "y \<in> indices C" "c \<in> set C" "Suc y < node_index c"
  shows "\<exists>c \<in> set C. Suc y < node_index c \<and> read_hash c = Some (empty_node H l)"
  using run A(2) T(2) C D gap
proof (induction "N - l" arbitrary: l C D y c)
  case 0
  then show ?case by (auto simp: ret_def append_eq_Cons_conv)
next
  case (Suc k)
  have l: "l < N" using Suc.hyps(2) by simp
  note C = Suc.prems(5,6) and D = Suc.prems(7-9) and gap = Suc.prems(10-13)
  let ?x = "Suc y"
  have noX: "?x \<notin> indices C" using dup_panics [OF C(1) D(1,2) _ Suc.prems(2)] gap(1) Suc.prems(1) by metis
  have last: "?x < node_index (last C)" using nodes_sorted_last [OF C(1), of "node_index c"] gap(3,4) by simp
  obtain ns where 1: "join_level H leaves em saved l (C @ D) () = (Inr ns, ())"
    and 2: "join_levels H leaves em saved [Suc l..<N] ns () = (Inr [n], ())"
    and 3: "run_pairs H leaves em saved [l..<N] (C @ D) = level_pairs leaves em l (C @ D) \<union> run_pairs H leaves em saved [Suc l..<N] ns"
    using Suc.prems(1) l by (rule join_levels_step)
  show ?case
  proof (cases "even ?x \<and> node_index (last C) = Suc ?x")
    case True
    obtain C0 z where cz: "C = C0 @ [z]" using gap(3) by (cases C rule: rev_cases) auto
    obtain d ds where ds: "D = d # ds" using D(2) by (cases D) auto
    obtain h where h: "read_hash z = Some h" using C(2) cz by auto
    have "h = empty_node H l"
      by (rule cross_empty [where C = C0 and c = z and d = d and ds = ds and x = ?x, OF _ l A(1) _ A(3) top em [OF l] T(1)])
        (use Suc.prems True h noX C D gap cz ds in auto)
    then show ?thesis using cz h True by auto
  next
    case False
    have far: "?x div 2 < node_index (last C) div 2"
    proof (cases "even ?x")
      case True
      then have "?x + 2 \<le> node_index (last C)" using False last by simp
      then show ?thesis using div_le_mono [of "?x + 2" _ 2] by fastforce
    qed (use last in \<open>auto elim!: oddE\<close>)
    then have "parts_apart C D" using gap(1) by (simp add: parts_apart_def can_merge_def)
    then obtain C' D' where ns: "ns = C' @ D'" and C': "join_level H leaves em saved l C () = (Inr C', ())"
      and D': "join_level H leaves em saved l D () = (Inr D', ())"
      and lp: "level_pairs leaves em l (C @ D) = level_pairs leaves em l C \<union> level_pairs leaves em l D"
      using join_level_split [OF C(1) D(2) _ 1] by blast
    have up: "joined_up H leaves em l C C'" "joined_up H leaves em l D D'"
      using join_levels_up [OF C' C(1)] join_levels_up [OF D' D(1)] by blast+
    note hd = hd_up [OF up(2) D(2,1)]
    have iC: "indices C' = (\<lambda>i. i div 2) ` indices C" "nodes_sorted C'" using up(1) by (auto simp: joined_up_def)
    have nd: "?x div 2 \<notin> indices C'" using dup_panics [OF iC(2) _ _ _ Suc_leI [OF l]] hd gap(1) 2 ns by metis
    have "even ?x"
    proof (rule ccontr)
      assume "odd ?x"
      then have "y div 2 = ?x div 2" by (auto elim!: oddE)
      then show False using nd imageI [OF gap(2), of "\<lambda>i. i div 2"] unfolding iC(1) by simp
    qed
    then obtain y' where y': "?x div 2 = Suc y'" "y div 2 = y'" by (cases "?x div 2") (auto elim!: evenE)
    obtain c' where c': "c' \<in> set C'" "node_index c' = node_index (last C) div 2"
    proof -
      have "node_index (last C) div 2 \<in> indices C'" unfolding iC(1) using gap(3) by (cases C) auto
      then show thesis using that by fastforce
    qed
    have "\<exists>c \<in> set C'. Suc y' < node_index c \<and> read_hash c = Some (empty_node H (Suc l))"
    proof (rule Suc.hyps(1) [where C = C' and D = D' and c = c'])
      show "saved \<le> node_index (hd D') * 2 ^ Suc l" 
        using Suc.prems(4) hd gap(1) dvd_div_mult_self [OF \<open>even ?x\<close>] by (metis mult.assoc power_Suc)
      show "y' \<in> indices C'" unfolding iC(1) using gap(2) y'(2) by blast
    qed (use Suc.hyps(2) l 2 3 lp ns Suc.prems(3) iC hd gap(1) y' far c' reads_up [OF up(1)] reads_up [OF up(2)] C(2) D(3) in auto)
    then obtain e where e: "e \<in> set C'" "Suc y' < node_index e" "read_hash e = Some (empty_node H (Suc l))" by blast
    have "\<exists>c \<in> set C. node_index c div 2 = node_index e \<and> read_hash c = Some (empty_node H l)"
      using C(2) 3 lp Suc.prems(3) e by (intro empty_down [OF C(1) _ up(1) A(1) _ A(4) [OF l]]) auto
    then show ?thesis using e(2) y' div_le_mono leD by (metis linorder_not_le)
  qed
qed

end
