(* ===== verification/Flat_Tree_Batch.thy ===== *)
theory Flat_Tree_Batch
  imports Flat_Tree_Roots
begin

text \<open>
  The leaves and new leaves that a batch has gathered, against the tree of the commitment: what the check
  of the joined root says about them, and which tree the new root commits to.
\<close>

section \<open>The gathered nodes\<close>

definition batch_nodes ::
    "'h tree_hasher \<Rightarrow> (nat \<times> 'h leaf_entry) list \<Rightarrow> (nat \<times> flat_storage_leaf) list \<Rightarrow> 'h join_node list" where
  "batch_nodes H leaves ws = map (leaf_node H) leaves @ map (new_leaf_node H) ws"

definition empty_pairs :: "'h tree_hasher \<Rightarrow> nat \<Rightarrow> ('h \<times> 'h) set" where
  "empty_pairs H N = {(empty_node H l, empty_node H l) | l. l < N}"

text \<open>Nothing that was hashed for the tree, for the empty subtrees or for the batch collides.\<close>

definition collision_free ::
    "'h tree_hasher \<Rightarrow> (nat \<Rightarrow> flat_storage_leaf) \<Rightarrow> nat \<Rightarrow> nat \<Rightarrow>
     (nat \<times> 'h leaf_entry) list \<Rightarrow> (nat \<times> flat_storage_leaf) list \<Rightarrow> bool" where
  "collision_free H T N saved leaves ws \<longleftrightarrow>
     inj_on (hash_leaf H) (insert empty_leaf (range T \<union> (\<lambda>(_, p, _). proof_leaf p) ` set leaves)) \<and>
     no_collision H (tree_pairs H T N \<union> empty_pairs H N \<union>
       run_pairs H leaves (compute_empty_hashes H N) saved [0..<N] (batch_nodes H leaves ws))"

text \<open>What the gathered leaves look like before anything is known about the oracle.\<close>

definition gathered :: "nat \<Rightarrow> (nat \<times> 'h leaf_entry) list \<Rightarrow> (nat \<times> flat_storage_leaf) list \<Rightarrow> bool" where
  "gathered saved leaves ws \<longleftrightarrow>
     bt_sorted leaves \<and> map fst ws = [saved..<saved + length ws] \<and>
     (\<forall>(i, p, m) \<in> set leaves. saved \<le> i \<longrightarrow> leaf_key (proof_leaf p) \<noteq> 0) \<and>
     (ws \<noteq> [] \<longrightarrow> 0 < saved \<and> saved - 1 \<in> fst ` set leaves)"

lemma leaf_node_simps [simp]:
  "node_index (leaf_node H e) = fst e" "node_leaf (leaf_node H e) = fst e"
  "read_hash (leaf_node H e) = Some (hash_leaf H (proof_leaf (fst (snd e))))"
  "write_hash (leaf_node H e) = map_option (\<lambda>u. hash_leaf H (updated_leaf (proof_leaf (fst (snd e))) u)) (snd (snd e))"
  by (simp_all add: leaf_node_def split: prod.splits)

lemma new_leaf_node_simps [simp]:
  "node_index (new_leaf_node H w) = fst w" "node_leaf (new_leaf_node H w) = fst w"
  "read_hash (new_leaf_node H w) = None" "write_hash (new_leaf_node H w) = Some (hash_leaf H (snd w))"
  by (simp_all add: new_leaf_node_def split: prod.splits)

lemma gathered_sorted:
  assumes "gathered saved leaves ws"
  shows "nodes_sorted (map (leaf_node H) leaves)" "nodes_sorted (map (new_leaf_node H) ws)"
proof -
  show "nodes_sorted (map (leaf_node H) leaves)" using assms by (simp add: gathered_def bt_sorted_def nodes_sorted_def comp_def)
  show "nodes_sorted (map (new_leaf_node H) ws)" using assms by (simp add: gathered_def nodes_sorted_def comp_def)
qed

lemma gathered_ws: "gathered saved leaves ws \<Longrightarrow> fst ` set ws = {saved..<saved + length ws}"
  using set_map [of fst ws] by (simp add: gathered_def)

lemma gathered_hd:
  assumes "gathered saved leaves ws" and "ws \<noteq> []"
  shows "node_index (hd (map (new_leaf_node H) ws)) = saved"
proof -
  obtain w vs where "ws = w # vs" using assms(2) by (cases ws) auto
  moreover from this have "map fst ws = saved # [Suc saved..<saved + length ws]"
    using assms(1) by (simp add: gathered_def upt_conv_Cons del: upt_Suc)
  ultimately show ?thesis by simp
qed

text \<open>The tree, moved to the block of leaves that the proofs are for.\<close>

definition moved :: "nat \<Rightarrow> (nat \<Rightarrow> flat_storage_leaf) \<Rightarrow> nat \<Rightarrow> flat_storage_leaf" where
  "moved b T k = (if k < b then empty_leaf else T (k - b))"

lemma moved_0 [simp]: "moved 0 T = T"
  by (simp add: moved_def fun_eq_iff)

lemma moved_node:
  assumes "l \<le> N" and "i div 2 ^ (N - l) = d"
  shows "tree_node H (moved (d * 2 ^ N) T) l i = tree_node H T l (i - d * 2 ^ (N - l))"
proof -
  have N: "2 ^ N = 2 ^ (N - l) * (2 ^ l :: nat)" using assms(1) by (simp flip: power_add)
  have le: "d * 2 ^ (N - l) \<le> i" using assms(2) by (metis div_times_less_eq_dividend)
  have "d * 2 ^ N \<le> k" if "k div 2 ^ l = i" for k
    using above_saved [of "d * 2 ^ N" i l k] that le N by (simp add: mult.assoc)
  then have "tree_node H (moved (d * 2 ^ N) T) l i = tree_node H (\<lambda>k. T (k - d * 2 ^ N)) l i"
    by (intro tree_node_cong) (auto simp: moved_def leD)
  also have "\<dots> = tree_node H T l (i - d * 2 ^ (N - l))"
    using tree_node_shift [of H T "d * 2 ^ (N - l)" l "i - d * 2 ^ (N - l)"] le N by (simp add: mult.assoc)
  finally show ?thesis .
qed

lemma moved_pairs: "block_pairs H (moved (d * 2 ^ N) T) N d \<subseteq> tree_pairs H T N"
proof -
  have "(tree_node H (moved (d * 2 ^ N) T) l (2 * i), tree_node H (moved (d * 2 ^ N) T) l (2 * i + 1)) \<in> tree_pairs H T N"
    if l: "l < N" and i: "i div 2 ^ (N - Suc l) = d" for l i
  proof -
    let ?j = "i - d * 2 ^ (N - Suc l)"
    have le: "d * 2 ^ (N - Suc l) \<le> i" "i < (d + 1) * 2 ^ (N - Suc l)"
      using i by (metis div_times_less_eq_dividend, metis add.commute dividend_less_times_div mult.commute plus_1_eq_Suc mult_Suc_right zero_less_numeral zero_less_power)
    have d: "2 ^ (N - l) = 2 * (2 ^ (N - Suc l) :: nat)" using l by (simp add: Suc_diff_Suc flip: power_Suc)
    have "2 * i - d * 2 ^ (N - l) = 2 * ?j" "2 * i + 1 - d * 2 ^ (N - l) = 2 * ?j + 1"
      unfolding d using le(1) by (simp_all add: diff_mult_distrib2 mult.left_commute)
    moreover have "2 * i div 2 ^ (N - l) = d" "(2 * i + 1) div 2 ^ (N - l) = d" using div_level [OF l] i by simp_all
    ultimately have "tree_node H (moved (d * 2 ^ N) T) l (2 * i) = tree_node H T l (2 * ?j)"
      "tree_node H (moved (d * 2 ^ N) T) l (2 * i + 1) = tree_node H T l (2 * ?j + 1)"
      using moved_node [of l N "2 * i" d H T] moved_node [of l N "2 * i + 1" d H T] l by simp_all
    moreover have "?j < 2 ^ (N - Suc l)" using le by simp
    ultimately show ?thesis using l unfolding tree_pairs_def by auto
  qed
  then show ?thesis unfolding block_pairs_def by auto
qed

section \<open>What the joined root says\<close>

definition joins ::
    "'h tree_hasher \<Rightarrow> nat \<Rightarrow> nat \<Rightarrow> (nat \<times> 'h leaf_entry) list \<Rightarrow> (nat \<times> flat_storage_leaf) list \<Rightarrow> 'h join_node \<Rightarrow> bool" where
  "joins H N saved leaves ws n \<longleftrightarrow>
     join_levels H leaves (compute_empty_hashes H N) saved [0..<N] (batch_nodes H leaves ws) () = (Inr [n], ())"

lemma joins_block:
  assumes "joins H N saved leaves ws n" and "i \<in> fst ` set leaves \<union> fst ` set ws"
  shows "i div 2 ^ N = node_index n"
proof -
  have "indices (batch_nodes H leaves ws) = fst ` set leaves \<union> fst ` set ws" by (simp add: batch_nodes_def image_image image_Un)
  then have "{node_index n} = (\<lambda>i. i div 2 ^ N) ` (fst ` set leaves \<union> fst ` set ws)"
    using indices_top [OF assms(1) [unfolded joins_def]] by simp
  then show ?thesis using assms(2) by blast
qed

text \<open>The tree of the commitment: the leaves that are not in use are empty.\<close>

definition root_of :: "'h tree_hasher \<Rightarrow> nat \<Rightarrow> nat \<Rightarrow> (nat \<Rightarrow> flat_storage_leaf) \<Rightarrow> 'h \<Rightarrow> bool" where
  "root_of H N saved T root \<longleftrightarrow> root = tree_node H T N 0 \<and> saved \<le> 2 ^ N \<and> (\<forall>k \<ge> saved. T k = empty_leaf)"

definition checked ::
    "'h tree_hasher \<Rightarrow> (nat \<Rightarrow> flat_storage_leaf) \<Rightarrow> nat \<Rightarrow> nat \<Rightarrow>
     (nat \<times> 'h leaf_entry) list \<Rightarrow> (nat \<times> flat_storage_leaf) list \<Rightarrow> 'h join_node \<Rightarrow> bool" where
  "checked H T N saved leaves ws n \<longleftrightarrow>
     gathered saved leaves ws \<and> collision_free H T N saved leaves ws \<and> joins H N saved leaves ws n \<and>
     (\<exists>root. read_hash n = Some root \<and> root_of H N saved T root)"

lemma checked_top:
  assumes "checked H T N saved leaves ws n"
  shows "node_of H (moved (node_index n * 2 ^ N) T) N n"
  using assms moved_node [of N N "node_index n" "node_index n" H T] by (auto simp: checked_def root_of_def node_of_def)

lemma proven_leaf:
  assumes "checked H T N saved leaves ws n" and "(i, p, m) \<in> set leaves" and "hash_leaf H (proof_leaf p) = hash_leaf H leaf"
    and "leaf \<in> insert empty_leaf (range T)"
  shows "proof_leaf p = leaf"
proof -
  let ?S = "insert empty_leaf (range T \<union> (\<lambda>(_, p, _). proof_leaf p) ` set leaves)"
  have "inj_on (hash_leaf H) ?S" using assms(1) by (simp add: checked_def collision_free_def)
  moreover have "proof_leaf p \<in> ?S" using imageI [OF assms(2), of "\<lambda>(_, p, _). proof_leaf p"] by simp
  moreover have "leaf \<in> ?S" using assms(4) by blast
  ultimately show ?thesis using assms(3) inj_onD by metis
qed

lemma cached_below:
  assumes c: "checked H T N saved leaves ws n" and ws: "ws \<noteq> []" and i: "i \<in> fst ` set leaves"
  shows "i < saved"
proof (rule ccontr)
  assume "\<not> i < saved"
  let ?C = "map (leaf_node H) leaves" and ?D = "map (new_leaf_node H) ws" and ?em = "compute_empty_hashes H N"
  have g: "gathered saved leaves ws" and run: "join_levels H leaves ?em saved [0..<N] (?C @ ?D) () = (Inr [n], ())"
    and free: "no_collision H (tree_pairs H T N \<union> empty_pairs H N \<union> run_pairs H leaves ?em saved [0..<N] (?C @ ?D))"
    and T: "\<And>k. saved \<le> k \<Longrightarrow> T k = empty_leaf"
    using c by (auto simp: checked_def joins_def batch_nodes_def collision_free_def root_of_def)
  have last: "0 < saved" "saved - 1 \<in> fst ` set leaves" using g ws by (auto simp: gathered_def)
  have hd: "node_index (hd ?D) = saved" "?D \<noteq> []"
    using gathered_hd [OF g ws, of H] ws by simp_all
  have "saved - 1 < 2 ^ N" using c last(1) by (auto simp: checked_def root_of_def)
  then have d: "node_index n = 0" using joins_block [of H N saved leaves ws n "saved - 1"] c last(2) by (simp add: checked_def)
  have idx: "indices ?C = fst ` set leaves" by (simp add: image_image)
  show False
  proof (cases "saved \<in> fst ` set leaves")
    case True
    then have "node_index (hd ?D) \<in> indices ?C" using hd(1) idx by simp
    then show False using dup_panics [OF gathered_sorted [OF g] hd(2)] run by blast
  next
    case False
    obtain e where e: "e \<in> set leaves" "i = fst e" using i by auto
    have "\<exists>c \<in> set ?C. Suc (saved - 1) < node_index c \<and> read_hash c = Some (empty_node H 0)"
    proof (rule gap_empty [OF run _ free, where T = T and c = "leaf_node H e"])
      show "block_pairs H T N (node_index n) \<subseteq> tree_pairs H T N \<union> empty_pairs H N \<union> run_pairs H leaves ?em saved [0..<N] (?C @ ?D)"
        using moved_pairs [of H 0 N T] unfolding d by auto
      show "node_of H T N n" using checked_top [OF c] unfolding d by simp
      show "Suc (saved - 1) < node_index (leaf_node H e)" using e i \<open>\<not> i < saved\<close> False last(1) by (cases "i = saved") auto
    qed (use e gathered_sorted [OF g] hd last T idx nth_empty_hashes in \<open>auto simp: empty_pairs_def\<close>)
    then obtain j p m where j: "(j, p, m) \<in> set leaves" "saved < j" "hash_leaf H (proof_leaf p) = hash_leaf H empty_leaf"
      using last(1) by (auto simp: leaf_node_def)
    then have "proof_leaf p = empty_leaf" using proven_leaf [OF c j(1)] by blast
    then show False using g j by (auto simp: gathered_def empty_leaf_def)
  qed
qed

text \<open>Every proven leaf is the leaf of the tree at its position.\<close>

lemma ws_block:
  assumes c: "checked H T N saved leaves ws n" and ws: "ws \<noteq> []"
  shows "node_index n = 0"
proof -
  have "0 < saved" "saved - 1 \<in> fst ` set leaves" "saved \<le> 2 ^ N"
    using c ws by (auto simp: checked_def gathered_def root_of_def)
  then show ?thesis using joins_block [of H N saved leaves ws n "saved - 1"] c by (simp add: checked_def)
qed

lemma checked_sorted:
  assumes c: "checked H T N saved leaves ws n"
  shows "nodes_sorted (batch_nodes H leaves ws)"
proof (cases "ws = []")
  case True
  then show ?thesis using c gathered_sorted(1) by (auto simp: checked_def batch_nodes_def)
next
  case False
  have g: "gathered saved leaves ws" using c by (simp add: checked_def)
  have "x < y" if "x \<in> fst ` set leaves" "y \<in> fst ` set ws" for x y
  proof -
    have "saved \<le> y" using gathered_ws [OF g] that(2) by auto
    then show ?thesis using cached_below [OF c False that(1)] by simp
  qed
  then show ?thesis using gathered_sorted [OF g, of H] by (force simp: batch_nodes_def nodes_sorted_def sorted_wrt_append)
qed

lemma checked_leaf:
  assumes c: "checked H T N saved leaves ws n" and e: "(i, p, m) \<in> set leaves"
  shows "node_index n * 2 ^ N \<le> i \<and> i - node_index n * 2 ^ N < saved \<and> proof_leaf p = T (i - node_index n * 2 ^ N)"
proof -
  let ?b = "node_index n * 2 ^ N"
  have "i \<in> fst ` set leaves" using e by force
  then have d: "i div 2 ^ N = node_index n" using joins_block [of H N saved leaves ws n i] c by (simp add: checked_def)
  then have le: "?b \<le> i" by (metis div_times_less_eq_dividend)
  have "node_of H (moved ?b T) 0 (leaf_node H (i, p, m))"
  proof (rule join_reads [where leaves = leaves and em = "compute_empty_hashes H N" and saved = saved and ns' = "[n]", OF _ _ checked_sorted [OF c]])
    show "no_collision H (tree_pairs H T N \<union> empty_pairs H N \<union>
       run_pairs H leaves (compute_empty_hashes H N) saved [0..<N] (batch_nodes H leaves ws))"
      using c by (simp add: checked_def collision_free_def)
    show "block_pairs H (moved ?b T) N (node_index n) \<subseteq> tree_pairs H T N \<union> empty_pairs H N \<union>
       run_pairs H leaves (compute_empty_hashes H N) saved [0..<N] (batch_nodes H leaves ws)"
      using moved_pairs [of H "node_index n" N T] by blast
    show "leaf_node H (i, p, m) \<in> set (batch_nodes H leaves ws)" using e by (simp add: batch_nodes_def)
  qed (use c checked_top [OF c] in \<open>auto simp: checked_def joins_def\<close>)
  then have "hash_leaf H (proof_leaf p) = hash_leaf H (T (i - ?b))" using le by (simp add: node_of_def moved_def)
  then have p: "proof_leaf p = T (i - ?b)" by (rule proven_leaf [OF c e]) simp
  have "i - ?b < saved"
  proof (rule ccontr)
    assume *: "\<not> i - ?b < saved"
    then have "proof_leaf p = empty_leaf" using p c by (auto simp: checked_def root_of_def)
    then show False using c e * by (auto simp: checked_def gathered_def empty_leaf_def)
  qed
  then show ?thesis using le p by simp
qed

section \<open>The new root\<close>

definition new_tree ::
    "(nat \<times> 'h leaf_entry) list \<Rightarrow> (nat \<times> flat_storage_leaf) list \<Rightarrow> nat \<Rightarrow> (nat \<Rightarrow> flat_storage_leaf) \<Rightarrow> nat \<Rightarrow> flat_storage_leaf" where
  "new_tree leaves ws b T k =
     (case map_of leaves (k + b) of
        Some (_, Some u) \<Rightarrow> updated_leaf (T k) u
      | _ \<Rightarrow> (case map_of ws k of Some leaf \<Rightarrow> leaf | None \<Rightarrow> T k))"

lemma checked_new:
  assumes c: "checked H T N saved leaves ws n" and w: "(i, leaf) \<in> set ws"
  shows "node_index n = 0 \<and> saved \<le> i \<and> i < saved + length ws \<and> i < 2 ^ N \<and> map_of leaves i = None \<and> map_of ws i = Some leaf"
proof -
  have ne: "ws \<noteq> []" and i: "i \<in> fst ` set ws" using w by force+
  note d = ws_block [OF c ne]
  have g: "gathered saved leaves ws" using c by (simp add: checked_def)
  then have "distinct (map fst ws)" by (simp add: gathered_def)
  then have "map_of ws i = Some leaf" using w by simp
  moreover have "saved \<le> i" "i < saved + length ws" using gathered_ws [OF g] i by auto
  moreover from this have "map_of leaves i = None" using cached_below [OF c ne, of i] by (auto simp: map_of_eq_None_iff)
  moreover have "i div 2 ^ N = 0" using joins_block [of H N saved leaves ws n i] c i d by (simp add: checked_def)
  ultimately show ?thesis using d by (simp add: div_eq_0_iff)
qed

lemma checked_written:
  assumes c: "checked H T N saved leaves ws n" and a: "a \<in> set (batch_nodes H leaves ws)"
  defines "b \<equiv> node_index n * 2 ^ N"
  shows "node_written H (moved b T) (moved b (new_tree leaves ws b T)) (b + saved) (ws \<noteq> []) 0 a"
proof -
  consider i p m where "(i, p, m) \<in> set leaves" "a = leaf_node H (i, p, m)" | i leaf where "(i, leaf) \<in> set ws" "a = new_leaf_node H (i, leaf)"
    using a by (auto simp: batch_nodes_def)
  then show ?thesis
  proof cases
    case (1 i p m)
    have i: "b \<le> i" "i - b < saved" "proof_leaf p = T (i - b)" using checked_leaf [OF c 1(1)] by (auto simp: b_def)
    have "bt_sorted leaves" using c by (simp add: checked_def gathered_def)
    then have "map_of leaves i = Some (p, m)" using 1(1) by (simp add: bt_map_of)
    moreover have "map_of ws (i - b) = None"
      using i(2) checked_new [OF c] by (fastforce simp: map_of_eq_None_iff)
    ultimately show ?thesis using 1(2) i by (cases m) (auto simp: node_written_def moved_def new_tree_def)
  next
    case (2 i leaf)
    note * = checked_new [OF c 2(1)]
    then have b: "b = 0" by (simp add: b_def)
    have "ws \<noteq> []" using 2(1) by auto
    then show ?thesis using 2(2) * unfolding b by (simp add: node_written_def new_tree_def)
  qed
qed

lemma checked_root:
  assumes c: "checked H T N saved leaves ws n"
  defines "b \<equiv> node_index n * 2 ^ N"
  shows "tree_node H (new_tree leaves ws b T) N 0 = (case write_hash n of Some h \<Rightarrow> h | None \<Rightarrow> tree_node H T N 0)"
proof -
  let ?T' = "new_tree leaves ws b T" and ?M = "fst ` set leaves \<union> fst ` set ws" and ?em = "compute_empty_hashes H N"
  have T: "\<And>k. saved \<le> k \<Longrightarrow> T k = empty_leaf" using c by (auto simp: checked_def root_of_def)
  have w: "node_written H (moved b T) (moved b ?T') (b + saved) (ws \<noteq> []) N n"
  proof (rule join_writes [where leaves = leaves and em = ?em and sv = saved and ns' = "[n]" and M = ?M, OF _ _ checked_sorted [OF c]])
    show "k \<in> ?M" if "moved b ?T' k \<noteq> moved b T k" for k
    proof -
      have k: "b \<le> k" "?T' (k - b) \<noteq> T (k - b)" using that by (auto simp: moved_def split: if_splits)
      then have "map_of leaves k \<noteq> None \<or> map_of ws (k - b) \<noteq> None"
        by (cases "map_of leaves k"; cases "map_of ws (k - b)") (auto simp: new_tree_def)
      moreover have "b = 0" if "map_of ws (k - b) \<noteq> None" using that ws_block [OF c] by (cases ws) (auto simp: b_def)
      ultimately show ?thesis by (metis UnI1 UnI2 diff_zero map_of_eq_None_iff)
    qed
    show "covered ?M 0 (batch_nodes H leaves ws)" by (auto simp: covered_def batch_nodes_def image_image image_Un)
    show "b + saved - 1 \<in> ?M \<and> 0 < b + saved \<and> (\<forall>k \<in> fst ` set leaves. k < b + saved)" if "ws \<noteq> []"
      using c ws_block [OF c that] cached_below [OF c that] that by (auto simp: b_def checked_def gathered_def)
    show "no_collision H (tree_pairs H T N \<union> empty_pairs H N \<union> run_pairs H leaves ?em saved [0..<N] (batch_nodes H leaves ws))"
      using c by (simp add: checked_def collision_free_def)
    show "block_pairs H (moved b T) N (node_index n) \<subseteq> tree_pairs H T N \<union> empty_pairs H N \<union>
       run_pairs H leaves ?em saved [0..<N] (batch_nodes H leaves ws)"
      using moved_pairs [of H "node_index n" N T] unfolding b_def by blast
    show "node_written H (moved b T) (moved b ?T') (b + saved) (ws \<noteq> []) 0 a" if "a \<in> set (batch_nodes H leaves ws)" for a
      unfolding b_def by (rule checked_written [OF c that])
    show "moved b T k = empty_leaf" if "b + saved \<le> k" for k using T that by (simp add: moved_def)
  qed (use c checked_top [OF c] nth_empty_hashes in \<open>auto simp: checked_def joins_def b_def\<close>)
  have m: "tree_node H (moved b U) N (node_index n) = tree_node H U N 0" for U
    using moved_node [of N N "node_index n" "node_index n" H U] by (simp add: b_def)
  show ?thesis
  proof (cases "write_hash n")
    case None
    then have "tree_node H (moved b ?T') N (node_index n) = tree_node H (moved b T) N (node_index n)"
      using w by (intro tree_node_cong) (simp add: node_written_def)
    then show ?thesis using None by (simp add: m)
  qed (use w m in \<open>simp add: node_written_def\<close>)
qed

end
