(* ===== verification/Flat_Tree_Gather.thy ===== *)
theory Flat_Tree_Gather
  imports Flat_Tree_Batch
begin

text \<open>
  What \<open>verify_and_apply_batch\<close> has recorded after it has gone through the reads and writes, whatever the
  oracle answered: which leaves it has asked proofs for, and what it will do to them.
\<close>

section \<open>The bookkeeping of a batch\<close>

abbreviation leaf_at :: "('h, 'o) batch_state \<Rightarrow> nat \<Rightarrow> 'h leaf_entry option" where
  "leaf_at s \<equiv> map_of (index_to_leaf_cache s)"

abbreviation index_of :: "('h, 'o) batch_state \<Rightarrow> bytes32 \<Rightarrow> nat option" where
  "index_of s \<equiv> map_of (key_to_index_cache s)"

definition new_leaf :: "bytes32 \<times> bytes32 \<Rightarrow> flat_storage_leaf" where
  "new_leaf w = \<lparr>leaf_key = fst w, leaf_value = snd w, leaf_next = 0\<rparr>"

text \<open>
  The two caches: \<open>U\<close> are the updates of existing keys so far, \<open>W\<close> the new keys with their values.
\<close>

definition booked ::
    "nat \<Rightarrow> (bytes32 \<rightharpoonup> bytes32) \<Rightarrow> (bytes32 \<times> bytes32) list \<Rightarrow> (bytes32 \<rightharpoonup> nat) \<Rightarrow> (nat \<rightharpoonup> 'h leaf_entry) \<Rightarrow> bool" where
  "booked saved U W ix at \<longleftrightarrow>
     (\<forall>k i. ix k = Some i \<longleftrightarrow>
        (\<exists>p m. at i = Some (p, m) \<and> leaf_key (proof_leaf p) = k) \<or> (\<exists>j < length W. i = saved + j \<and> fst (W ! j) = k)) \<and>
     (\<forall>i p m. at i = Some (p, m) \<longrightarrow> m = map_option (\<lambda>v. \<lparr>upd_value = Some v, upd_next = None\<rparr>) (U (leaf_key (proof_leaf p)))) \<and>
     (\<forall>i p m. at i = Some (p, m) \<longrightarrow> saved \<le> i \<longrightarrow> leaf_key (proof_leaf p) \<noteq> 0) \<and>
     (\<forall>k \<in> dom U. \<exists>i p m. at i = Some (p, m) \<and> leaf_key (proof_leaf p) = k)"

lemma booked_index:
  "booked saved U W ix at \<Longrightarrow> ix k = Some i \<longleftrightarrow>
     (\<exists>p m. at i = Some (p, m) \<and> leaf_key (proof_leaf p) = k) \<or> (\<exists>j < length W. i = saved + j \<and> fst (W ! j) = k)"
  unfolding booked_def by blast

lemma booked_entry:
  "booked saved U W ix at \<Longrightarrow> at i = Some (p, m) \<Longrightarrow>
     m = map_option (\<lambda>v. \<lparr>upd_value = Some v, upd_next = None\<rparr>) (U (leaf_key (proof_leaf p))) \<and> ix (leaf_key (proof_leaf p)) = Some i"
  unfolding booked_def by blast

lemma booked_update: "booked saved U W ix at \<Longrightarrow> U k = Some v \<Longrightarrow> \<exists>i p m. at i = Some (p, m) \<and> leaf_key (proof_leaf p) = k"
  unfolding booked_def by blast

lemma bookedI:
  assumes "\<And>k i. ix k = Some i \<longleftrightarrow>
        (\<exists>p m. at i = Some (p, m) \<and> leaf_key (proof_leaf p) = k) \<or> (\<exists>j < length W. i = saved + j \<and> fst (W ! j) = k)"
    and "\<And>i p m. at i = Some (p, m) \<Longrightarrow>
      m = map_option (\<lambda>v. \<lparr>upd_value = Some v, upd_next = None\<rparr>) (U (leaf_key (proof_leaf p)))"
    and "\<And>i p m. at i = Some (p, m) \<Longrightarrow> saved \<le> i \<Longrightarrow> leaf_key (proof_leaf p) \<noteq> 0"
    and "\<And>k v. U k = Some v \<Longrightarrow> \<exists>i p m. at i = Some (p, m) \<and> leaf_key (proof_leaf p) = k"
  shows "booked saved U W ix at"
  using assms unfolding booked_def by blast

lemma booked_nonzero: "booked saved U W ix at \<Longrightarrow> at i = Some (p, m) \<Longrightarrow> saved \<le> i \<Longrightarrow> leaf_key (proof_leaf p) \<noteq> 0"
  unfolding booked_def by blast

lemma booked_cache:
  assumes b: "booked saved U W ix at" and i: "at i = None" and k: "ix (leaf_key (proof_leaf p)) = None"
    and z: "saved \<le> i \<longrightarrow> leaf_key (proof_leaf p) \<noteq> 0"
  shows "booked saved U W (ix(leaf_key (proof_leaf p) \<mapsto> i)) (at(i \<mapsto> (p, None)))"
proof -
  let ?k = "leaf_key (proof_leaf p)"
  have "U ?k = None"
  proof (rule ccontr)
    assume "U ?k \<noteq> None"
    then obtain j q m where "at j = Some (q, m)" "leaf_key (proof_leaf q) = ?k" using booked_update [OF b] by blast
    then show False using booked_entry [OF b] k by fastforce
  qed
  show ?thesis
  proof (rule bookedI)
    show "(ix(?k \<mapsto> i)) k = Some j \<longleftrightarrow>
        (\<exists>q m. (at(i \<mapsto> (p, None))) j = Some (q, m) \<and> leaf_key (proof_leaf q) = k) \<or> (\<exists>l < length W. j = saved + l \<and> fst (W ! l) = k)" for k j
      using booked_index [OF b, of k j] booked_index [OF b, of ?k j] i k by (cases "k = ?k"; cases "j = i") auto
    show "\<exists>j q m. (at(i \<mapsto> (p, None))) j = Some (q, m) \<and> leaf_key (proof_leaf q) = k" if "U k = Some v" for k v
      using booked_update [OF b that] i by (metis fun_upd_other option.distinct(1))
  qed (use \<open>U ?k = None\<close> booked_entry [OF b] booked_nonzero [OF b] z in \<open>auto split: if_splits\<close>)
qed

text \<open>A recorded leaf is changed; a new leaf is appended.\<close>

lemma booked_modify:
  assumes b: "booked saved U W ix at" and i: "at i = Some (p, m)"
  shows "booked saved (U(leaf_key (proof_leaf p) \<mapsto> v)) W ix (at(i \<mapsto> (p, Some \<lparr>upd_value = Some v, upd_next = None\<rparr>)))"
proof (rule bookedI)
  let ?at = "at(i \<mapsto> (p, Some \<lparr>upd_value = Some v, upd_next = None\<rparr>))"
  have same: "(\<exists>m. ?at j = Some (q, m)) \<longleftrightarrow> (\<exists>m. at j = Some (q, m))" for j q using i by auto
  then show "ix k = Some j \<longleftrightarrow> (\<exists>q m. ?at j = Some (q, m) \<and> leaf_key (proof_leaf q) = k) \<or> (\<exists>l < length W. j = saved + l \<and> fst (W ! l) = k)" for k j
    using booked_index [OF b, of k j] by blast
  show "leaf_key (proof_leaf q) \<noteq> 0" if "?at j = Some (q, m')" "saved \<le> j" for j q m'
    using booked_nonzero [OF b] same that by blast
  show "\<exists>j q m. ?at j = Some (q, m) \<and> leaf_key (proof_leaf q) = k" if w: "(U(leaf_key (proof_leaf p) \<mapsto> v)) k = Some w" for k w
  proof (cases "k = leaf_key (proof_leaf p)")
    case True
    then show ?thesis using i by (intro exI [of _ i] exI [of _ p]) simp
  next
    case False
    then show ?thesis using booked_update [OF b, of k w] w same by simp
  qed
  show "m' = map_option (\<lambda>v. \<lparr>upd_value = Some v, upd_next = None\<rparr>) ((U(leaf_key (proof_leaf p) \<mapsto> v)) (leaf_key (proof_leaf q)))"
    if "?at j = Some (q, m')" for j q m'
    using that booked_entry [OF b i] booked_entry [OF b, of j q m'] by (cases "j = i") auto
qed

lemma booked_append:
  assumes b: "booked saved U W ix at" and k: "ix k = None"
  shows "booked saved U (W @ [(k, v)]) (ix(k \<mapsto> saved + length W)) at"
proof (rule bookedI)
  fix k' i
  have W: "(\<exists>j < length (W @ [(k, v)]). i = saved + j \<and> fst ((W @ [(k, v)]) ! j) = k') \<longleftrightarrow>
      (\<exists>j < length W. i = saved + j \<and> fst (W ! j) = k') \<or> (i = saved + length W \<and> k = k')" (is "?l \<longleftrightarrow> ?r")
  proof
    assume ?l
    then obtain j where "j < Suc (length W)" "i = saved + j" "fst ((W @ [(k, v)]) ! j) = k'" by auto
    then show ?r by (cases "j < length W") (auto simp: nth_append)
  next
    assume ?r
    then show ?l
    proof (elim disjE exE conjE)
      fix j assume "j < length W" "i = saved + j" "fst (W ! j) = k'"
      then show ?l by (intro exI [of _ j]) (simp add: nth_append)
    next
      assume "i = saved + length W" "k = k'"
      then show ?l by (intro exI [of _ "length W"]) simp
    qed
  qed
  show "(ix(k \<mapsto> saved + length W)) k' = Some i \<longleftrightarrow> (\<exists>p m. at i = Some (p, m) \<and> leaf_key (proof_leaf p) = k') \<or>
      (\<exists>j < length (W @ [(k, v)]). i = saved + j \<and> fst ((W @ [(k, v)]) ! j) = k')"
  proof (cases "k' = k")
    case True
    then show ?thesis unfolding W using booked_index [OF b, of k i] k by auto
  next
    case False
    then show ?thesis unfolding W using booked_index [OF b, of k' i] by auto
  qed
next
  show "m = map_option (\<lambda>v. \<lparr>upd_value = Some v, upd_next = None\<rparr>) (U (leaf_key (proof_leaf p)))" if "at i = Some (p, m)" for i p m
    using booked_entry [OF b that] by blast
qed (fact booked_nonzero [OF b] booked_update [OF b])+

section \<open>The operations\<close>

definition books :: "nat \<Rightarrow> (bytes32 \<rightharpoonup> bytes32) \<Rightarrow> (bytes32 \<times> bytes32) list \<Rightarrow> ('h, 'o) batch_state \<Rightarrow> bool" where
  "books saved U W s \<longleftrightarrow>
     bt_sorted (key_to_index_cache s) \<and> bt_sorted (index_to_leaf_cache s) \<and> booked saved U W (index_of s) (leaf_at s) \<and>
     batch_next_free_slot s = saved + length W \<and>
     map fst (batch_new_writes s) = [saved..<saved + length W] \<and> map snd (batch_new_writes s) = map new_leaf W"

definition more_leaves :: "('h, 'o) batch_state \<Rightarrow> ('h, 'o) batch_state \<Rightarrow> bool" where
  "more_leaves s t \<longleftrightarrow> (\<forall>i p m. leaf_at s i = Some (p, m) \<longrightarrow> (\<exists>m'. leaf_at t i = Some (p, m')))"

lemma more_leaves_refl [simp]: "more_leaves s s"
  by (auto simp: more_leaves_def)

lemma more_leaves_trans: "more_leaves s t \<Longrightarrow> more_leaves t u \<Longrightarrow> more_leaves s u"
  unfolding more_leaves_def by blast

lemma books_oracle [simp]: "books saved U W (s\<lparr>batch_oracle := o'\<rparr>) = books saved U W s"
  by (simp add: books_def)

lemma more_leaves_oracle [simp]:
  "more_leaves (s\<lparr>batch_oracle := o'\<rparr>) t = more_leaves s t" "more_leaves s (t\<lparr>batch_oracle := o'\<rparr>) = more_leaves s t"
  by (simp_all add: more_leaves_def)

lemma returns_ask: "(\<And>x o'. Q x (s\<lparr>batch_oracle := o'\<rparr>)) \<Longrightarrow> returns (ask q) Q s"
  by (auto simp: ask_def returns_def expect_def panic_def ret_def split: prod.splits option.splits)

lemma returns_get_index: "(\<And>i o'. Q i (s\<lparr>batch_oracle := o'\<rparr>)) \<Longrightarrow> returns (get_index Or k) Q s"
  unfolding get_index_def by (rule returns_ask)

lemma returns_get_prev_index: "(\<And>i o'. Q i (s\<lparr>batch_oracle := o'\<rparr>)) \<Longrightarrow> returns (get_prev_index Or k) Q s"
  unfolding get_prev_index_def by (rule returns_ask)

lemma returns_get_proof: "(\<And>p o'. Q p (s\<lparr>batch_oracle := o'\<rparr>)) \<Longrightarrow> returns (get_proof_for_index Or N i) Q s"
  unfolding get_proof_for_index_def by (auto intro: returns_ask)

lemmas returns_oracle = returns_get_index returns_get_prev_index returns_get_proof

lemma returns_cache_proof:
  assumes "books saved U W s" and "leaf_at s i = None" and "saved \<le> i \<longrightarrow> leaf_key (proof_leaf p) \<noteq> 0"
    and "\<And>t. books saved U W t \<Longrightarrow> more_leaves s t \<Longrightarrow> leaf_at t i = Some (p, None) \<Longrightarrow> Q () t"
  shows "returns (cache_proof i (p, None)) Q s"
proof -
  let ?t = "s\<lparr>key_to_index_cache := bt_insert (leaf_key (proof_leaf p)) i (key_to_index_cache s),
     index_to_leaf_cache := bt_insert i (p, None) (index_to_leaf_cache s)\<rparr>"
  have "Q () ?t" if "index_of s (leaf_key (proof_leaf p)) = None"
  proof (rule assms(4))
    show "books saved U W ?t" using assms(1-3) that by (simp add: books_def booked_cache)
    show "more_leaves s ?t" using assms(1,2) by (auto simp: more_leaves_def books_def)
    show "leaf_at ?t i = Some (p, None)" using assms(1) by (simp add: books_def)
  qed
  then show ?thesis by (simp add: cache_proof_def insert_key_def insert_leaf_def)
qed

definition between :: "nat \<Rightarrow> bytes32 \<Rightarrow> ('h, 'o) batch_state \<Rightarrow> bool" where
  "between saved k s \<longleftrightarrow> (\<exists>i p m q m'. i < saved \<and> leaf_at s i = Some (p, m) \<and> leaf_at s (leaf_next (proof_leaf p)) = Some (q, m') \<and>
     leaf_key (proof_leaf p) < k \<and> k < leaf_key (proof_leaf q))"

lemma between_more: "between saved k s \<Longrightarrow> more_leaves s t \<Longrightarrow> between saved k t"
  unfolding between_def more_leaves_def by metis

lemma returns_load_previous:
  assumes "books saved U W s" and "i < saved"
    and "\<And>t p m. books saved U W t \<Longrightarrow> more_leaves s t \<Longrightarrow> leaf_at t i = Some (p, m) \<Longrightarrow>
      leaf_key (proof_leaf p) < k \<Longrightarrow> Q (leaf_next (proof_leaf p)) t"
  shows "returns (load_previous Or N saved k i) Q s"
  using assms unfolding load_previous_def cached_leaf_def
  by (auto intro!: returns_oracle returns_cache_proof [where saved = saved and U = U and W = W] split: option.splits)

lemma returns_load_next:
  assumes "books saved U W s"
    and "\<And>t p m. books saved U W t \<Longrightarrow> more_leaves s t \<Longrightarrow> leaf_at t i = Some (p, m) \<Longrightarrow> k < leaf_key (proof_leaf p) \<Longrightarrow> Q () t"
  shows "returns (load_next Or N k i) Q s"
  using assms unfolding load_next_def cached_leaf_def
  by (auto intro!: returns_oracle returns_cache_proof [where saved = saved and U = U and W = W] split: option.splits)

lemma returns_load_neighbours:
  assumes "books saved U W s" and "\<And>t. books saved U W t \<Longrightarrow> more_leaves s t \<Longrightarrow> between saved k t \<Longrightarrow> Q () t"
  shows "returns (load_neighbours Or N saved k) Q s"
proof -
  have "Q () v" if a: "books saved U W v" "more_leaves t v" "more_leaves (s\<lparr>batch_oracle := o'\<rparr>) t" "i < saved"
    "leaf_at t i = Some (p, m)" "leaf_key (proof_leaf p) < k" "leaf_at v (leaf_next (proof_leaf p)) = Some (q, m')" "k < leaf_key (proof_leaf q)"
    for t v o' i p m q m'
  proof (rule assms(2) [OF a(1)])
    show "more_leaves s v" using a(2,3) more_leaves_trans by simp blast
    obtain m2 where "leaf_at v i = Some (p, m2)" using a(2,5) unfolding more_leaves_def by blast
    then show "between saved k v" unfolding between_def using a(4,6-8) by blast
  qed
  then show ?thesis
    unfolding load_neighbours_def using assms(1)
    by (auto intro!: returns_oracle returns_load_previous [where saved = saved and U = U and W = W]
        returns_load_next [where saved = saved and U = U and W = W])
qed

definition entry_checked :: "nat \<Rightarrow> bytes32 \<Rightarrow> storage_diff \<Rightarrow> ('h, 'o) batch_state \<Rightarrow> bool" where
  "entry_checked saved k v s \<longleftrightarrow>
     (if diff_is_new_storage_slot v then between saved k s
      else \<exists>i p m. leaf_at s i = Some (p, m) \<and> leaf_key (proof_leaf p) = k \<and> leaf_value (proof_leaf p) = diff_initial_value v)"

lemma entry_checked_more: "entry_checked saved k v s \<Longrightarrow> more_leaves s t \<Longrightarrow> entry_checked saved k v t"
  unfolding entry_checked_def by (cases "diff_is_new_storage_slot v") (auto simp: between_more, metis more_leaves_def)

lemma returns_verify_read:
  assumes b: "books saved U W s" and k: "k \<noteq> 0" and v: "is_read v"
    and Q: "\<And>t. books saved U W t \<Longrightarrow> more_leaves s t \<Longrightarrow> entry_checked saved k v t \<Longrightarrow> Q () t"
  shows "returns (verify_read Or N saved k v) Q s"
proof (cases "diff_is_new_storage_slot v")
  case True
  then show ?thesis unfolding verify_read_def using Q by (auto simp: entry_checked_def intro: returns_load_neighbours [OF b])
next
  case False
  then have "Q () t" if "books saved U W t" "more_leaves s t" "leaf_at t i = Some (p, m)" "leaf_key (proof_leaf p) = k"
    "leaf_value (proof_leaf p) = diff_current_value v" for t i p m
    using Q [of t] that v unfolding entry_checked_def is_read_def by auto
  then show ?thesis using b k False unfolding verify_read_def check_existing_read_def cached_leaf_def
    by (auto simp: Let_def split: option.splits intro!: returns_oracle returns_cache_proof [where saved = saved and U = U and W = W])
qed

lemma returns_append_leaf:
  assumes b: "books saved U W s"
    and Q: "\<And>t. books saved U (W @ [(k, v)]) t \<Longrightarrow> more_leaves s t \<Longrightarrow> index_of s k = None \<Longrightarrow> Q () t"
  shows "returns (append_leaf k v) Q s"
proof -
  let ?t = "s\<lparr>batch_next_free_slot := batch_next_free_slot s + 1,
     key_to_index_cache := bt_insert k (batch_next_free_slot s) (key_to_index_cache s),
     batch_new_writes := batch_new_writes s @ [(batch_next_free_slot s, \<lparr>leaf_key = k, leaf_value = v, leaf_next = 0\<rparr>)]\<rparr>"
  have "Q () ?t" if "index_of s k = None"
  proof (rule Q)
    show "books saved U (W @ [(k, v)]) ?t" using b that by (simp add: books_def booked_append new_leaf_def)
  qed (simp_all add: more_leaves_def that)
  then show ?thesis by (simp add: append_leaf_def insert_key_def)
qed

lemma bt_insert_twice: "bt_insert k v (bt_insert k w xs) = bt_insert k v xs"
  by (induction k w xs rule: bt_insert.induct) auto

lemma books_modify:
  assumes "books saved U W s" and "leaf_at s i = Some (p, m)" and "leaf_key (proof_leaf p) = k"
  shows "books saved (U(k \<mapsto> v)) W
    (s\<lparr>index_to_leaf_cache := bt_insert i (p, Some \<lparr>upd_value = Some v, upd_next = None\<rparr>) (index_to_leaf_cache s)\<rparr>)"
  using assms booked_modify [of saved U W "index_of s" "leaf_at s" i p m v] by (simp add: books_def)

lemma returns_check_existing_write:
  assumes b: "books saved U W s" and k: "k \<noteq> 0"
    and Q: "\<And>t i p m. books saved (U(k \<mapsto> v)) W t \<Longrightarrow> more_leaves s t \<Longrightarrow> U k = None \<Longrightarrow> leaf_at t i = Some (p, m) \<Longrightarrow>
      leaf_key (proof_leaf p) = k \<Longrightarrow> leaf_value (proof_leaf p) = w \<Longrightarrow> Q () t"
  shows "returns (check_existing_write Or N k w v) Q s"
proof (cases "index_of s k")
  case (Some i)
  let ?t = "\<lambda>p. s\<lparr>index_to_leaf_cache := bt_insert i (p, Some \<lparr>upd_value = Some v, upd_next = None\<rparr>) (index_to_leaf_cache s)\<rparr>"
  have "Q () (?t p)" if p: "leaf_at s i = Some (p, None)" "leaf_key (proof_leaf p) = k" "leaf_value (proof_leaf p) = w" for p
  proof (rule Q [OF books_modify [OF b p(1,2)]])
    show "U k = None" using booked_entry [of saved U W "index_of s" "leaf_at s"] b p(1,2) by (fastforce simp: books_def)
  qed (use b p in \<open>auto simp: more_leaves_def books_def\<close>)
  then show ?thesis using Some by (simp add: check_existing_write_def cached_leaf_def insert_leaf_def Let_def split: prod.splits)
next
  case None
  have "Q () ((s\<lparr>batch_oracle := o'\<rparr>)\<lparr>key_to_index_cache := bt_insert k i (key_to_index_cache s),
      index_to_leaf_cache := bt_insert i (p, Some \<lparr>upd_value = Some v, upd_next = None\<rparr>) (index_to_leaf_cache s)\<rparr>)"
    (is "Q () ?t")
    if i: "leaf_at s i = None" and p: "leaf_key (proof_leaf p) = k" "leaf_value (proof_leaf p) = w" for i p o'
  proof -
    let ?u = "(s\<lparr>batch_oracle := o'\<rparr>)\<lparr>key_to_index_cache := bt_insert k i (key_to_index_cache s),
      index_to_leaf_cache := bt_insert i (p, None) (index_to_leaf_cache s)\<rparr>"
    have "books saved U W ?u"
      using b i None p k booked_cache [of saved U W "index_of s" "leaf_at s" i p] by (simp add: books_def)
    moreover from this have "leaf_at ?u i = Some (p, None)" using b by (simp add: books_def)
    ultimately have t: "books saved (U(k \<mapsto> v)) W ?t" using books_modify [of saved U W ?u i p None k v] p(1) by (simp add: bt_insert_twice)
    show ?thesis
    proof (rule Q [OF t])
      show "U k = None"
        using booked_update [of saved U W "index_of s" "leaf_at s" k] booked_entry [of saved U W "index_of s" "leaf_at s"] b None
        by (cases "U k") (fastforce simp: books_def)+
    qed (use b i p in \<open>auto simp: more_leaves_def books_def\<close>)
  qed
  then show ?thesis using None
    by (auto simp: check_existing_write_def cached_leaf_def insert_leaf_def insert_key_def Let_def intro!: returns_oracle)
qed

section \<open>All reads and writes\<close>

type_synonym batch_entry = "bytes32 \<times> storage_diff"

definition update_list :: "batch_entry list \<Rightarrow> (bytes32 \<times> bytes32) list" where
  "update_list es = map (\<lambda>(k, v). (k, diff_current_value v)) (filter (\<lambda>(_, v). \<not> is_read v \<and> \<not> diff_is_new_storage_slot v) es)"

definition new_list :: "batch_entry list \<Rightarrow> (bytes32 \<times> bytes32) list" where
  "new_list es = map (\<lambda>(k, v). (k, diff_current_value v)) (filter (\<lambda>(_, v). \<not> is_read v \<and> diff_is_new_storage_slot v) es)"

definition batch_inv :: "nat \<Rightarrow> batch_entry list \<Rightarrow> ('h, 'o) batch_state \<Rightarrow> bool" where
  "batch_inv saved es s \<longleftrightarrow>
     books saved (map_of (update_list es)) (new_list es) s \<and> (\<forall>(k, v) \<in> set es. entry_checked saved k v s) \<and>
     distinct (map fst (update_list es))"

lemma returns_for_each:
  assumes "I xs s" and "\<And>xs y s. I xs s \<Longrightarrow> y \<in> set ys \<Longrightarrow> returns (f y) (\<lambda>_ t. I (xs @ [g y]) t) s"
  shows "returns (for_each f ys) (\<lambda>_ t. I (xs @ map g ys) t) s"
  using assms
proof (induction ys arbitrary: xs s)
  case (Cons y ys)
  have "returns (f y) (\<lambda>_. returns (for_each f ys) (\<lambda>_ t. I ((xs @ [g y]) @ map g ys) t)) s"
  proof (rule returns_mono [OF Cons.prems(2) [OF Cons.prems(1)]])
    show "returns (for_each f ys) (\<lambda>_ t. I ((xs @ [g y]) @ map g ys) t) t" if "I (xs @ [g y]) t" for t
      using Cons.IH [OF that] Cons.prems(2) by simp
  qed simp
  then show ?case by simp
qed simp

lemma checked_entries:
  assumes "\<forall>(k, v) \<in> set es. entry_checked saved k v s" and "more_leaves s t" and "entry_checked saved k v t"
  shows "\<forall>(k, v) \<in> set (es @ [(k, v)]). entry_checked saved k v t"
  using assms entry_checked_more by fastforce

lemma verify_read_step:
  assumes "batch_inv saved es s" and "k \<noteq> 0" and "is_read v"
  shows "returns (verify_read Or N saved k v) (\<lambda>_ t. batch_inv saved (es @ [(k, v)]) t) s"
proof -
  have "books saved (map_of (update_list es)) (new_list es) s" using assms(1) by (simp add: batch_inv_def)
  then show ?thesis
  proof (rule returns_verify_read [OF _ assms(2,3)])
    fix t assume t: "books saved (map_of (update_list es)) (new_list es) t" "more_leaves s t" "entry_checked saved k v t"
    have "\<forall>(k, v) \<in> set (es @ [(k, v)]). entry_checked saved k v t"
      by (rule checked_entries [OF _ t(2,3)]) (use assms(1) in \<open>simp add: batch_inv_def\<close>)
    then show "batch_inv saved (es @ [(k, v)]) t"
      using assms(1,3) t(1) unfolding batch_inv_def by (simp add: update_list_def new_list_def)
  qed
qed

lemma batch_write_step:
  assumes inv: "batch_inv saved es s" and k: "k \<noteq> 0" and v: "\<not> is_read v"
  shows "returns (batch_write Or N saved k v) (\<lambda>_ t. batch_inv saved (es @ [(k, v)]) t) s"
proof -
  let ?U = "map_of (update_list es)" and ?W = "new_list es"
  have b: "books saved ?U ?W s" and c: "\<forall>(k, v) \<in> set es. entry_checked saved k v s" and d: "distinct (map fst (update_list es))"
    using inv by (auto simp: batch_inv_def)
  show ?thesis
  proof (cases "diff_is_new_storage_slot v")
    case True
    have "batch_inv saved (es @ [(k, v)]) u"
      if "more_leaves s t" "between saved k t" "books saved ?U (?W @ [(k, diff_current_value v)]) u" "more_leaves t u" for t u
    proof -
      have "entry_checked saved k v u" using True that(2,4) between_more by (auto simp: entry_checked_def)
      then have "\<forall>(k, v) \<in> set (es @ [(k, v)]). entry_checked saved k v u"
        using checked_entries c that(1,4) more_leaves_trans by blast
      then show ?thesis using that(3) True v d by (simp add: batch_inv_def update_list_def new_list_def)
    qed
    then show ?thesis using True b unfolding batch_write_def
      by (auto intro!: returns_load_neighbours [where saved = saved and U = ?U and W = ?W]
          returns_append_leaf [where saved = saved and U = ?U and W = ?W])
  next
    case False
    have "batch_inv saved (es @ [(k, v)]) t"
      if t: "books saved (?U(k \<mapsto> diff_current_value v)) ?W t" "more_leaves s t" "?U k = None" "leaf_at t i = Some (p, m)"
        "leaf_key (proof_leaf p) = k" "leaf_value (proof_leaf p) = diff_initial_value v" for t i p m
    proof -
      have "entry_checked saved k v t" using False t(4-6) by (auto simp: entry_checked_def)
      then have "\<forall>(k, v) \<in> set (es @ [(k, v)]). entry_checked saved k v t" using checked_entries c t(2) by blast
      moreover have "update_list (es @ [(k, v)]) = update_list es @ [(k, diff_current_value v)]" "new_list (es @ [(k, v)]) = ?W"
        using False v by (simp_all add: update_list_def new_list_def)
      moreover have "map_of (update_list es @ [(k, diff_current_value v)]) = ?U(k \<mapsto> diff_current_value v)"
        using t(3) by (auto simp: fun_eq_iff map_add_def split: option.splits)
      moreover have "k \<notin> fst ` set (update_list es)" using t(3) by (simp add: map_of_eq_None_iff)
      ultimately show ?thesis using t(1) d by (simp add: batch_inv_def)
    qed
    then show ?thesis using False b k unfolding batch_write_def
      by (auto intro!: returns_check_existing_write [where saved = saved and U = ?U and W = ?W])
  qed
qed

section \<open>Relinking\<close>

text \<open>What the batch will make of a leaf.\<close>

definition effective :: "nat \<Rightarrow> ('h, 'o) batch_state \<Rightarrow> nat \<Rightarrow> flat_storage_leaf" where
  "effective saved s i =
     (case leaf_at s i of
        Some (p, Some u) \<Rightarrow> updated_leaf (proof_leaf p) u
      | Some (p, None) \<Rightarrow> proof_leaf p
      | None \<Rightarrow> if saved \<le> i then snd (batch_new_writes s ! (i - saved)) else empty_leaf)"

definition same_frame :: "('h, 'o) batch_state \<Rightarrow> ('h, 'o) batch_state \<Rightarrow> bool" where
  "same_frame s t \<longleftrightarrow>
     key_to_index_cache t = key_to_index_cache s \<and> batch_next_free_slot t = batch_next_free_slot s \<and>
     map fst (batch_new_writes t) = map fst (batch_new_writes s) \<and>
     bt_sorted (index_to_leaf_cache t) \<and> (\<forall>i. map_option fst (leaf_at t i) = map_option fst (leaf_at s i))"

definition next_inside :: "nat \<Rightarrow> ('h, 'o) batch_state \<Rightarrow> bool" where
  "next_inside saved s \<longleftrightarrow> (\<forall>i p m. leaf_at s i = Some (p, m) \<longrightarrow> leaf_next (proof_leaf p) < saved)"

definition link_to :: "nat \<Rightarrow> bool \<Rightarrow> nat \<Rightarrow> flat_storage_leaf \<Rightarrow> flat_storage_leaf" where
  "link_to saved fresh j leaf = (if saved \<le> j \<or> fresh then leaf\<lparr>leaf_next := j\<rparr> else leaf)"

lemma same_frame_cached:
  "same_frame s t \<Longrightarrow> (leaf_at t i = None) = (leaf_at s i = None)"
  unfolding same_frame_def by (metis map_option_is_None)

lemma same_frame_trans: "same_frame s t \<Longrightarrow> same_frame t u \<Longrightarrow> same_frame s u"
  by (simp add: same_frame_def)

lemma same_frame_inside:
  assumes "same_frame s t" and "next_inside saved s"
  shows "next_inside saved t"
  unfolding next_inside_def
proof (intro allI impI)
  fix i p m assume "leaf_at t i = Some (p, m)"
  then have "map_option fst (leaf_at s i) = Some p" using assms(1) unfolding same_frame_def by (metis fst_conv option.simps(9))
  then show "leaf_next (proof_leaf p) < saved" using assms(2) by (auto simp: next_inside_def)
qed

text \<open>The entry of a cached leaf is replaced.\<close>

lemma relinked_entry:
  assumes "bt_sorted (index_to_leaf_cache s)" and "leaf_at s i = Some (p, m)"
    and "updated_leaf (proof_leaf p) u = leaf"
  defines "t \<equiv> s\<lparr>index_to_leaf_cache := bt_insert i (p, Some u) (index_to_leaf_cache s)\<rparr>"
  shows "same_frame s t \<and> effective saved t = (effective saved s)(i := leaf)"
  using assms(1-3) by (auto simp: t_def same_frame_def effective_def fun_eq_iff split: option.splits)

lemma updated_next: "set_next j u = Some u' \<Longrightarrow> updated_leaf leaf u' = (updated_leaf leaf u)\<lparr>leaf_next := j\<rparr>"
  by (auto simp: set_next_def updated_leaf_def split: if_splits)

definition linked :: "nat \<Rightarrow> nat \<Rightarrow> nat \<Rightarrow> ('h, 'o) batch_state \<Rightarrow> ('h, 'o) batch_state \<Rightarrow> bool" where
  "linked saved i j s t \<longleftrightarrow> same_frame s t \<and> (next_inside saved s \<longrightarrow>
     effective saved t = (effective saved s)(i := link_to saved (leaf_at s i = None) j (effective saved s i)))"

lemma linked_cached:
  assumes "bt_sorted (index_to_leaf_cache s)" and i: "leaf_at s i = Some (p, m)" and "saved \<le> j"
    and u: "case m of None \<Rightarrow> u = \<lparr>upd_value = None, upd_next = Some j\<rparr> | Some u0 \<Rightarrow> set_next j u0 = Some u"
  shows "linked saved i j s (s\<lparr>index_to_leaf_cache := bt_insert i (p, Some u) (index_to_leaf_cache s)\<rparr>)"
proof -
  have "updated_leaf (proof_leaf p) u = link_to saved (leaf_at s i = None) j (effective saved s i)"
    using i u \<open>saved \<le> j\<close> by (cases m) (auto simp: link_to_def effective_def updated_next, simp add: updated_leaf_def)
  from relinked_entry [OF assms(1,2) this] show ?thesis unfolding linked_def by blast
qed

lemma linked_refl: "bt_sorted (index_to_leaf_cache s) \<Longrightarrow> leaf_at s i \<noteq> None \<Longrightarrow> \<not> saved \<le> j \<Longrightarrow> linked saved i j s s"
  by (auto simp: linked_def same_frame_def link_to_def)

lemma link_first_linked:
  assumes "bt_sorted (index_to_leaf_cache s)"
  shows "returns (link_first saved i j) (\<lambda>_ t. linked saved i j s t) s"
  using assms unfolding link_first_def cached_leaf_def insert_leaf_def
  by (auto intro!: linked_cached linked_refl split: option.splits)

lemma link_next_linked:
  assumes b: "bt_sorted (index_to_leaf_cache s)"
  shows "returns (link_next saved i j) (\<lambda>_ t. linked saved i j s t) s"
proof (cases "leaf_at s i")
  case (Some e)
  obtain p m where e: "e = (p, m)" by fastforce
  show ?thesis
  proof (cases "saved \<le> j")
    case True
    have out: "\<not> next_inside saved s" if "leaf_next (proof_leaf p) = j"
      using Some e True that unfolding next_inside_def by (meson leD)
    have "linked saved i j s s" if "leaf_next (proof_leaf p) = j"
      using b out [OF that] by (simp add: linked_def same_frame_def)
    moreover have "linked saved i j s (s\<lparr>index_to_leaf_cache := bt_insert i (p, Some \<lparr>upd_value = None, upd_next = None\<rparr>) (index_to_leaf_cache s)\<rparr>)"
      if "leaf_next (proof_leaf p) = j"
      using b Some e out [OF that] by (simp add: linked_def same_frame_def)
    ultimately show ?thesis using Some e b True
      by (cases m) (auto simp: link_next_def cached_leaf_def insert_leaf_def intro!: linked_cached)
  qed (use Some e b in \<open>simp add: link_next_def cached_leaf_def linked_refl\<close>)
next
  case None
  have "linked saved i j s (s\<lparr>batch_new_writes := (batch_new_writes s)[i - saved := (i, (snd (batch_new_writes s ! (i - saved)))\<lparr>leaf_next := j\<rparr>)]\<rparr>)"
    if i: "saved \<le> i" "i - saved < length (batch_new_writes s)" "fst (batch_new_writes s ! (i - saved)) = i"
  proof -
    have "map fst ((batch_new_writes s)[i - saved := (i, leaf)]) = map fst (batch_new_writes s)" for leaf
      using i by (metis fst_conv list_update_id map_update nth_map)
    moreover have "k - saved \<noteq> i - saved" if "saved \<le> k" "k \<noteq> i" for k using that i(1) by simp
    ultimately show ?thesis using b None i
      by (auto simp: linked_def same_frame_def effective_def link_to_def fun_eq_iff split: option.splits)
  qed
  then show ?thesis using None by (auto simp: link_next_def cached_leaf_def Let_def)
qed

fun chain :: "nat \<Rightarrow> (nat \<Rightarrow> bool) \<Rightarrow> nat list \<Rightarrow> (nat \<Rightarrow> flat_storage_leaf) \<Rightarrow> nat \<Rightarrow> flat_storage_leaf" where
  "chain saved fresh (i # j # is) f = chain saved fresh (j # is) (f(i := link_to saved (fresh i) j (f i)))"
| "chain saved fresh is f = f"

definition relinked :: "nat \<Rightarrow> nat list \<Rightarrow> ('h, 'o) batch_state \<Rightarrow> ('h, 'o) batch_state \<Rightarrow> bool" where
  "relinked saved is s t \<longleftrightarrow> same_frame s t \<and> (next_inside saved s \<longrightarrow>
     effective saved t = chain saved (\<lambda>i. leaf_at s i = None) is (effective saved s))"

lemma relinked_step:
  assumes l: "linked saved i j s t" and r: "relinked saved (j # is) t u"
  shows "relinked saved (i # j # is) s u"
proof -
  have f: "same_frame s t" "same_frame t u" using l r by (auto simp: linked_def relinked_def)
  have "(\<lambda>i. leaf_at t i = None) = (\<lambda>i. leaf_at s i = None)" using same_frame_cached [OF f(1)] by blast
  then show ?thesis using l r same_frame_trans [OF f] same_frame_inside [OF f(1), of saved] unfolding linked_def relinked_def by simp
qed

lemma link_rest_relinked:
  assumes "bt_sorted (index_to_leaf_cache s)"
  shows "returns (link_rest saved i keys) (\<lambda>_ t. relinked saved (i # map snd keys) s t) s"
  using assms
proof (induction saved i keys arbitrary: s rule: link_rest.induct)
  case (2 saved i k j keys)
  have "returns (link_next saved i j) (\<lambda>_ t. returns (link_rest saved j keys) (\<lambda>_ u. relinked saved (i # j # map snd keys) s u) t) s"
  proof (rule returns_mono [OF link_next_linked [OF 2(2)]])
    fix t assume t: "linked saved i j s t"
    then have "bt_sorted (index_to_leaf_cache t)" by (simp add: linked_def same_frame_def)
    from 2(1) [OF this] show "returns (link_rest saved j keys) (\<lambda>_ u. relinked saved (i # j # map snd keys) s u) t"
      by (rule returns_mono) (rule relinked_step [OF t])
  qed
  then show ?case by simp
qed (simp add: relinked_def same_frame_def)

lemma relink_relinked:
  assumes "bt_sorted (index_to_leaf_cache s)"
  shows "returns (relink saved) (\<lambda>_ t. relinked saved (map snd (key_to_index_cache s)) s t) s"
proof -
  have last: "returns (check_last i) Q t" if "Q () t" for i t and Q :: "unit \<Rightarrow> ('a, 'b) batch_state \<Rightarrow> bool"
    using that by (auto simp: check_last_def cached_leaf_def)
  have "returns (link_first saved i j) (\<lambda>_ t. returns (link_rest saved j keys) (\<lambda>l. returns (check_last l)
      (\<lambda>_ u. relinked saved (i # j # map snd keys) s u)) t) s" for i j keys
  proof (rule returns_mono [OF link_first_linked [OF assms]])
    fix t assume t: "linked saved i j s t"
    then have "bt_sorted (index_to_leaf_cache t)" by (simp add: linked_def same_frame_def)
    from link_rest_relinked [OF this] show "returns (link_rest saved j keys) (\<lambda>l. returns (check_last l)
        (\<lambda>_ u. relinked saved (i # j # map snd keys) s u)) t"
      by (rule returns_mono) (intro last relinked_step [OF t])
  qed
  then show ?thesis unfolding relink_def by (auto split: list.splits)
qed

text \<open>Where the chain leads.\<close>

lemma chain_other: "i \<notin> set (butlast is) \<Longrightarrow> chain saved fresh is f i = f i"
  by (induction saved fresh "is" f rule: chain.induct) auto

lemma chain_link:
  "distinct is \<Longrightarrow> Suc l < length is \<Longrightarrow> chain saved fresh is f (is ! l) = link_to saved (fresh (is ! l)) (is ! Suc l) (f (is ! l))"
proof (induction saved fresh "is" f arbitrary: l rule: chain.induct)
  case (1 saved fresh i j "is" f)
  show ?case
  proof (cases l)
    case 0
    have "i \<notin> set (butlast (j # is))" using 1(2) in_set_butlastD by fastforce
    then show ?thesis using 0 chain_other by fastforce
  next
    case (Suc k)
    have "(j # is) ! k \<in> set (j # is)" using 1(3) Suc by (intro nth_mem) simp
    then have "(j # is) ! k \<noteq> i" using 1(2) by auto
    then show ?thesis using 1(1) [of k] 1(2,3) Suc by (simp add: fun_upd_def)
  qed
qed simp_all

end
