(* ===== verification/Flat_Tree_Links.thy ===== *)
theory Flat_Tree_Links
  imports Flat_Tree_Gather
begin

text \<open>
  The linked list in the leaves. A well-formed tree is a list of leaves that are linked in the order of
  their keys, from the smallest to the largest; relinking the neighbours of the new keys gives such a tree
  again.
\<close>

section \<open>Well-formed trees\<close>

definition adjacent :: "nat \<Rightarrow> (nat \<Rightarrow> flat_storage_leaf) \<Rightarrow> nat \<Rightarrow> nat \<Rightarrow> bool" where
  "adjacent n T i j \<longleftrightarrow> leaf_key (T i) < leaf_key (T j) \<and>
     (\<forall>l < n. \<not> (leaf_key (T i) < leaf_key (T l) \<and> leaf_key (T l) < leaf_key (T j)))"

definition storage_tree :: "nat \<Rightarrow> (nat \<Rightarrow> flat_storage_leaf) \<Rightarrow> bool" where
  "storage_tree n T \<longleftrightarrow>
     2 \<le> n \<and> leaf_key (T MIN_KEY_LEAF_MARKER_IDX) = 0 \<and> leaf_key (T MAX_KEY_LEAF_MARKER_IDX) = - 1 \<and>
     inj_on (\<lambda>i. leaf_key (T i)) {..<n} \<and>
     (\<forall>i < n. leaf_next (T i) < n \<and> (leaf_key (T i) = - 1 \<or> adjacent n T i (leaf_next (T i))))"

text \<open>The state that a tree holds.\<close>

definition tree_contents :: "nat \<Rightarrow> (nat \<Rightarrow> flat_storage_leaf) \<Rightarrow> bytes32 \<rightharpoonup> bytes32" where
  "tree_contents n T k = map_of (map (\<lambda>i. (leaf_key (T i), leaf_value (T i))) [0..<n]) k"

lemma contents_Some:
  assumes "storage_tree n T"
  shows "tree_contents n T k = Some v \<longleftrightarrow> (\<exists>i < n. leaf_key (T i) = k \<and> leaf_value (T i) = v)"
proof -
  have "distinct (map (\<lambda>i. leaf_key (T i)) [0..<n])" using assms by (simp add: storage_tree_def distinct_map lessThan_atLeast0)
  then have "distinct (map fst (map (\<lambda>i. (leaf_key (T i), leaf_value (T i))) [0..<n]))" by (simp add: comp_def)
  then show ?thesis unfolding tree_contents_def by (auto simp: map_of_eq_Some_iff)
qed

lemma contents_None: "tree_contents n T k = None \<longleftrightarrow> (\<forall>i < n. leaf_key (T i) \<noteq> k)"
  by (auto simp: tree_contents_def map_of_eq_None_iff image_image)

section \<open>Relinking\<close>

text \<open>\<open>K\<close> are the keys that were looked at, with their positions; \<open>W\<close> are the new keys.\<close>

definition relinks ::
    "nat \<Rightarrow> (nat \<Rightarrow> flat_storage_leaf) \<Rightarrow> (bytes32 \<times> nat) list \<Rightarrow> bytes32 list \<Rightarrow> (nat \<Rightarrow> flat_storage_leaf) \<Rightarrow> bool" where
  "relinks n T K W T' \<longleftrightarrow>
     bt_sorted K \<and>
     (\<forall>(k, i) \<in> set K. i < n \<and> leaf_key (T i) = k \<or> (\<exists>j < length W. i = n + j \<and> W ! j = k)) \<and>
     (\<forall>j < length W. (W ! j, n + j) \<in> set K) \<and>
     (\<forall>k \<in> set W. \<exists>i < n. (leaf_key (T i), i) \<in> set K \<and> (leaf_key (T (leaf_next (T i))), leaf_next (T i)) \<in> set K \<and>
        leaf_key (T i) < k \<and> k < leaf_key (T (leaf_next (T i)))) \<and>
     (\<forall>i < n. leaf_key (T' i) = leaf_key (T i)) \<and> (\<forall>j < length W. leaf_key (T' (n + j)) = W ! j) \<and>
     (\<forall>l. Suc l < length K \<longrightarrow> leaf_next (T' (snd (K ! l))) =
        (if n \<le> snd (K ! Suc l) \<or> n \<le> snd (K ! l) then snd (K ! Suc l) else leaf_next (T (snd (K ! l))))) \<and>
     (\<forall>i < n. i \<notin> snd ` set (butlast K) \<longrightarrow> leaf_next (T' i) = leaf_next (T i))"

lemma relinks_new:
  assumes "relinks n T K W T'" and "k \<in> set W"
  shows "\<exists>j < length W. W ! j = k \<and> (k, n + j) \<in> set K"
proof -
  obtain j where "j < length W" "W ! j = k" using assms(2) by (auto simp: in_set_conv_nth)
  then show ?thesis using assms(1) unfolding relinks_def by blast
qed

lemma relinks_mem:
  "relinks n T K W T' \<Longrightarrow> (k, i) \<in> set K \<Longrightarrow> i < n \<and> leaf_key (T i) = k \<or> (\<exists>j < length W. i = n + j \<and> W ! j = k)"
  by (auto simp: relinks_def)

lemma sorted_succ:
  assumes K: "bt_sorted K" and k: "(k, i) \<in> set K" "(k', i') \<in> set K" "k < k'"
  obtains l where "Suc l < length K" "K ! l = (k, i)" "k < fst (K ! Suc l)" "fst (K ! Suc l) \<le> k'"
proof -
  have so: "sorted_wrt (<) (map fst K)" using K by (simp add: bt_sorted_def)
  obtain l where l: "l < length K" "K ! l = (k, i)" using k(1) by (auto simp: in_set_conv_nth)
  obtain m where m: "m < length K" "K ! m = (k', i')" using k(2) by (auto simp: in_set_conv_nth)
  have mono: "fst (K ! x) < fst (K ! y)" if "x < y" "y < length K" for x y
    using sorted_wrt_nth_less [OF so, of x y] that by simp
  have "l < m"
  proof (rule ccontr)
    assume "\<not> l < m"
    then have "m = l \<or> m < l" by auto
    then show False using mono [of m l] l m k(3) by auto
  qed
  then have "fst (K ! Suc l) \<le> k'" using mono [of "Suc l" m] m by (cases "Suc l = m") auto
  then show thesis using that [of l] mono [of l "Suc l"] l \<open>l < m\<close> m(1) by auto
qed

lemma sorted_between:
  assumes K: "bt_sorted K" and l: "Suc l < length K" and x: "(x, y) \<in> set K"
  shows "x \<le> fst (K ! l) \<or> fst (K ! Suc l) \<le> x"
proof -
  have so: "sorted_wrt (<) (map fst K)" using K by (simp add: bt_sorted_def)
  obtain m where m: "m < length K" "K ! m = (x, y)" using x by (auto simp: in_set_conv_nth)
  show ?thesis
  proof (cases "m \<le> l")
    case True
    then show ?thesis using sorted_wrt_nth_less [OF so, of m l] l m by (cases "m = l") auto
  next
    case False
    then show ?thesis using sorted_wrt_nth_less [OF so, of "Suc l" m] m by (cases "m = Suc l") auto
  qed
qed

lemma storage_adjacent:
  assumes "storage_tree n T" and "i < n" and "leaf_key (T i) < k" and "l < n"
  shows "leaf_key (T l) \<le> leaf_key (T i) \<or> leaf_key (T (leaf_next (T i))) \<le> leaf_key (T l)"
proof -
  have "leaf_key (T i) \<noteq> - 1" using assms(3) by auto
  then have "adjacent n T i (leaf_next (T i))" using assms(1,2) by (auto simp: storage_tree_def)
  then show ?thesis using assms(4) by (auto simp: adjacent_def not_less)
qed

lemma storage_inj: "storage_tree n T \<Longrightarrow> i < n \<Longrightarrow> j < n \<Longrightarrow> leaf_key (T i) = leaf_key (T j) \<Longrightarrow> i = j"
  by (auto simp: storage_tree_def dest: inj_onD)

lemma new_key_fresh:
  assumes T: "storage_tree n T" and r: "relinks n T K W T'" and k: "k \<in> set W" and i: "i < n"
  shows "leaf_key (T i) \<noteq> k"
proof -
  obtain p where p: "p < n" "leaf_key (T p) < k" "k < leaf_key (T (leaf_next (T p)))" using r k by (auto simp: relinks_def)
  then show ?thesis using storage_adjacent [OF T p(1,2) i] by auto
qed

text \<open>The old leaf left of a new key is the one that was looked at.\<close>

lemma new_key_left:
  assumes T: "storage_tree n T" and r: "relinks n T K W T'" and k: "k \<in> set W" and i: "i < n"
    and b: "leaf_key (T i) < k" "k < leaf_key (T (leaf_next (T i)))"
  shows "(leaf_key (T i), i) \<in> set K \<and> (leaf_key (T (leaf_next (T i))), leaf_next (T i)) \<in> set K"
proof -
  obtain p where p: "p < n" "leaf_key (T p) < k" "k < leaf_key (T (leaf_next (T p)))"
    and K: "(leaf_key (T p), p) \<in> set K" "(leaf_key (T (leaf_next (T p))), leaf_next (T p)) \<in> set K"
    using r k by (auto simp: relinks_def)
  have "leaf_key (T p) = leaf_key (T i)"
    using storage_adjacent [OF T p(1,2) i] storage_adjacent [OF T i b(1) p(1)] p b by auto
  then have "p = i" using storage_inj [OF T p(1) i] by blast
  then show ?thesis using K by simp
qed

text \<open>An old leaf with no new key right of it keeps its link.\<close>

lemma old_link_kept:
  assumes T: "storage_tree n T" and r: "relinks n T K W T'" and i: "i < n"
    and no: "\<And>k. k \<in> set W \<Longrightarrow> \<not> (leaf_key (T i) < k \<and> k < leaf_key (T (leaf_next (T i))))"
  shows "leaf_next (T' i) = leaf_next (T i)"
proof (cases "i \<in> snd ` set (butlast K)")
  case True
  then obtain l where "l < length (butlast K)" "snd (butlast K ! l) = i" by (auto simp: in_set_conv_nth)
  then have l: "Suc l < length K" "snd (K ! l) = i" by (auto simp: nth_butlast)
  have eq: "leaf_next (T' i) = (if n \<le> snd (K ! Suc l) \<or> n \<le> i then snd (K ! Suc l) else leaf_next (T i))"
    using r l unfolding relinks_def by blast
  have K: "bt_sorted K" and mem: "\<And>k j. (k, j) \<in> set K \<Longrightarrow> j < n \<and> leaf_key (T j) = k \<or> (\<exists>m < length W. j = n + m \<and> W ! m = k)"
    using r by (auto simp: relinks_def)
  have ki: "fst (K ! l) = leaf_key (T i)" using mem [of "fst (K ! l)" "snd (K ! l)"] l i by auto
  have "snd (K ! Suc l) < n"
  proof (rule ccontr)
    let ?k = "fst (K ! Suc l)"
    assume "\<not> snd (K ! Suc l) < n"
    then have k: "?k \<in> set W" using mem [of ?k "snd (K ! Suc l)"] l(1) nth_mem by fastforce
    have gt: "leaf_key (T i) < ?k" using K l(1) ki sorted_wrt_nth_less [of "(<)" "map fst K" l "Suc l"] by (simp add: bt_sorted_def)
    obtain p where p: "p < n" "leaf_key (T p) < ?k" "?k < leaf_key (T (leaf_next (T p)))" "(leaf_key (T p), p) \<in> set K"
      using r k by (auto simp: relinks_def)
    have "leaf_key (T p) \<le> leaf_key (T i)" using sorted_between [OF K l(1) p(4)] ki p(2) by auto
    then have "leaf_key (T p) = leaf_key (T i)" using storage_adjacent [OF T p(1,2) i] gt p(3) by auto
    then have "p = i" using storage_inj [OF T p(1) i] by blast
    then show False using no [OF k] p by simp
  qed
  then show ?thesis using eq i by simp
qed (use r i in \<open>simp add: relinks_def\<close>)

lemma old_linked:
  assumes T: "storage_tree n T" and r: "relinks n T K W T'" and i: "i < n" "leaf_key (T i) \<noteq> - 1"
  shows "leaf_next (T' i) < n + length W \<and> adjacent (n + length W) T' i (leaf_next (T' i))"
proof -
  let ?q = "leaf_next (T i)"
  have q: "?q < n" and adj: "adjacent n T i ?q" using T i by (auto simp: storage_tree_def)
  have key: "\<And>i. i < n \<Longrightarrow> leaf_key (T' i) = leaf_key (T i)" "\<And>j. j < length W \<Longrightarrow> leaf_key (T' (n + j)) = W ! j"
    using r by (auto simp: relinks_def)
  have cases_key: "l < n \<and> leaf_key (T' l) = leaf_key (T l) \<or> leaf_key (T' l) \<in> set W" if "l < n + length W" for l
    using that key(1) [of l] key(2) [of "l - n"] by (cases "l < n") auto
  show ?thesis
  proof (cases "\<exists>k \<in> set W. leaf_key (T i) < k \<and> k < leaf_key (T ?q)")
    case False
    then have "leaf_next (T' i) = ?q" using old_link_kept [OF T r i(1)] by blast
    then show ?thesis using False adj q i key(1) cases_key unfolding adjacent_def by (metis trans_less_add1)
  next
    case True
    then obtain k where k: "k \<in> set W" "leaf_key (T i) < k" "k < leaf_key (T ?q)" by blast
    have K: "bt_sorted K" "(leaf_key (T i), i) \<in> set K" using r new_key_left [OF T r k(1) i(1) k(2,3)] by (auto simp: relinks_def)
    have new: "\<And>k. k \<in> set W \<Longrightarrow> \<exists>j. (k, j) \<in> set K" using relinks_new [OF r] by blast
    obtain l where l: "Suc l < length K" "K ! l = (leaf_key (T i), i)" "leaf_key (T i) < fst (K ! Suc l)" "fst (K ! Suc l) \<le> k"
      using sorted_succ [OF K(1,2) _ k(2)] new [OF k(1)] by blast
    let ?k2 = "fst (K ! Suc l)" and ?j2 = "snd (K ! Suc l)"
    have "?j2 < n \<and> leaf_key (T ?j2) = ?k2 \<or> (\<exists>m < length W. ?j2 = n + m \<and> W ! m = ?k2)"
      using relinks_mem [OF r, of ?k2 ?j2] nth_mem [OF l(1)] by simp
    moreover have "\<not> (?j2 < n \<and> leaf_key (T ?j2) = ?k2)" using storage_adjacent [OF T i(1) k(2), of ?j2] l(3,4) k(3) by auto
    ultimately obtain m where m: "m < length W" "?j2 = n + m" "W ! m = ?k2" by blast
    have "leaf_next (T' i) = ?j2" using r l m(2) by (auto simp: relinks_def)
    moreover have "adjacent (n + length W) T' i ?j2"
      unfolding adjacent_def
    proof (intro conjI allI impI)
      show "leaf_key (T' i) < leaf_key (T' ?j2)" using key i m l(3) by simp
      fix x assume "x < n + length W"
      then have "leaf_key (T' x) \<le> leaf_key (T i) \<or> ?k2 \<le> leaf_key (T' x)"
        using cases_key [of x] storage_adjacent [OF T i(1) k(2), of x] new [of "leaf_key (T' x)"] sorted_between [OF K(1) l(1), of "leaf_key (T' x)"] l(2,4) k(3)
        by fastforce
      then show "\<not> (leaf_key (T' i) < leaf_key (T' x) \<and> leaf_key (T' x) < leaf_key (T' ?j2))" using key i m by auto
    qed
    ultimately show ?thesis using m by simp
  qed
qed

lemma relinks_key:
  assumes "relinks n T K W T'"
  shows "i < n \<Longrightarrow> leaf_key (T' i) = leaf_key (T i)" and "j < length W \<Longrightarrow> leaf_key (T' (n + j)) = W ! j"
  using assms by (auto simp: relinks_def)

lemma relinks_new_mem:
  assumes r: "relinks n T K W T'" and x: "\<not> x < n" "x < n + length W"
  shows "(leaf_key (T' x), x) \<in> set K"
proof -
  have "\<forall>j < length W. (W ! j, n + j) \<in> set K" using r by (simp add: relinks_def)
  moreover have "x - n < length W" using x by linarith
  ultimately have "(W ! (x - n), n + (x - n)) \<in> set K" by blast
  then show ?thesis using relinks_key(2) [OF r, of "x - n"] x by simp
qed

lemma new_linked:
  assumes T: "storage_tree n T" and r: "relinks n T K W T'" and i: "i < length W"
  shows "leaf_next (T' (n + i)) < n + length W \<and> adjacent (n + length W) T' (n + i) (leaf_next (T' (n + i)))"
proof -
  let ?k = "W ! i"
  note key = relinks_key [OF r]
  have kW: "?k \<in> set W" using i by simp
  obtain p where p: "p < n" "leaf_key (T p) < ?k" "?k < leaf_key (T (leaf_next (T p)))" "(leaf_key (T (leaf_next (T p))), leaf_next (T p)) \<in> set K"
    using r kW by (auto simp: relinks_def)
  have K: "bt_sorted K" "(?k, n + i) \<in> set K" using r i by (auto simp: relinks_def)
  obtain l where l: "Suc l < length K" "K ! l = (?k, n + i)" "?k < fst (K ! Suc l)" "fst (K ! Suc l) \<le> leaf_key (T (leaf_next (T p)))"
    using sorted_succ [OF K p(4,3)] by blast
  let ?k2 = "fst (K ! Suc l)" and ?j2 = "snd (K ! Suc l)"
  have "leaf_next (T' (n + i)) = ?j2" using r l(1,2) by (auto simp: relinks_def)
  moreover have j2: "?j2 < n + length W" "leaf_key (T' ?j2) = ?k2"
    using relinks_mem [OF r, of ?k2 ?j2] nth_mem [OF l(1)] key by auto
  moreover have "adjacent (n + length W) T' (n + i) ?j2"
    unfolding adjacent_def
  proof (intro conjI allI impI)
    show "leaf_key (T' (n + i)) < leaf_key (T' ?j2)" using key(2) [OF i] j2 l(3) by simp
    fix x assume x: "x < n + length W"
    have "leaf_key (T' x) \<le> ?k \<or> ?k2 \<le> leaf_key (T' x)"
    proof (cases "x < n")
      case True
      then show ?thesis using storage_adjacent [OF T p(1,2) True] key(1) [OF True] p(2) l(4) by auto
    next
      case False
      then have "(leaf_key (T' x), x) \<in> set K" using relinks_new_mem [OF r _ x] by blast
      then show ?thesis using sorted_between [OF K(1) l(1)] l(2) by fastforce
    qed
    then show "\<not> (leaf_key (T' (n + i)) < leaf_key (T' x) \<and> leaf_key (T' x) < leaf_key (T' ?j2))" using key(2) [OF i] j2(2) by auto
  qed
  ultimately show ?thesis by simp
qed

lemma relinks_inj:
  assumes T: "storage_tree n T" and r: "relinks n T K W T'"
  shows "inj_on (\<lambda>i. leaf_key (T' i)) {..<n + length W}"
proof (rule inj_onI)
  note key = relinks_key [OF r]
  have K: "bt_sorted K" using r by (simp add: relinks_def)
  have fresh: "leaf_key (T' x) \<noteq> leaf_key (T' y)" if "x < n" "\<not> y < n" "y < n + length W" for x y
    using new_key_fresh [OF T r _ that(1), of "W ! (y - n)"] key(1) [OF that(1)] key(2) [of "y - n"] that(2,3) by simp
  fix x y assume xy: "x \<in> {..<n + length W}" "y \<in> {..<n + length W}" "leaf_key (T' x) = leaf_key (T' y)"
  consider "x < n" "y < n" | "\<not> x < n" "\<not> y < n" using fresh [of x y] fresh [of y x] xy by fastforce
  then show "x = y"
  proof cases
    case 1
    then show ?thesis using xy(3) key(1) storage_inj [OF T] by simp
  next
    case 2
    then have "(leaf_key (T' x), x) \<in> set K" "(leaf_key (T' x), y) \<in> set K"
      using relinks_new_mem [OF r, of x] relinks_new_mem [OF r, of y] xy by simp_all
    then show ?thesis using bt_map_of [OF K] by (metis option.inject)
  qed
qed

lemma storage_tree_relinked:
  assumes T: "storage_tree n T" and r: "relinks n T K W T'"
  shows "storage_tree (n + length W) T'"
proof -
  note key = relinks_key [OF r]
  have "leaf_next (T' i) < n + length W \<and> (leaf_key (T' i) = - 1 \<or> adjacent (n + length W) T' i (leaf_next (T' i)))" if "i < n + length W" for i
  proof (cases "i < n")
    case False
    then show ?thesis using new_linked [OF T r, of "i - n"] that by simp
  next
    case True
    show ?thesis
    proof (cases "leaf_key (T i) = - 1")
      case False
      then show ?thesis using old_linked [OF T r True] by blast
    next
      case max: True
      have "leaf_next (T i) < n" using T True by (simp add: storage_tree_def)
      moreover have "leaf_next (T' i) = leaf_next (T i)"
        by (rule old_link_kept [OF T r True]) (simp add: max word_n1_ge leD)
      ultimately show ?thesis using key(1) [OF True] max by simp
    qed
  qed
  moreover have "MIN_KEY_LEAF_MARKER_IDX < n" "MAX_KEY_LEAF_MARKER_IDX < n"
    using T by (auto simp: storage_tree_def MIN_KEY_LEAF_MARKER_IDX_def MAX_KEY_LEAF_MARKER_IDX_def)
  ultimately show ?thesis using T relinks_inj [OF T r] key(1) unfolding storage_tree_def by simp
qed

section \<open>Contents\<close>

lemma contents_written:
  assumes T: "storage_tree n T" and T': "storage_tree (n + length W) T'"
    and old: "\<And>i. i < n \<Longrightarrow> leaf_key (T' i) = leaf_key (T i) \<and>
      leaf_value (T' i) = (case U (leaf_key (T i)) of Some v \<Rightarrow> v | None \<Rightarrow> leaf_value (T i))"
    and new: "\<And>j. j < length W \<Longrightarrow> leaf_key (T' (n + j)) = fst (W ! j) \<and> leaf_value (T' (n + j)) = snd (W ! j)"
    and U: "dom U \<subseteq> dom (tree_contents n T)"
  shows "tree_contents (n + length W) T' = tree_contents n T ++ U ++ map_of W"
proof
  fix k
  consider j where "j < length W" "fst (W ! j) = k" | "k \<notin> fst ` set W"
    using in_set_conv_nth [of k "map fst W"] by auto
  then show "tree_contents (n + length W) T' k = (tree_contents n T ++ U ++ map_of W) k"
  proof cases
    case (1 j)
    have "distinct (map fst W)"
      unfolding distinct_conv_nth
    proof (intro allI impI)
      fix a b assume ab: "a < length (map fst W)" "b < length (map fst W)" "a \<noteq> b"
      then have "leaf_key (T' (n + a)) \<noteq> leaf_key (T' (n + b))" using storage_inj [OF T', of "n + a" "n + b"] by auto
      then show "map fst W ! a \<noteq> map fst W ! b" using new [of a] new [of b] ab(1,2) by simp
    qed
    moreover have "(k, snd (W ! j)) \<in> set W" using nth_mem [OF 1(1)] unfolding 1(2) [symmetric] by simp
    ultimately have "map_of W k = Some (snd (W ! j))" by simp
    moreover have "tree_contents (n + length W) T' k = Some (snd (W ! j))"
      unfolding contents_Some [OF T'] using 1 new [of j] by (intro exI [of _ "n + j"]) simp
    ultimately show ?thesis by simp
  next
    case 2
    then have W: "map_of W k = None" by (simp add: map_of_eq_None_iff)
    show ?thesis
    proof (cases "\<exists>i < n. leaf_key (T i) = k")
      case True
      then obtain i where i: "i < n" "leaf_key (T i) = k" by blast
      have "tree_contents n T k = Some (leaf_value (T i))" unfolding contents_Some [OF T] using i by blast
      moreover have "tree_contents (n + length W) T' k = Some (leaf_value (T' i))"
        unfolding contents_Some [OF T'] using i old [OF i(1)] by (intro exI [of _ i]) simp
      ultimately show ?thesis using W old [OF i(1)] i(2) by (cases "U k") (simp_all add: map_add_def)
    next
      case False
      then have "tree_contents n T k = None" by (simp add: contents_None)
      moreover from this have "U k = None" using U by blast
      moreover have "leaf_key (T' i) \<noteq> k" if "i < n + length W" for i
      proof (cases "i < n")
        case True
        then show ?thesis using False old by simp
      next
        case False
        then have "i - n < length W" using that by simp
        then have "fst (W ! (i - n)) \<in> fst ` set W" "leaf_key (T' i) = fst (W ! (i - n))" using new [of "i - n"] False by simp_all
        then show ?thesis using 2 by metis
      qed
      then have "tree_contents (n + length W) T' k = None" by (simp add: contents_None)
      ultimately show ?thesis using W by (simp add: map_add_def)
    qed
  qed
qed

end
