(* ===== verification/Flat_Tree_Sound.thy ===== *)
theory Flat_Tree_Sound
  imports Flat_Tree_Links
begin

text \<open>
  The block's reads and writes against the committed state: if \<open>verify_and_apply_batch\<close> returns, every read
  was right and the new commitment is that of the state after the writes, whatever the oracle answered.
\<close>

section \<open>What has been gathered\<close>

definition batch_entries :: "(bytes \<Rightarrow> bytes32) \<Rightarrow> (warm_storage_key \<times> storage_diff) list \<Rightarrow> batch_entry list" where
  "batch_entries blake2s source =
     map (\<lambda>(k, v). (flat_key_of blake2s k, v)) (filter (\<lambda>(_, v). is_read v) source) @
     map (\<lambda>(k, v). (flat_key_of blake2s k, v)) (filter (\<lambda>(_, v). \<not> is_read v) source)"

definition any_new :: "batch_entry list \<Rightarrow> bool" where
  "any_new es \<longleftrightarrow> (\<exists>(k, v) \<in> set es. diff_is_new_storage_slot v)"

definition with_rightmost :: "nat \<Rightarrow> ('h, 'o) batch_state \<Rightarrow> ('h, 'o) batch_state \<Rightarrow> bool" where
  "with_rightmost saved s t \<longleftrightarrow> 0 < saved \<and>
     (if leaf_at s (saved - 1) = None
      then \<exists>p o'. t = s\<lparr>batch_oracle := o', index_to_leaf_cache := bt_insert (saved - 1) (p, None) (index_to_leaf_cache s)\<rparr>
      else t = s)"

definition settled :: "nat \<Rightarrow> batch_entry list \<Rightarrow> ('h, 'o) batch_state \<Rightarrow> ('h, 'o) batch_state \<Rightarrow> bool" where
  "settled saved es s t \<longleftrightarrow>
     (if any_new es
      then \<exists>u. relinked saved (map snd (key_to_index_cache s)) s u \<and> (if new_list es = [] then t = u else with_rightmost saved u t)
      else t = s)"

lemma load_rightmost_result: "returns (load_rightmost Or N saved) (\<lambda>_ t. with_rightmost saved s t) s"
  by (auto simp: load_rightmost_def cached_leaf_def insert_leaf_def with_rightmost_def intro!: returns_oracle) blast

lemma gather_result:
  assumes "\<forall>(k, v) \<in> set source. flat_key_of blake2s k \<noteq> 0"
    and "key_to_index_cache s0 = []" "index_to_leaf_cache s0 = []" "batch_new_writes s0 = []" "batch_next_free_slot s0 = saved"
  defines "es \<equiv> batch_entries blake2s source"
  shows "returns (gather_batch blake2s Or N saved source) (\<lambda>_ t. \<exists>s. batch_inv saved es s \<and> settled saved es s t) s0"
proof -
  let ?g = "\<lambda>(k, v). (flat_key_of blake2s k, v)"
  let ?R = "filter (\<lambda>(_, v). is_read v) source" and ?W = "filter (\<lambda>(_, v). \<not> is_read v) source"
  have es: "es = ([] @ map ?g ?R) @ map ?g ?W" by (simp add: es_def batch_entries_def)
  have start: "batch_inv saved [] s0"
    using assms(2-5) by (simp add: batch_inv_def books_def booked_def update_list_def new_list_def)
  have R: "returns (for_each (\<lambda>(k, v). verify_read Or N saved (flat_key_of blake2s k) v) ?R) (\<lambda>_ t. batch_inv saved ([] @ map ?g ?R) t) s0"
    by (rule returns_for_each [where I = "batch_inv saved"]) (use start assms(1) in \<open>auto intro!: verify_read_step\<close>)
  have W: "returns (for_each (\<lambda>(k, v). batch_write Or N saved (flat_key_of blake2s k) v) ?W) (\<lambda>_ t. batch_inv saved es t) s"
    if "batch_inv saved ([] @ map ?g ?R) s" for s
    unfolding es by (rule returns_for_each [where I = "batch_inv saved"]) (use that assms(1) in \<open>auto intro!: batch_write_step\<close>)
  have nr: "length (filter (\<lambda>(_, v). diff_is_new_storage_slot v) ?R) + length (filter (\<lambda>(_, v). diff_is_new_storage_slot v) ?W) = 0 \<longleftrightarrow> \<not> any_new es"
    unfolding es any_new_def by (auto simp: filter_empty_conv)
  have nw: "length (filter (\<lambda>(_, v). diff_is_new_storage_slot v) ?W) > 0 \<longleftrightarrow> new_list es \<noteq> []"
    unfolding es new_list_def by (auto simp: filter_empty_conv)
  have rest: "returns (if length (filter (\<lambda>(_, v). diff_is_new_storage_slot v) ?R) + length (filter (\<lambda>(_, v). diff_is_new_storage_slot v) ?W) = 0
      then ret () else and_then (relink saved) (\<lambda>_.
        if length (filter (\<lambda>(_, v). diff_is_new_storage_slot v) ?W) > 0 then load_rightmost Or N saved else ret ()))
      (\<lambda>_ t. \<exists>s. batch_inv saved es s \<and> settled saved es s t) s" if s: "batch_inv saved es s" for s
  proof (cases "any_new es")
    case True
    have "bt_sorted (index_to_leaf_cache s)" using s by (simp add: batch_inv_def books_def)
    then have "returns (relink saved) (\<lambda>_. returns (if new_list es \<noteq> [] then load_rightmost Or N saved else ret ())
        (\<lambda>_ t. \<exists>s. batch_inv saved es s \<and> settled saved es s t)) s"
    proof (rule returns_mono [OF relink_relinked])
      fix u assume "relinked saved (map snd (key_to_index_cache s)) s u"
      then show "returns (if new_list es \<noteq> [] then load_rightmost Or N saved else ret ())
        (\<lambda>_ t. \<exists>s. batch_inv saved es s \<and> settled saved es s t) u"
        using True s by (auto simp: settled_def intro!: returns_mono [OF load_rightmost_result])
    qed
    then show ?thesis unfolding nr nw using True by simp
  next
    case False
    then show ?thesis unfolding nr using s by (auto simp: settled_def)
  qed
  show ?thesis unfolding gather_batch_def Let_def
    by (simp only: returns_simps) (rule returns_mono [OF R], rule returns_mono [OF W], assumption, rule rest)
qed

lemma same_proof: "map_option fst x = map_option fst y \<Longrightarrow> y = Some (p, m) \<Longrightarrow> \<exists>m'. x = Some (p, m')"
  by (cases x) auto

lemma same_frame_more: "same_frame s t \<Longrightarrow> more_leaves s t"
  unfolding more_leaves_def by (intro allI impI, rule same_proof) (auto simp: same_frame_def)

lemma same_frame_back:
  assumes "same_frame s t" and "leaf_at t i = Some (p, m)"
  shows "\<exists>m'. leaf_at s i = Some (p, m')"
proof (rule same_proof)
  show "map_option fst (leaf_at s i) = map_option fst (leaf_at t i)" using assms(1) by (simp add: same_frame_def)
qed (fact assms(2))

lemma new_list_any: "new_list es \<noteq> [] \<Longrightarrow> any_new es"
  by (auto simp: new_list_def any_new_def filter_empty_conv)

definition batch_grown :: "nat \<Rightarrow> batch_entry list \<Rightarrow> ('h, 'o) batch_state \<Rightarrow> ('h, 'o) batch_state \<Rightarrow> bool" where
  "batch_grown saved es s t \<longleftrightarrow>
     more_leaves s t \<and> bt_sorted (index_to_leaf_cache t) \<and> map fst (batch_new_writes t) = map fst (batch_new_writes s) \<and>
     batch_next_free_slot t = batch_next_free_slot s \<and>
     (\<forall>i p m. leaf_at t i = Some (p, m) \<longrightarrow> (\<exists>m'. leaf_at s i = Some (p, m')) \<or> i = saved - 1 \<and> 0 < saved) \<and>
     (new_list es \<noteq> [] \<longrightarrow> 0 < saved \<and> leaf_at t (saved - 1) \<noteq> None)"

lemma rightmost_grown:
  assumes u: "same_frame s u" and t: "with_rightmost saved u t"
  shows "batch_grown saved es s t"
proof (cases "leaf_at u (saved - 1) = None")
  case True
  then obtain p o' where t': "t = u\<lparr>batch_oracle := o', index_to_leaf_cache := bt_insert (saved - 1) (p, None) (index_to_leaf_cache u)\<rparr>"
    using t by (auto simp: with_rightmost_def)
  have so: "bt_sorted (index_to_leaf_cache u)" using u by (simp add: same_frame_def)
  have at: "leaf_at t = (leaf_at u)(saved - 1 \<mapsto> (p, None))" using so by (simp add: t')
  have "more_leaves u t" unfolding more_leaves_def at using True by simp
  then have "more_leaves s t" using same_frame_more [OF u] more_leaves_trans by blast
  moreover have "(\<exists>m'. leaf_at s i = Some (q, m')) \<or> i = saved - 1 \<and> 0 < saved" if "leaf_at t i = Some (q, m)" for i q m
    using that same_frame_back [OF u, of i q m] t unfolding at by (cases "i = saved - 1") (auto simp: with_rightmost_def)
  moreover have "leaf_at t (saved - 1) \<noteq> None" by (simp add: at)
  ultimately show ?thesis using u so t unfolding batch_grown_def by (simp add: t' same_frame_def with_rightmost_def)
next
  case False
  then have [simp]: "t = u" and "0 < saved" using t by (auto simp: with_rightmost_def)
  then show ?thesis using u same_frame_more [OF u] same_frame_back [OF u] False unfolding batch_grown_def by (simp add: same_frame_def)
qed

lemma settled_grown:
  assumes s: "batch_inv saved es s" and t: "settled saved es s t"
  shows "batch_grown saved es s t"
proof (cases "any_new es")
  case True
  then obtain u where u: "same_frame s u" "if new_list es = [] then t = u else with_rightmost saved u t"
    using t by (auto simp: settled_def relinked_def)
  show ?thesis
  proof (cases "new_list es = []")
    case True
    then have "t = u" using u(2) by simp
    then show ?thesis using u(1) same_frame_more [OF u(1)] same_frame_back [OF u(1)] True unfolding batch_grown_def by (simp add: same_frame_def)
  qed (use u rightmost_grown in \<open>simp\<close>)
next
  case False
  then have "t = s" "new_list es = []" using t new_list_any by (auto simp: settled_def)
  then show ?thesis using s by (auto simp: batch_grown_def batch_inv_def books_def)
qed

lemma settled_gathered:
  assumes s: "batch_inv saved es s" and t: "settled saved es s t"
  shows "gathered saved (index_to_leaf_cache t) (batch_new_writes t)"
proof -
  note g = settled_grown [OF s t]
  have b: "books saved (map_of (update_list es)) (new_list es) s" using s by (simp add: batch_inv_def)
  have len: "length (batch_new_writes t) = length (new_list es)"
    using g b unfolding batch_grown_def books_def by (metis diff_add_inverse length_map length_upt)
  have so: "bt_sorted (index_to_leaf_cache t)" using g by (simp add: batch_grown_def)
  have "leaf_key (proof_leaf p) \<noteq> 0" if e: "(i, p, m) \<in> set (index_to_leaf_cache t)" "saved \<le> i" for i p m
  proof -
    have "leaf_at t i = Some (p, m)" using e(1) so by (simp add: bt_map_of)
    then obtain m' where "leaf_at s i = Some (p, m')" using g e(2) unfolding batch_grown_def by fastforce
    then show ?thesis using b e(2) booked_nonzero unfolding books_def by blast
  qed
  moreover have "0 < saved \<and> saved - 1 \<in> fst ` set (index_to_leaf_cache t)" if "batch_new_writes t \<noteq> []"
  proof -
    have "new_list es \<noteq> []" using that len by auto
    then have "0 < saved" "leaf_at t (saved - 1) \<noteq> None" using g by (auto simp: batch_grown_def)
    then show ?thesis using map_of_eq_None_iff by metis
  qed
  ultimately show ?thesis using so len g b unfolding gathered_def batch_grown_def books_def by auto
qed

section \<open>Reads\<close>

text \<open>The state of the batch before and after relinking, and a tree that the joined paths lead to.\<close>

definition audited ::
    "'h tree_hasher \<Rightarrow> (nat \<Rightarrow> flat_storage_leaf) \<Rightarrow> nat \<Rightarrow> nat \<Rightarrow> batch_entry list \<Rightarrow>
     ('h, 'o) batch_state \<Rightarrow> ('h, 'o) batch_state \<Rightarrow> 'h join_node \<Rightarrow> bool" where
  "audited H T N saved es s t n \<longleftrightarrow>
     batch_inv saved es s \<and> settled saved es s t \<and> storage_tree saved T \<and>
     checked H T N saved (index_to_leaf_cache t) (batch_new_writes t) n"

lemma audited_booked:
  "audited H T N saved es s t n \<Longrightarrow> booked saved (map_of (update_list es)) (new_list es) (index_of s) (leaf_at s)"
  by (simp add: audited_def batch_inv_def books_def)

lemma audited_leaf:
  assumes a: "audited H T N saved es s t n" and i: "leaf_at t i = Some (p, m) \<or> leaf_at s i = Some (p, m)"
  shows "node_index n * 2 ^ N \<le> i \<and> i - node_index n * 2 ^ N < saved \<and> proof_leaf p = T (i - node_index n * 2 ^ N)"
proof -
  have g: "batch_grown saved es s t" using a settled_grown by (auto simp: audited_def)
  then obtain m' where "leaf_at t i = Some (p, m')" using i unfolding batch_grown_def more_leaves_def by blast
  then have "(i, p, m') \<in> set (index_to_leaf_cache t)" using g by (simp add: batch_grown_def bt_map_of)
  with a show ?thesis unfolding audited_def by (blast dest: checked_leaf)
qed

lemma audited_between:
  assumes a: "audited H T N saved es s t n" and k: "between saved k s"
  shows "node_index n = 0 \<and> (\<exists>i < saved. leaf_at s i \<noteq> None \<and> leaf_at s (leaf_next (T i)) \<noteq> None \<and>
     leaf_key (T i) < k \<and> k < leaf_key (T (leaf_next (T i))))"
proof -
  obtain i p m q m' where i: "i < saved" "leaf_at s i = Some (p, m)" "leaf_at s (leaf_next (proof_leaf p)) = Some (q, m')"
    "leaf_key (proof_leaf p) < k" "k < leaf_key (proof_leaf q)"
    using k by (auto simp: between_def)
  have c: "joins H N saved (index_to_leaf_cache t) (batch_new_writes t) n" "saved \<le> 2 ^ N" and g: "batch_grown saved es s t"
    using a settled_grown by (auto simp: audited_def checked_def root_of_def)
  have "leaf_at t i \<noteq> None" using g i(2) unfolding batch_grown_def more_leaves_def by blast
  then have "i \<in> fst ` set (index_to_leaf_cache t)" by (metis map_of_eq_None_iff)
  then have "i div 2 ^ N = node_index n" using joins_block [OF c(1)] by blast
  then have n: "node_index n = 0" using i(1) c(2) by (metis div_less order_less_le_trans)
  moreover have "proof_leaf p = T i" "proof_leaf q = T (leaf_next (proof_leaf p))"
    using audited_leaf [OF a, of i p m] audited_leaf [OF a, of _ q m'] i n by auto
  ultimately show ?thesis using i by auto
qed

text \<open>Every entry of the batch was right about the state before the batch.\<close>

lemma audited_entry:
  assumes a: "audited H T N saved es s t n" and k: "(k, v) \<in> set es"
  shows "tree_contents saved T k = (if diff_is_new_storage_slot v then None else Some (diff_initial_value v))"
proof -
  have T: "storage_tree saved T" and e: "entry_checked saved k v s" using a k by (auto simp: audited_def batch_inv_def)
  show ?thesis
  proof (cases "diff_is_new_storage_slot v")
    case True
    then have "between saved k s" using e by (simp add: entry_checked_def)
    then obtain i where i: "i < saved" "leaf_key (T i) < k" "k < leaf_key (T (leaf_next (T i)))"
      using audited_between [OF a] by blast
    have "leaf_key (T l) \<noteq> k" if "l < saved" for l using storage_adjacent [OF T i(1,2) that] i(2,3) by auto
    then show ?thesis using True by (simp add: contents_None)
  next
    case False
    then obtain i p m where i: "leaf_at s i = Some (p, m)" "leaf_key (proof_leaf p) = k" "leaf_value (proof_leaf p) = diff_initial_value v"
      using e by (auto simp: entry_checked_def)
    have "tree_contents saved T k = Some (diff_initial_value v)"
      unfolding contents_Some [OF T] using audited_leaf [OF a, of i p m] i by auto
    then show ?thesis using False by simp
  qed
qed

section \<open>Writes\<close>

definition base_leaf :: "batch_entry list \<Rightarrow> (nat \<Rightarrow> flat_storage_leaf) \<Rightarrow> nat \<Rightarrow> flat_storage_leaf" where
  "base_leaf es T k =
     (case map_of (update_list es) (leaf_key (T k)) of Some v \<Rightarrow> (T k)\<lparr>leaf_value := v\<rparr> | None \<Rightarrow> T k)"

lemma base_leaf_simps [simp]:
  "leaf_key (base_leaf es T k) = leaf_key (T k)" "leaf_next (base_leaf es T k) = leaf_next (T k)"
  "leaf_value (base_leaf es T k) = (case map_of (update_list es) (leaf_key (T k)) of Some v \<Rightarrow> v | None \<Rightarrow> leaf_value (T k))"
  by (simp_all add: base_leaf_def split: option.splits)

lemma audited_effective:
  assumes a: "audited H T N saved es s t n" and i: "leaf_at s i = Some (p, m)"
  shows "effective saved s i = base_leaf es T (i - node_index n * 2 ^ N)"
proof -
  have "m = map_option (\<lambda>v. \<lparr>upd_value = Some v, upd_next = None\<rparr>) (map_of (update_list es) (leaf_key (proof_leaf p)))"
    using booked_entry [OF audited_booked [OF a] i] by blast
  moreover have "proof_leaf p = T (i - node_index n * 2 ^ N)" using audited_leaf [OF a, of i p m] i by blast
  ultimately show ?thesis using i
    by (cases "map_of (update_list es) (leaf_key (proof_leaf p))") (simp_all add: effective_def base_leaf_def updated_leaf_def)
qed

lemma audited_uncached:
  assumes a: "audited H T N saved es s t n" and k: "k < saved" "leaf_at s (k + node_index n * 2 ^ N) = None"
  shows "base_leaf es T k = T k"
proof (cases "map_of (update_list es) (leaf_key (T k))")
  case (Some v)
  then obtain i p m where i: "leaf_at s i = Some (p, m)" "leaf_key (proof_leaf p) = leaf_key (T k)"
    using booked_update [OF audited_booked [OF a]] by blast
  note l = audited_leaf [OF a, of i p m]
  have "storage_tree saved T" using a by (simp add: audited_def)
  then have "i - node_index n * 2 ^ N = k" using storage_inj [of saved T "i - node_index n * 2 ^ N" k] l i k(1) by simp
  then have "i = k + node_index n * 2 ^ N" using l i(1) by auto
  then show ?thesis using i(1) k(2) by simp
qed (simp add: base_leaf_def)

text \<open>The new tree is made of the effective leaves.\<close>

lemma audited_ws:
  assumes "audited H T N saved es s t n"
  shows "fst ` set (batch_new_writes t) = {saved..<saved + length (new_list es)} \<and> length (batch_new_writes t) = length (new_list es)"
proof -
  have g: "batch_grown saved es s t" "gathered saved (index_to_leaf_cache t) (batch_new_writes t)"
    using assms settled_grown settled_gathered by (auto simp: audited_def)
  have "map fst (batch_new_writes t) = [saved..<saved + length (new_list es)]"
    using g(1) assms by (simp add: batch_grown_def audited_def batch_inv_def books_def)
  then have "length (batch_new_writes t) = length (new_list es)" by (metis diff_add_inverse length_map length_upt)
  then show ?thesis using gathered_ws [OF g(2)] by simp
qed

lemma new_tree_old:
  assumes a: "audited H T N saved es s t n" and i: "leaf_at t i = Some (p, m)"
  defines "b \<equiv> node_index n * 2 ^ N"
  shows "new_tree (index_to_leaf_cache t) (batch_new_writes t) b T (i - b) = effective saved t i"
proof -
  have l: "b \<le> i" "i - b < saved" "proof_leaf p = T (i - b)" using audited_leaf [OF a, of i p m] i by (auto simp: b_def)
  have "map_of (batch_new_writes t) (i - b) = None" using audited_ws [OF a] l(2) by (auto simp: map_of_eq_None_iff)
  then show ?thesis using i l by (cases m) (simp_all add: new_tree_def effective_def)
qed

lemma new_tree_rest:
  assumes a: "audited H T N saved es s t n" and k: "leaf_at t (k + node_index n * 2 ^ N) = None" "k < saved \<or> saved + length (new_list es) \<le> k"
  shows "new_tree (index_to_leaf_cache t) (batch_new_writes t) (node_index n * 2 ^ N) T k = T k"
proof -
  have "map_of (batch_new_writes t) k = None" using audited_ws [OF a] k(2) by (auto simp: map_of_eq_None_iff)
  then show ?thesis using k by (simp add: new_tree_def)
qed

lemma new_tree_new:
  assumes a: "audited H T N saved es s t n" and k: "saved \<le> k" "k < saved + length (new_list es)" and b: "node_index n = 0"
  shows "new_tree (index_to_leaf_cache t) (batch_new_writes t) 0 T k = effective saved t k \<and> leaf_at t k = None"
proof -
  let ?ws = "batch_new_writes t"
  have c: "checked H T N saved (index_to_leaf_cache t) ?ws n" using a by (simp add: audited_def)
  then have fst: "map fst ?ws = [saved..<saved + length ?ws]" by (simp add: checked_def gathered_def)
  have len: "length ?ws = length (new_list es)" using audited_ws [OF a] by blast
  then have "fst (?ws ! (k - saved)) = k" using arg_cong [OF fst, of "\<lambda>xs. xs ! (k - saved)"] k by simp
  then have mem: "(k, snd (?ws ! (k - saved))) \<in> set ?ws" using nth_mem [of "k - saved" ?ws] k len by (metis diff_less_mono le_add_diff_inverse less_diff_conv2 add_diff_cancel_left' prod.collapse)
  from checked_new [OF c mem] show ?thesis using k b by (simp add: new_tree_def effective_def)
qed

text \<open>The batch grows the tree: the new leaves come after the old ones, and all values are updated.\<close>

definition grows_tree :: "nat \<Rightarrow> batch_entry list \<Rightarrow> (nat \<Rightarrow> flat_storage_leaf) \<Rightarrow> (nat \<Rightarrow> flat_storage_leaf) \<Rightarrow> bool" where
  "grows_tree saved es T T' \<longleftrightarrow>
     (\<forall>i < saved. leaf_key (T' i) = leaf_key (T i) \<and> leaf_value (T' i) = leaf_value (base_leaf es T i)) \<and>
     (\<forall>j < length (new_list es). leaf_key (T' (saved + j)) = fst (new_list es ! j) \<and> leaf_value (T' (saved + j)) = snd (new_list es ! j)) \<and>
     (\<forall>k \<ge> saved + length (new_list es). T' k = empty_leaf) \<and> storage_tree (saved + length (new_list es)) T'"

lemma audited_beyond:
  assumes a: "audited H T N saved es s t n" and k: "saved \<le> k"
  shows "leaf_at t (k + node_index n * 2 ^ N) = None \<and> T k = empty_leaf"
proof -
  have "leaf_at t (k + node_index n * 2 ^ N) = None"
  proof (rule ccontr)
    assume "leaf_at t (k + node_index n * 2 ^ N) \<noteq> None"
    then obtain p m where "leaf_at t (k + node_index n * 2 ^ N) = Some (p, m)" by auto
    then show False using audited_leaf [OF a, of "k + node_index n * 2 ^ N" p m] k by simp
  qed
  then show ?thesis using a k by (auto simp: audited_def checked_def root_of_def)
qed

lemma grows_without_new:
  assumes a: "audited H T N saved es s t n" and no: "\<not> any_new es"
  shows "grows_tree saved es T (new_tree (index_to_leaf_cache t) (batch_new_writes t) (node_index n * 2 ^ N) T)" (is "grows_tree saved es T ?T'")
proof -
  have t: "t = s" and W: "new_list es = []" using a no new_list_any by (auto simp: audited_def settled_def)
  have old: "?T' k = base_leaf es T k" if "k < saved" for k
  proof (cases "leaf_at s (k + node_index n * 2 ^ N)")
    case None
    then show ?thesis using new_tree_rest [OF a, of k] audited_uncached [OF a that] t that by simp
  next
    case (Some e)
    then obtain p m where e: "leaf_at s (k + node_index n * 2 ^ N) = Some (p, m)" by (cases e) auto
    then show ?thesis using new_tree_old [OF a, of "k + node_index n * 2 ^ N" p m] audited_effective [OF a e] t by simp
  qed
  have "?T' k = empty_leaf" if "saved \<le> k" for k
    using new_tree_rest [OF a, of k] audited_beyond [OF a that] that W by simp
  moreover have "storage_tree saved T" using a by (simp add: audited_def)
  then have "storage_tree saved ?T'"
    using old unfolding storage_tree_def adjacent_def inj_on_def MIN_KEY_LEAF_MARKER_IDX_def MAX_KEY_LEAF_MARKER_IDX_def
    by (simp add: Ball_def)
  ultimately show ?thesis using old W unfolding grows_tree_def by simp
qed

lemma chain_keeps: "leaf_key (chain saved fresh is f i) = leaf_key (f i) \<and> leaf_value (chain saved fresh is f i) = leaf_value (f i)"
  by (induction saved fresh "is" f arbitrary: i rule: chain.induct) (auto simp: link_to_def)

lemma effective_rightmost:
  assumes "with_rightmost saved u t" and "bt_sorted (index_to_leaf_cache u)"
  shows "leaf_at u i \<noteq> None \<or> saved \<le> i \<Longrightarrow> effective saved t i = effective saved u i"
    and "leaf_at u i = None \<Longrightarrow> leaf_at t i = Some (p, m) \<Longrightarrow> effective saved t i = proof_leaf p"
  using assms by (auto simp: with_rightmost_def effective_def split: if_splits option.splits)

lemma audited_chain:
  assumes a: "audited H T N saved es s t n" and new: "any_new es"
  defines "T' \<equiv> new_tree (index_to_leaf_cache t) (batch_new_writes t) 0 T"
  shows "node_index n = 0"
    and "leaf_at s i \<noteq> None \<or> saved \<le> i \<and> i < saved + length (new_list es) \<Longrightarrow>
      T' i = chain saved (\<lambda>i. leaf_at s i = None) (map snd (key_to_index_cache s)) (effective saved s) i"
    and "i < saved \<Longrightarrow> leaf_at s i = None \<Longrightarrow> T' i = T i"
proof -
  obtain k v where "(k, v) \<in> set es" "diff_is_new_storage_slot v" using new by (auto simp: any_new_def)
  then have "between saved k s" using a by (auto simp: audited_def batch_inv_def entry_checked_def)
  then show b: "node_index n = 0" using audited_between [OF a] by blast
  obtain u where u: "relinked saved (map snd (key_to_index_cache s)) s u" "t = u \<or> with_rightmost saved u t"
    using a new by (auto simp: audited_def settled_def split: if_splits)
  have T: "storage_tree saved T" and g: "batch_grown saved es s t" using a settled_grown by (auto simp: audited_def)
  have "next_inside saved s"
    unfolding next_inside_def
  proof (intro allI impI)
    fix i p m assume "leaf_at s i = Some (p, m)"
    then show "leaf_next (proof_leaf p) < saved" using audited_leaf [OF a, of i p m] T by (auto simp: storage_tree_def)
  qed
  then have eff: "effective saved u = chain saved (\<lambda>i. leaf_at s i = None) (map snd (key_to_index_cache s)) (effective saved s)"
    and f: "same_frame s u" using u(1) by (auto simp: relinked_def)
  have so: "bt_sorted (index_to_leaf_cache u)" using f by (simp add: same_frame_def)
  have same: "effective saved t i = effective saved u i" if "leaf_at s i \<noteq> None \<or> saved \<le> i"
    using u(2) effective_rightmost(1) [OF _ so, of saved t i] that same_frame_cached [OF f, of i] by auto
  show "T' i = chain saved (\<lambda>i. leaf_at s i = None) (map snd (key_to_index_cache s)) (effective saved s) i"
    if i: "leaf_at s i \<noteq> None \<or> saved \<le> i \<and> i < saved + length (new_list es)"
  proof (cases "leaf_at s i = None")
    case True
    then show ?thesis using new_tree_new [OF a _ _ b, of i] same i eff by (simp add: T'_def)
  next
    case False
    then obtain p m0 where "leaf_at s i = Some (p, m0)" by auto
    then obtain m where "leaf_at t i = Some (p, m)" using g unfolding batch_grown_def more_leaves_def by blast
    then show ?thesis using new_tree_old [OF a, of i p m] same False eff b by (simp add: T'_def)
  qed
  show "T' i = T i" if i: "i < saved" "leaf_at s i = None"
  proof (cases "leaf_at t i")
    case None
    then show ?thesis using new_tree_rest [OF a, of i] i(1) b by (simp add: T'_def)
  next
    case (Some e)
    then obtain p m where e: "leaf_at t i = Some (p, m)" by (cases e) auto
    then have "with_rightmost saved u t" using u(2) same_frame_cached [OF f, of i] i(2) by auto
    then have "effective saved t i = proof_leaf p" using effective_rightmost(2) [OF _ so _ e] same_frame_cached [OF f, of i] i(2) by simp
    then show ?thesis using new_tree_old [OF a e] audited_leaf [OF a, of i p m] e b by (simp add: T'_def)
  qed
qed

lemma audited_keys:
  assumes a: "audited H T N saved es s t n" and b: "node_index n = 0"
  shows "(k, i) \<in> set (key_to_index_cache s) \<longleftrightarrow>
     i < saved \<and> leaf_at s i \<noteq> None \<and> leaf_key (T i) = k \<or> (\<exists>j < length (new_list es). i = saved + j \<and> fst (new_list es ! j) = k)"
proof -
  have "bt_sorted (key_to_index_cache s)" using a by (simp add: audited_def batch_inv_def books_def)
  then have "(k, i) \<in> set (key_to_index_cache s) \<longleftrightarrow> index_of s k = Some i" by (simp add: bt_map_of)
  also have "\<dots> \<longleftrightarrow> (\<exists>p m. leaf_at s i = Some (p, m) \<and> leaf_key (proof_leaf p) = k) \<or> (\<exists>j < length (new_list es). i = saved + j \<and> fst (new_list es ! j) = k)"
    by (rule booked_index [OF audited_booked [OF a]])
  also have "(\<exists>p m. leaf_at s i = Some (p, m) \<and> leaf_key (proof_leaf p) = k) \<longleftrightarrow> i < saved \<and> leaf_at s i \<noteq> None \<and> leaf_key (T i) = k"
  proof (cases "leaf_at s i")
    case (Some e)
    then show ?thesis using audited_leaf [OF a, of i "fst e" "snd e"] b by (cases e) auto
  qed simp
  finally show ?thesis .
qed

lemma audited_distinct:
  assumes a: "audited H T N saved es s t n" and b: "node_index n = 0"
  shows "distinct (map snd (key_to_index_cache s))"
proof -
  have "bt_sorted (key_to_index_cache s)" using a by (simp add: audited_def batch_inv_def books_def)
  then have "distinct (key_to_index_cache s)" using bt_sorted_distinct distinct_map by blast
  moreover have "inj_on snd (set (key_to_index_cache s))"
  proof (rule inj_onI)
    fix x y assume xy: "x \<in> set (key_to_index_cache s)" "y \<in> set (key_to_index_cache s)" "snd x = snd y"
    have "k = k'" if "(k, i) \<in> set (key_to_index_cache s)" "(k', i) \<in> set (key_to_index_cache s)" for k k' i
      using that unfolding audited_keys [OF a b] by auto
    then have "fst x = fst y" using xy by (metis prod.collapse)
    then show "x = y" using xy(3) by (simp add: prod_eq_iff)
  qed
  ultimately show ?thesis by (simp add: distinct_map)
qed

lemma audited_new:
  assumes a: "audited H T N saved es s t n" and b: "node_index n = 0" and j: "j < length (new_list es)"
  shows "leaf_at s (saved + j) = None \<and> effective saved s (saved + j) = new_leaf (new_list es ! j)"
proof -
  have "leaf_at s (saved + j) = None"
  proof (rule ccontr)
    assume "leaf_at s (saved + j) \<noteq> None"
    then obtain p m where "leaf_at s (saved + j) = Some (p, m)" by auto
    then show False using audited_leaf [OF a, of "saved + j" p m] b by simp
  qed
  moreover have "map snd (batch_new_writes s) = map new_leaf (new_list es)" using a by (simp add: audited_def batch_inv_def books_def)
  then have "snd (batch_new_writes s ! j) = new_leaf (new_list es ! j)" using j by (metis length_map nth_map)
  ultimately show ?thesis by (simp add: effective_def)
qed

lemma audited_relinks:
  assumes a: "audited H T N saved es s t n" and new: "any_new es"
  shows "relinks saved T (key_to_index_cache s) (map fst (new_list es)) (new_tree (index_to_leaf_cache t) (batch_new_writes t) 0 T)"
    (is "relinks saved T ?K ?W ?T'")
proof -
  note b = audited_chain(1) [OF a new] and chain = audited_chain(2) [OF a new] and rest = audited_chain(3) [OF a new]
  note keys = audited_keys [OF a b]
  let ?is = "map snd ?K" and ?f = "effective saved s"
  have base: "?f i = base_leaf es T i" if i: "leaf_at s i \<noteq> None" for i
  proof -
    obtain p m where "leaf_at s i = Some (p, m)" using i by auto
    then show ?thesis using audited_effective [OF a] b by simp
  qed
  have key_old: "leaf_key (?T' i) = leaf_key (T i)" if "i < saved" for i
    using chain [of i] rest [OF that] base [of i] chain_keeps by (cases "leaf_at s i = None") simp_all
  have key_new: "leaf_key (?T' (saved + j)) = fst (new_list es ! j)" if "j < length (new_list es)" for j
    using chain [of "saved + j"] audited_new [OF a b that] chain_keeps that by (simp add: new_leaf_def)
  have next_at: "leaf_next (?T' (snd (?K ! l))) =
      (if saved \<le> snd (?K ! Suc l) \<or> saved \<le> snd (?K ! l) then snd (?K ! Suc l) else leaf_next (T (snd (?K ! l))))" if l: "Suc l < length ?K" for l
  proof -
    let ?i = "snd (?K ! l)"
    have "?K ! l \<in> set ?K" using l by simp
    then have i: "?i < saved \<and> leaf_at s ?i \<noteq> None \<or> saved \<le> ?i \<and> ?i < saved + length (new_list es)"
      using keys [of "fst (?K ! l)" ?i] by auto
    then have "leaf_at s ?i = None \<longleftrightarrow> saved \<le> ?i" using audited_new [OF a b, of "?i - saved"] by auto
    moreover have "?T' ?i = link_to saved (leaf_at s ?i = None) (snd (?K ! Suc l)) (?f ?i)"
      using chain [of ?i] i chain_link [OF audited_distinct [OF a b], of l] l by auto
    ultimately show ?thesis using base [of ?i] by (auto simp: link_to_def)
  qed
  have next_other: "leaf_next (?T' i) = leaf_next (T i)" if "i < saved" "i \<notin> snd ` set (butlast ?K)" for i
  proof (cases "leaf_at s i = None")
    case False
    have "i \<notin> set (butlast ?is)" using that(2) by (simp add: map_butlast [symmetric])
    then show ?thesis using chain [of i] chain_other base [OF False] False by simp
  qed (use rest that in simp)
  have near: "\<exists>i < saved. (leaf_key (T i), i) \<in> set ?K \<and> (leaf_key (T (leaf_next (T i))), leaf_next (T i)) \<in> set ?K \<and>
      leaf_key (T i) < k \<and> k < leaf_key (T (leaf_next (T i)))" if k: "k \<in> set ?W" for k
  proof -
    obtain v where "(k, v) \<in> set es" "diff_is_new_storage_slot v" using k by (auto simp: new_list_def)
    then have "between saved k s" using a by (auto simp: audited_def batch_inv_def entry_checked_def)
    then obtain i where i: "i < saved" "leaf_at s i \<noteq> None" "leaf_at s (leaf_next (T i)) \<noteq> None" "leaf_key (T i) < k" "k < leaf_key (T (leaf_next (T i)))"
      using audited_between [OF a] by blast
    have "leaf_next (T i) < saved" using a i(1) by (simp add: audited_def storage_tree_def)
    then show ?thesis using i keys by blast
  qed
  have "bt_sorted ?K" using a by (simp add: audited_def batch_inv_def books_def)
  then show ?thesis
    using key_old key_new next_at next_other near keys unfolding relinks_def by auto
qed

lemma grows_with_new:
  assumes a: "audited H T N saved es s t n" and new: "any_new es"
  shows "grows_tree saved es T (new_tree (index_to_leaf_cache t) (batch_new_writes t) 0 T)" (is "grows_tree saved es T ?T'")
proof -
  note b = audited_chain(1) [OF a new] and chain = audited_chain(2) [OF a new] and rest = audited_chain(3) [OF a new]
  have T: "storage_tree saved T" using a by (simp add: audited_def)
  have old: "leaf_key (?T' i) = leaf_key (T i) \<and> leaf_value (?T' i) = leaf_value (base_leaf es T i)" if i: "i < saved" for i
  proof (cases "leaf_at s i = None")
    case True
    then show ?thesis using rest [OF i] audited_uncached [OF a i] b by simp
  next
    case False
    then obtain p m where "leaf_at s i = Some (p, m)" by auto
    then show ?thesis using chain [of i] audited_effective [OF a] chain_keeps b by simp
  qed
  have news: "leaf_key (?T' (saved + j)) = fst (new_list es ! j) \<and> leaf_value (?T' (saved + j)) = snd (new_list es ! j)"
    if "j < length (new_list es)" for j
    using chain [of "saved + j"] audited_new [OF a b that] chain_keeps that by (simp add: new_leaf_def)
  have "?T' k = empty_leaf" if "saved + length (new_list es) \<le> k" for k
    using new_tree_rest [OF a, of k] audited_beyond [OF a, of k] that b by simp
  then show ?thesis using old news storage_tree_relinked [OF T audited_relinks [OF a new]] by (simp add: grows_tree_def)
qed

lemma audited_grows:
  assumes "audited H T N saved es s t n"
  shows "grows_tree saved es T (new_tree (index_to_leaf_cache t) (batch_new_writes t) (node_index n * 2 ^ N) T)"
  using assms grows_without_new grows_with_new audited_chain(1) by (cases "any_new es") fastforce+

text \<open>The values that a batch writes.\<close>

definition batch_written :: "batch_entry list \<Rightarrow> bytes32 \<rightharpoonup> bytes32" where
  "batch_written es = map_of (map (\<lambda>(k, v). (k, diff_current_value v)) (filter (\<lambda>(_, v). \<not> is_read v) es))"

lemma written_split:
  assumes U: "distinct (map fst (update_list es))" and W: "distinct (map fst (new_list es))"
    and apart: "fst ` set (update_list es) \<inter> fst ` set (new_list es) = {}"
  shows "batch_written es = map_of (update_list es) ++ map_of (new_list es)"
proof
  fix k
  have sets: "set (map (\<lambda>(k, v). (k, diff_current_value v)) (filter (\<lambda>(_, v). \<not> is_read v) es)) = set (update_list es) \<union> set (new_list es)"
    by (auto simp: update_list_def new_list_def)
  show "batch_written es k = (map_of (update_list es) ++ map_of (new_list es)) k"
  proof (cases "batch_written es k")
    case None
    then have "k \<notin> fst ` (set (update_list es) \<union> set (new_list es))" unfolding batch_written_def map_of_eq_None_iff sets .
    then have "map_of (update_list es) k = None" "map_of (new_list es) k = None" by (simp_all add: map_of_eq_None_iff image_Un)
    then show ?thesis using None by (simp add: map_add_def)
  next
    case (Some x)
    then have "(k, x) \<in> set (update_list es) \<or> (k, x) \<in> set (new_list es)" using map_of_SomeD sets unfolding batch_written_def by fastforce
    then show ?thesis
    proof
      assume x: "(k, x) \<in> set (update_list es)"
      then have "k \<notin> fst ` set (new_list es)" using apart by force
      then show ?thesis using Some x U by (simp add: map_add_def map_of_eq_None_iff [symmetric])
    next
      assume "(k, x) \<in> set (new_list es)"
      then show ?thesis using Some W by simp
    qed
  qed
qed

lemma audited_contents:
  assumes a: "audited H T N saved es s t n" and g: "grows_tree saved es T T'"
  shows "tree_contents (saved + length (new_list es)) T' = tree_contents saved T ++ batch_written es"
proof -
  have T: "storage_tree saved T" and T': "storage_tree (saved + length (new_list es)) T'" using a g by (auto simp: audited_def grows_tree_def)
  have upd: "k \<in> dom (tree_contents saved T)" if "k \<in> fst ` set (update_list es)" for k
    using that audited_entry [OF a, of k] by (auto simp: update_list_def)
  have new: "k \<notin> dom (tree_contents saved T)" if "k \<in> fst ` set (new_list es)" for k
    using that audited_entry [OF a, of k] by (auto simp: new_list_def)
  have "distinct (map fst (new_list es))"
    unfolding distinct_conv_nth
  proof (intro allI impI)
    fix x y assume xy: "x < length (map fst (new_list es))" "y < length (map fst (new_list es))" "x \<noteq> y"
    then have "leaf_key (T' (saved + x)) \<noteq> leaf_key (T' (saved + y))" using storage_inj [OF T', of "saved + x" "saved + y"] by auto
    then show "map fst (new_list es) ! x \<noteq> map fst (new_list es) ! y" using g xy(1,2) by (simp add: grows_tree_def)
  qed
  moreover have "distinct (map fst (update_list es))" using a by (simp add: audited_def batch_inv_def)
  ultimately have "batch_written es = map_of (update_list es) ++ map_of (new_list es)" using upd new by (intro written_split) auto
  moreover have "tree_contents (saved + length (new_list es)) T' = tree_contents saved T ++ map_of (update_list es) ++ map_of (new_list es)"
  proof (rule contents_written [OF T T'])
    show "dom (map_of (update_list es)) \<subseteq> dom (tree_contents saved T)" using upd by (simp add: dom_map_of_conv_image_fst subset_iff)
  qed (use g in \<open>auto simp: grows_tree_def\<close>)
  ultimately show ?thesis by simp
qed

lemma audited_capacity:
  assumes a: "audited H T N saved es s t n"
  shows "saved + length (new_list es) \<le> 2 ^ N"
proof (cases "new_list es = []")
  case True
  then show ?thesis using a by (auto simp: audited_def checked_def root_of_def)
next
  case False
  have c: "checked H T N saved (index_to_leaf_cache t) (batch_new_writes t) n" using a by (simp add: audited_def)
  have "saved + length (new_list es) - 1 \<in> fst ` set (batch_new_writes t)" using audited_ws [OF a] False by (cases "new_list es") auto
  then obtain leaf where "(saved + length (new_list es) - 1, leaf) \<in> set (batch_new_writes t)" by force
  from checked_new [OF c this] show ?thesis using False by (cases "new_list es") auto
qed

end
