(* ===== verification/Flat_Tree_Commitment.thy ===== *)
theory Flat_Tree_Commitment
  imports Flat_Tree_Sound
begin

text \<open>
  The commitment to the state is updated correctly: the property of \<open>verify_and_apply_batch\<close>, with a
  hasher that never collides as the witness.
\<close>

section \<open>Commitments\<close>

definition commits_to :: "'h tree_hasher \<Rightarrow> nat \<Rightarrow> 'h flat_storage_commitment \<Rightarrow> (nat \<Rightarrow> flat_storage_leaf) \<Rightarrow> bool" where
  "commits_to H N com T \<longleftrightarrow> storage_tree (next_free_slot com) T \<and> root_of H N (next_free_slot com) T (com_root com)"

definition committed_state :: "'h flat_storage_commitment \<Rightarrow> (nat \<Rightarrow> flat_storage_leaf) \<Rightarrow> bytes32 \<rightharpoonup> bytes32" where
  "committed_state com T = tree_contents (next_free_slot com) T"

definition batch_start :: "nat \<Rightarrow> 'o \<Rightarrow> ('h, 'o) batch_state" where
  "batch_start saved o' = \<lparr>key_to_index_cache = [], index_to_leaf_cache = [], batch_new_writes = [],
     batch_next_free_slot = saved, batch_oracle = o'\<rparr>"

text \<open>Nothing that was hashed for the tree or for this batch collides.\<close>

definition no_batch_collision ::
    "(bytes \<Rightarrow> bytes32) \<Rightarrow> 'h tree_hasher \<Rightarrow> ('h, 'o) tree_oracle \<Rightarrow> nat \<Rightarrow> (warm_storage_key \<times> storage_diff) list \<Rightarrow>
     'h flat_storage_commitment \<Rightarrow> 'o \<Rightarrow> (nat \<Rightarrow> flat_storage_leaf) \<Rightarrow> bool" where
  "no_batch_collision blake2s H Or N source com o' T \<longleftrightarrow>
     (case gather_batch blake2s Or N (next_free_slot com) source (batch_start (next_free_slot com) o') of
        (Inr _, s) \<Rightarrow> collision_free H T N (next_free_slot com) (index_to_leaf_cache s) (batch_new_writes s)
      | _ \<Rightarrow> True)"

definition source_writes :: "(bytes \<Rightarrow> bytes32) \<Rightarrow> (warm_storage_key \<times> storage_diff) list \<Rightarrow> bytes32 \<rightharpoonup> bytes32" where
  "source_writes blake2s source =
     map_of (map (\<lambda>(k, v). (flat_key_of blake2s k, diff_current_value v)) (filter (\<lambda>(_, v). \<not> is_read v) source))"

lemma source_writes_entries: "source_writes blake2s source = batch_written (batch_entries blake2s source)"
proof -
  have "filter (\<lambda>(_, v). \<not> is_read v) (batch_entries blake2s source) =
      map (\<lambda>(k, v). (flat_key_of blake2s k, v)) (filter (\<lambda>(_, v). \<not> is_read v) source)"
    by (induction source) (auto simp: batch_entries_def)
  then show ?thesis by (simp add: source_writes_def batch_written_def comp_def case_prod_beta')
qed

lemma settle_root_result:
  "returns (settle_root source nodes) (\<lambda>_ c'. \<exists>n. nodes = [n] \<and> read_hash n = Some (com_root c) \<and>
     com_root c' = (case write_hash n of Some h \<Rightarrow> h | None \<Rightarrow> com_root c) \<and> next_free_slot c' = next_free_slot c) c"
  by (auto simp: settle_root_def Let_def split: list.splits option.splits)

text \<open>A batch that returns has gathered, joined and settled.\<close>

lemma batch_runs:
  assumes "verify_and_apply_batch blake2s H Or N source (com, o1) = (Inr (), com', o2)" and "source \<noteq> []"
  obtains s n where
    "gather_batch blake2s Or N (next_free_slot com) source (batch_start (next_free_slot com) o1) = (Inr (), s)"
    "joins H N (next_free_slot com) (index_to_leaf_cache s) (batch_new_writes s) n" "read_hash n = Some (com_root com)"
    "com_root com' = (case write_hash n of Some h \<Rightarrow> h | None \<Rightarrow> com_root com)" "next_free_slot com' = batch_next_free_slot s"
proof -
  obtain s nodes where s: "gather_batch blake2s Or N (next_free_slot com) source (batch_start (next_free_slot com) o1) = (Inr (), s)"
    and j: "join_levels H (index_to_leaf_cache s) (compute_empty_hashes H N) (next_free_slot com) [0..<N] (join_nodes H s) () = (Inr nodes, ())"
    and r: "settle_root source nodes (com\<lparr>next_free_slot := batch_next_free_slot s\<rparr>) = (Inr (), com')"
    using assms unfolding verify_and_apply_batch_def
    by (auto simp: and_then_def on_part_def read_st_def batch_start_def split: prod.splits sum.splits fault.splits)
  obtain n where n: "nodes = [n]" "read_hash n = Some (com_root com)"
    "com_root com' = (case write_hash n of Some h \<Rightarrow> h | None \<Rightarrow> com_root com)" "next_free_slot com' = batch_next_free_slot s"
    using returnsD [OF settle_root_result r] by (auto cong: option.case_cong)
  then show thesis using that [OF s] j by (simp add: joins_def join_nodes_def batch_nodes_def)
qed

text \<open>C1: whatever the oracle answers, if a batch is accepted then every entry was right about the committed
  state before the batch, a slot that is claimed to be new being absent and every other slot holding its
  initial value, and the new commitment is that of a well-formed tree that holds this state with the
  writes of the batch applied.
\<close>

theorem verify_and_apply_batch_sound:
  assumes run: "verify_and_apply_batch blake2s H Or N source (com, o1) = (Inr (), com', o2)"
    and T: "commits_to H N com T"
    and nz: "\<forall>(k, v) \<in> set source. flat_key_of blake2s k \<noteq> 0"
    and free: "no_batch_collision blake2s H Or N source com o1 T"
  shows "(\<forall>(k, v) \<in> set source. committed_state com T (flat_key_of blake2s k) =
       (if diff_is_new_storage_slot v then None else Some (diff_initial_value v))) \<and>
    (\<exists>T'. commits_to H N com' T' \<and> committed_state com' T' = committed_state com T ++ source_writes blake2s source)"
proof (cases "source = []")
  case True
  then show ?thesis using run T by (auto simp: verify_and_apply_batch_def ret_def source_writes_def)
next
  case False
  let ?sv = "next_free_slot com" and ?es = "batch_entries blake2s source"
  from run False obtain t n where t: "gather_batch blake2s Or N ?sv source (batch_start ?sv o1) = (Inr (), t)"
    and n: "joins H N ?sv (index_to_leaf_cache t) (batch_new_writes t) n" "read_hash n = Some (com_root com)"
      "com_root com' = (case write_hash n of Some h \<Rightarrow> h | None \<Rightarrow> com_root com)" "next_free_slot com' = batch_next_free_slot t"
    by (rule batch_runs)
  have "returns (gather_batch blake2s Or N ?sv source) (\<lambda>_ t. \<exists>s. batch_inv ?sv ?es s \<and> settled ?sv ?es s t) (batch_start ?sv o1)"
    by (rule gather_result [OF nz]) (simp_all add: batch_start_def)
  then obtain s where s: "batch_inv ?sv ?es s" "settled ?sv ?es s t" using t unfolding returns_def by blast
  let ?T' = "new_tree (index_to_leaf_cache t) (batch_new_writes t) (node_index n * 2 ^ N) T"
  have c: "checked H T N ?sv (index_to_leaf_cache t) (batch_new_writes t) n"
    using settled_gathered [OF s] T n(1,2) free t by (simp add: checked_def commits_to_def no_batch_collision_def)
  then have a: "audited H T N ?sv ?es s t n" using s T by (simp add: audited_def commits_to_def)
  note g = audited_grows [OF a]
  have nf: "next_free_slot com' = ?sv + length (new_list ?es)"
    using n(4) settled_grown [OF s] s(1) by (simp add: batch_grown_def batch_inv_def books_def)
  have "commits_to H N com' ?T'"
    using g checked_root [OF c] n(3) T nf audited_capacity [OF a] by (simp add: commits_to_def root_of_def grows_tree_def cong: option.case_cong)
  moreover have "committed_state com' ?T' = committed_state com T ++ source_writes blake2s source"
    using audited_contents [OF a g] nf by (simp add: committed_state_def source_writes_entries)
  moreover have "committed_state com T (flat_key_of blake2s k) = (if diff_is_new_storage_slot v then None else Some (diff_initial_value v))"
    if "(k, v) \<in> set source" for k v
  proof -
    have "(flat_key_of blake2s k, v) \<in> set ?es" using that by (cases "is_read v") (force simp: batch_entries_def)+
    then show ?thesis unfolding committed_state_def by (rule audited_entry [OF a])
  qed
  ultimately show ?thesis by blast
qed

section \<open>An example\<close>

text \<open>A hasher whose hashes are the terms that were hashed, and an oracle that answers from the empty tree.\<close>

datatype term_hash = Leaf_hash flat_storage_leaf | Node_hash term_hash term_hash

definition ex_hasher :: "term_hash tree_hasher" where
  "ex_hasher = \<lparr>hash_leaf = Leaf_hash, hash_node = Node_hash\<rparr>"

definition ex_tree :: "nat \<Rightarrow> flat_storage_leaf" where
  "ex_tree i = (if i = 0 then \<lparr>leaf_key = 0, leaf_value = 0, leaf_next = 1\<rparr>
     else if i = 1 then \<lparr>leaf_key = - 1, leaf_value = 0, leaf_next = 1\<rparr> else empty_leaf)"

definition ex_proof :: "nat \<Rightarrow> term_hash leaf_proof" where
  "ex_proof i = \<lparr>proof_index = i, proof_leaf = ex_tree i,
     proof_path = [Leaf_hash (ex_tree (1 - i)), Node_hash (Leaf_hash empty_leaf) (Leaf_hash empty_leaf)]\<rparr>"

definition ex_tree_oracle :: "(term_hash, unit) tree_oracle" where
  "ex_tree_oracle = \<lparr>previous_index_query = \<lambda>_ u. (Some 0, u), exact_index_query = \<lambda>_ u. (None, u),
     proof_for_index_query = \<lambda>i u. (Some (ex_proof i), u)\<rparr>"

definition ex_commitment :: "term_hash flat_storage_commitment" where
  "ex_commitment = \<lparr>com_root = tree_node ex_hasher ex_tree 2 0, next_free_slot = 2\<rparr>"

definition ex_source :: "(warm_storage_key \<times> storage_diff) list" where
  "ex_source = [(WarmStorageKey 1 2, \<lparr>diff_initial_value = 0, diff_current_value = 7,
     diff_is_new_storage_slot = True, diff_initial_value_used = True\<rparr>)]"

definition ex_new_commitment :: "term_hash flat_storage_commitment" where
  "ex_new_commitment = \<lparr>com_root = Node_hash
     (Node_hash (Leaf_hash \<lparr>leaf_key = 0, leaf_value = 0, leaf_next = 2\<rparr>) (Leaf_hash \<lparr>leaf_key = - 1, leaf_value = 0, leaf_next = 1\<rparr>))
     (Node_hash (Leaf_hash \<lparr>leaf_key = 5, leaf_value = 7, leaf_next = 1\<rparr>) (Leaf_hash empty_leaf)), next_free_slot = 3\<rparr>"

lemma ex_flat_key: "flat_key_of (\<lambda>_. 5) k = 5"
  by (simp add: flat_key_of_def derive_flat_storage_key_def)

lemmas batch_exec =
  verify_and_apply_batch_def gather_batch_def is_read_def batch_write_def load_neighbours_def get_prev_index_def ask_def
  and_then_def on_part_def read_st_def assert_that_def ret_def expect_def load_previous_def cached_leaf_def get_proof_for_index_def
  cache_proof_def insert_key_def modify_st_def insert_leaf_def load_next_def append_leaf_def relink_def link_first_def
  MIN_KEY_LEAF_MARKER_IDX_def link_next_def check_last_def MAX_KEY_LEAF_MARKER_IDX_def load_rightmost_def Let_def

lemmas join_exec =
  join_nodes_def leaf_node_def new_leaf_node_def compute_empty_hashes_def process_single_def merge_nodes_def can_merge_def
  sibling_in_def updated_leaf_def settle_root_def upt_conv_Cons numeral_2_eq_2

lemma ex_batch_run:
  "verify_and_apply_batch (\<lambda>_. 5) ex_hasher ex_tree_oracle 2 ex_source (ex_commitment, ()) = (Inr (), ex_new_commitment, ())"
  by (simp add: batch_exec ex_source_def ex_commitment_def ex_flat_key ex_tree_oracle_def ex_proof_def ex_tree_def)
    (simp add: join_exec ex_hasher_def ex_tree_def ex_new_commitment_def and_then_def on_part_def assert_that_def ret_def expect_def
      read_st_def modify_st_def Let_def is_read_def)

lemma ex_commits: "commits_to ex_hasher 2 ex_commitment ex_tree"
  by (auto simp: commits_to_def root_of_def storage_tree_def adjacent_def ex_commitment_def ex_tree_def inj_on_def less_Suc_eq numeral_2_eq_2 word_gt_0
      MIN_KEY_LEAF_MARKER_IDX_def MAX_KEY_LEAF_MARKER_IDX_def)

lemma ex_no_collision: "no_batch_collision blake2s ex_hasher Or N source com o' T"
  by (auto simp: no_batch_collision_def collision_free_def inj_on_def ex_hasher_def split: prod.splits sum.splits)

theorem verify_and_apply_batch_sound_witness:
  "verify_and_apply_batch (\<lambda>_. 5) ex_hasher ex_tree_oracle 2 ex_source (ex_commitment, ()) = (Inr (), ex_new_commitment, ()) \<and>
   (\<exists>T'. commits_to ex_hasher 2 ex_new_commitment T' \<and>
     committed_state ex_new_commitment T' = committed_state ex_commitment ex_tree ++ [5 \<mapsto> 7])"
  using verify_and_apply_batch_sound [OF ex_batch_run ex_commits _ ex_no_collision] ex_batch_run
  by (simp add: ex_flat_key source_writes_def ex_source_def is_read_def)

end
