(* ===== verification/Evm_Instr_Compute.thy ===== *)
theory Evm_Instr_Compute
  imports Evm_Machine
begin

text \<open>
  The instructions that work on the stack and the instruction pointer alone:
  \<^verbatim>\<open>arithmetic.rs\<close>, \<^verbatim>\<open>bitwise.rs\<close>, \<^verbatim>\<open>stack.rs\<close> and \<^verbatim>\<open>control_flow.rs\<close> under
  \<^verbatim>\<open>evm_interpreter/src/instructions\<close>. \<open>R\<close> stands for the algorithms of the crate
  \<^verbatim>\<open>ruint\<close>, \<open>W\<close> for the width of \<open>usize\<close>.
\<close>

section \<open>Arithmetic\<close>

definition instr_wrapped_add :: "'io instr" where
  "instr_wrapped_add =
     and_then (spend GAS_VERYLOW (native_cost OP_ADD)) (\<lambda>_.
     and_then (on_stack pop_1_and_peek_mut) (\<lambda>(op1, op2).
     on_stack (set_top (op2 + op1))))"

definition instr_wrapping_mul :: "ruint \<Rightarrow> 'io instr" where
  "instr_wrapping_mul R =
     and_then (spend GAS_LOW (native_cost OP_MUL)) (\<lambda>_.
     and_then (on_stack pop_1_and_peek_mut) (\<lambda>(op1, op2).
     on_stack (set_top (ruint_wrapping_mul R op1 op2))))"

definition instr_wrapping_sub :: "'io instr" where
  "instr_wrapping_sub =
     and_then (spend GAS_VERYLOW (native_cost OP_SUB)) (\<lambda>_.
     and_then (on_stack pop_1_and_peek_mut) (\<lambda>(op1, op2).
     on_stack (set_top (op1 - op2))))"

definition instr_div :: "ruint \<Rightarrow> 'io instr" where
  "instr_div R =
     and_then (spend GAS_LOW (native_cost OP_DIV)) (\<lambda>_.
     and_then (on_stack pop_1_mut_and_peek) (\<lambda>(op1, op2).
     if op2 \<noteq> 0 then on_stack (set_top (ruint_div_assign R op1 op2)) else ret ()))"

definition instr_sdiv :: "ruint \<Rightarrow> 'io instr" where
  "instr_sdiv R =
     and_then (spend GAS_LOW (native_cost OP_SDIV)) (\<lambda>_.
     and_then (on_stack pop_1_mut_and_peek) (\<lambda>(op1, op2).
     on_stack (set_top (i256_div R op1 op2))))"

definition instr_rem :: "ruint \<Rightarrow> 'io instr" where
  "instr_rem R =
     and_then (spend GAS_LOW (native_cost OP_MOD)) (\<lambda>_.
     and_then (on_stack pop_1_mut_and_peek) (\<lambda>(op1, op2).
     on_stack (set_top (case ruint_checked_rem R op1 op2 of Some r \<Rightarrow> r | None \<Rightarrow> 0))))"

definition instr_smod :: "ruint \<Rightarrow> 'io instr" where
  "instr_smod R =
     and_then (spend GAS_LOW (native_cost OP_SMOD)) (\<lambda>_.
     and_then (on_stack pop_1_mut_and_peek) (\<lambda>(op1, op2).
     if op2 \<noteq> 0 then on_stack (set_top (i256_mod R op1 op2)) else ret ()))"

definition instr_addmod :: "ruint \<Rightarrow> 'io instr" where
  "instr_addmod R =
     and_then (spend GAS_MID (native_cost OP_ADDMOD)) (\<lambda>_.
     and_then (on_stack pop_2_and_peek_mut) (\<lambda>((op1, op2), op3).
     on_stack (set_top (ruint_add_mod R op1 op2 op3))))"

definition instr_mulmod :: "ruint \<Rightarrow> 'io instr" where
  "instr_mulmod R =
     and_then (spend GAS_MID (native_cost OP_MULMOD)) (\<lambda>_.
     and_then (on_stack pop_2_and_peek_mut) (\<lambda>((op1, op2), op3).
     and_then (mul_mod R op1 op2 op3) (\<lambda>r.
     on_stack (set_top r))))"

definition instr_eval_exp :: "ruint \<Rightarrow> 'io instr" where
  "instr_eval_exp R =
     and_then (on_stack pop_1_and_peek_mut) (\<lambda>(op1, op2).
     and_then (exp_cost op2) (\<lambda>cost.
     case cost of
       Some (g, n) \<Rightarrow>
         and_then (spend g n) (\<lambda>_.
         on_stack (set_top (ruint_pow R op1 op2)))
     | None \<Rightarrow> throw OutOfGas))"

definition instr_sign_extend :: "'io instr" where
  "instr_sign_extend =
     and_then (spend GAS_LOW (native_cost OP_SIGNEXTEND)) (\<lambda>_.
     and_then (on_stack pop_1_and_peek_mut) (\<lambda>(op1, op2).
     on_stack (set_top (sign_extend_word op1 op2))))"

section \<open>Comparison and bitwise operations\<close>

definition instr_lt :: "'io instr" where
  "instr_lt =
     and_then (spend GAS_VERYLOW (native_cost OP_LT)) (\<lambda>_.
     and_then (on_stack pop_1_and_peek_mut) (\<lambda>(op1, op2).
     on_stack (set_top (bool_word (op1 < op2)))))"

definition instr_gt :: "'io instr" where
  "instr_gt =
     and_then (spend GAS_VERYLOW (native_cost OP_GT)) (\<lambda>_.
     and_then (on_stack pop_1_and_peek_mut) (\<lambda>(op1, op2).
     on_stack (set_top (bool_word (op1 > op2)))))"

definition instr_slt :: "'io instr" where
  "instr_slt =
     and_then (spend GAS_VERYLOW (native_cost OP_SLT)) (\<lambda>_.
     and_then (on_stack pop_1_and_peek_mut) (\<lambda>(op1, op2).
     on_stack (set_top (bool_word (i256_cmp op1 op2 = Less)))))"

definition instr_sgt :: "'io instr" where
  "instr_sgt =
     and_then (spend GAS_VERYLOW (native_cost OP_SGT)) (\<lambda>_.
     and_then (on_stack pop_1_and_peek_mut) (\<lambda>(op1, op2).
     on_stack (set_top (bool_word (i256_cmp op1 op2 = Greater)))))"

definition instr_eq :: "'io instr" where
  "instr_eq =
     and_then (spend GAS_VERYLOW (native_cost OP_EQ)) (\<lambda>_.
     and_then (on_stack pop_1_and_peek_mut) (\<lambda>(op1, op2).
     on_stack (set_top (bool_word (op1 = op2)))))"

definition instr_iszero :: "'io instr" where
  "instr_iszero =
     and_then (spend GAS_VERYLOW (native_cost OP_ISZERO)) (\<lambda>_.
     and_then (on_stack top_mut) (\<lambda>op1.
     on_stack (set_top (bool_word (op1 = 0)))))"

definition instr_bitand :: "'io instr" where
  "instr_bitand =
     and_then (spend GAS_VERYLOW (native_cost OP_AND)) (\<lambda>_.
     and_then (on_stack pop_1_and_peek_mut) (\<lambda>(op1, op2).
     on_stack (set_top (op2 AND op1))))"

definition instr_bitor :: "'io instr" where
  "instr_bitor =
     and_then (spend GAS_VERYLOW (native_cost OP_OR)) (\<lambda>_.
     and_then (on_stack pop_1_and_peek_mut) (\<lambda>(op1, op2).
     on_stack (set_top (op2 OR op1))))"

definition instr_bitxor :: "'io instr" where
  "instr_bitxor =
     and_then (spend GAS_VERYLOW (native_cost OP_XOR)) (\<lambda>_.
     and_then (on_stack pop_1_and_peek_mut) (\<lambda>(op1, op2).
     on_stack (set_top (op2 XOR op1))))"

definition instr_not :: "'io instr" where
  "instr_not =
     and_then (spend GAS_VERYLOW (native_cost OP_NOT)) (\<lambda>_.
     and_then (on_stack top_mut) (\<lambda>op1.
     on_stack (set_top (NOT op1))))"

definition instr_byte :: "'io instr" where
  "instr_byte =
     and_then (spend GAS_VERYLOW (native_cost OP_BYTE)) (\<lambda>_.
     and_then (on_stack pop_1_and_peek_mut) (\<lambda>(op1, op2).
     on_stack (set_top (byte_word op1 op2))))"

definition instr_shl :: "nat \<Rightarrow> 'io instr" where
  "instr_shl W =
     and_then (spend GAS_VERYLOW (native_cost OP_SHL)) (\<lambda>_.
     and_then (on_stack pop_1_and_peek_mut) (\<lambda>(op1, op2).
     on_stack (set_top (shl_word W op1 op2))))"

definition instr_shr :: "nat \<Rightarrow> 'io instr" where
  "instr_shr W =
     and_then (spend GAS_VERYLOW (native_cost OP_SHR)) (\<lambda>_.
     and_then (on_stack pop_1_and_peek_mut) (\<lambda>(op1, op2).
     on_stack (set_top (shr_word W op1 op2))))"

definition instr_sar :: "'io instr" where
  "instr_sar =
     and_then (spend GAS_VERYLOW (native_cost OP_SAR)) (\<lambda>_.
     and_then (on_stack pop_1_and_peek_mut) (\<lambda>(op1, op2).
     on_stack (set_top (sar_word op1 op2))))"

definition instr_clz :: "'io instr" where
  "instr_clz =
     and_then (spend GAS_LOW (native_cost OP_CLZ)) (\<lambda>_.
     and_then (on_stack top_mut) (\<lambda>op1.
     on_stack (set_top (clz_word op1))))"

section \<open>Stack\<close>

definition instr_pop :: "'io instr" where
  "instr_pop =
     and_then (spend GAS_BASE (native_cost OP_POP)) (\<lambda>_.
     on_stack pop_and_ignore)"

definition instr_push0 :: "'io instr" where
  "instr_push0 =
     and_then (spend GAS_BASE (native_cost OP_PUSH0)) (\<lambda>_.
     on_stack push_zero)"

text \<open>
  The immediate is copied into the low bytes of a zero word in memory order, the word is
  byte-reversed and shifted down.
\<close>

definition push_value :: "bytes \<Rightarrow> nat \<Rightarrow> nat \<Rightarrow> u256" where
  "push_value code start N =
     (if start < length code then
        let to_copy = min N (length code - start);
          v = of_le_slice (take to_copy (drop start code) @ replicate (32 - to_copy) 0) in
        drop_bit ((32 - N) * 8) (bytereverse_u256 v)
      else 0)"

definition instr_push :: "nat \<Rightarrow> nat \<Rightarrow> 'io instr" where
  "instr_push W N =
     and_then (spend GAS_VERYLOW (PUSH_NATIVE_COSTS ! N)) (\<lambda>_.
     and_then (read_st instruction_pointer) (\<lambda>start.
     and_then (read_st bytecode) (\<lambda>code.
     and_then (usize_add W start N) (\<lambda>ip.
     and_then (modify_st (\<lambda>m. m\<lparr>instruction_pointer := ip\<rparr>)) (\<lambda>_.
     on_stack (stack_push (push_value code start N)))))))"

definition instr_dup :: "nat \<Rightarrow> 'io instr" where
  "instr_dup N =
     and_then (spend GAS_VERYLOW (native_cost OP_DUP1)) (\<lambda>_.
     on_stack (stack_dup N))"

definition instr_swap :: "nat \<Rightarrow> 'io instr" where
  "instr_swap N =
     and_then (spend GAS_VERYLOW (native_cost OP_SWAP1)) (\<lambda>_.
     on_stack (stack_swap N))"

section \<open>Control flow\<close>

definition instr_jump :: "nat \<Rightarrow> 'io instr" where
  "instr_jump W =
     and_then (spend GAS_MID (native_cost OP_JUMP)) (\<lambda>_.
     and_then (on_stack pop_1) (\<lambda>dest.
     and_then (cast_to_usize W dest InvalidJump) (\<lambda>dest.
     and_then (read_st bytecode_preprocessing) (\<lambda>p.
     and_then (is_valid_jumpdest W p dest) (\<lambda>valid.
     if valid then modify_st (\<lambda>m. m\<lparr>instruction_pointer := dest\<rparr>)
     else throw InvalidJump)))))"

definition instr_jumpi :: "nat \<Rightarrow> 'io instr" where
  "instr_jumpi W =
     and_then (spend GAS_HIGH (native_cost OP_JUMPI)) (\<lambda>_.
     and_then (on_stack pop_2) (\<lambda>(dest, v).
     if v \<noteq> 0 then
       and_then (cast_to_usize W dest InvalidJump) (\<lambda>dest.
       and_then (read_st bytecode_preprocessing) (\<lambda>p.
       and_then (is_valid_jumpdest W p dest) (\<lambda>valid.
       if valid then modify_st (\<lambda>m. m\<lparr>instruction_pointer := dest\<rparr>)
       else throw InvalidJump)))
     else ret ()))"

definition instr_jumpdest :: "'io instr" where
  "instr_jumpdest = spend GAS_JUMPDEST (native_cost OP_JUMPDEST)"

definition instr_pc :: "'io instr" where
  "instr_pc =
     and_then (spend GAS_BASE (native_cost OP_PC)) (\<lambda>_.
     and_then (read_st instruction_pointer) (\<lambda>ip.
     and_then (assert_that (1 \<le> ip)) (\<lambda>_.
     on_stack (stack_push (word_of_nat (ip - 1))))))"

text \<open>\<open>ret\<close> and \<open>revert\<close> note where in the heap the data they return is.\<close>

definition instr_ret :: "nat \<Rightarrow> 'io instr" where
  "instr_ret W =
     and_then (spend 0 (native_cost OP_RETURN)) (\<lambda>_.
     and_then (on_stack pop_2) (\<lambda>(offset, l).
     and_then (cast_to_usize W l InvalidOperandOOG) (\<lambda>l.
     and_then
       (if l = 0 then modify_st (\<lambda>m. m\<lparr>returndata_location := (0, 0)\<rparr>)
        else
          and_then (cast_to_usize W offset InvalidOperandOOG) (\<lambda>offset.
          and_then (resize_heap W offset l) (\<lambda>_.
          if offset + l \<ge> 2 ^ W then throw InvalidOperandOOG
          else modify_st (\<lambda>m. m\<lparr>returndata_location := (offset, offset + l)\<rparr>)))) (\<lambda>_.
     throw Return))))"

definition instr_revert :: "nat \<Rightarrow> 'io instr" where
  "instr_revert W =
     and_then (spend 0 (native_cost OP_REVERT)) (\<lambda>_.
     and_then (on_stack pop_2) (\<lambda>(offset, l).
     and_then (cast_to_usize W l InvalidOperandOOG) (\<lambda>l.
     and_then
       (if l = 0 then modify_st (\<lambda>m. m\<lparr>returndata_location := (0, 0)\<rparr>)
        else
          and_then (cast_to_usize W offset InvalidOperandOOG) (\<lambda>offset.
          and_then (resize_heap W offset l) (\<lambda>_.
          if offset + l \<ge> 2 ^ W then throw InvalidOperandOOG
          else modify_st (\<lambda>m. m\<lparr>returndata_location := (offset, offset + l)\<rparr>)))) (\<lambda>_.
     throw Revert))))"

end
