(* ===== verification/Evm_Instr_Data.thy ===== *)
theory Evm_Instr_Data
  imports Evm_Machine
begin

text \<open>
  The instructions on memory and on the data of the frame, the transaction and the block:
  \<^verbatim>\<open>heap.rs\<close>, \<^verbatim>\<open>system.rs\<close> and \<^verbatim>\<open>environment.rs\<close> under \<^verbatim>\<open>evm_interpreter/src/instructions\<close>,
  built without the features \<open>prevrandao\<close> and \<open>eip-7645\<close>.
\<close>

section \<open>Memory\<close>

definition instr_mload :: "nat \<Rightarrow> 'io instr" where
  "instr_mload W =
     and_then (spend GAS_VERYLOW (native_cost OP_MLOAD)) (\<lambda>_.
     and_then (on_stack top_mut) (\<lambda>stack_top.
     and_then (cast_to_usize W stack_top InvalidOperandOOG) (\<lambda>index.
     and_then (resize_heap W index 32) (\<lambda>_.
     and_then (heap_read index 32) (\<lambda>src.
     on_stack (set_top (bytereverse_u256 (of_le_slice src))))))))"

definition instr_mstore :: "nat \<Rightarrow> 'io instr" where
  "instr_mstore W =
     and_then (spend GAS_VERYLOW (native_cost OP_MSTORE)) (\<lambda>_.
     and_then (on_stack pop_2) (\<lambda>(index, v).
     and_then (cast_to_usize W index InvalidOperandOOG) (\<lambda>index.
     and_then (resize_heap W index 32) (\<lambda>_.
     heap_write index (as_le_slice (bytereverse_u256 v))))))"

definition instr_mstore8 :: "nat \<Rightarrow> 'io instr" where
  "instr_mstore8 W =
     and_then (spend GAS_VERYLOW (native_cost OP_MSTORE8)) (\<lambda>_.
     and_then (on_stack pop_2) (\<lambda>(index, v).
     and_then (cast_to_usize W index InvalidOperandOOG) (\<lambda>index.
     and_then (resize_heap W index 1) (\<lambda>_.
     heap_write index [word_byte v 0]))))"

definition instr_msize :: "'io instr" where
  "instr_msize =
     and_then (spend GAS_BASE (native_cost OP_MSIZE)) (\<lambda>_.
     and_then (read_st memory_len) (\<lambda>l.
     and_then (assert_that (next_multiple_of l 32 = l)) (\<lambda>_.
     on_stack (stack_push (word_of_nat l)))))"

definition instr_mcopy :: "nat \<Rightarrow> 'io instr" where
  "instr_mcopy W =
     and_then (on_stack pop_3) (\<lambda>(dst_offset, src_offset, l).
     and_then (cast_to_usize W l InvalidOperandOOG) (\<lambda>l.
     and_then (ok_or (copy_cost_plus_very_low_gas (word_of_nat l)) OutOfGas) (\<lambda>(g, n).
     and_then (spend g n) (\<lambda>_.
     if l = 0 then ret ()
     else
       and_then (cast_to_usize W dst_offset InvalidOperandOOG) (\<lambda>dst_offset.
       and_then (cast_to_usize W src_offset InvalidOperandOOG) (\<lambda>src_offset.
       and_then (resize_heap W (max dst_offset src_offset) l) (\<lambda>_.
       and_then (heap_read src_offset l) (\<lambda>src.
       heap_write dst_offset src))))))))"

section \<open>Data of the frame\<close>

definition EMPTY_SLICE_SHA3 :: u256 where
  "EMPTY_SLICE_SHA3 =
     from_limbs [0x7bfad8045d85a470, 0xe500b653ca82273b, 0x927e7db2dcc703c0, 0xc5d2460186f7233c]"

definition instr_sha3 :: "nat \<Rightarrow> 'io evm_system \<Rightarrow> 'io instr" where
  "instr_sha3 W sys =
     and_then (on_stack pop_2) (\<lambda>(memory_offset, l).
     and_then (cast_to_usize W memory_offset InvalidOperandOOG) (\<lambda>memory_offset.
     and_then (cast_to_usize W l InvalidOperandOOG) (\<lambda>l.
     if memory_offset + l \<ge> 2 ^ W then throw MemoryLimitOOG
     else
       and_then (spend 0 (native_cost OP_SHA3)) (\<lambda>_.
       and_then
         (if l = 0 then and_then (on_gas (spend_gas GAS_SHA3)) (\<lambda>_. ret EMPTY_SLICE_SHA3)
          else
            and_then (resize_heap W memory_offset l) (\<lambda>_.
            and_then (heap_read memory_offset l) (\<lambda>input.
            on_res exit_of_system_error (keccak256 sys input)))) (\<lambda>hash.
       on_stack (stack_push hash))))))"

definition instr_address :: "'io instr" where
  "instr_address =
     and_then (spend GAS_BASE (native_cost OP_ADDRESS)) (\<lambda>_.
     and_then (read_st self_address) (\<lambda>a.
     on_stack (stack_push (b160_to_u256 a))))"

definition instr_caller :: "'io instr" where
  "instr_caller =
     and_then (spend GAS_BASE (native_cost OP_CALLER)) (\<lambda>_.
     and_then (read_st caller) (\<lambda>a.
     on_stack (stack_push (b160_to_u256 a))))"

definition instr_codesize :: "'io instr" where
  "instr_codesize =
     and_then (spend GAS_BASE (native_cost OP_CODESIZE)) (\<lambda>_.
     and_then (read_st (\<lambda>m. original_bytecode_len (bytecode_preprocessing m))) (\<lambda>l.
     on_stack (stack_push (word_of_nat l))))"

text \<open>
  \<open>source.get(offset..)\<close> for an offset that may not fit a \<open>usize\<close>, and the copy into
  \<open>heap[memory_offset..memory_offset + len]\<close>.
\<close>

definition source_from :: "nat \<Rightarrow> u256 \<Rightarrow> bytes \<Rightarrow> bytes" where
  "source_from W source_offset data =
     (case u256_try_to_usize W source_offset of
        Some offset \<Rightarrow> if offset \<le> length data then drop offset data else []
      | None \<Rightarrow> [])"

definition copy_to_heap :: "nat \<Rightarrow> bytes \<Rightarrow> nat \<Rightarrow> nat \<Rightarrow> 'io instr" where
  "copy_to_heap W source memory_offset l =
     and_then (usize_add W memory_offset l) (\<lambda>_.
     heap_write memory_offset (copy_and_zeropad source l))"

definition instr_codecopy :: "nat \<Rightarrow> 'io instr" where
  "instr_codecopy W =
     and_then (on_stack pop_3) (\<lambda>(memory_offset, source_offset, l).
     and_then (cast_to_usize W l InvalidOperandOOG) (\<lambda>l.
     and_then (ok_or (copy_cost_plus_very_low_gas (word_of_nat l)) OutOfGas) (\<lambda>(g, n).
     and_then (expect (checked_add n (native_cost OP_CODECOPY))) (\<lambda>n.
     and_then (spend g n) (\<lambda>_.
     if l = 0 then ret ()
     else
       and_then (cast_to_usize W memory_offset InvalidOperandOOG) (\<lambda>memory_offset.
       and_then (resize_heap W memory_offset l) (\<lambda>_.
       and_then (read_st bytecode) (\<lambda>code.
       copy_to_heap W (source_from W source_offset code) memory_offset l))))))))"

definition instr_calldataload :: "nat \<Rightarrow> 'io instr" where
  "instr_calldataload W =
     and_then (spend GAS_VERYLOW (native_cost OP_CALLDATALOAD)) (\<lambda>_.
     and_then (on_stack top_mut) (\<lambda>stack_top.
     and_then (read_st calldata) (\<lambda>data.
     on_stack (set_top
       (case u256_try_to_usize W stack_top of
          Some index \<Rightarrow>
            if index < length data then
              let have_bytes = min 32 (length data - index) in
              from_be_bytes (take have_bytes (drop index data) @ replicate (32 - have_bytes) 0)
            else 0
        | None \<Rightarrow> 0)))))"

definition instr_calldatasize :: "'io instr" where
  "instr_calldatasize =
     and_then (spend GAS_BASE (native_cost OP_CALLDATASIZE)) (\<lambda>_.
     and_then (read_st calldata) (\<lambda>data.
     on_stack (stack_push (word_of_nat (length data)))))"

definition instr_callvalue :: "'io instr" where
  "instr_callvalue =
     and_then (spend GAS_BASE (native_cost OP_CALLVALUE)) (\<lambda>_.
     and_then (read_st call_value) (\<lambda>v.
     on_stack (stack_push v)))"

definition instr_calldatacopy :: "nat \<Rightarrow> 'io instr" where
  "instr_calldatacopy W =
     and_then (on_stack pop_3) (\<lambda>(memory_offset, source_offset, l).
     and_then (cast_to_usize W l InvalidOperandOOG) (\<lambda>l.
     and_then (ok_or (copy_cost_plus_very_low_gas (word_of_nat l)) OutOfGas) (\<lambda>(g, n).
     and_then (expect (checked_add (native_cost OP_CALLDATACOPY) n)) (\<lambda>n.
     and_then (spend g n) (\<lambda>_.
     if l = 0 then ret ()
     else
       and_then (cast_to_usize W memory_offset InvalidOperandOOG) (\<lambda>memory_offset.
       and_then (resize_heap W memory_offset l) (\<lambda>_.
       and_then (read_st calldata) (\<lambda>data.
       copy_to_heap W (source_from W source_offset data) memory_offset l))))))))"

definition instr_returndatasize :: "'io instr" where
  "instr_returndatasize =
     and_then (spend GAS_BASE (native_cost OP_RETURNDATASIZE)) (\<lambda>_.
     and_then (read_st returndata) (\<lambda>data.
     on_stack (stack_push (word_of_nat (length data)))))"

definition instr_returndatacopy :: "nat \<Rightarrow> 'io instr" where
  "instr_returndatacopy W =
     and_then (on_stack pop_3) (\<lambda>(memory_offset, source_offset, l).
     and_then (cast_to_usize W l InvalidOperandOOG) (\<lambda>l.
     and_then (ok_or (copy_cost_plus_very_low_gas (word_of_nat l)) OutOfGas) (\<lambda>(g, n).
     and_then (expect (checked_add (native_cost OP_RETURNDATACOPY) n)) (\<lambda>n.
     and_then (spend g n) (\<lambda>_.
     and_then (cast_to_usize W source_offset InvalidOperandOOG) (\<lambda>source_offset.
     and_then (read_st returndata) (\<lambda>data.
     if source_offset + l \<ge> 2 ^ W \<or> source_offset + l > length data then throw OutOfOffset
     else if l = 0 then ret ()
     else
       and_then (cast_to_usize W memory_offset InvalidOperandOOG) (\<lambda>memory_offset.
       and_then (resize_heap W memory_offset l) (\<lambda>_.
       copy_to_heap W (drop source_offset data) memory_offset l)))))))))"

definition instr_gas :: "'io instr" where
  "instr_gas =
     and_then (spend GAS_BASE (native_cost OP_GAS)) (\<lambda>_.
     and_then (read_st (\<lambda>m. gas_left (gas m))) (\<lambda>g.
     on_stack (stack_push (ucast g))))"

section \<open>Data of the block and the transaction\<close>

definition instr_chainid :: "'io evm_system \<Rightarrow> 'io instr" where
  "instr_chainid sys =
     and_then (spend GAS_BASE (native_cost OP_CHAINID)) (\<lambda>_.
     on_stack (stack_push (ucast (chain_id sys))))"

definition instr_coinbase :: "'io evm_system \<Rightarrow> 'io instr" where
  "instr_coinbase sys =
     and_then (spend GAS_BASE (native_cost OP_COINBASE)) (\<lambda>_.
     on_stack (stack_push (b160_to_u256 (coinbase sys))))"

definition instr_timestamp :: "'io evm_system \<Rightarrow> 'io instr" where
  "instr_timestamp sys =
     and_then (spend GAS_BASE (native_cost OP_TIMESTAMP)) (\<lambda>_.
     on_stack (stack_push (ucast (block_timestamp sys))))"

definition instr_number :: "'io evm_system \<Rightarrow> 'io instr" where
  "instr_number sys =
     and_then (spend GAS_BASE (native_cost OP_NUMBER)) (\<lambda>_.
     on_stack (stack_push (ucast (block_number sys))))"

definition instr_difficulty :: "'io evm_system \<Rightarrow> 'io instr" where
  "instr_difficulty sys =
     and_then (spend GAS_BASE (native_cost OP_DIFFICULTY)) (\<lambda>_.
     on_stack (stack_push (get_mix_hash sys)))"

definition instr_gaslimit :: "'io evm_system \<Rightarrow> 'io instr" where
  "instr_gaslimit sys =
     and_then (spend GAS_BASE (native_cost OP_GAS)) (\<lambda>_.
     on_stack (stack_push (ucast (block_gas_limit sys))))"

definition instr_gasprice :: "'io evm_system \<Rightarrow> 'io instr" where
  "instr_gasprice sys =
     and_then (spend GAS_BASE (native_cost OP_GASPRICE)) (\<lambda>_.
     on_stack (stack_push (tx_gas_price sys)))"

definition instr_basefee :: "'io evm_system \<Rightarrow> 'io instr" where
  "instr_basefee sys =
     and_then (spend GAS_BASE (native_cost OP_BASEFEE)) (\<lambda>_.
     on_stack (stack_push (eip1559_basefee sys)))"

definition instr_origin :: "'io evm_system \<Rightarrow> 'io instr" where
  "instr_origin sys =
     and_then (spend GAS_BASE (native_cost OP_ORIGIN)) (\<lambda>_.
     on_stack (stack_push (b160_to_u256 (tx_origin sys))))"

definition instr_blockhash :: "'io evm_system \<Rightarrow> 'io instr" where
  "instr_blockhash sys =
     and_then (spend GAS_BLOCKHASH (native_cost OP_BLOCKHASH)) (\<lambda>_.
     and_then (on_stack pop_1) (\<lambda>n.
     and_then (get_blockhash sys (u256_to_u64_saturated n)) (\<lambda>block_hash.
     on_stack (stack_push block_hash))))"

definition instr_blobhash :: "nat \<Rightarrow> 'io evm_system \<Rightarrow> 'io instr" where
  "instr_blobhash W sys =
     and_then (spend GAS_VERYLOW 40) (\<lambda>_.
     and_then (on_stack top_mut) (\<lambda>stack_top.
     on_stack (set_top
       (case u256_try_to_usize W stack_top of
          Some index \<Rightarrow> (case get_blob_hash sys index of Some blob_hash \<Rightarrow> blob_hash | None \<Rightarrow> 0)
        | None \<Rightarrow> 0))))"

definition instr_blobbasefee :: "'io evm_system \<Rightarrow> 'io instr" where
  "instr_blobbasefee sys =
     and_then (spend GAS_BASE 40) (\<lambda>_.
     on_stack (stack_push (blob_base_fee_per_gas sys)))"

end
