(* ===== verification/Evm_Instr_Host.thy ===== *)
theory Evm_Instr_Host
  imports Evm_Machine Evm_Instr_Data
begin

text \<open>
  The instructions that call the IO subsystem or yield to the caller of the interpreter
  (\<^verbatim>\<open>evm_interpreter/src/instructions/host.rs\<close>).
\<close>

section \<open>Accounts\<close>

definition instr_balance :: "'io evm_system \<Rightarrow> 'io instr" where
  "instr_balance sys =
     and_then (spend 0 (native_cost OP_BALANCE)) (\<lambda>_.
     and_then (on_stack top_mut) (\<lambda>stack_top.
     and_then (on_io exit_of_system_error
       (get_nominal_token_balance sys (u256_to_b160 stack_top))) (\<lambda>v.
     on_stack (set_top v))))"

definition instr_selfbalance :: "'io evm_system \<Rightarrow> 'io instr" where
  "instr_selfbalance sys =
     and_then (spend 0 (native_cost OP_SELFBALANCE)) (\<lambda>_.
     and_then (read_st self_address) (\<lambda>a.
     and_then (on_io exit_of_system_error (get_selfbalance sys a)) (\<lambda>v.
     on_stack (stack_push v))))"

definition instr_extcodesize :: "'io evm_system \<Rightarrow> 'io instr" where
  "instr_extcodesize sys =
     and_then (spend 0 (native_cost OP_EXTCODESIZE)) (\<lambda>_.
     and_then (on_stack top_mut) (\<lambda>stack_top.
     and_then (on_io exit_of_system_error
       (get_observable_bytecode_size sys (u256_to_b160 stack_top))) (\<lambda>v.
     on_stack (set_top (ucast v)))))"

definition instr_extcodehash :: "'io evm_system \<Rightarrow> 'io instr" where
  "instr_extcodehash sys =
     and_then (spend 0 (native_cost OP_EXTCODEHASH)) (\<lambda>_.
     and_then (on_stack top_mut) (\<lambda>stack_top.
     and_then (on_io exit_of_system_error
       (get_observable_bytecode_hash sys (u256_to_b160 stack_top))) (\<lambda>v.
     on_stack (set_top v))))"

definition instr_extcodecopy :: "nat \<Rightarrow> 'io evm_system \<Rightarrow> 'io instr" where
  "instr_extcodecopy W sys =
     and_then (on_stack pop_4) (\<lambda>(a, memory_offset, source_offset, l).
     and_then (cast_offset_and_len W memory_offset l InvalidOperandOOG) (\<lambda>(memory_offset, l).
     and_then (resize_heap W memory_offset l) (\<lambda>_.
     and_then (on_io exit_of_system_error (get_observable_bytecode sys (u256_to_b160 a))) (\<lambda>code.
     and_then (ok_or (copy_cost (word_of_nat l)) OutOfGas) (\<lambda>(g, n).
     and_then (expect (checked_add n (native_cost OP_EXTCODECOPY))) (\<lambda>n.
     and_then (spend g n) (\<lambda>_.
     copy_to_heap W (source_from W source_offset code) memory_offset l)))))))"

section \<open>Storage, events and self-destruction\<close>

definition instr_sload :: "'io evm_system \<Rightarrow> 'io instr" where
  "instr_sload sys =
     and_then (spend 0 (native_cost OP_SLOAD)) (\<lambda>_.
     and_then (on_stack top_mut) (\<lambda>key.
     and_then (read_st self_address) (\<lambda>a.
     and_then (on_io exit_of_system_error (storage_read sys False a key)) (\<lambda>v.
     on_stack (set_top v)))))"

definition instr_tload :: "'io evm_system \<Rightarrow> 'io instr" where
  "instr_tload sys =
     and_then (spend 0 (native_cost OP_TLOAD)) (\<lambda>_.
     and_then (on_stack top_mut) (\<lambda>key.
     and_then (read_st self_address) (\<lambda>a.
     and_then (on_io exit_of_system_error (storage_read sys True a key)) (\<lambda>v.
     on_stack (set_top v)))))"

definition instr_sstore :: "'io evm_system \<Rightarrow> 'io instr" where
  "instr_sstore sys =
     and_then (spend 0 (native_cost OP_SSTORE)) (\<lambda>_.
     and_then (read_st is_static) (\<lambda>static.
     if static then throw StateChangeDuringStaticCall
     else
       and_then (read_st (\<lambda>m. gas_left (gas m))) (\<lambda>g.
       if g \<le> CALL_STIPEND then throw InvalidOperandOOG
       else
         and_then (on_stack pop_2) (\<lambda>(index, v).
         and_then (read_st self_address) (\<lambda>a.
         on_io exit_of_system_error (storage_write sys False a index v))))))"

definition instr_tstore :: "'io evm_system \<Rightarrow> 'io instr" where
  "instr_tstore sys =
     and_then (spend 0 (native_cost OP_TSTORE)) (\<lambda>_.
     and_then (read_st is_static) (\<lambda>static.
     if static then throw StateChangeDuringStaticCall
     else
       and_then (on_stack pop_2) (\<lambda>(index, v).
       and_then (read_st self_address) (\<lambda>a.
       on_io exit_of_system_error (storage_write sys True a index v)))))"

fun pop_topics :: "nat \<Rightarrow> ('io, u256 list) evm_m" where
  "pop_topics 0 = ret []"
| "pop_topics (Suc n) =
     and_then (on_stack pop_1) (\<lambda>t.
     and_then (pop_topics n) (\<lambda>ts.
     ret (t # ts)))"

definition MAX_EVENT_TOPICS :: nat where "MAX_EVENT_TOPICS = 4"

definition instr_log :: "nat \<Rightarrow> nat \<Rightarrow> 'io evm_system \<Rightarrow> 'io instr" where
  "instr_log W N sys =
     and_then (assert_that (N \<le> MAX_EVENT_TOPICS)) (\<lambda>_.
     and_then (spend 0 (native_cost OP_LOG0)) (\<lambda>_.
     and_then (read_st is_static) (\<lambda>static.
     if static then throw StateChangeDuringStaticCall
     else
       and_then (on_stack pop_2) (\<lambda>(mem_offset, l).
       and_then (cast_offset_and_len W mem_offset l InvalidOperandOOG) (\<lambda>(mem_offset, l).
       and_then (pop_topics N) (\<lambda>topics.
       and_then (resize_heap W mem_offset l) (\<lambda>_.
       and_then (usize_add W mem_offset l) (\<lambda>_.
       and_then (heap_read mem_offset l) (\<lambda>data.
       and_then (read_st self_address) (\<lambda>a.
       on_io exit_of_system_error (emit_event sys a topics data)))))))))))"

definition instr_selfdestruct :: "'io evm_system \<Rightarrow> 'io instr" where
  "instr_selfdestruct sys =
     and_then (spend GAS_SELFDESTRUCT (native_cost OP_SELFDESTRUCT)) (\<lambda>_.
     and_then (read_st is_static) (\<lambda>static.
     if static then throw StateChangeDuringStaticCall
     else
       and_then (on_stack pop_1) (\<lambda>beneficiary.
       and_then (read_st self_address) (\<lambda>a.
       and_then (read_st is_constructor) (\<lambda>in_constructor.
       and_then (on_io (\<lambda>e. exit_of_evm_error (Cascaded (CascadedDeconstruction e)))
         (mark_for_deconstruction sys a (u256_to_b160 beneficiary) in_constructor)) (\<lambda>_.
       throw SelfDestruct))))))"

section \<open>Creation and calls\<close>

definition MAX_CODE_SIZE :: nat where "MAX_CODE_SIZE = 0x6000"

definition MAX_INITCODE_SIZE :: nat where "MAX_INITCODE_SIZE = MAX_CODE_SIZE * 2"

definition instr_create :: "nat \<Rightarrow> bool \<Rightarrow> 'io instr" where
  "instr_create W IS_CREATE2 =
     and_then (spend GAS_CREATE
       (if IS_CREATE2 then native_cost OP_CREATE2 else native_cost OP_CREATE)) (\<lambda>_.
     and_then (read_st is_static) (\<lambda>static.
     if static then throw StateChangeDuringStaticCall
     else
       and_then clear_last_returndata (\<lambda>_.
       and_then (on_stack pop_3) (\<lambda>(v, code_offset, l).
       and_then (cast_offset_and_len W code_offset l InvalidOperandOOG) (\<lambda>(code_offset, l).
       and_then (resize_heap W code_offset l) (\<lambda>_.
       if l > MAX_INITCODE_SIZE then throw CreateInitcodeSizeLimit
       else
         let cost_per_word = if IS_CREATE2 then INITCODE_WORD_COST + GAS_SHA3WORD else INITCODE_WORD_COST;
           initcode_cost = cost_per_word * word_of_nat (next_multiple_of l 32 div 32) in
         and_then (on_gas (spend_gas initcode_cost)) (\<lambda>_.
         and_then (usize_add W code_offset l) (\<lambda>end_offset.
         and_then
           (if IS_CREATE2 then and_then (on_stack pop_1) (\<lambda>salt. ret (Create2 salt)) else ret Create) (\<lambda>scheme.
         and_then (on_gas gas_take_resources) (\<lambda>all_resources.
         and_then (modify_st (\<lambda>m. m\<lparr>external_call_dest := Some (CreateRequest
             \<lparr>dep_deployment_code = (code_offset, end_offset), dep_scheme = Some scheme,
              dep_deployer_full_resources = all_resources, dep_nominal_token_value = v\<rparr>)\<rparr>)) (\<lambda>_.
         throw ConstructionCall)))))))))))"

text \<open>The value sent along and the modifier of the call; a scheme that cannot occur is \<open>None\<close>.\<close>

definition call_value_of :: "call_scheme \<Rightarrow> ('io, u256) evm_m" where
  "call_value_of scheme =
     (case scheme of
        SchemeCallCode \<Rightarrow> on_stack pop_1
      | SchemeCall \<Rightarrow>
          and_then (on_stack pop_1) (\<lambda>v.
          and_then (read_st is_static) (\<lambda>static.
          if static \<and> v \<noteq> 0 then throw CallNotAllowedInsideStatic else ret v))
      | SchemeDelegateCall \<Rightarrow> read_st call_value
      | SchemeStaticCall \<Rightarrow> ret 0)"

fun call_modifier_of :: "bool \<Rightarrow> call_scheme \<Rightarrow> call_modifier option" where
  "call_modifier_of True SchemeDelegateCall = Some DelegateStatic"
| "call_modifier_of True SchemeCallCode = Some EVMCallcodeStatic"
| "call_modifier_of True _ = Some Static"
| "call_modifier_of False SchemeCall = Some NoModifier"
| "call_modifier_of False SchemeDelegateCall = Some Delegate"
| "call_modifier_of False SchemeCallCode = Some EVMCallcode"
| "call_modifier_of False SchemeStaticCall = None"

definition call_impl :: "nat \<Rightarrow> call_scheme \<Rightarrow> 'io instr" where
  "call_impl W scheme =
     and_then (spend 0 (native_cost OP_CALL)) (\<lambda>_.
     and_then clear_last_returndata (\<lambda>_.
     and_then (on_stack pop_2) (\<lambda>(gas_to_pass, to).
     and_then (call_value_of scheme) (\<lambda>v.
     and_then (on_stack pop_4) (\<lambda>(in_offset, in_len, out_offset, out_len).
     and_then (cast_offset_and_len W in_offset in_len InvalidOperandOOG) (\<lambda>(in_offset, in_len).
     and_then (cast_offset_and_len W out_offset out_len InvalidOperandOOG) (\<lambda>(out_offset, out_len).
     and_then (resize_heap W in_offset in_len) (\<lambda>_.
     and_then (resize_heap W out_offset out_len) (\<lambda>_.
     and_then (usize_add W in_offset in_len) (\<lambda>in_end.
     and_then (read_st is_static) (\<lambda>static.
     and_then (expect (call_modifier_of (scheme = SchemeStaticCall \<or> static) scheme)) (\<lambda>md.
     and_then (usize_add W out_offset out_len) (\<lambda>out_end.
     and_then (modify_st (\<lambda>m. m\<lparr>returndata_location := (out_offset, out_end)\<rparr>)) (\<lambda>_.
     and_then (modify_st (\<lambda>m. m\<lparr>external_call_dest := Some (CallRequest
         \<lparr>req_gas_to_pass = u256_to_u64_saturated gas_to_pass, req_call_value = v,
          req_destination_address = u256_to_b160 to, req_calldata = (in_offset, in_end),
          req_modifier = md\<rparr>)\<rparr>)) (\<lambda>_.
     throw ExternalCall)))))))))))))))"

definition instr_call :: "nat \<Rightarrow> 'io instr" where
  "instr_call W = call_impl W SchemeCall"

definition instr_call_code :: "nat \<Rightarrow> 'io instr" where
  "instr_call_code W = call_impl W SchemeCallCode"

definition instr_delegate_call :: "nat \<Rightarrow> 'io instr" where
  "instr_delegate_call W = call_impl W SchemeDelegateCall"

definition instr_static_call :: "nat \<Rightarrow> 'io instr" where
  "instr_static_call W = call_impl W SchemeStaticCall"

end
