(* ===== verification/Evm_Run.thy ===== *)
theory Evm_Run
  imports Evm_Instr_Compute Evm_Instr_Host
begin

text \<open>
  The interpreter loop (\<^verbatim>\<open>evm_interpreter/src/interpreter.rs\<close>) and the execution environment
  built on it (\<^verbatim>\<open>evm_interpreter/src/ee_trait_impl.rs\<close>). The loop ends when an instruction
  returns an exit code; it is a partial function, so that not ending is \<open>None\<close>. Tracing and
  logging are left out.
\<close>

section \<open>Dispatch\<close>

definition dispatch :: "nat \<Rightarrow> ruint \<Rightarrow> 'io evm_system \<Rightarrow> (u8 \<times> 'io instr) list" where
  "dispatch W R sys =
    [(OP_CREATE, instr_create W False), (OP_CREATE2, instr_create W True), (OP_CALL, instr_call W),
     (OP_CALLCODE, instr_call_code W), (OP_DELEGATECALL, instr_delegate_call W),
     (OP_STATICCALL, instr_static_call W), (OP_STOP, throw Stop), (OP_ADD, instr_wrapped_add),
     (OP_MUL, instr_wrapping_mul R), (OP_SUB, instr_wrapping_sub), (OP_DIV, instr_div R),
     (OP_SDIV, instr_sdiv R), (OP_MOD, instr_rem R), (OP_SMOD, instr_smod R),
     (OP_ADDMOD, instr_addmod R), (OP_MULMOD, instr_mulmod R), (OP_EXP, instr_eval_exp R),
     (OP_SIGNEXTEND, instr_sign_extend), (OP_LT, instr_lt), (OP_GT, instr_gt), (OP_SLT, instr_slt),
     (OP_SGT, instr_sgt), (OP_EQ, instr_eq), (OP_ISZERO, instr_iszero), (OP_AND, instr_bitand),
     (OP_OR, instr_bitor), (OP_XOR, instr_bitxor), (OP_NOT, instr_not), (OP_BYTE, instr_byte),
     (OP_CLZ, instr_clz), (OP_SHL, instr_shl W), (OP_SHR, instr_shr W), (OP_SAR, instr_sar),
     (OP_SHA3, instr_sha3 W sys), (OP_ADDRESS, instr_address), (OP_BALANCE, instr_balance sys),
     (OP_SELFBALANCE, instr_selfbalance sys), (OP_CODESIZE, instr_codesize),
     (OP_CODECOPY, instr_codecopy W), (OP_CALLDATALOAD, instr_calldataload W),
     (OP_CALLDATASIZE, instr_calldatasize), (OP_CALLDATACOPY, instr_calldatacopy W),
     (OP_POP, instr_pop), (OP_MLOAD, instr_mload W), (OP_MSTORE, instr_mstore W),
     (OP_MSTORE8, instr_mstore8 W), (OP_JUMP, instr_jump W), (OP_JUMPI, instr_jumpi W),
     (OP_PC, instr_pc), (OP_MSIZE, instr_msize), (OP_JUMPDEST, instr_jumpdest),
     (OP_PUSH0, instr_push0), (OP_PUSH1, instr_push W 1), (OP_PUSH2, instr_push W 2),
     (OP_PUSH3, instr_push W 3), (OP_PUSH4, instr_push W 4), (OP_PUSH5, instr_push W 5),
     (OP_PUSH6, instr_push W 6), (OP_PUSH7, instr_push W 7), (OP_PUSH8, instr_push W 8),
     (OP_PUSH9, instr_push W 9), (OP_PUSH10, instr_push W 10), (OP_PUSH11, instr_push W 11),
     (OP_PUSH12, instr_push W 12), (OP_PUSH13, instr_push W 13), (OP_PUSH14, instr_push W 14),
     (OP_PUSH15, instr_push W 15), (OP_PUSH16, instr_push W 16), (OP_PUSH17, instr_push W 17),
     (OP_PUSH18, instr_push W 18), (OP_PUSH19, instr_push W 19), (OP_PUSH20, instr_push W 20),
     (OP_PUSH21, instr_push W 21), (OP_PUSH22, instr_push W 22), (OP_PUSH23, instr_push W 23),
     (OP_PUSH24, instr_push W 24), (OP_PUSH25, instr_push W 25), (OP_PUSH26, instr_push W 26),
     (OP_PUSH27, instr_push W 27), (OP_PUSH28, instr_push W 28), (OP_PUSH29, instr_push W 29),
     (OP_PUSH30, instr_push W 30), (OP_PUSH31, instr_push W 31), (OP_PUSH32, instr_push W 32),
     (OP_DUP1, instr_dup 1), (OP_DUP2, instr_dup 2), (OP_DUP3, instr_dup 3),
     (OP_DUP4, instr_dup 4), (OP_DUP5, instr_dup 5), (OP_DUP6, instr_dup 6),
     (OP_DUP7, instr_dup 7), (OP_DUP8, instr_dup 8), (OP_DUP9, instr_dup 9),
     (OP_DUP10, instr_dup 10), (OP_DUP11, instr_dup 11), (OP_DUP12, instr_dup 12),
     (OP_DUP13, instr_dup 13), (OP_DUP14, instr_dup 14), (OP_DUP15, instr_dup 15),
     (OP_DUP16, instr_dup 16), (OP_SWAP1, instr_swap 1), (OP_SWAP2, instr_swap 2),
     (OP_SWAP3, instr_swap 3), (OP_SWAP4, instr_swap 4), (OP_SWAP5, instr_swap 5),
     (OP_SWAP6, instr_swap 6), (OP_SWAP7, instr_swap 7), (OP_SWAP8, instr_swap 8),
     (OP_SWAP9, instr_swap 9), (OP_SWAP10, instr_swap 10), (OP_SWAP11, instr_swap 11),
     (OP_SWAP12, instr_swap 12), (OP_SWAP13, instr_swap 13), (OP_SWAP14, instr_swap 14),
     (OP_SWAP15, instr_swap 15), (OP_SWAP16, instr_swap 16), (OP_RETURN, instr_ret W),
     (OP_REVERT, instr_revert W), (OP_INVALID, throw InvalidFEOpcode),
     (OP_BASEFEE, instr_basefee sys), (OP_ORIGIN, instr_origin sys), (OP_CALLER, instr_caller),
     (OP_CALLVALUE, instr_callvalue), (OP_GASPRICE, instr_gasprice sys),
     (OP_EXTCODESIZE, instr_extcodesize sys), (OP_EXTCODEHASH, instr_extcodehash sys),
     (OP_EXTCODECOPY, instr_extcodecopy W sys), (OP_RETURNDATASIZE, instr_returndatasize),
     (OP_RETURNDATACOPY, instr_returndatacopy W), (OP_BLOCKHASH, instr_blockhash sys),
     (OP_COINBASE, instr_coinbase sys), (OP_TIMESTAMP, instr_timestamp sys),
     (OP_NUMBER, instr_number sys), (OP_DIFFICULTY, instr_difficulty sys),
     (OP_GASLIMIT, instr_gaslimit sys), (OP_SLOAD, instr_sload sys), (OP_SSTORE, instr_sstore sys),
     (OP_TLOAD, instr_tload sys), (OP_TSTORE, instr_tstore sys), (OP_MCOPY, instr_mcopy W),
     (OP_GAS, instr_gas), (OP_LOG0, instr_log W 0 sys), (OP_LOG1, instr_log W 1 sys),
     (OP_LOG2, instr_log W 2 sys), (OP_LOG3, instr_log W 3 sys), (OP_LOG4, instr_log W 4 sys),
     (OP_SELFDESTRUCT, instr_selfdestruct sys), (OP_CHAINID, instr_chainid sys),
     (OP_BLOBHASH, instr_blobhash W sys), (OP_BLOBBASEFEE, instr_blobbasefee sys)]"

definition exec_opcode :: "nat \<Rightarrow> ruint \<Rightarrow> 'io evm_system \<Rightarrow> u8 \<Rightarrow> 'io instr" where
  "exec_opcode W R sys opcode =
     (case map_of (dispatch W R sys) opcode of Some i \<Rightarrow> i | None \<Rightarrow> throw OpcodeNotFound)"

text \<open>One round of the loop.\<close>

definition run_step :: "nat \<Rightarrow> ruint \<Rightarrow> 'io evm_system \<Rightarrow> 'io instr" where
  "run_step W R sys =
     and_then (read_st instruction_pointer) (\<lambda>ip.
     and_then (read_st (\<lambda>m. get_bytecode_unchecked m ip)) (\<lambda>opcode.
     and_then (usize_add W ip 1) (\<lambda>ip.
     and_then (modify_st (\<lambda>m. m\<lparr>instruction_pointer := ip\<rparr>)) (\<lambda>_.
     and_then (spend 0 STEP_NATIVE_COST) (\<lambda>_.
     exec_opcode W R sys opcode)))))"

partial_function (option) run ::
    "nat \<Rightarrow> ruint \<Rightarrow> 'io evm_system \<Rightarrow> 'io machine \<Rightarrow> (exit_code fault \<times> 'io machine) option" where
  "run W R sys m =
     (case run_step W R sys m of
        (Inr _, m) \<Rightarrow> run W R sys m
      | (Inl r, m) \<Rightarrow> Some (r, m))"

section \<open>Yield points\<close>

definition slice_of :: "bytes \<Rightarrow> nat \<times> nat \<Rightarrow> ('s, 'e, bytes) rs" where
  "slice_of bs r =
     (case r of (a, b) \<Rightarrow>
        if a \<le> b \<and> b \<le> length bs then ret (take (b - a) (drop a bs)) else panic)"

definition create_immediate_return_state ::
    "bool \<Rightarrow> bool \<Rightarrow> bool \<Rightarrow> ('io machine, evm_subsystem_error, preemption_point) rs" where
  "create_immediate_return_state empty_returndata execution_reverted err =
     and_then (if err then on_gas consume_all_gas else ret ()) (\<lambda>_.
     and_then
       (if \<not> empty_returndata
        then and_then (read_st (\<lambda>m. (contents (heap m), returndata_location m))) (\<lambda>(bs, r). slice_of bs r)
        else ret []) (\<lambda>return_values.
     and_then (read_st is_constructor) (\<lambda>in_constructor.
     if in_constructor then
       and_then
         (if \<not> execution_reverted then
            if length return_values \<ge> 1 \<and> return_values ! 0 = 0xEF
               \<or> length return_values > MAX_CODE_SIZE
            then and_then (on_gas consume_all_gas) (\<lambda>_.
              ret (DeploymentFailed return_values execution_reverted))
            else and_then (read_st self_address) (\<lambda>a.
              ret (DeploymentSuccessful return_values [] a))
          else ret (DeploymentFailed return_values execution_reverted)) (\<lambda>deployment_result.
       and_then (on_gas gas_take_resources) (\<lambda>r.
       ret (End (CompletedDeployment r deployment_result))))
     else
       and_then (on_gas gas_take_resources) (\<lambda>r.
       ret (End (CompletedExecution r return_values execution_reverted))))))"

definition yield_point :: "exit_code \<Rightarrow> ('io machine, evm_subsystem_error, preemption_point) rs" where
  "yield_point code =
     (case code of FatalError e \<Rightarrow> throw e | _ \<Rightarrow>
      and_then (read_st external_call_dest) (\<lambda>call.
      case call of
        Some call \<Rightarrow>
          and_then (read_st (\<lambda>m. sv_freeze (heap m))) (\<lambda>(current_heap, next_heap).
          case call of
            CallRequest q \<Rightarrow>
              and_then (assert_that (code = ExternalCall)) (\<lambda>_.
              and_then (on_gas gas_take_resources) (\<lambda>r.
              and_then (slice_of current_heap (req_calldata q)) (\<lambda>data.
              and_then (read_st (\<lambda>m. (caller m, self_address m))) (\<lambda>(callers, this).
              ret (Spawn (RequestedExternalCall
                \<lparr>available_resources = r,
                 ergs_to_pass = saturating_mul (req_gas_to_pass q) ERGS_PER_GAS,
                 call_caller = this, callee = req_destination_address q, callers_caller = callers,
                 modifier = req_modifier q, call_calldata = data,
                 nominal_token_value = req_call_value q\<rparr>) next_heap)))))
          | CreateRequest q \<Rightarrow>
              and_then (assert_that (code = ConstructionCall)) (\<lambda>_.
              and_then (slice_of current_heap (dep_deployment_code q)) (\<lambda>code.
              and_then (read_st self_address) (\<lambda>this.
              ret (Spawn (RequestedDeployment
                \<lparr>address_of_deployer = this, deployment_code = code, constructor_parameters = [],
                 ee_specific_deployment_processing_data = dep_scheme q,
                 deployer_full_resources = dep_deployer_full_resources q,
                 deployment_token_value = dep_nominal_token_value q,
                 deployer_nonce = None\<rparr>) next_heap)))))
      | None \<Rightarrow>
          let (empty_returndata, reverted) =
            (case code of
               Stop \<Rightarrow> (True, False)
             | SelfDestruct \<Rightarrow> (True, False)
             | Return \<Rightarrow> (False, False)
             | Revert \<Rightarrow> (False, True)
             | _ \<Rightarrow> (True, True)) in
          create_immediate_return_state empty_returndata reverted (is_error code)))"

type_synonym 'io ee_result =
  "((evm_subsystem_error fault + preemption_point) \<times> 'io machine) option"

definition execute_till_yield_point ::
    "nat \<Rightarrow> ruint \<Rightarrow> 'io evm_system \<Rightarrow> 'io machine \<Rightarrow> 'io ee_result" where
  "execute_till_yield_point W R sys m =
     (case run W R sys (m\<lparr>external_call_dest := None\<rparr>) of
        None \<Rightarrow> None
      | Some (Panic, m) \<Rightarrow> Some (Inl Panic, m)
      | Some (Err code, m) \<Rightarrow> Some (yield_point code m))"

section \<open>The execution environment\<close>

definition is_modifier_supported :: "call_modifier \<Rightarrow> bool" where
  "is_modifier_supported md \<longleftrightarrow>
     md \<in> {NoModifier, Constructor, Static, Delegate, DelegateStatic, EVMCallcode}"

definition frame_new :: "'io \<Rightarrow> 'io machine" where
  "frame_new i =
     \<lparr>instruction_pointer = 0, gas = gas_new, stack = stack_new, caller = 0, self_address = 0,
      calldata = [], returndata = [], heap = sv_new 0, returndata_location = (0, 0), bytecode = [],
      bytecode_preprocessing = preprocessing_empty, call_value = 0, is_static = False,
      is_constructor = False, io = i, external_call_dest = None\<rparr>"

text \<open>The caller, the address, the static and the constructor flag that a modifier gives a frame.\<close>

definition frame_roles ::
    "external_call_request \<Rightarrow> ('s, evm_subsystem_error, b160 \<times> b160 \<times> bool \<times> bool) rs" where
  "frame_roles q =
     (case modifier q of
        NoModifier \<Rightarrow> ret (call_caller q, callee q, False, False)
      | Delegate \<Rightarrow> ret (callers_caller q, call_caller q, False, False)
      | Static \<Rightarrow> ret (call_caller q, callee q, True, False)
      | DelegateStatic \<Rightarrow> ret (callers_caller q, call_caller q, True, False)
      | Constructor \<Rightarrow>
          and_then (assert_that (callers_caller q = 0)) (\<lambda>_.
          ret (call_caller q, callee q, False, True))
      | EVMCallcode \<Rightarrow> ret (call_caller q, call_caller q, False, False)
      | EVMCallcodeStatic \<Rightarrow> ret (call_caller q, call_caller q, True, False)
      | md \<Rightarrow> throw (LeafUsage (UnexpectedModifier md)))"


definition load_code ::
    "nat \<Rightarrow> code_source \<Rightarrow>
      (base_resources, evm_subsystem_error, bytes \<times> bytecode_preprocessing_data) rs" where
  "load_code W src =
     (case src of
        ConstructorCode code \<Rightarrow>
          and_then (on_part (\<lambda>r. r) (\<lambda>r _. r) subsystem_of_system (create_artifacts W code)) (\<lambda>p.
          ret (code, p))
      | Decommitted code unpadded_code_len artifacts_len code_version \<Rightarrow>
          if code_version = DEFAULT_CODE_VERSION_BYTE then
            and_then (assert_that (artifacts_len = 0)) (\<lambda>_.
            and_then (on_part (\<lambda>r. r) (\<lambda>r _. r) subsystem_of_system (create_artifacts W code)) (\<lambda>p.
            ret (code, p)))
          else if code_version = ARTIFACTS_CACHING_CODE_VERSION_BYTE then
            on_part (\<lambda>r. r) (\<lambda>r _. r) DefectLeaf
              (parse_bytecode W code (unat unpadded_code_len) (unat artifacts_len))
          else throw (DefectLeaf ''Unknown code version''))"

definition begin_frame ::
    "nat \<Rightarrow> external_call_request \<Rightarrow> code_source \<Rightarrow> slice_vec \<Rightarrow>
      ('io machine, evm_subsystem_error, unit) rs" where
  "begin_frame W q src new_heap =
     and_then (frame_roles q) (\<lambda>(caller_address, this_address, static, in_constructor).
     and_then (read_st (\<lambda>m. gas_resources (gas m))) (\<lambda>r.
     and_then (assert_that (r = resources_empty)) (\<lambda>_ m.
     case load_code W src (available_resources q) of
       (Inl e, _) \<Rightarrow> (Inl e, m)
     | (Inr (code, p), resources) \<Rightarrow>
         (Inr (), m\<lparr>bytecode := code, bytecode_preprocessing := p,
            gas := gas m\<lparr>gas_resources := resources\<rparr>, self_address := this_address,
            caller := caller_address, is_static := static, is_constructor := in_constructor,
            calldata := call_calldata q, heap := new_heap, call_value := nominal_token_value q\<rparr>))))"

definition start_executing_frame ::
    "nat \<Rightarrow> ruint \<Rightarrow> 'io evm_system \<Rightarrow> external_call_request \<Rightarrow> code_source \<Rightarrow> slice_vec \<Rightarrow>
      'io machine \<Rightarrow> 'io ee_result" where
  "start_executing_frame W R sys q src new_heap m =
     (case begin_frame W q src new_heap m of
        (Inl e, m) \<Rightarrow> Some (Inl e, m)
      | (Inr _, m) \<Rightarrow> execute_till_yield_point W R sys m)"

definition copy_returndata_to_heap :: "bytes \<Rightarrow> ('io machine, evm_subsystem_error, unit) rs" where
  "copy_returndata_to_heap region =
     and_then (read_st returndata_location) (\<lambda>(start, end_offset).
     and_then
       (if start < end_offset
        then expect_ok (heap_write start (take (min (length region) (end_offset - start)) region))
        else ret ()) (\<lambda>_.
     modify_st (\<lambda>m. m\<lparr>returndata := region\<rparr>)))"

text \<open>
  What a frame does with the result of a call or a deployment before it goes on; \<open>Some\<close> when
  it ends instead. Results carry no scratch space for the EVM.
\<close>

definition after_external_call ::
    "base_resources \<Rightarrow> call_result \<Rightarrow>
      ('io machine, evm_subsystem_error, preemption_point option) rs" where
  "after_external_call returned_resources res =
     and_then (read_st (\<lambda>m. gas_native (gas m))) (\<lambda>n.
     and_then (assert_that (n = 0)) (\<lambda>_.
     and_then (on_gas (reclaim_resources returned_resources)) (\<lambda>_.
     case res of
       CallFailedToExecute \<Rightarrow>
         and_then (create_immediate_return_state True True False) (\<lambda>p. ret (Some p))
     | CallFailed data \<Rightarrow>
         and_then (copy_returndata_to_heap data) (\<lambda>_.
         and_then (expect_ok (on_stack push_zero)) (\<lambda>_. ret None))
     | CallSuccessful data \<Rightarrow>
         and_then (copy_returndata_to_heap data) (\<lambda>_.
         and_then (expect_ok (on_stack push_one)) (\<lambda>_. ret None)))))"

definition after_deployment ::
    "base_resources \<Rightarrow> deployment_result \<Rightarrow> ('io machine, evm_subsystem_error, preemption_point option) rs" where
  "after_deployment returned_resources res =
     and_then (read_st (\<lambda>m. gas_native (gas m))) (\<lambda>n.
     and_then (assert_that (n = 0)) (\<lambda>_.
     and_then (on_gas (reclaim_resources returned_resources)) (\<lambda>_.
     case res of
       DeploymentFailed data execution_reverted \<Rightarrow>
         and_then (read_st returndata_location) (\<lambda>(start, end_offset).
         and_then (assert_that (execution_reverted \<longrightarrow> \<not> start < end_offset)) (\<lambda>_.
         and_then (modify_st (\<lambda>m. m\<lparr>returndata := data\<rparr>)) (\<lambda>_.
         and_then (expect_ok (on_stack push_zero)) (\<lambda>_. ret None))))
     | DeploymentSuccessful code data deployed_at \<Rightarrow>
         and_then (assert_that (data = [])) (\<lambda>_.
         and_then (modify_st (\<lambda>m. m\<lparr>returndata := data\<rparr>)) (\<lambda>_.
         and_then (expect_ok (on_stack (stack_push (b160_to_u256 deployed_at)))) (\<lambda>_. ret None))))))"

definition resume ::
    "nat \<Rightarrow> ruint \<Rightarrow> 'io evm_system \<Rightarrow>
      ('io machine, evm_subsystem_error, preemption_point option) rs \<Rightarrow> 'io machine \<Rightarrow> 'io ee_result" where
  "resume W R sys after m =
     (case after m of
        (Inl e, m) \<Rightarrow> Some (Inl e, m)
      | (Inr (Some p), m) \<Rightarrow> Some (Inr p, m)
      | (Inr None, m) \<Rightarrow> execute_till_yield_point W R sys m)"

definition continue_after_external_call ::
    "nat \<Rightarrow> ruint \<Rightarrow> 'io evm_system \<Rightarrow> base_resources \<Rightarrow> call_result \<Rightarrow> 'io machine \<Rightarrow> 'io ee_result" where
  "continue_after_external_call W R sys returned_resources res =
     resume W R sys (after_external_call returned_resources res)"

definition continue_after_deployment ::
    "nat \<Rightarrow> ruint \<Rightarrow> 'io evm_system \<Rightarrow> base_resources \<Rightarrow> deployment_result \<Rightarrow> 'io machine \<Rightarrow> 'io ee_result" where
  "continue_after_deployment W R sys returned_resources res =
     resume W R sys (after_deployment returned_resources res)"

end
