(* ===== verification/Evm_Safety.thy ===== *)
theory Evm_Safety
  imports Evm_Run
begin

text \<open>
  What every instruction keeps. \<open>host_ok\<close> states what the interpreter relies on in the system
  below it; \<open>frame_ok\<close> is the invariant of a frame; \<open>safe\<close> is a weakest precondition that
  carries the invariant, the fields that an instruction must not change, the decrease of the
  resources and, in a static frame, that the IO state is not changed. Each operation has one
  rule in \<open>safe_intro\<close>, and every instruction follows from them.
\<close>

named_theorems safe_intro \<open>rules for \<open>safe\<close>, one per operation an instruction is made of\<close>

section \<open>The system below\<close>

text \<open>
  An operation of the IO subsystem keeps the invariant \<open>J\<close> of the IO state, relates it to the
  state before by \<open>R\<close>, does not panic and does not add resources, whether it succeeds or fails.
\<close>

definition io_op_ok ::
    "('io \<Rightarrow> bool) \<Rightarrow> ('io \<Rightarrow> 'io \<Rightarrow> bool) \<Rightarrow> ('io, 'e, 'a) io_op \<Rightarrow> bool" where
  "io_op_ok J R m \<longleftrightarrow>
     (\<forall>r i. J i \<longrightarrow>
        wp m (\<lambda>_ (r', i'). J i' \<and> R i i' \<and> res_le r' r)
             (\<lambda>_ (r', i'). J i' \<and> R i i' \<and> res_le r' r) (r, i))"

text \<open>
  \<open>R\<close> holds between two IO states that differ only in what static code may change, such as
  which slots are warm: every read stays inside it.
\<close>

definition host_ok :: "('io \<Rightarrow> bool) \<Rightarrow> ('io \<Rightarrow> 'io \<Rightarrow> bool) \<Rightarrow> 'io evm_system \<Rightarrow> bool" where
  "host_ok J R sys \<longleftrightarrow>
     reflp R \<and> transp R \<and>
     (\<forall>n. unat n < 256 \<longrightarrow> block_historical_hash sys n \<noteq> None) \<and>
     (\<forall>bs r. wp (keccak256 sys bs) (\<lambda>_ r'. res_le r' r) (\<lambda>_ r'. res_le r' r) r) \<and>
     (\<forall>t a k. io_op_ok J R (storage_read sys t a k)) \<and>
     (\<forall>a. io_op_ok J R (get_nominal_token_balance sys a)) \<and>
     (\<forall>a. io_op_ok J R (get_selfbalance sys a)) \<and>
     (\<forall>a. io_op_ok J R (get_observable_bytecode_size sys a)) \<and>
     (\<forall>a. io_op_ok J R (get_observable_bytecode_hash sys a)) \<and>
     (\<forall>a. io_op_ok J R (get_observable_bytecode sys a)) \<and>
     (\<forall>t a k v. io_op_ok J (\<lambda>_ _. True) (storage_write sys t a k v)) \<and>
     (\<forall>a ts bs. io_op_ok J (\<lambda>_ _. True) (emit_event sys a ts bs)) \<and>
     (\<forall>a b c. io_op_ok J (\<lambda>_ _. True) (mark_for_deconstruction sys a b c))"

lemma host_okD:
  assumes "host_ok J R sys"
  shows "reflp R" and "transp R"
    and "unat n < 256 \<Longrightarrow> \<exists>h. block_historical_hash sys n = Some h"
    and "wp (keccak256 sys bs) (\<lambda>_ r'. res_le r' r) (\<lambda>_ r'. res_le r' r) r"
    and "io_op_ok J R (storage_read sys t a k)"
    and "io_op_ok J R (get_nominal_token_balance sys a)"
    and "io_op_ok J R (get_selfbalance sys a)"
    and "io_op_ok J R (get_observable_bytecode_size sys a)"
    and "io_op_ok J R (get_observable_bytecode_hash sys a)"
    and "io_op_ok J R (get_observable_bytecode sys a)"
    and "io_op_ok J (\<lambda>_ _. True) (storage_write sys t a k v)"
    and "io_op_ok J (\<lambda>_ _. True) (emit_event sys a ts bs)"
    and "io_op_ok J (\<lambda>_ _. True) (mark_for_deconstruction sys a b c)"
  using assms by (simp_all add: host_ok_def)

section \<open>The invariant of a frame\<close>

definition preprocessing_ok :: "nat \<Rightarrow> bytes \<Rightarrow> bytecode_preprocessing_data \<Rightarrow> bool" where
  "preprocessing_ok W code p \<longleftrightarrow>
     original_bytecode_len p \<le> length code \<and>
     original_bytecode_len p \<le> W * length (bitmap_words (jumpdest_bitmap p))"

text \<open>A slice of bytes is at most \<open>isize::MAX\<close> long.\<close>

definition frame_ok :: "nat \<Rightarrow> ('io \<Rightarrow> bool) \<Rightarrow> 'io machine \<Rightarrow> bool" where
  "frame_ok W J m \<longleftrightarrow>
     stack_ok (stack m) \<and> heap_ok (heap m) (gas m) \<and>
     fst (returndata_location m) \<le> snd (returndata_location m) \<and>
     snd (returndata_location m) \<le> memory_len m \<and>
     length (bytecode m) < 2 ^ (W - 1) \<and>
     preprocessing_ok W (bytecode m) (bytecode_preprocessing m) \<and> J (io m)"

definition frozen :: "'io machine \<Rightarrow> 'io machine \<Rightarrow> bool" where
  "frozen m0 m \<longleftrightarrow>
     caller m = caller m0 \<and> self_address m = self_address m0 \<and> calldata m = calldata m0 \<and>
     returndata m = returndata m0 \<and> bytecode m = bytecode m0 \<and>
     bytecode_preprocessing m = bytecode_preprocessing m0 \<and> call_value m = call_value m0 \<and>
     is_static m = is_static m0 \<and> is_constructor m = is_constructor m0"

abbreviation resources_of :: "'io machine \<Rightarrow> base_resources" where
  "resources_of m \<equiv> gas_resources (gas m)"

definition rel ::
    "nat \<Rightarrow> ('io \<Rightarrow> bool) \<Rightarrow> ('io \<Rightarrow> 'io \<Rightarrow> bool) \<Rightarrow> 'io machine \<Rightarrow> 'io machine \<Rightarrow> bool" where
  "rel W J R m0 m \<longleftrightarrow>
     frame_ok W J m \<and> frozen m0 m \<and> res_le (resources_of m) (resources_of m0) \<and>
     instruction_pointer m \<le> length (bytecode m) + 32 \<and>
     (is_static m0 \<longrightarrow> R (io m0) (io m))"

text \<open>What holds of a frame that stops: a request for a call or a creation is in place exactly
  when the exit code says so, its data is in the heap, and the stack has room for the answer.\<close>

definition request_ok :: "'io machine \<Rightarrow> exit_code \<Rightarrow> 'io machine \<Rightarrow> bool" where
  "request_ok m0 e m \<longleftrightarrow>
     (if e = ExternalCall then
        stack_len (stack m) < STACK_SIZE \<and>
        (\<exists>q. external_call_dest m = Some (CallRequest q) \<and>
           fst (req_calldata q) \<le> snd (req_calldata q) \<and> snd (req_calldata q) \<le> memory_len m \<and>
           (is_static m0 \<longrightarrow> req_modifier q \<in> {Static, DelegateStatic, EVMCallcodeStatic}))
      else if e = ConstructionCall then
        stack_len (stack m) < STACK_SIZE \<and> \<not> is_static m0 \<and>
        resources_of m = resources_empty \<and> returndata_location m = (0, 0) \<and>
        (\<exists>q. external_call_dest m = Some (CreateRequest q) \<and>
           fst (dep_deployment_code q) \<le> snd (dep_deployment_code q) \<and>
           snd (dep_deployment_code q) \<le> memory_len m \<and>
           res_le (dep_deployer_full_resources q) (resources_of m0))
      else external_call_dest m = None)"

text \<open>
  A frame that fails may leave its heap and the price paid for it out of step; it never runs
  again. One that asks for a call or a creation keeps the whole invariant.
\<close>

definition plain_exit :: "exit_code \<Rightarrow> bool" where
  "plain_exit e \<longleftrightarrow> e \<noteq> ExternalCall \<and> e \<noteq> ConstructionCall"

definition exit_ok ::
    "nat \<Rightarrow> ('io \<Rightarrow> bool) \<Rightarrow> ('io \<Rightarrow> 'io \<Rightarrow> bool) \<Rightarrow> 'io machine \<Rightarrow> exit_code \<Rightarrow> 'io machine \<Rightarrow> bool" where
  "exit_ok W J R m0 e m \<longleftrightarrow>
     frozen m0 m \<and> res_le (resources_of m) (resources_of m0) \<and>
     (is_static m0 \<longrightarrow> R (io m0) (io m)) \<and> J (io m) \<and>
     fst (returndata_location m) \<le> snd (returndata_location m) \<and>
     snd (returndata_location m) \<le> memory_len m \<and>
     request_ok m0 e m \<and> (\<not> plain_exit e \<longrightarrow> rel W J R m0 m)"

lemma rel_exit: "rel W J R m0 m \<Longrightarrow> request_ok m0 e m \<Longrightarrow> exit_ok W J R m0 e m"
  by (simp add: rel_def exit_ok_def frame_ok_def)

lemma plain_request: "plain_exit e \<Longrightarrow> external_call_dest m = None \<Longrightarrow> request_ok m0 e m"
  by (simp add: plain_exit_def request_ok_def)

lemma plain_rel_exit:
  "rel W J R m0 m \<Longrightarrow> plain_exit e \<Longrightarrow> external_call_dest m = None \<Longrightarrow> exit_ok W J R m0 e m"
  by (simp add: rel_exit plain_request)

definition safe ::
    "nat \<Rightarrow> ('io \<Rightarrow> bool) \<Rightarrow> ('io \<Rightarrow> 'io \<Rightarrow> bool) \<Rightarrow> 'io machine \<Rightarrow> ('io, 'a) evm_m \<Rightarrow>
      ('a \<Rightarrow> 'io machine \<Rightarrow> bool) \<Rightarrow> 'io machine \<Rightarrow> bool" where
  "safe W J R m0 i Q m \<longleftrightarrow>
     (rel W J R m0 m \<and> external_call_dest m = None \<longrightarrow>
      wp i (\<lambda>x m'. rel W J R m0 m' \<and> external_call_dest m' = None \<and> Q x m')
           (exit_ok W J R m0) m)"

lemma safe_conseq:
  "safe W J R m0 i Q m \<Longrightarrow>
     (\<And>x m'. rel W J R m0 m' \<Longrightarrow> external_call_dest m' = None \<Longrightarrow> Q x m' \<Longrightarrow> Q' x m') \<Longrightarrow>
     safe W J R m0 i Q' m"
  unfolding safe_def by (auto elim!: wp_mono)

lemma safe_and_then [safe_intro]:
  assumes "safe W J R m0 i (\<lambda>x m'. safe W J R m0 (f x) Q m') m"
  shows "safe W J R m0 (and_then i f) Q m"
  using assms unfolding safe_def wp_and_then by (auto elim!: wp_mono)

lemma safe_ret [safe_intro]: "Q x m \<Longrightarrow> safe W J R m0 (ret x) Q m"
  by (simp add: safe_def)

lemma safe_throw [safe_intro]: "plain_exit e \<Longrightarrow> safe W J R m0 (throw e) Q m"
  by (simp add: safe_def plain_rel_exit)

lemma safe_read_st [safe_intro]: "Q (g m) m \<Longrightarrow> safe W J R m0 (read_st g) Q m"
  by (simp add: safe_def)

lemma safe_assert_that [safe_intro]: "b \<Longrightarrow> Q () m \<Longrightarrow> safe W J R m0 (assert_that b) Q m"
  by (simp add: safe_def)

lemma safe_ok_or [safe_intro]:
  "plain_exit e \<Longrightarrow> (\<And>y. x = Some y \<Longrightarrow> Q y m) \<Longrightarrow> safe W J R m0 (ok_or x e) Q m"
  by (auto simp: safe_def split: option.splits intro: plain_rel_exit)

lemma safe_expect [safe_intro]:
  "x = Some y \<Longrightarrow> Q y m \<Longrightarrow> safe W J R m0 (expect x) Q m"
  by (simp add: safe_def)

lemma safe_if [safe_intro]:
  "(b \<Longrightarrow> safe W J R m0 i Q m) \<Longrightarrow> (\<not> b \<Longrightarrow> safe W J R m0 j Q m) \<Longrightarrow>
     safe W J R m0 (if b then i else j) Q m"
  by simp

text \<open>The flag that an instruction reads is the one the frame started with.\<close>

lemma safe_read_static:
  assumes "safe W J R m0 (f (is_static m0)) Q m"
  shows "safe W J R m0 (and_then (read_st is_static) f) Q m"
  using assms by (auto simp: safe_def rel_def frozen_def)

section \<open>Gas, stack and memory\<close>

lemma rel_gas:
  assumes "rel W J R m0 m" and "heap_ok (heap m) g" and "res_le (gas_resources g) (resources_of m)"
  shows "rel W J R m0 (m\<lparr>gas := g\<rparr>)"
  using assms by (auto simp: rel_def frame_ok_def frozen_def res_le_def memory_len_def)

lemma heap_ok_gas: "heap_ok h g \<Longrightarrow> gas_paid_for_heap_growth g' = gas_paid_for_heap_growth g \<Longrightarrow> heap_ok h g'"
  by (simp add: heap_ok_def)

lemma plain_out_of_resources: "out_of_resources e \<Longrightarrow> plain_exit e"
  by (auto simp: out_of_resources_def plain_exit_def)

lemma safe_gas_op:
  assumes "\<And>g. wp i (\<lambda>x g'. gas_paid_for_heap_growth g' = gas_paid_for_heap_growth g \<and>
        res_le (gas_resources g') (gas_resources g) \<and> P x g')
      (\<lambda>e g'. gas_paid_for_heap_growth g' = gas_paid_for_heap_growth g \<and>
        res_le (gas_resources g') (gas_resources g) \<and> plain_exit e) g"
    and "\<And>x g. P x g \<Longrightarrow> Q x (m\<lparr>gas := g\<rparr>)"
  shows "safe W J R m0 (on_gas i) Q m"
  unfolding safe_def on_gas_def wp_on_part
  by (intro impI wp_mono [OF assms(1)] conjI rel_gas plain_rel_exit)
     (auto simp: assms(2) rel_def frame_ok_def elim: heap_ok_gas)

lemma safe_spend [safe_intro]:
  "(\<And>g. Q () (m\<lparr>gas := g\<rparr>)) \<Longrightarrow> safe W J R m0 (spend a n) Q m"
  unfolding spend_def
  by (rule safe_gas_op [where P = "\<lambda>_ _. True"], rule wp_spend_gas_and_native)
     (auto simp: res_le_def word_le_nat_alt gas_native_def plain_out_of_resources)

lemma safe_spend_gas [safe_intro]:
  "(\<And>g. Q () (m\<lparr>gas := g\<rparr>)) \<Longrightarrow> safe W J R m0 (on_gas (spend_gas a)) Q m"
  by (rule safe_gas_op [where P = "\<lambda>_ _. True"], rule wp_spend_gas)
     (auto simp: res_le_def word_le_nat_alt gas_native_def plain_out_of_resources)

lemma safe_take_resources [safe_intro]:
  "(\<And>g. gas_resources g = resources_empty \<Longrightarrow> res_le (resources_of m) (resources_of m0) \<Longrightarrow>
      Q (resources_of m) (m\<lparr>gas := g\<rparr>)) \<Longrightarrow> safe W J R m0 (on_gas gas_take_resources) Q m"
proof -
  let ?g = "gas m\<lparr>gas_resources := resources_empty\<rparr>"
  assume Q: "\<And>g. gas_resources g = resources_empty \<Longrightarrow> res_le (resources_of m) (resources_of m0) \<Longrightarrow>
      Q (resources_of m) (m\<lparr>gas := g\<rparr>)"
  have "rel W J R m0 m \<Longrightarrow> rel W J R m0 (m\<lparr>gas := ?g\<rparr>)"
    by (rule rel_gas) (auto simp: rel_def frame_ok_def res_le_def resources_empty_def ergs_empty_def
        native_empty_def elim: heap_ok_gas)
  moreover have "rel W J R m0 m \<Longrightarrow> Q (resources_of m) (m\<lparr>gas := ?g\<rparr>)"
    by (rule Q) (simp_all add: rel_def)
  ultimately show ?thesis
    by (simp add: safe_def on_gas_def wp_def on_part_def gas_take_resources_def take_resources_def)
qed

lemma rel_stack: "rel W J R m0 m \<Longrightarrow> stack_ok s \<Longrightarrow> rel W J R m0 (m\<lparr>stack := s\<rparr>)"
  by (auto simp: rel_def frame_ok_def frozen_def memory_len_def)

text \<open>
  A stack operation that satisfies \<open>P\<close> on a well-formed stack; on failure the stack is
  unchanged.
\<close>

lemma safe_stack_op:
  assumes "\<And>s. stack_ok s \<Longrightarrow> s = stack m \<Longrightarrow>
      wp i (\<lambda>x s'. stack_ok s' \<and> Q x (m\<lparr>stack := s'\<rparr>)) (\<lambda>e s'. stack_ok s' \<and> plain_exit e) s"
  shows "safe W J R m0 (on_stack i) Q m"
  unfolding safe_def on_stack_def wp_on_part
  by (intro impI wp_mono [OF assms [OF _ refl]] conjI rel_stack plain_rel_exit)
     (auto simp: rel_def frame_ok_def)

lemma plain_stack: "plain_exit StackUnderflow" "plain_exit StackOverflow"
  by (simp_all add: plain_exit_def)

lemma stack_len_slots: "slots s = xs \<Longrightarrow> stack_len s = length xs"
  by (metis length_slots)

lemma safe_pop_1 [safe_intro]:
  "(\<And>a s. stack_len (stack m) = stack_len s + 1 \<Longrightarrow> stack_len s + 1 \<le> STACK_SIZE \<Longrightarrow> Q a (m\<lparr>stack := s\<rparr>)) \<Longrightarrow>
     safe W J R m0 (on_stack pop_1) Q m"
  by (rule safe_stack_op, rule wp_pop_1)
     (auto simp: plain_stack stack_ok_def [of "stack m"] dest!: stack_len_slots)

lemma safe_pop_2 [safe_intro]:
  "(\<And>a b s. stack_len (stack m) = stack_len s + 2 \<Longrightarrow> stack_len s + 2 \<le> STACK_SIZE \<Longrightarrow> Q (a, b) (m\<lparr>stack := s\<rparr>)) \<Longrightarrow>
     safe W J R m0 (on_stack pop_2) Q m"
  by (rule safe_stack_op, rule wp_pop_2)
     (auto simp: plain_stack stack_ok_def [of "stack m"] dest!: stack_len_slots)

lemma safe_pop_3 [safe_intro]:
  "(\<And>a b c s. stack_len (stack m) = stack_len s + 3 \<Longrightarrow> stack_len s + 3 \<le> STACK_SIZE \<Longrightarrow>
       Q (a, b, c) (m\<lparr>stack := s\<rparr>)) \<Longrightarrow>
     safe W J R m0 (on_stack pop_3) Q m"
  by (rule safe_stack_op, rule wp_pop_3)
     (auto simp: plain_stack stack_ok_def [of "stack m"] dest!: stack_len_slots)

lemma safe_pop_4 [safe_intro]:
  "(\<And>a b c d s. stack_len (stack m) = stack_len s + 4 \<Longrightarrow> stack_len s + 4 \<le> STACK_SIZE \<Longrightarrow>
       Q (a, b, c, d) (m\<lparr>stack := s\<rparr>)) \<Longrightarrow>
     safe W J R m0 (on_stack pop_4) Q m"
  by (rule safe_stack_op, rule wp_pop_4)
     (auto simp: plain_stack stack_ok_def [of "stack m"] dest!: stack_len_slots)

lemma safe_pop_and_ignore [safe_intro]:
  "(\<And>s. Q () (m\<lparr>stack := s\<rparr>)) \<Longrightarrow> safe W J R m0 (on_stack pop_and_ignore) Q m"
  by (rule safe_stack_op, rule wp_pop_and_ignore) (auto simp: plain_stack)

lemma safe_top_mut [safe_intro]:
  "(\<And>a. 0 < stack_len (stack m) \<Longrightarrow> Q a m) \<Longrightarrow> safe W J R m0 (on_stack top_mut) Q m"
  by (rule safe_stack_op, rule wp_top_mut)
     (auto simp: plain_stack dest!: stack_len_slots)

lemma safe_pop_1_and_peek_mut [safe_intro]:
  "(\<And>a b s. 0 < stack_len s \<Longrightarrow> Q (a, b) (m\<lparr>stack := s\<rparr>)) \<Longrightarrow>
     safe W J R m0 (on_stack pop_1_and_peek_mut) Q m"
  by (rule safe_stack_op, rule wp_pop_1_and_peek_mut)
     (auto simp: plain_stack dest!: stack_len_slots)

lemma safe_pop_1_mut_and_peek [safe_intro]:
  "(\<And>a b s. 0 < stack_len s \<Longrightarrow> Q (a, b) (m\<lparr>stack := s\<rparr>)) \<Longrightarrow>
     safe W J R m0 (on_stack pop_1_mut_and_peek) Q m"
  unfolding pop_1_mut_and_peek_eq by (rule safe_pop_1_and_peek_mut)

lemma safe_pop_2_and_peek_mut [safe_intro]:
  "(\<And>a b c s. 0 < stack_len s \<Longrightarrow> Q ((a, b), c) (m\<lparr>stack := s\<rparr>)) \<Longrightarrow>
     safe W J R m0 (on_stack pop_2_and_peek_mut) Q m"
  by (rule safe_stack_op, rule wp_pop_2_and_peek_mut)
     (auto simp: plain_stack dest!: stack_len_slots)

lemma safe_set_top [safe_intro]:
  assumes "0 < stack_len (stack m)" and "\<And>s. Q () (m\<lparr>stack := s\<rparr>)"
  shows "safe W J R m0 (on_stack (set_top v)) Q m"
proof (rule safe_stack_op)
  fix s assume ok: "stack_ok s" and s: "s = stack m"
  then have "slots s = hd (slots s) # tl (slots s)" using assms(1) by (metis length_slots list.collapse list.size(3) nat_less_le)
  then show "wp (set_top v) (\<lambda>x s'. stack_ok s' \<and> Q x (m\<lparr>stack := s'\<rparr>)) (\<lambda>e s'. stack_ok s' \<and> plain_exit e) s"
    by (rule wp_set_top [OF ok]) (simp add: assms(2))
qed

lemma safe_stack_push [safe_intro]:
  "(\<And>s. Q () (m\<lparr>stack := s\<rparr>)) \<Longrightarrow> safe W J R m0 (on_stack (stack_push v)) Q m"
  by (rule safe_stack_op, rule wp_stack_push) (auto simp: plain_stack)

lemma safe_push_zero [safe_intro]:
  "(\<And>s. Q () (m\<lparr>stack := s\<rparr>)) \<Longrightarrow> safe W J R m0 (on_stack push_zero) Q m"
  unfolding push_zero_eq by (rule safe_stack_push)

lemma safe_stack_dup:
  "0 < n \<Longrightarrow> (\<And>s. Q () (m\<lparr>stack := s\<rparr>)) \<Longrightarrow> safe W J R m0 (on_stack (stack_dup n)) Q m"
  by (cases n, simp, rule safe_stack_op, simp, rule wp_stack_dup) (auto simp: plain_stack)

lemma safe_stack_swap:
  "0 < n \<Longrightarrow> (\<And>s. Q () (m\<lparr>stack := s\<rparr>)) \<Longrightarrow> safe W J R m0 (on_stack (stack_swap n)) Q m"
  by (cases n, simp, rule safe_stack_op, simp, rule wp_stack_swap) (auto simp: plain_stack)

section \<open>Memory\<close>

lemma rel_mem:
  assumes "rel W J R m0 m" and "heap_ok h g" and "res_le (gas_resources g) (resources_of m)"
    and "memory_len m \<le> length (contents h)"
  shows "rel W J R m0 (m\<lparr>heap := h, gas := g\<rparr>)"
  using assms by (auto simp: rel_def frame_ok_def frozen_def res_le_def memory_len_def)

lemma plain_oog: "plain_exit OutOfGas" "plain_exit MemoryOOG" "plain_exit MemoryLimitOOG"
    "plain_exit InvalidOperandOOG" "plain_exit InvalidJump" "plain_exit OutOfOffset"
    "plain_exit Return" "plain_exit Revert" "plain_exit Stop" "plain_exit SelfDestruct"
    "plain_exit InvalidFEOpcode" "plain_exit OpcodeNotFound" "plain_exit StateChangeDuringStaticCall"
    "plain_exit CallNotAllowedInsideStatic" "plain_exit CreateInitcodeSizeLimit"
  by (simp_all add: plain_exit_def)

lemma safe_resize_heap [safe_intro]:
  assumes W: "32 \<le> W"
    and Q: "\<And>h g. offset + l \<le> length (contents h) \<Longrightarrow> length (contents h) < 2 ^ W \<Longrightarrow>
      length (contents h) < 4294967296 \<Longrightarrow> memory_len m \<le> length (contents h) \<Longrightarrow> Q () (m\<lparr>heap := h, gas := g\<rparr>)"
  shows "safe W J R m0 (resize_heap W offset l) Q m"
proof -
  have pow: "(2 :: nat) ^ 32 \<le> 2 ^ W" using W by (rule power_increasing) simp
  show ?thesis
    unfolding safe_def resize_heap_def wp_on_part
  proof (intro impI, rule wp_resize_heap [OF _ W])
    assume m: "rel W J R m0 m \<and> external_call_dest m = None"
    then show "heap_ok (heap m) (gas m)" by (simp add: rel_def frame_ok_def)
    fix h g
    assume h: "heap_ok h g" "h = grown (heap m) (next_multiple_of (offset + l) 32)"
      "offset + l \<le> length (contents h)" "gas_native g \<le> gas_native (gas m)"
      "unat (ergs (resources_of m)) + 256 * mem_cost (length (contents (heap m)) div 32) =
        unat (ergs (gas_resources g)) + 256 * mem_cost (length (contents h) div 32)"
    have "mem_cost (length (contents (heap m)) div 32) \<le> mem_cost (length (contents h) div 32)"
      by (simp add: h(2) mem_cost_mono div_le_mono)
    then have "res_le (gas_resources g) (resources_of m)"
      using h by (simp add: res_le_def word_le_nat_alt gas_native_def)
    moreover have "length (contents h) < 2 ^ W" "length (contents h) < 4294967296"
      using h(1) pow by (simp_all add: heap_ok_def)
    moreover have "memory_len m \<le> length (contents h)" by (simp add: memory_len_def h(2))
    ultimately show "rel W J R m0 ((case (h, g) of (h, g) \<Rightarrow> \<lambda>m. m\<lparr>heap := h, gas := g\<rparr>) m) \<and>
        external_call_dest ((case (h, g) of (h, g) \<Rightarrow> \<lambda>m. m\<lparr>heap := h, gas := g\<rparr>) m) = None \<and>
        Q () ((case (h, g) of (h, g) \<Rightarrow> \<lambda>m. m\<lparr>heap := h, gas := g\<rparr>) m)"
      using m h by (simp add: rel_mem Q)
  next
    fix e g
    assume "e = MemoryLimitOOG \<or> e = MemoryOOG \<or> out_of_resources e"
      "gas_native g \<le> gas_native (gas m)" "ergs (gas_resources g) \<le> ergs (resources_of m)"
      "rel W J R m0 m \<and> external_call_dest m = None"
    then show "exit_ok W J R m0 e ((case (heap m, g) of (h, g) \<Rightarrow> \<lambda>m. m\<lparr>heap := h, gas := g\<rparr>) m)"
      by (auto simp: exit_ok_def rel_def frozen_def frame_ok_def res_le_def gas_native_def memory_len_def
          plain_out_of_resources plain_oog intro!: plain_request)
  qed
qed

lemma safe_heap_read [safe_intro]:
  "at + n \<le> memory_len m \<Longrightarrow> (\<And>bs. length bs = n \<Longrightarrow> Q bs m) \<Longrightarrow> safe W J R m0 (heap_read at n) Q m"
  by (simp add: safe_def heap_read_def memory_len_def)

lemma safe_heap_write [safe_intro]:
  assumes "at + length src \<le> memory_len m" and "\<And>h. Q () (m\<lparr>heap := h\<rparr>)"
  shows "safe W J R m0 (heap_write at src) Q m"
proof -
  let ?h = "heap m\<lparr>contents := take at (contents (heap m)) @ src @
      drop (at + length src) (contents (heap m))\<rparr>"
  have "length (contents ?h) = length (contents (heap m))" using assms(1) by (simp add: memory_len_def)
  then have "rel W J R m0 m \<Longrightarrow> rel W J R m0 (m\<lparr>heap := ?h\<rparr>)"
    by (auto simp: rel_def frame_ok_def frozen_def heap_ok_def memory_len_def)
  then show ?thesis using assms by (simp add: safe_def heap_write_def memory_len_def)
qed

lemma safe_usize_add [safe_intro]:
  "a + b < 2 ^ W \<Longrightarrow> Q (a + b) m \<Longrightarrow> safe W' J R m0 (usize_add W a b) Q m"
  by (simp add: safe_def usize_add_def)

lemma safe_cast_to_usize [safe_intro]:
  assumes "W \<le> 64" and "plain_exit e" and "\<And>n. n = unat v \<Longrightarrow> n < 2 ^ W \<Longrightarrow> Q n m"
  shows "safe W J R m0 (cast_to_usize W v e) Q m"
  unfolding cast_to_usize_def
  by (rule safe_ok_or [OF assms(2)])
     (use assms(3) in \<open>simp add: u256_try_to_usize_eq [OF assms(1)] split: if_splits\<close>)

lemma safe_cast_offset_and_len [safe_intro]:
  assumes "W \<le> 64" and "plain_exit e" and "\<And>a l. a < 2 ^ W \<Longrightarrow> l < 2 ^ W \<Longrightarrow> Q (a, l) m"
  shows "safe W J R m0 (cast_offset_and_len W v n e) Q m"
  unfolding cast_offset_and_len_def
  by (intro safe_if safe_ret safe_and_then safe_cast_to_usize assms) simp_all

lemma length_copy_and_zeropad [simp]: "length (copy_and_zeropad src n) = n"
  by (simp add: copy_and_zeropad_def Let_def)

lemma safe_copy_to_heap [safe_intro]:
  "at + n \<le> memory_len m \<Longrightarrow> memory_len m < 2 ^ W \<Longrightarrow> (\<And>h. Q () (m\<lparr>heap := h\<rparr>)) \<Longrightarrow>
     safe W' J R m0 (copy_to_heap W src at n) Q m"
  unfolding copy_to_heap_def by (intro safe_and_then safe_usize_add safe_heap_write) simp_all

lemma rel_location:
  "rel W J R m0 m \<Longrightarrow> a \<le> b \<Longrightarrow> b \<le> memory_len m \<Longrightarrow> rel W J R m0 (m\<lparr>returndata_location := (a, b)\<rparr>)"
  by (auto simp: rel_def frame_ok_def frozen_def memory_len_def)

lemma safe_location [safe_intro]:
  "a \<le> b \<Longrightarrow> b \<le> memory_len m \<Longrightarrow> Q () (m\<lparr>returndata_location := (a, b)\<rparr>) \<Longrightarrow>
     safe W J R m0 (modify_st (\<lambda>m. m\<lparr>returndata_location := (a, b)\<rparr>)) Q m"
  by (simp add: safe_def rel_location)

lemma safe_clear_last_returndata [safe_intro]:
  "Q () (m\<lparr>returndata_location := (0, 0)\<rparr>) \<Longrightarrow> safe W J R m0 clear_last_returndata Q m"
  unfolding clear_last_returndata_def by (rule safe_location) simp_all

lemma safe_jump [safe_intro]:
  assumes "ip \<le> length (bytecode m) + 32" and "Q () (m\<lparr>instruction_pointer := ip\<rparr>)"
  shows "safe W J R m0 (modify_st (\<lambda>m. m\<lparr>instruction_pointer := ip\<rparr>)) Q m"
  using assms by (auto simp: safe_def rel_def frame_ok_def frozen_def memory_len_def)

lemma safe_is_valid_jumpdest [safe_intro]:
  assumes "0 < W" and "p = bytecode_preprocessing m"
    and "\<And>b. (b \<Longrightarrow> d < length (bytecode m)) \<Longrightarrow> Q b m"
  shows "safe W J R m0 (is_valid_jumpdest W p d) Q m"
proof -
  have "\<exists>b. get_bit_unchecked W ws d = Some b" if "d < W * length ws" for ws
    using that assms(1) by (simp add: get_bit_unchecked_def Let_def less_mult_imp_div_less mult.commute)
  then show ?thesis
    using assms(2, 3)
    by (auto simp: safe_def is_valid_jumpdest_def rel_def frame_ok_def preprocessing_ok_def
        split: jumpdest_bitmap.splits)
qed

section \<open>Calls of the system\<close>

lemma exit_of_system_error_plain: "plain_exit (exit_of_system_error e)"
  by (auto simp: exit_of_system_error_def plain_exit_def split: system_error.splits runtime_error.splits)

lemma exit_of_evm_error_plain: "plain_exit (exit_of_evm_error e)"
  by (auto simp: exit_of_evm_error_def plain_exit_def split: root_cause.splits runtime_error.splits)

lemma res_le_trans: "res_le a b \<Longrightarrow> res_le b c \<Longrightarrow> res_le a c"
  by (auto simp: res_le_def)

lemma rel_io:
  assumes "rel W J R m0 m" and "res_le r (resources_of m)" and "J i"
    and "is_static m0 \<longrightarrow> R (io m) i" and "transp R"
  shows "rel W J R m0 (m\<lparr>gas := gas m\<lparr>gas_resources := r\<rparr>, io := i\<rparr>)"
  using assms res_le_trans [OF assms(2), of "resources_of m0"] transpD [OF assms(5), of "io m0" "io m" i]
  by (auto simp: rel_def frame_ok_def frozen_def heap_ok_def memory_len_def)

lemma safe_io_op:
  assumes "io_op_ok J S i" and "\<And>a b. S a b \<Longrightarrow> is_static m0 \<Longrightarrow> R a b" and "transp R"
    and "\<And>e. plain_exit (conv e)" and "\<And>x g i. Q x (m\<lparr>gas := g, io := i\<rparr>)"
  shows "safe W J R m0 (on_io conv i) Q m"
proof -
  have J: "rel W J R m0 m \<Longrightarrow> J (io m)" by (simp add: rel_def frame_ok_def)
  have "rel W J R m0 m \<Longrightarrow> external_call_dest m = None \<Longrightarrow>
      wp (on_io conv i) (\<lambda>x m'. rel W J R m0 m' \<and> external_call_dest m' = None \<and> Q x m')
        (exit_ok W J R m0) m"
    unfolding on_io_def wp_on_part
    by (rule wp_mono [OF assms(1) [unfolded io_op_ok_def, rule_format, OF J]])
       (auto simp: assms intro!: plain_rel_exit rel_io)
  then show ?thesis by (simp add: safe_def)
qed

lemma safe_io_read:
  assumes "io_op_ok J R i" and "transp R" and "\<And>x g i. Q x (m\<lparr>gas := g, io := i\<rparr>)"
  shows "safe W J R m0 (on_io exit_of_system_error i) Q m"
  by (rule safe_io_op [OF assms(1)]) (auto simp: assms exit_of_system_error_plain)

lemma safe_io_write:
  assumes "io_op_ok J (\<lambda>_ _. True) i" and "transp R" and "\<not> is_static m0" and "\<And>e. plain_exit (conv e)"
    and "\<And>x g i. Q x (m\<lparr>gas := g, io := i\<rparr>)"
  shows "safe W J R m0 (on_io conv i) Q m"
  by (rule safe_io_op [OF assms(1)]) (auto simp: assms)

lemma safe_keccak256:
  assumes "\<And>r. wp k (\<lambda>_ r'. res_le r' r) (\<lambda>_ r'. res_le r' r) r" and "\<And>x g. Q x (m\<lparr>gas := g\<rparr>)"
  shows "safe W J R m0 (on_res exit_of_system_error k) Q m"
  unfolding on_res_def on_gas_resources_def
  by (rule safe_gas_op [where P = "\<lambda>_ _. True"], unfold wp_on_part, rule wp_mono [OF assms(1)])
     (auto simp: assms(2) exit_of_system_error_plain)

lemma safe_get_blockhash:
  assumes "\<And>n. unat n < 256 \<Longrightarrow> \<exists>h. block_historical_hash sys n = Some h" and "\<And>h. Q h m"
  shows "safe W J R m0 (get_blockhash sys n) Q m"
proof -
  have "unat (block_number sys - n - 1) < 256"
    if "n < block_number sys" "\<not> n < saturating_sub (block_number sys) 256"
  proof -
    have "unat (block_number sys - n) = unat (block_number sys) - unat n"
      using that(1) by (simp add: unat_sub)
    moreover have "unat n < unat (block_number sys)" "unat (block_number sys) - 256 \<le> unat n"
      using that by (simp_all add: word_less_nat_alt unat_saturating_sub not_less)
    ultimately have "unat (block_number sys - n) \<le> 256" "0 < unat (block_number sys - n)" by simp_all
    then show ?thesis using unat_minus_one [of "block_number sys - n"] by (cases "block_number sys - n = 0") auto
  qed
  then show ?thesis using assms by (auto simp: safe_def get_blockhash_def Let_def not_le)
qed

lemma safe_exp_cost [safe_intro]:
  "(\<And>g n. Q (Some (g, n)) m) \<Longrightarrow> safe W J R m0 (exp_cost p) Q m"
  by (simp add: safe_def wp_exp_cost)

lemma safe_mul_mod:
  "ruint_ok U \<Longrightarrow> (\<And>r. Q r m) \<Longrightarrow> safe W J R m0 (mul_mod U a b c) Q m"
  by (simp add: safe_def wp_mul_mod)

lemma safe_pop_topics [safe_intro]:
  "(\<And>ts s. Q ts (m\<lparr>stack := s\<rparr>)) \<Longrightarrow> safe W J R m0 (pop_topics n) Q m"
proof (induction n arbitrary: m Q)
  case 0
  have "Q [] (m\<lparr>stack := stack m\<rparr>)" by (rule 0)
  then show ?case by (simp add: safe_ret)
next
  case (Suc n)
  show ?case unfolding pop_topics.simps
    by (intro safe_and_then safe_pop_1 Suc.IH safe_ret) (use Suc.prems in simp)
qed

section \<open>Every instruction is safe\<close>

text \<open>
  An instruction starts in a frame whose instruction pointer has moved past the opcode.
\<close>

definition instr_ok :: "nat \<Rightarrow> ('io \<Rightarrow> bool) \<Rightarrow> ('io \<Rightarrow> 'io \<Rightarrow> bool) \<Rightarrow> 'io instr \<Rightarrow> bool" where
  "instr_ok W J R i \<longleftrightarrow>
     (\<forall>m0 m. m = m0 \<longrightarrow> 1 \<le> instruction_pointer m \<longrightarrow> instruction_pointer m \<le> length (bytecode m) \<longrightarrow>
        length (bytecode m) < 2 ^ (W - 1) \<longrightarrow> safe W J R m0 i (\<lambda>_ _. True) m)"

lemma instr_okI:
  "(\<And>m0 m. m = m0 \<Longrightarrow> 1 \<le> instruction_pointer m \<Longrightarrow> instruction_pointer m \<le> length (bytecode m) \<Longrightarrow>
      length (bytecode m) < 2 ^ (W - 1) \<Longrightarrow> safe W J R m0 i (\<lambda>_ _. True) m) \<Longrightarrow> instr_ok W J R i"
  by (simp add: instr_ok_def)

lemmas compute_defs =
  instr_wrapped_add_def instr_wrapping_mul_def instr_wrapping_sub_def instr_div_def instr_sdiv_def
  instr_rem_def instr_smod_def instr_addmod_def instr_mulmod_def instr_eval_exp_def
  instr_sign_extend_def instr_lt_def instr_gt_def instr_slt_def instr_sgt_def instr_eq_def
  instr_iszero_def instr_bitand_def instr_bitor_def instr_bitxor_def instr_not_def instr_byte_def
  instr_shl_def instr_shr_def instr_sar_def instr_clz_def instr_pop_def instr_push0_def
  instr_jumpdest_def

lemma compute_ok:
  assumes "ruint_ok U"
  shows "instr_ok W J R instr_wrapped_add" "instr_ok W J R (instr_wrapping_mul U)"
    "instr_ok W J R instr_wrapping_sub" "instr_ok W J R (instr_div U)" "instr_ok W J R (instr_sdiv U)"
    "instr_ok W J R (instr_rem U)" "instr_ok W J R (instr_smod U)" "instr_ok W J R (instr_addmod U)"
    "instr_ok W J R (instr_mulmod U)" "instr_ok W J R (instr_eval_exp U)"
    "instr_ok W J R instr_sign_extend" "instr_ok W J R instr_lt" "instr_ok W J R instr_gt"
    "instr_ok W J R instr_slt" "instr_ok W J R instr_sgt" "instr_ok W J R instr_eq"
    "instr_ok W J R instr_iszero" "instr_ok W J R instr_bitand" "instr_ok W J R instr_bitor"
    "instr_ok W J R instr_bitxor" "instr_ok W J R instr_not" "instr_ok W J R instr_byte"
    "instr_ok W J R (instr_shl W)" "instr_ok W J R (instr_shr W)" "instr_ok W J R instr_sar"
    "instr_ok W J R instr_clz" "instr_ok W J R instr_pop" "instr_ok W J R instr_push0"
    "instr_ok W J R instr_jumpdest"
  by (rule instr_okI; unfold compute_defs; (intro safe_intro safe_mul_mod [OF assms] | simp add: plain_oog split del: if_split)+)+

lemma dup_swap_ok:
  "0 < n \<Longrightarrow> instr_ok W J R (instr_dup n)" "0 < n \<Longrightarrow> instr_ok W J R (instr_swap n)"
  by (rule instr_okI; unfold instr_dup_def instr_swap_def;
      (intro safe_intro safe_stack_dup safe_stack_swap | simp)+)+

lemma double_pow: "0 < W \<Longrightarrow> (2 :: nat) ^ W = 2 ^ (W - 1) + 2 ^ (W - 1)"
  by (cases W) auto

lemma push_ok:
  assumes "32 \<le> W" and "n \<le> 32"
  shows "instr_ok W J R (instr_push W n)"
proof (rule instr_okI)
  fix m0 m :: "'a machine"
  assume m: "m = m0" "instruction_pointer m \<le> length (bytecode m)" "length (bytecode m) < 2 ^ (W - 1)"
  have "(2 :: nat) ^ 31 \<le> 2 ^ (W - 1)" using assms(1) by (intro power_increasing) auto
  then have "instruction_pointer m + n < 2 ^ W" using m assms double_pow [of W] by simp
  with m assms(2) show "safe W J R m0 (instr_push W n) (\<lambda>_ _. True) m"
    unfolding instr_push_def by (intro safe_intro) simp_all
qed

lemma control_ok:
  assumes "32 \<le> W" and "W \<le> 64"
  shows "instr_ok W J R (instr_jump W)" "instr_ok W J R (instr_jumpi W)" "instr_ok W J R instr_pc"
    "instr_ok W J R (instr_ret W)" "instr_ok W J R (instr_revert W)"
  by (rule instr_okI; unfold instr_jump_def instr_jumpi_def instr_pc_def instr_ret_def instr_revert_def;
      (intro safe_intro safe_location | use assms in \<open>simp add: plain_oog memory_len_def split del: if_split\<close>)+)+

lemma copy_cost_native:
  assumes "copy_cost (word_of_nat l) = Some (g, n)" and "l < 18446744073709551616"
  shows "unat n = l + 80"
  using assms
  by (auto simp: copy_cost_def Let_def checked_mul_Some checked_add_Some COPY_BYTE_NATIVE_COST_def
      COPY_BASE_NATIVE_COST_def unat_word_of_nat split: option.splits)

lemma copy_cost_very_low_native:
  "copy_cost_plus_very_low_gas (word_of_nat l) = Some (g, n) \<Longrightarrow>
     l < 18446744073709551616 \<Longrightarrow> unat n = l + 80"
  by (auto simp: copy_cost_plus_very_low_gas_def split: option.splits elim: copy_cost_native)

lemma safe_copy_native:
  fixes n c :: u64
  assumes "unat n + unat c < 18446744073709551616" and "\<And>y. Q y m"
  shows "safe W J R m0 (expect (checked_add n c)) Q m" "safe W J R m0 (expect (checked_add c n)) Q m"
proof -
  have "checked_add n c = Some (n + c)" using assms(1) by (simp add: checked_add_def)
  then show "safe W J R m0 (expect (checked_add n c)) Q m" by (rule safe_expect) (rule assms(2))
  have "checked_add c n = Some (c + n)" using assms(1) by (subst checked_add_def) (simp add: add.commute [of "unat c"])
  then show "safe W J R m0 (expect (checked_add c n)) Q m" by (rule safe_expect) (rule assms(2))
qed

lemma pow_63: "W \<le> 63 \<Longrightarrow> l < 2 ^ W \<Longrightarrow> l < (9223372036854775808 :: nat)"
  using power_increasing [of W 63 "2 :: nat"] by simp

lemma safe_copy_cost:
  assumes "W \<le> 63" and "l < 2 ^ W" and "unat c \<le> 1000" and "\<And>g n. safe W J R m0 (f g n) Q m"
  shows "safe W J R m0 (and_then (ok_or (copy_cost_plus_very_low_gas (word_of_nat l)) OutOfGas)
      (\<lambda>(g, n). and_then (expect (checked_add n c)) (f g))) Q m"
    and "safe W J R m0 (and_then (ok_or (copy_cost_plus_very_low_gas (word_of_nat l)) OutOfGas)
      (\<lambda>(g, n). and_then (expect (checked_add c n)) (f g))) Q m"
proof -
  have "unat n + unat c < 18446744073709551616"
    if "copy_cost_plus_very_low_gas (word_of_nat l) = Some (g, n)" for g n
    using copy_cost_very_low_native [OF that] pow_63 [OF assms(1, 2)] assms(3) by simp
  then show "safe W J R m0 (and_then (ok_or (copy_cost_plus_very_low_gas (word_of_nat l)) OutOfGas)
      (\<lambda>(g, n). and_then (expect (checked_add n c)) (f g))) Q m"
    "safe W J R m0 (and_then (ok_or (copy_cost_plus_very_low_gas (word_of_nat l)) OutOfGas)
      (\<lambda>(g, n). and_then (expect (checked_add c n)) (f g))) Q m"
    by (auto intro!: safe_and_then safe_ok_or safe_copy_native plain_oog assms(4))
qed

lemma native_cost_copies:
  "native_cost OP_CODECOPY = 100" "native_cost OP_CALLDATACOPY = 100"
  "native_cost OP_RETURNDATACOPY = 100" "native_cost OP_EXTCODECOPY = 100"
  by (simp_all add: native_cost_def native_costs_def)

lemma data_ok:
  assumes "host_ok J R sys" and "32 \<le> W" and "W \<le> 63"
  shows "instr_ok W J R (instr_mload W)" "instr_ok W J R (instr_mstore W)"
    "instr_ok W J R (instr_mstore8 W)" "instr_ok W J R (instr_mcopy W)"
    "instr_ok W J R (instr_sha3 W sys)"
    "instr_ok W J R instr_address" "instr_ok W J R instr_caller" "instr_ok W J R instr_codesize"
    "instr_ok W J R (instr_calldataload W)"
    "instr_ok W J R instr_calldatasize" "instr_ok W J R instr_callvalue"
    "instr_ok W J R instr_returndatasize" "instr_ok W J R instr_gas"
    "instr_ok W J R (instr_chainid sys)" "instr_ok W J R (instr_coinbase sys)"
    "instr_ok W J R (instr_timestamp sys)" "instr_ok W J R (instr_number sys)"
    "instr_ok W J R (instr_difficulty sys)" "instr_ok W J R (instr_gaslimit sys)"
    "instr_ok W J R (instr_gasprice sys)" "instr_ok W J R (instr_basefee sys)"
    "instr_ok W J R (instr_origin sys)" "instr_ok W J R (instr_blockhash sys)"
    "instr_ok W J R (instr_blobhash W sys)" "instr_ok W J R (instr_blobbasefee sys)"
  by (rule instr_okI; unfold instr_mload_def instr_mstore_def instr_mstore8_def
      instr_mcopy_def instr_sha3_def instr_address_def instr_caller_def instr_codesize_def
      instr_calldataload_def instr_calldatasize_def
      instr_callvalue_def instr_returndatasize_def
      instr_gas_def instr_chainid_def instr_coinbase_def instr_timestamp_def instr_number_def
      instr_difficulty_def instr_gaslimit_def instr_gasprice_def instr_basefee_def instr_origin_def
      instr_blockhash_def instr_blobhash_def instr_blobbasefee_def case_prod_beta;
      (intro safe_intro safe_keccak256 safe_get_blockhash host_okD [OF assms(1)]
       | use assms in \<open>simp add: plain_oog memory_len_def as_le_slice_def split del: if_split\<close>)+)+

lemma copies_ok:
  assumes "32 \<le> W" and "W \<le> 63"
  shows "instr_ok W J R (instr_codecopy W)" "instr_ok W J R (instr_calldatacopy W)"
    "instr_ok W J R (instr_returndatacopy W)"
  by (rule instr_okI; unfold instr_codecopy_def instr_calldatacopy_def instr_returndatacopy_def;
      (rule safe_copy_cost safe_intro
       | use assms in \<open>simp add: plain_oog memory_len_def native_cost_copies split del: if_split\<close>)+)+

lemma msize_ok: "instr_ok W J R instr_msize"
proof (rule instr_okI)
  fix m0 m :: "'a machine"
  have "rel W J R m0 m \<Longrightarrow> next_multiple_of (memory_len m) 32 = memory_len m" for m
    by (simp add: rel_def frame_ok_def heap_ok_def next_multiple_of_def memory_len_def mod_eq_0_iff_dvd)
  then have *: "safe W J R m0 (assert_that (next_multiple_of (memory_len m) 32 = memory_len m)) (\<lambda>_ m'. m' = m) m"
    for m by (simp add: safe_def)
  show "safe W J R m0 instr_msize (\<lambda>_ _. True) m"
    unfolding instr_msize_def
    by (intro safe_and_then safe_spend safe_read_st safe_conseq [OF *]) (auto intro: safe_stack_push)
qed

section \<open>Instructions of the host\<close>

lemma host_reads_ok:
  assumes "host_ok J R sys" and "32 \<le> W" and "W \<le> 64"
  shows "instr_ok W J R (instr_balance sys)" "instr_ok W J R (instr_selfbalance sys)"
    "instr_ok W J R (instr_extcodesize sys)" "instr_ok W J R (instr_extcodehash sys)"
    "instr_ok W J R (instr_sload sys)" "instr_ok W J R (instr_tload sys)"
  by (rule instr_okI; unfold instr_balance_def instr_selfbalance_def instr_extcodesize_def
      instr_extcodehash_def instr_sload_def instr_tload_def;
      (rule safe_io_read [OF _ host_okD(2) [OF assms(1)]] host_okD [OF assms(1)] safe_intro | simp)+)+

lemma host_writes_ok:
  assumes "host_ok J R sys" and "32 \<le> W" and "W \<le> 64"
  shows "instr_ok W J R (instr_sstore sys)" "instr_ok W J R (instr_tstore sys)"
    "n \<le> 4 \<Longrightarrow> instr_ok W J R (instr_log W n sys)" "instr_ok W J R (instr_selfdestruct sys)"
  by (rule instr_okI; unfold instr_sstore_def instr_tstore_def instr_log_def instr_selfdestruct_def;
      (rule safe_read_static safe_io_write [OF _ host_okD(2) [OF assms(1)]] host_okD [OF assms(1)]
         safe_intro exit_of_evm_error_plain exit_of_system_error_plain
       | use assms in \<open>simp add: plain_oog memory_len_def MAX_EVENT_TOPICS_def split del: if_split\<close>)+)+

lemma safe_extcodecopy_cost:
  assumes "l < 4294967296" and "\<And>g n. safe W J R m0 (f g n) Q m"
  shows "safe W J R m0 (and_then (ok_or (copy_cost (word_of_nat l)) OutOfGas)
      (\<lambda>(g, n). and_then (expect (checked_add n (native_cost OP_EXTCODECOPY))) (f g))) Q m"
proof -
  have "unat n + unat (native_cost OP_EXTCODECOPY) < 18446744073709551616"
    if "copy_cost (word_of_nat l) = Some (g, n)" for g n
    using copy_cost_native [OF that] assms(1) by (simp add: native_cost_copies)
  then show ?thesis by (auto intro!: safe_and_then safe_ok_or safe_copy_native plain_oog assms(2))
qed

lemma extcodecopy_ok:
  assumes "host_ok J R sys" and "32 \<le> W" and "W \<le> 64"
  shows "instr_ok W J R (instr_extcodecopy W sys)"
  by (rule instr_okI; unfold instr_extcodecopy_def;
      (rule safe_extcodecopy_cost safe_io_read [OF _ host_okD(2) [OF assms(1)]] host_okD [OF assms(1)] safe_intro
       | use assms in \<open>simp add: plain_oog memory_len_def split del: if_split\<close>)+)

section \<open>Calls and creations\<close>

lemma safe_yield_call:
  assumes "stack_len (stack m) < STACK_SIZE"
    and "fst (req_calldata q) \<le> snd (req_calldata q)" and "snd (req_calldata q) \<le> memory_len m"
    and "is_static m0 \<Longrightarrow> req_modifier q \<in> {Static, DelegateStatic, EVMCallcodeStatic}"
  shows "safe W J R m0 (and_then (modify_st (\<lambda>m. m\<lparr>external_call_dest := Some (CallRequest q)\<rparr>))
      (\<lambda>_. throw ExternalCall)) Q m"
proof -
  let ?m = "m\<lparr>external_call_dest := Some (CallRequest q)\<rparr>"
  have "rel W J R m0 m \<Longrightarrow> rel W J R m0 ?m" by (auto simp: rel_def frame_ok_def frozen_def memory_len_def)
  moreover have "request_ok m0 ExternalCall ?m"
    using assms by (simp add: request_ok_def memory_len_def)
  ultimately show ?thesis by (simp add: safe_def rel_exit)
qed

lemma safe_yield_create:
  assumes "stack_len (stack m) < STACK_SIZE" and "\<not> is_static m0"
    and "resources_of m = resources_empty" and "returndata_location m = (0, 0)"
    and "fst (dep_deployment_code q) \<le> snd (dep_deployment_code q)"
    and "snd (dep_deployment_code q) \<le> memory_len m"
    and "res_le (dep_deployer_full_resources q) (resources_of m0)"
  shows "safe W J R m0 (and_then (modify_st (\<lambda>m. m\<lparr>external_call_dest := Some (CreateRequest q)\<rparr>))
      (\<lambda>_. throw ConstructionCall)) Q m"
proof -
  let ?m = "m\<lparr>external_call_dest := Some (CreateRequest q)\<rparr>"
  have "rel W J R m0 m \<Longrightarrow> rel W J R m0 ?m" by (auto simp: rel_def frame_ok_def frozen_def memory_len_def)
  moreover have "request_ok m0 ConstructionCall ?m"
    using assms by (simp add: request_ok_def memory_len_def)
  ultimately show ?thesis by (simp add: safe_def rel_exit)
qed

lemma create_ok:
  assumes "32 \<le> W" and "W \<le> 64"
  shows "instr_ok W J R (instr_create W b)"
  by (rule instr_okI; unfold instr_create_def Let_def;
      (rule safe_yield_create safe_read_static safe_intro
       | use assms in \<open>simp add: plain_oog memory_len_def split del: if_split\<close>)+)

lemma safe_call_value_of:
  assumes "\<And>v s. stack_len s \<le> stack_len (stack m) \<Longrightarrow> Q v (m\<lparr>stack := s\<rparr>)"
  shows "safe W J R m0 (call_value_of scheme) Q m"
proof (cases scheme)
  case SchemeDelegateCall
  have "Q (call_value m) (m\<lparr>stack := stack m\<rparr>)" by (rule assms) simp
  then show ?thesis by (simp add: SchemeDelegateCall call_value_of_def safe_read_st)
next
  case SchemeStaticCall
  have "Q 0 (m\<lparr>stack := stack m\<rparr>)" by (rule assms) simp
  then show ?thesis by (simp add: SchemeStaticCall call_value_of_def safe_ret)
qed (auto simp: call_value_of_def plain_oog intro!: safe_intro assms)

lemma safe_call_modifier_of:
  assumes "\<And>md. (st \<Longrightarrow> md \<in> {Static, DelegateStatic, EVMCallcodeStatic}) \<Longrightarrow> Q md m"
  shows "safe W J R m0 (expect (call_modifier_of (scheme = SchemeStaticCall \<or> st) scheme)) Q m"
  using assms by (cases scheme; cases st) (auto intro!: safe_expect)

lemma call_impl_ok:
  assumes "32 \<le> W" and "W \<le> 64"
  shows "instr_ok W J R (call_impl W scheme)"
  by (rule instr_okI; unfold call_impl_def;
      (rule safe_yield_call safe_read_static safe_call_modifier_of safe_call_value_of safe_intro
       | use assms in \<open>simp add: plain_oog memory_len_def split del: if_split\<close>)+)

lemma calls_ok:
  assumes "32 \<le> W" and "W \<le> 64"
  shows "instr_ok W J R (instr_call W)" "instr_ok W J R (instr_call_code W)"
    "instr_ok W J R (instr_delegate_call W)" "instr_ok W J R (instr_static_call W)"
  by (simp_all add: instr_call_def instr_call_code_def instr_delegate_call_def instr_static_call_def
      call_impl_ok assms)

section \<open>The loop\<close>

lemma throw_ok: "plain_exit e \<Longrightarrow> instr_ok W J R (throw e)"
  by (rule instr_okI) (rule safe_throw)

lemma dispatch_ok:
  assumes "host_ok J R sys" and "ruint_ok U" and "32 \<le> W" and "W \<le> 63"
  shows "list_all (\<lambda>(opcode, i). instr_ok W J R i) (dispatch W U sys)"
proof -
  have W: "W \<le> 64" using assms(4) by simp
  show ?thesis
    unfolding dispatch_def list.pred_inject prod.case
    by (intro conjI TrueI throw_ok plain_oog create_ok calls_ok compute_ok [OF assms(2)] data_ok [OF assms(1)] copies_ok msize_ok
        push_ok dup_swap_ok control_ok host_reads_ok host_writes_ok extcodecopy_ok assms W) simp_all
qed

lemma exec_opcode_ok:
  assumes "host_ok J R sys" and "ruint_ok U" and "32 \<le> W" and "W \<le> 63"
  shows "instr_ok W J R (exec_opcode W U sys opcode)"
proof (cases "map_of (dispatch W U sys) opcode")
  case None
  then show ?thesis by (simp add: exec_opcode_def throw_ok plain_oog)
next
  case (Some i)
  then have "(opcode, i) \<in> set (dispatch W U sys)" by (rule map_of_SomeD)
  with dispatch_ok [OF assms] have "instr_ok W J R i" by (auto simp: list_all_iff)
  with Some show ?thesis by (simp add: exec_opcode_def)
qed

lemma frozen_trans: "frozen a b \<Longrightarrow> frozen b c \<Longrightarrow> frozen a c"
  by (simp add: frozen_def)

lemma rel_trans:
  assumes "rel W J R a b" and "rel W J R b c" and "transp R"
  shows "rel W J R a c"
  using assms frozen_trans [of a b c] res_le_trans [of "resources_of c" "resources_of b" "resources_of a"]
    transpD [OF assms(3), of "io a" "io b" "io c"]
  by (auto simp: rel_def frozen_def)

lemma exit_trans:
  assumes "rel W J R a b" and "exit_ok W J R b e c" and "transp R"
  shows "exit_ok W J R a e c"
proof -
  have st: "is_static b = is_static a" using assms(1) by (simp add: rel_def frozen_def)
  have fr: "frozen a c" using assms frozen_trans by (auto simp: rel_def exit_ok_def)
  have le: "res_le r (resources_of b) \<Longrightarrow> res_le r (resources_of a)" for r
    using assms(1) by (auto simp: rel_def elim: res_le_trans)
  have io: "is_static a \<longrightarrow> R (io a) (io c)"
    using assms(1, 2) st transpD [OF assms(3), of "io a" "io b" "io c"] by (auto simp: rel_def exit_ok_def)
  have "request_ok b e c \<Longrightarrow> request_ok a e c" using le by (auto simp: request_ok_def st)
  with assms fr io le rel_trans [OF assms(1) _ assms(3)] show ?thesis by (simp add: exit_ok_def)
qed

lemma exec_stop: "exec_opcode W U sys OP_STOP = throw Stop"
  by (simp add: exec_opcode_def dispatch_def)

text \<open>Every round pays at least the native cost of a step, so the loop cannot go on for ever.\<close>

lemma exec_after_step:
  assumes "host_ok J R sys" and "ruint_ok U" and "32 \<le> W" and "W \<le> 63" and "frame_ok W J m"
    and True: "instruction_pointer m < length (bytecode m)"
    and m: "rel W J R m m1" "instruction_pointer m1 = instruction_pointer m + 1" "external_call_dest m1 = None"
    and n: "unat (native (resources_of m1)) + 20 \<le> unat (native (resources_of m))"
  shows "wp (exec_opcode W U sys (get_bytecode_unchecked m (instruction_pointer m)))
    (\<lambda>_ m'. rel W J R m m' \<and> external_call_dest m' = None \<and>
       unat (native (resources_of m')) + 20 \<le> unat (native (resources_of m)))
    (exit_ok W J R m) m1"
proof -
  note tr = host_okD(2) [OF assms(1)]
  have b: "bytecode m1 = bytecode m" using m(1) by (simp add: rel_def frozen_def)
  have r: "rel W J R m1 m1" using m(1) host_okD(1) [OF assms(1)]
    by (auto simp: rel_def frozen_def res_le_def reflpD)
  have "safe W J R m1 (exec_opcode W U sys (get_bytecode_unchecked m (instruction_pointer m))) (\<lambda>_ _. True) m1"
    using exec_opcode_ok [OF assms(1-4)] True b m(2) assms(5) by (simp add: instr_ok_def frame_ok_def)
  then have "wp (exec_opcode W U sys (get_bytecode_unchecked m (instruction_pointer m)))
      (\<lambda>_ m'. rel W J R m1 m' \<and> external_call_dest m' = None) (exit_ok W J R m1) m1"
    using r m(3) by (simp add: safe_def)
  then show ?thesis
  proof (rule wp_mono)
    fix x m'
    assume m': "rel W J R m1 m' \<and> external_call_dest m' = None"
    then have "native (resources_of m') \<le> native (resources_of m1)" by (simp add: rel_def res_le_def)
    then show "rel W J R m m' \<and> external_call_dest m' = None \<and>
        unat (native (resources_of m')) + 20 \<le> unat (native (resources_of m))"
      using m' n rel_trans [OF m(1) _ tr] by (simp add: word_le_nat_alt)
  qed (rule exit_trans [OF m(1) _ tr])
qed

lemma run_step_ok:
  assumes "host_ok J R sys" and "ruint_ok U" and "32 \<le> W" and "W \<le> 63"
    and m: "frame_ok W J m" "instruction_pointer m \<le> length (bytecode m) + 32" "external_call_dest m = None"
  shows "wp (run_step W U sys)
    (\<lambda>_ m'. rel W J R m m' \<and> external_call_dest m' = None \<and>
       unat (native (resources_of m')) + 20 \<le> unat (native (resources_of m)))
    (exit_ok W J R m) m"
proof -
  let ?m1 = "\<lambda>g. m\<lparr>instruction_pointer := instruction_pointer m + 1, gas := g\<rparr>"
  have "(2 :: nat) ^ 31 \<le> 2 ^ (W - 1)" using assms(3) by (intro power_increasing) auto
  then have lt: "instruction_pointer m + 1 < 2 ^ W"
    using m double_pow [of W] assms(3) by (simp add: frame_ok_def)
  have refl: "R (io m) (io m)" using host_okD(1) [OF assms(1)] by (simp add: reflpD)
  have rel1: "rel W J R m (?m1 g)"
    if "res_le (gas_resources g) (resources_of m)" "gas_paid_for_heap_growth g = gas_paid_for_heap_growth (gas m)"
      "instruction_pointer m < length (bytecode m)" for g
    using that m refl by (auto simp: rel_def frame_ok_def frozen_def heap_ok_def memory_len_def)
  have exit1: "exit_ok W J R m e (?m1 g)"
    if "res_le (gas_resources g) (resources_of m)" "plain_exit e" for e g
    using that m refl by (auto simp: exit_ok_def frame_ok_def frozen_def memory_len_def intro!: plain_request)
  have "wp (spend_gas_and_native 0 STEP_NATIVE_COST)
      (\<lambda>_ g. wp (exec_opcode W U sys (get_bytecode_unchecked m (instruction_pointer m)))
        (\<lambda>_ m'. rel W J R m m' \<and> external_call_dest m' = None \<and>
           unat (native (resources_of m')) + 20 \<le> unat (native (resources_of m)))
        (exit_ok W J R m) (?m1 g))
      (\<lambda>e g. exit_ok W J R m e (?m1 g)) (gas m)"
  proof (rule wp_spend_gas_and_native)
    fix g
    assume g: "unat (ergs (gas_resources (gas m))) = unat (ergs (gas_resources g)) + 256 * unat (0 :: u64)"
      "unat (gas_native (gas m)) = unat (gas_native g) + unat STEP_NATIVE_COST"
      "gas_paid_for_heap_growth g = gas_paid_for_heap_growth (gas m)"
    then have le: "res_le (gas_resources g) (resources_of m)"
      by (simp add: res_le_def word_le_nat_alt gas_native_def)
    show "wp (exec_opcode W U sys (get_bytecode_unchecked m (instruction_pointer m)))
        (\<lambda>_ m'. rel W J R m m' \<and> external_call_dest m' = None \<and>
           unat (native (resources_of m')) + 20 \<le> unat (native (resources_of m)))
        (exit_ok W J R m) (?m1 g)"
    proof (cases "instruction_pointer m < length (bytecode m)")
      case True
      show ?thesis
        by (rule exec_after_step [OF assms(1-4) m(1) True])
           (use rel1 [OF le g(3) True] m g in \<open>simp_all add: gas_native_def STEP_NATIVE_COST_def\<close>)
    qed (simp add: get_bytecode_unchecked_def exec_stop exit1 [OF le, simplified] plain_oog)
  qed (auto intro!: exit1 [simplified] plain_out_of_resources)
  then show ?thesis using lt by (simp add: run_step_def usize_add_def spend_def on_gas_def)
qed

end
