(* ===== verification/Evm_Calls.thy ===== *)
theory Evm_Calls
  imports Evm_Run
begin

text \<open>
  What the EVM hands to a call or a creation (\<^verbatim>\<open>evm_interpreter/src/ee_trait_impl.rs\<close>): the
  resources passed to a callee, and the address, checks and resources of a new contract.
  \<open>Keccak256::digest\<close> of the crypto library is the argument \<open>digest\<close>.
\<close>

section \<open>Resources passed in a call\<close>

record callee_account_properties =
  next_ee_version :: u8
  callee_nonce :: u64
  callee_nominal_token_balance :: u256
  callee_bytecode :: bytes
  callee_code_version :: u8
  callee_unpadded_code_len :: u32
  callee_artifacts_len :: u32

definition charge_ee :: "base_resources \<Rightarrow> (base_resources, evm_subsystem_error, unit) rs" where
  "charge_ee c = on_part (\<lambda>r. r) (\<lambda>r _. r) subsystem_of_system (resources_charge c)"

text \<open>The state is \<open>resources_available_in_caller_frame\<close>.\<close>

definition calculate_resources_passed_in_external_call ::
    "external_call_request \<Rightarrow> callee_account_properties \<Rightarrow>
      (base_resources, evm_subsystem_error, base_resources) rs" where
  "calculate_resources_passed_in_external_call q acct =
     and_then
       (if \<not> is_delegate q \<and> nominal_token_value q \<noteq> 0 then
          and_then (charge_ee (from_ergs (GAS_CALLVALUE * ERGS_PER_GAS))) (\<lambda>_.
          ret (Some (CALL_STIPEND * ERGS_PER_GAS)))
        else ret None) (\<lambda>stipend.
     let callee_is_empty = callee_nonce acct = 0 \<and> callee_unpadded_code_len acct = 0 \<and>
       callee_nominal_token_balance acct = 0 in
     and_then
       (if \<not> (is_callcode q \<or> is_delegate q) \<and> nominal_token_value q \<noteq> 0 \<and> callee_is_empty
        then charge_ee (from_ergs (GAS_NEWACCOUNT * ERGS_PER_GAS)) else ret ()) (\<lambda>_.
     and_then (read_st ergs) (\<lambda>available.
     let max_passable_ergs = apply_63_64_rule available;
       passed = min (ergs_to_pass q) max_passable_ergs;
       resources_to_pass = from_ergs passed in
     and_then (expect_ok (resources_charge resources_to_pass)) (\<lambda>_.
     case stipend of
       Some stipend \<Rightarrow> (case (add_ergs stipend :: (base_resources, evm_subsystem_error, unit) rs) resources_to_pass of
           (Inl e, _) \<Rightarrow> panic | (Inr _, r) \<Rightarrow> ret r)
     | None \<Rightarrow> ret resources_to_pass))))"

text \<open>The surcharges of a call in gas, and the stipend of the callee.\<close>

definition call_surcharge :: "external_call_request \<Rightarrow> callee_account_properties \<Rightarrow> nat" where
  "call_surcharge q acct =
     (if \<not> is_delegate q \<and> nominal_token_value q \<noteq> 0 then 9000 else 0) +
     (if \<not> is_callcode q \<and> \<not> is_delegate q \<and> nominal_token_value q \<noteq> 0 \<and> callee_nonce acct = 0 \<and>
         callee_unpadded_code_len acct = 0 \<and> callee_nominal_token_balance acct = 0 then 25000 else 0)"

definition call_stipend :: "external_call_request \<Rightarrow> nat" where
  "call_stipend q = (if \<not> is_delegate q \<and> nominal_token_value q \<noteq> 0 then 2300 else 0)"

lemma wp_charge_ee_ergs:
  assumes "unat c \<le> unat (ergs r) \<Longrightarrow> Q () (r\<lparr>ergs := ergs r - c\<rparr>)"
    and "unat (ergs r) < unat c \<Longrightarrow> E (RuntimeLeaf OutOfErgs) (r\<lparr>ergs := 0\<rparr>)"
  shows "wp (charge_ee (from_ergs c)) Q E r"
  using assms
  by (cases r) (auto simp: charge_ee_def wp_def on_part_def resources_charge_cases from_ergs_def native_empty_def
      word_less_nat_alt not_less)

lemma unat_apply_63_64_rule:
  "unat (apply_63_64_rule e) = unat e - unat e div 256 div 64 * 256"
proof -
  let ?k = "unat e div 256 div 64"
  have k: "unat (e div 256 div 64) = ?k" by (simp add: unat_div_distrib)
  have le: "?k * 256 \<le> unat e" by (simp add: div_mult2_eq [symmetric])
  have "unat (e div 256 div 64 * 256) = ?k * 256"
    using k le unat_lt [of e] by (subst unat_mult_lem [THEN iffD1]) simp_all
  with le show ?thesis by (simp add: apply_63_64_rule_def Let_def ERGS_PER_GAS_def unat_sub word_le_nat_alt)
qed

text \<open>The last part of the computation, after the surcharges: of \<open>e\<close> ergs the callee gets what it wants up to
  all but a 64th of the gas.\<close>

definition ergs_sent :: "nat \<Rightarrow> ergs \<Rightarrow> nat" where
  "ergs_sent e want = min (unat want) (e - e div 256 div 64 * 256)"

lemma ergs_sent_le: "ergs_sent e want \<le> e"
  by (simp add: ergs_sent_def)

definition pass_ergs :: "ergs \<Rightarrow> ergs option \<Rightarrow> (base_resources, evm_subsystem_error, base_resources) rs" where
  "pass_ergs want stipend =
     and_then (read_st ergs) (\<lambda>available.
     let max_passable_ergs = apply_63_64_rule available; passed = min want max_passable_ergs;
       resources_to_pass = from_ergs passed in
     and_then (expect_ok (resources_charge resources_to_pass)) (\<lambda>_.
     case stipend of
       Some stipend \<Rightarrow> (case (add_ergs stipend :: (base_resources, evm_subsystem_error, unit) rs) resources_to_pass of
           (Inl e, _) \<Rightarrow> panic | (Inr _, r) \<Rightarrow> ret r)
     | None \<Rightarrow> ret resources_to_pass))"

lemma wp_pass_ergs:
  assumes "case stipend of None \<Rightarrow> k = 0 | Some s \<Rightarrow> k = unat s \<and> unat (ergs r) + k < 18446744073709551616"
    and "\<And>t p. native t = native r \<Longrightarrow> native p = 0 \<Longrightarrow> unat (ergs t) = unat (ergs r) - ergs_sent (unat (ergs r)) want \<Longrightarrow>
      unat (ergs p) = ergs_sent (unat (ergs r)) want + k \<Longrightarrow> Q p t"
  shows "wp (pass_ergs want stipend) Q E r"
proof -
  let ?p = "min want (apply_63_64_rule (ergs r))"
  have p: "unat ?p = ergs_sent (unat (ergs r)) want"
    by (simp add: min_def word_le_nat_alt unat_apply_63_64_rule ergs_sent_def)
  then have le: "unat ?p \<le> unat (ergs r)" by (simp add: ergs_sent_le)
  have k: "unat ?p + k < 18446744073709551616"
    using assms(1) le unat_lt [of ?p] by (auto split: option.splits)
  let ?t = "r\<lparr>ergs := ergs r - ?p\<rparr>"
  have "unat (ergs ?t) = unat (ergs r) - unat ?p" using le by (simp add: unat_sub word_le_nat_alt)
  then have "Q \<lparr>ergs = word_of_nat (unat ?p + k), native = 0\<rparr> ?t"
    using k by (intro assms(2)) (simp_all add: p unat_of_nat del: of_nat_add)
  moreover have "resources_charge (from_ergs ?p) r = (Inr (), ?t)"
    using le by (cases r) (simp add: resources_charge_cases from_ergs_def native_empty_def word_less_nat_alt)
  ultimately show ?thesis
    using k assms(1)
    by (auto simp: pass_ergs_def Let_def wp_def and_then_def read_st_def expect_ok_def ret_def add_ergs_def from_ergs_def native_empty_def
        checked_add_def split: option.splits)
qed

lemma call_phases:
  "calculate_resources_passed_in_external_call q acct =
     and_then
       (if \<not> is_delegate q \<and> nominal_token_value q \<noteq> 0 then
          and_then (charge_ee (from_ergs (GAS_CALLVALUE * ERGS_PER_GAS))) (\<lambda>_.
          ret (Some (CALL_STIPEND * ERGS_PER_GAS)))
        else ret None) (\<lambda>stipend.
     and_then
       (if \<not> (is_callcode q \<or> is_delegate q) \<and> nominal_token_value q \<noteq> 0 \<and> callee_nonce acct = 0 \<and>
           callee_unpadded_code_len acct = 0 \<and> callee_nominal_token_balance acct = 0
        then charge_ee (from_ergs (GAS_NEWACCOUNT * ERGS_PER_GAS)) else ret ()) (\<lambda>_.
     pass_ergs (ergs_to_pass q) stipend))"
  by (simp add: calculate_resources_passed_in_external_call_def pass_ergs_def Let_def)

text \<open>C26: The resources of an EVM call are split as the gas rules say, for every request and caller: the caller
  first pays the surcharges (value transfer, new account) and gets \<open>OutOfErgs\<close> exactly when it cannot; then the callee
  gets what was asked for, at most all but a 64th of the caller's remaining gas, plus the stipend, and no native
  resource; the caller keeps the rest. The computation never panics: the charge of the passed ergs and the
  addition of the stipend always succeed.\<close>

theorem call_resources_split:
  "let available = unat (ergs r) - 256 * call_surcharge q acct;
      sent = min (unat (ergs_to_pass q)) (available - available div 256 div 64 * 256);
      res = calculate_resources_passed_in_external_call q acct r in
    if unat (ergs r) < 256 * call_surcharge q acct
    then fst res = Inl (Err (RuntimeLeaf OutOfErgs)) \<and> ergs (snd res) = 0 \<and> native (snd res) = native r
    else (\<exists>passed. fst res = Inr passed \<and> unat (ergs passed) = sent + 256 * call_stipend q \<and> native passed = 0) \<and>
      unat (ergs (snd res)) = available - sent \<and> native (snd res) = native r"
proof -
  let ?av = "unat (ergs r) - 256 * call_surcharge q acct"
  let ?sent = "ergs_sent ?av (ergs_to_pass q)"
  have "wp (calculate_resources_passed_in_external_call q acct)
     (\<lambda>passed t. \<not> unat (ergs r) < 256 * call_surcharge q acct \<and>
        unat (ergs passed) = ?sent + 256 * call_stipend q \<and> native passed = 0 \<and>
        unat (ergs t) = ?av - ?sent \<and> native t = native r)
     (\<lambda>e t. unat (ergs r) < 256 * call_surcharge q acct \<and> e = RuntimeLeaf OutOfErgs \<and> ergs t = 0 \<and>
        native t = native r) r"
    using unat_lt [of "ergs r"]
    unfolding call_phases call_surcharge_def call_stipend_def
        GAS_CALLVALUE_def GAS_NEWACCOUNT_def CALL_STIPEND_def ERGS_PER_GAS_def
    by (auto intro!: wp_charge_ee_ergs wp_pass_ergs simp: unat_sub word_le_nat_alt)
  then show ?thesis unfolding Let_def wp_def ergs_sent_def by (auto split: prod.splits sum.splits fault.splits)
qed

section \<open>Preparing a deployment\<close>

definition with_infinite_ergs_io :: "('io, 'e, 'a) io_op \<Rightarrow> ('io, 'e, 'a) io_op" where
  "with_infinite_ergs_io f s =
     (case s of (r, i) \<Rightarrow>
        case f (r\<lparr>ergs := - 1\<rparr>, i) of (x, (r', i')) \<Rightarrow> (x, (r'\<lparr>ergs := ergs r\<rparr>, i')))"

definition io_ee :: "('e \<Rightarrow> evm_subsystem_error) \<Rightarrow> ('io, 'e, 'a) io_op \<Rightarrow> ('io, evm_subsystem_error, 'a) io_op" where
  "io_ee conv = on_part (\<lambda>s. s) (\<lambda>s _. s) conv"

definition on_deployer :: "(base_resources, 'e, 'a) rs \<Rightarrow> ('io, 'e, 'a) io_op" where
  "on_deployer = on_part fst (\<lambda>r (_, i). (r, i)) (\<lambda>e. e)"

definition address_of_digest :: "u256 \<Rightarrow> b160" where
  "address_of_digest h = from_be_bytes (drop 12 (to_be_bytes h))"

definition deployed_address_of ::
    "(bytes \<Rightarrow> u256) \<Rightarrow> 'io evm_system \<Rightarrow> create_scheme \<Rightarrow> b160 \<Rightarrow> u64 \<Rightarrow> bytes \<Rightarrow>
      ('io, evm_subsystem_error, b160) io_op" where
  "deployed_address_of digest sys scheme deployer old_deployer_nonce code =
     (case scheme of
        Create \<Rightarrow>
          (let encoding = create_quasi_rlp deployer old_deployer_nonce in
           and_then (assert_that (length encoding \<le> MAX_CREATE_RLP_ENCODING_LEN)) (\<lambda>_.
           ret (address_of_digest (digest encoding))))
      | Create2 salt \<Rightarrow>
          and_then (io_ee
            (\<lambda>e. case e of
               LeafRuntime OutOfNativeResources \<Rightarrow> RuntimeLeaf OutOfNativeResources
             | _ \<Rightarrow> DefectLeaf ''Keccak in create2 cannot fail'')
            (with_infinite_ergs_io (on_deployer (keccak256 sys code)))) (\<lambda>initcode_hash.
          ret (address_of_digest (digest
            ([0xff] @ to_be_bytes deployer @ to_be_bytes salt @ to_be_bytes initcode_hash)))))"

text \<open>
  The state is \<open>deployer_full_resources\<close> with the IO state: what is left of it is returned to
  the deployer. \<open>None\<close> means the constructor does not run. The box with the deployment scheme
  always holds a \<open>CreateScheme\<close> here, so the failing downcast is left out.
\<close>

definition prepare_for_deployment ::
    "(bytes \<Rightarrow> u256) \<Rightarrow> 'io evm_system \<Rightarrow> deployment_preparation_parameters \<Rightarrow>
      ('io, evm_subsystem_error, (external_call_request \<times> code_source) option) io_op" where
  "prepare_for_deployment digest sys p =
     and_then (assert_that (constructor_parameters p = [])) (\<lambda>_.
     case ee_specific_deployment_processing_data p of
       None \<Rightarrow> throw (LeafUsage NoDeploymentScheme)
     | Some scheme \<Rightarrow>
     and_then (io_ee subsystem_of_system
       (with_infinite_ergs_io (read_nominal_token_balance sys (address_of_deployer p)))) (\<lambda>deployer_balance.
     if deployment_token_value p \<noteq> 0 \<and> deployer_balance < deployment_token_value p then ret None
     else
     and_then
       (case deployer_nonce p of
          Some old_nonce \<Rightarrow> ret (Some old_nonce)
        | None \<Rightarrow> (\<lambda>s.
            case with_infinite_ergs_io (increment_nonce sys (address_of_deployer p) 1) s of
              (Inr nonce, s) \<Rightarrow> (Inr (Some nonce), s)
            | (Inl (Err (LeafUsage NonceOverflowError)), s) \<Rightarrow> (Inr None, s)
            | (Inl (Err e), s) \<Rightarrow> (Inl (Err (Cascaded (CascadedNonce e))), s)
            | (Inl Panic, s) \<Rightarrow> (Inl Panic, s))) (\<lambda>old_nonce.
     case old_nonce of
       None \<Rightarrow> ret None
     | Some old_deployer_nonce \<Rightarrow>
     and_then (deployed_address_of digest sys scheme (address_of_deployer p) old_deployer_nonce
       (deployment_code p)) (\<lambda>deployed_address.
     and_then (read_st (\<lambda>(r, _). apply_63_64_rule (ergs r))) (\<lambda>ergs_for_constructor.
     and_then (on_deployer (resources_charge_unchecked (from_ergs ergs_for_constructor))) (\<lambda>_.
     and_then (io_ee subsystem_of_system
       (with_infinite_ergs_io (read_nonce_and_has_bytecode sys deployed_address))) (\<lambda>(deployee_nonce, has_bytecode).
     if has_bytecode \<or> deployee_nonce \<noteq> 0 then ret None
     else
     and_then (\<lambda>(r, i). case give_native_to r (from_ergs ergs_for_constructor) of
       (r, for_constructor) \<Rightarrow> (Inr for_constructor, (r, i))) (\<lambda>resources_for_constructor.
     ret (Some (\<lparr>available_resources = resources_for_constructor, ergs_to_pass = 0,
        call_caller = address_of_deployer p, callee = deployed_address, callers_caller = 0,
        modifier = Constructor, call_calldata = [],
        nominal_token_value = deployment_token_value p\<rparr>, ConstructorCode (deployment_code p)))))))))))"

end
