(* ===== verification/Evm_Frames.thy ===== *)
theory Evm_Frames
  imports Evm_Safety Evm_Calls
begin

text \<open>
  Whole frames: the loop ends, a frame yields or finishes without tripping an assertion, a
  suspended frame can always be resumed, and what a frame gives away never exceeds what it was
  given.
\<close>

section \<open>The loop ends\<close>

text \<open>The loop cut off after \<open>n\<close> rounds.\<close>

fun run_within ::
    "nat \<Rightarrow> nat \<Rightarrow> ruint \<Rightarrow> 'io evm_system \<Rightarrow> 'io machine \<Rightarrow> (exit_code fault \<times> 'io machine) option" where
  "run_within 0 W U sys m = None"
| "run_within (Suc n) W U sys m =
     (case run_step W U sys m of
        (Inr _, m) \<Rightarrow> run_within n W U sys m
      | (Inl r, m) \<Rightarrow> Some (r, m))"

lemma run_within_run: "run_within n W U sys m = Some x \<Longrightarrow> run W U sys m = Some x"
proof (induction n arbitrary: m)
  case (Suc n)
  then show ?case by (subst run.simps) (auto split: prod.splits sum.splits)
qed simp

definition runnable :: "nat \<Rightarrow> ('io \<Rightarrow> bool) \<Rightarrow> 'io machine \<Rightarrow> bool" where
  "runnable W J m \<longleftrightarrow>
     frame_ok W J m \<and> instruction_pointer m \<le> length (bytecode m) + 32 \<and> external_call_dest m = None"

lemma rel_runnable: "rel W J R m0 m \<Longrightarrow> external_call_dest m = None \<Longrightarrow> runnable W J m"
  by (simp add: rel_def runnable_def)

lemma run_within_ok:
  assumes "host_ok J R sys" and "ruint_ok U" and "32 \<le> W" and "W \<le> 63" and "runnable W J m"
    and "unat (native (resources_of m)) div 20 < n"
  shows "\<exists>e m'. run_within n W U sys m = Some (Err e, m') \<and> exit_ok W J R m e m'"
  using assms(5, 6)
proof (induction n arbitrary: m)
  case (Suc n)
  note step = run_step_ok [OF assms(1-4), of m]
  have "wp (run_step W U sys)
      (\<lambda>_ m'. rel W J R m m' \<and> external_call_dest m' = None \<and>
         unat (native (resources_of m')) + 20 \<le> unat (native (resources_of m))) (exit_ok W J R m) m"
    using step Suc.prems(1) by (simp add: runnable_def)
  from wp_result [OF this] show ?case
  proof (elim disjE exE conjE)
    fix x m1
    assume m1: "run_step W U sys m = (Inr x, m1)" "rel W J R m m1" "external_call_dest m1 = None"
      "unat (native (resources_of m1)) + 20 \<le> unat (native (resources_of m))"
    have "unat (native (resources_of m1)) div 20 < n" using m1(4) Suc.prems(2) by linarith
    with Suc.IH [OF rel_runnable [OF m1(2, 3)]] m1(1)
    show ?thesis using exit_trans [OF m1(2) _ host_okD(2) [OF assms(1)]] by auto
  qed simp
qed simp


lemma run_ok:
  assumes "host_ok J R sys" and "ruint_ok U" and "32 \<le> W" and "W \<le> 63" and "runnable W J m"
  obtains e m' where "run W U sys m = Some (Err e, m')" and "exit_ok W J R m e m'"
proof -
  obtain e m' where "run_within (unat (native (resources_of m)) div 20 + 1) W U sys m = Some (Err e, m')"
    "exit_ok W J R m e m'"
    using run_within_ok [OF assms, of "unat (native (resources_of m)) div 20 + 1"] by auto
  then show thesis using that run_within_run by blast
qed


section \<open>Yield points\<close>

fun handed_over :: "preemption_point \<Rightarrow> base_resources" where
  "handed_over (Spawn (RequestedExternalCall q) h) = available_resources q"
| "handed_over (Spawn (RequestedDeployment p) h) = deployer_full_resources p"
| "handed_over (End (CompletedExecution r data reverted)) = r"
| "handed_over (End (CompletedDeployment r d)) = r"

text \<open>A frame that waits for a call or a creation holds no resources and has room for the answer.\<close>

definition suspended :: "nat \<Rightarrow> ('io \<Rightarrow> bool) \<Rightarrow> 'io machine \<Rightarrow> bool" where
  "suspended W J m \<longleftrightarrow>
     frame_ok W J m \<and> instruction_pointer m \<le> length (bytecode m) + 32 \<and>
     resources_of m = resources_empty \<and> stack_len (stack m) < STACK_SIZE"

definition yield_ok ::
    "nat \<Rightarrow> ('io \<Rightarrow> bool) \<Rightarrow> 'io machine \<Rightarrow> preemption_point \<Rightarrow> 'io machine \<Rightarrow> bool" where
  "yield_ok W J m0 p m \<longleftrightarrow>
     res_le (handed_over p) (resources_of m0) \<and> resources_of m = resources_empty \<and> J (io m) \<and>
     (\<forall>q h. p = Spawn q h \<longrightarrow> suspended W J m) \<and>
     (\<forall>q h. p = Spawn (RequestedDeployment q) h \<longrightarrow> returndata_location m = (0, 0))"

lemma wp_take_resources [simp]:
  "wp (on_gas gas_take_resources) Q E m =
     Q (resources_of m) (m\<lparr>gas := gas m\<lparr>gas_resources := resources_empty\<rparr>\<rparr>)"
  by (simp add: on_gas_def wp_def on_part_def gas_take_resources_def take_resources_def)

lemma wp_consume_all_gas [simp]:
  "wp (on_gas consume_all_gas) Q E m =
     Q () (m\<lparr>gas := gas m\<lparr>gas_resources := exhaust_ergs (resources_of m)\<rparr>\<rparr>)"
  by (simp add: on_gas_def consume_all_gas_def)

lemma wp_slice_of: "a \<le> b \<Longrightarrow> b \<le> length bs \<Longrightarrow> wp (slice_of bs (a, b)) Q E m = Q (take (b - a) (drop a bs)) m"
  by (simp add: slice_of_def)

lemma res_le_exhaust: "res_le (exhaust_ergs r) s \<longleftrightarrow> native r \<le> native s"
  by (simp add: res_le_def exhaust_ergs_def)

text \<open>The end of a frame in one equation.\<close>

definition returned_data :: "'io machine \<Rightarrow> bool \<Rightarrow> bytes" where
  "returned_data m empty_data =
     (if empty_data then []
      else take (snd (returndata_location m) - fst (returndata_location m))
             (drop (fst (returndata_location m)) (contents (heap m))))"

definition bad_code :: "bytes \<Rightarrow> bool" where
  "bad_code data \<longleftrightarrow> data \<noteq> [] \<and> hd data = 0xEF \<or> length data > MAX_CODE_SIZE"

definition end_of_frame :: "'io machine \<Rightarrow> bytes \<Rightarrow> bool \<Rightarrow> bool \<Rightarrow> end_point" where
  "end_of_frame m data reverted err =
     (let failed = err \<or> is_constructor m \<and> \<not> reverted \<and> bad_code data;
        r = if failed then exhaust_ergs (resources_of m) else resources_of m in
      if is_constructor m then
        CompletedDeployment r
          (if reverted \<or> bad_code data then DeploymentFailed data reverted
           else DeploymentSuccessful data [] (self_address m))
      else CompletedExecution r data reverted)"

lemma immediate_return_eq:
  assumes "fst (returndata_location m) \<le> snd (returndata_location m)"
    and "snd (returndata_location m) \<le> memory_len m"
  shows "create_immediate_return_state empty_data reverted err (m :: 'io machine) =
    (Inr (End (end_of_frame m (returned_data m empty_data) reverted err)),
     m\<lparr>gas := gas m\<lparr>gas_resources := resources_empty\<rparr>\<rparr>)"
proof -
  obtain a b where ab: "returndata_location m = (a, b)" by fastforce
  define data where "data = take (b - a) (drop a (contents (heap m)))"
  have "(slice_of (contents (heap m)) (a, b) :: ('io machine, evm_subsystem_error, bytes) rs) = ret data"
    using assms by (simp add: ab slice_of_def data_def memory_len_def)
  moreover have "1 \<le> length xs \<and> xs ! 0 = 0xEF \<longleftrightarrow> xs \<noteq> [] \<and> hd xs = 0xEF" for xs :: bytes
    by (cases xs) auto
  ultimately show ?thesis
    by (cases err; cases empty_data; cases reverted; cases "is_constructor m"; cases "bad_code data")
       (auto simp: create_immediate_return_state_def and_then_def ret_def read_st_def on_gas_def on_part_def
         consume_all_gas_def modify_st_def gas_take_resources_def take_resources_def exhaust_ergs_def
         end_of_frame_def returned_data_def ab data_def [symmetric] bad_code_def)
qed

lemma end_of_frame_le: "res_le (handed_over (End (end_of_frame m data reverted err))) (resources_of m)"
  by (simp add: end_of_frame_def Let_def res_le_def exhaust_ergs_def)

text \<open>How an exit code that is no request ends the frame: without data, and reverted?\<close>

fun exit_shape :: "exit_code \<Rightarrow> bool \<times> bool" where
  "exit_shape Stop = (True, False)"
| "exit_shape SelfDestruct = (True, False)"
| "exit_shape Return = (False, False)"
| "exit_shape Revert = (False, True)"
| "exit_shape _ = (True, True)"

lemma yield_point_end:
  assumes "exit_ok W J R m0 e m" and "plain_exit e" and "\<not> is_fatal e"
  shows "yield_point e m =
    (Inr (End (end_of_frame m (returned_data m (fst (exit_shape e))) (snd (exit_shape e)) (is_error e))),
     m\<lparr>gas := gas m\<lparr>gas_resources := resources_empty\<rparr>\<rparr>)"
proof -
  have "external_call_dest m = None"
    using assms(1, 2) by (auto simp: exit_ok_def request_ok_def plain_exit_def)
  with assms show ?thesis
    by (cases e) (simp_all add: yield_point_def and_then_def read_st_def is_fatal_def plain_exit_def
        exit_ok_def immediate_return_eq)
qed

lemma yield_point_ok:
  assumes "exit_ok W J R m0 e m"
  shows "wp (yield_point e) (yield_ok W J m0) (\<lambda>f _. e = FatalError f) m"
proof -
  consider f where "e = FatalError f" | "plain_exit e" "\<not> is_fatal e" | "e = ExternalCall" | "e = ConstructionCall"
    by (auto simp: plain_exit_def is_fatal_def)
  then show ?thesis
  proof cases
    case 1
    then show ?thesis by (simp add: yield_point_def)
  next
    case 2
    have "res_le (handed_over (End (end_of_frame m d r x))) (resources_of m0)" for d r x
      by (rule res_le_trans [OF end_of_frame_le]) (use assms in \<open>simp add: exit_ok_def\<close>)
    then show ?thesis using assms
      by (simp add: wp_def yield_point_end [OF assms 2] yield_ok_def exit_ok_def)
  next
    case 3
    then obtain q where q: "external_call_dest m = Some (CallRequest q)"
      "fst (req_calldata q) \<le> snd (req_calldata q)" "snd (req_calldata q) \<le> memory_len m"
      "stack_len (stack m) < STACK_SIZE"
      using assms by (auto simp: exit_ok_def request_ok_def)
    obtain a b where ab: "req_calldata q = (a, b)" by fastforce
    have "rel W J R m0 m" using assms 3 by (simp add: exit_ok_def plain_exit_def)
    then have "suspended W J (m\<lparr>gas := gas m\<lparr>gas_resources := resources_empty\<rparr>\<rparr>)"
      "res_le (resources_of m) (resources_of m0)" "J (io m)"
      using q(4) by (auto simp: suspended_def rel_def frame_ok_def heap_ok_def memory_len_def)
    then show ?thesis
      using q 3 by (simp add: yield_point_def sv_freeze_def ab wp_slice_of memory_len_def yield_ok_def)
  next
    case 4
    then obtain q where q: "external_call_dest m = Some (CreateRequest q)"
      "fst (dep_deployment_code q) \<le> snd (dep_deployment_code q)" "snd (dep_deployment_code q) \<le> memory_len m"
      "stack_len (stack m) < STACK_SIZE" "resources_of m = resources_empty" "returndata_location m = (0, 0)"
      "res_le (dep_deployer_full_resources q) (resources_of m0)"
      using assms by (auto simp: exit_ok_def request_ok_def)
    obtain a b where ab: "dep_deployment_code q = (a, b)" by fastforce
    have "rel W J R m0 m" using assms 4 by (simp add: exit_ok_def plain_exit_def)
    then have "suspended W J m" "J (io m)"
      using q by (auto simp: suspended_def rel_def frame_ok_def)
    then show ?thesis
      using q 4 by (simp add: yield_point_def sv_freeze_def ab wp_slice_of memory_len_def yield_ok_def)
  qed
qed

text \<open>A frame that waits, or has just been set up, whatever request an earlier run left in it.\<close>

definition ready :: "nat \<Rightarrow> ('io \<Rightarrow> bool) \<Rightarrow> 'io machine \<Rightarrow> bool" where
  "ready W J m \<longleftrightarrow> frame_ok W J m \<and> instruction_pointer m \<le> length (bytecode m) + 32"

lemma ready_runnable: "ready W J m \<Longrightarrow> runnable W J (m\<lparr>external_call_dest := None\<rparr>)"
  by (simp add: ready_def runnable_def frame_ok_def memory_len_def)

lemma execute_ok:
  assumes "host_ok J R sys" and "ruint_ok U" and "32 \<le> W" and "W \<le> 63" and "ready W J m"
  obtains x m' where "execute_till_yield_point W U sys m = Some (x, m')"
    and "x \<noteq> Inl Panic" and "\<And>p. x = Inr p \<Longrightarrow> yield_ok W J m p m'"
proof -
  let ?m = "m\<lparr>external_call_dest := None\<rparr>"
  obtain e m1 where run: "run W U sys ?m = Some (Err e, m1)" "exit_ok W J R ?m e m1"
    using run_ok [OF assms(1-4) ready_runnable [OF assms(5)]] by blast
  have "execute_till_yield_point W U sys m = Some (yield_point e m1)"
    using run(1) by (simp add: execute_till_yield_point_def)
  moreover have "wp (yield_point e) (yield_ok W J ?m) (\<lambda>f _. e = FatalError f) m1"
    by (rule yield_point_ok [OF run(2)])
  ultimately show thesis
    using that by (auto simp: wp_def yield_ok_def split: prod.splits sum.splits fault.splits)
qed



section \<open>Resuming\<close>

text \<open>A frame that holds nothing takes back anything without overflow.\<close>

lemma wp_reclaim:
  assumes "resources_of m = resources_empty"
  shows "wp (on_gas (reclaim_resources r)) Q E m = Q () (m\<lparr>gas := gas m\<lparr>gas_resources := r\<rparr>\<rparr>)"
  using assms unat_lt [of "ergs r"] unat_lt [of "native r"]
  by (cases r)
     (simp add: on_gas_def reclaim_resources_def on_gas_resources_def resources_reclaim_def on_ergs_def on_native_def
      wp_def on_part_def and_then_def ergs_reclaim_def native_reclaim_def checked_add_def
      resources_empty_def ergs_empty_def native_empty_def)

lemma ready_gas: "suspended W J m \<Longrightarrow> ready W J (m\<lparr>gas := gas m\<lparr>gas_resources := r\<rparr>\<rparr>)"
  by (simp add: suspended_def ready_def frame_ok_def heap_ok_def memory_len_def)

lemma wp_push_answer:
  assumes "ready W J m" and "stack_len (stack m) < STACK_SIZE"
    and "\<And>s. stack_ok s \<Longrightarrow> Q () (m\<lparr>stack := s\<rparr>)"
  shows "wp (on_stack (stack_push v)) Q E m"
proof -
  have "stack_ok (stack m)" using assms(1) by (simp add: ready_def frame_ok_def)
  then show ?thesis
    unfolding on_stack_def wp_on_part by (rule wp_stack_push) (use assms(2, 3) in auto)
qed

lemma ready_stack: "ready W J m \<Longrightarrow> stack_ok s \<Longrightarrow> ready W J (m\<lparr>stack := s\<rparr>)"
  by (simp add: ready_def frame_ok_def memory_len_def)

lemma ready_returndata: "ready W J m \<Longrightarrow> ready W J (m\<lparr>returndata := d\<rparr>)"
  by (simp add: ready_def frame_ok_def memory_len_def)

lemma wp_copy_returndata:
  assumes "ready W J m"
    and "\<And>h. ready W J (m\<lparr>heap := h, returndata := region\<rparr>) \<Longrightarrow> Q () (m\<lparr>heap := h, returndata := region\<rparr>)"
  shows "wp (copy_returndata_to_heap region) Q E m"
proof -
  obtain a b where ab: "returndata_location m = (a, b)" by fastforce
  have b: "a \<le> b" "b \<le> memory_len m" using assms(1) by (simp_all add: ready_def frame_ok_def ab)
  let ?src = "take (min (length region) (b - a)) region"
  let ?h = "heap m\<lparr>contents := take a (contents (heap m)) @ ?src @ drop (a + length ?src) (contents (heap m))\<rparr>"
  have le: "a + length ?src \<le> length (contents (heap m))" using b by (simp add: memory_len_def)
  then have len: "length (contents ?h) = length (contents (heap m))" by simp
  have "ready W J (m\<lparr>heap := ?h, returndata := region\<rparr>)"
    using assms(1) len by (simp add: ready_def frame_ok_def heap_ok_def memory_len_def)
  then have 1: "Q () (m\<lparr>heap := ?h, returndata := region\<rparr>)" by (rule assms(2))
  have "ready W J (m\<lparr>heap := heap m, returndata := region\<rparr>)" using ready_returndata [OF assms(1)] by simp
  then have "Q () (m\<lparr>heap := heap m, returndata := region\<rparr>)" by (rule assms(2))
  with 1 le show ?thesis by (simp add: copy_returndata_to_heap_def ab heap_write_def)
qed

text \<open>What the answer of a call or a creation leaves is ready to run, or the frame has ended.\<close>

definition answered :: "nat \<Rightarrow> ('io \<Rightarrow> bool) \<Rightarrow> preemption_point option \<Rightarrow> 'io machine \<Rightarrow> bool" where
  "answered W J p m \<longleftrightarrow> (p = None \<longrightarrow> ready W J m)"

lemma wp_after_external_call:
  assumes "suspended W J m"
  shows "wp (after_external_call r res) (answered W J) (\<lambda>_ _. False) m"
proof -
  let ?m = "m\<lparr>gas := gas m\<lparr>gas_resources := r\<rparr>\<rparr>"
  have e: "resources_of m = resources_empty" "stack_len (stack m) < STACK_SIZE"
    using assms by (simp_all add: suspended_def)
  have ok: "ready W J ?m" by (rule ready_gas [OF assms])
  have n: "gas_native (gas m) = 0" using e by (simp add: gas_native_def resources_empty_def native_empty_def)
  have push: "wp (copy_returndata_to_heap data) (\<lambda>_. wp (on_stack (stack_push v))
      (\<lambda>_. answered W J None) (\<lambda>_ _. False)) (\<lambda>_ _. False) ?m" for data v
    by (rule wp_copy_returndata [OF ok], rule wp_push_answer) (auto simp: e answered_def intro: ready_stack)
  have "wp (create_immediate_return_state True True False) (\<lambda>p. answered W J (Some p)) (\<lambda>_ _. False) ?m"
    using ok by (simp add: wp_def immediate_return_eq ready_def frame_ok_def memory_len_def answered_def)
  then show ?thesis
    unfolding after_external_call_def
    using push n by (cases res) (simp_all add: wp_reclaim [OF e(1)] push_zero_eq push_one_eq)
qed

lemma wp_after_deployment:
  assumes "suspended W J m" and "returndata_location m = (0, 0)"
    and "\<And>code data a. res = DeploymentSuccessful code data a \<Longrightarrow> data = []"
  shows "wp (after_deployment r res) (answered W J) (\<lambda>_ _. False) m"
proof -
  let ?m = "\<lambda>data. m\<lparr>gas := gas m\<lparr>gas_resources := r\<rparr>, returndata := data\<rparr>"
  have e: "resources_of m = resources_empty" "stack_len (stack m) < STACK_SIZE"
    using assms(1) by (simp_all add: suspended_def)
  have n: "gas_native (gas m) = 0" using e by (simp add: gas_native_def resources_empty_def native_empty_def)
  have "ready W J (?m data)" for data using ready_returndata [OF ready_gas [OF assms(1)]] by simp
  then have push: "wp (on_stack (stack_push v)) (\<lambda>_. answered W J None) (\<lambda>_ _. False) (?m data)" for data v
    by (intro wp_push_answer) (auto simp: e answered_def intro: ready_stack)
  show ?thesis
    unfolding after_deployment_def
    using n push assms(2, 3) by (cases res) (simp_all add: wp_reclaim [OF e(1)] push_zero_eq)
qed

lemma resume_ok:
  assumes "host_ok J R sys" and "ruint_ok U" and "32 \<le> W" and "W \<le> 63"
    and "wp after (answered W J) (\<lambda>_ _. False) m"
  shows "\<exists>x m'. resume W U sys after m = Some (x, m') \<and> x \<noteq> Inl Panic"
proof -
  obtain p m1 where p: "after m = (Inr p, m1)" "answered W J p m1" using wp_total [OF assms(5)] by blast
  show ?thesis
  proof (cases p)
    case None
    then have "ready W J m1" using p by (simp add: answered_def)
    then obtain x m' where "execute_till_yield_point W U sys m1 = Some (x, m')" "x \<noteq> Inl Panic"
      using execute_ok [OF assms(1-4)] by blast
    then show ?thesis using p None by (auto simp: resume_def)
  qed (use p in \<open>simp add: resume_def\<close>)
qed

lemma suspended_io: "suspended W J m \<Longrightarrow> J i \<Longrightarrow> suspended W J (m\<lparr>io := i\<rparr>)"
  by (simp add: suspended_def frame_ok_def memory_len_def)


section \<open>Starting a frame\<close>

text \<open>What the caller of the interpreter guarantees about the code it passes.\<close>

definition code_ok :: "nat \<Rightarrow> code_source \<Rightarrow> bool" where
  "code_ok W src \<longleftrightarrow>
     (case src of
        ConstructorCode code \<Rightarrow> length code < 2 ^ (W - 1)
      | Decommitted code deployed_len artifacts_len version \<Rightarrow>
          length code < 2 ^ (W - 1) \<and>
          (version = DEFAULT_CODE_VERSION_BYTE \<longrightarrow> artifacts_len = 0) \<and>
          (version = ARTIFACTS_CACHING_CODE_VERSION_BYTE \<longrightarrow>
             unat artifacts_len mod 8 = 0 \<and> unat deployed_len \<le> 8 * unat artifacts_len))"

lemma wp_create_artifacts:
  assumes "W = 32 \<or> W = 64"
    and "\<And>p r'. res_le r' r \<Longrightarrow> preprocessing_ok W code p \<Longrightarrow> Q p r'" and "\<And>e r'. E e r'"
  shows "wp (create_artifacts W code) Q E r"
proof -
  obtain ws where ws: "analyze W code = Some ws" "\<And>n. n < length code \<Longrightarrow> n div W < length ws"
    using analyze_correct [OF assms(1)] by metis
  have "length code \<le> W * length ws"
  proof (cases "length code")
    case (Suc n)
    then have "n div W < length ws" by (simp add: ws(2))
    then have "n < length ws * W" using assms(1) by auto
    then show ?thesis by (simp add: Suc mult.commute)
  qed simp
  then have p: "preprocessing_ok W code \<lparr>original_bytecode_len = length code, jumpdest_bitmap = Owned ws\<rparr>"
    by (simp add: preprocessing_ok_def)
  show ?thesis
    unfolding create_artifacts_def wp_and_then wp_on_part
    by (rule wp_resources_charge)
       (auto simp: create_artifacts_inner_def ws(1) assms(3) from_native_def res_le_def word_sub_le_iff
         intro!: assms(2) p)
qed

lemma wp_load_code:
  assumes "W = 32" and "code_ok W src"
    and "\<And>code p r'. res_le r' r \<Longrightarrow> length code < 2 ^ (W - 1) \<Longrightarrow> preprocessing_ok W code p \<Longrightarrow> Q (code, p) r'"
    and "\<And>e r'. E e r'"
  shows "wp (load_code W src) Q E r"
proof (cases src)
  case (ConstructorCode code)
  then show ?thesis
    using assms by (auto simp: load_code_def code_ok_def intro!: wp_create_artifacts)
next
  case (Decommitted code dl al v)
  show ?thesis
  proof (cases "v = ARTIFACTS_CACHING_CODE_VERSION_BYTE")
    case False
    then show ?thesis
      using assms Decommitted by (auto simp: load_code_def code_ok_def intro!: wp_create_artifacts)
  next
    case True
    then have v: "v \<noteq> DEFAULT_CODE_VERSION_BYTE" "unat al mod 8 = 0" "unat dl \<le> 8 * unat al" "length code < 2 ^ (W - 1)"
      using assms(2) Decommitted
      by (simp_all add: code_ok_def ARTIFACTS_CACHING_CODE_VERSION_BYTE_def DEFAULT_CODE_VERSION_BYTE_def)
    have "length (drop (length code - unat dl - unat al) (drop (unat dl) code)) = unat al"
      if "\<not> (length code < unat dl \<or> length code - unat dl < unat al)" using that by auto
    moreover have "res_le r r" by (simp add: res_le_def)
    moreover have "unat dl \<le> 32 * (unat al div 4)"
    proof -
      obtain k where "unat al = 8 * k" using v(2) by (auto simp: mod_eq_0_iff_dvd dvd_def)
      then show ?thesis using v(3) by simp
    qed
    ultimately show ?thesis
      using v Decommitted True assms
      by (auto simp: load_code_def parse_bytecode_def Let_def from_raw_def BYTECODE_ALIGNMENT_def
          preprocessing_ok_def view_words_def intro!: assms(3))
  qed
qed

lemma begin_frame_ok:
  assumes "code_ok 32 src" and "modifier q = Constructor \<Longrightarrow> callers_caller q = 0" and "J i"
  shows "wp (begin_frame 32 q src (sv_new cap))
     (\<lambda>_ m. ready 32 J m \<and> res_le (resources_of m) (available_resources q)) (\<lambda>_ _. True) (frame_new i)"
proof -
  have "wp (load_code 32 src) (\<lambda>(code, p) r. res_le r (available_resources q) \<and> length code < 2 ^ 31 \<and>
      preprocessing_ok 32 code p) (\<lambda>_ _. True) (available_resources q)"
    by (rule wp_load_code [OF refl assms(1)]) auto
  then show ?thesis
    using assms(2, 3)
    by (auto simp: begin_frame_def frame_roles_def wp_def and_then_def read_st_def assert_that_def ret_def
        throw_def panic_def frame_new_def gas_new_def ready_def frame_ok_def stack_ok_new memory_len_def
        heap_ok_def sv_new_def mem_cost_def
        split: call_modifier.splits prod.splits sum.splits fault.splits)
qed


section \<open>A concrete run\<close>

text \<open>A small system, a store of slots without costs, on which the theorems are evaluated.\<close>

type_synonym ex_io = "b160 \<times> u256 \<Rightarrow> u256"

definition ex_sys :: "ex_io evm_system" where
  "ex_sys =
     \<lparr>chain_id = 1, coinbase = 2, block_timestamp = 3, block_number = 4, block_gas_limit = 5,
      tx_gas_price = 6, eip1559_basefee = 7, tx_origin = 8, block_historical_hash = (\<lambda>n. Some (ucast n)),
      get_blob_hash = (\<lambda>_. None), blob_base_fee_per_gas = 9, keccak256 = (\<lambda>bs. ret (from_be_bytes bs)),
      storage_read = (\<lambda>t a k. read_st (\<lambda>(r, i). i (a, k))),
      storage_write = (\<lambda>t a k v. modify_st (\<lambda>(r, i). (r, i((a, k) := v)))),
      get_nominal_token_balance = (\<lambda>a. ret 0), get_selfbalance = (\<lambda>a. ret 0),
      get_observable_bytecode_size = (\<lambda>a. ret 0), get_observable_bytecode_hash = (\<lambda>a. ret 0),
      get_observable_bytecode = (\<lambda>a. ret []), emit_event = (\<lambda>a ts bs. ret ()),
      mark_for_deconstruction = (\<lambda>a b c. ret ()), read_nominal_token_balance = (\<lambda>a. ret 0),
      read_nonce_and_has_bytecode = (\<lambda>a. ret (0, False)), increment_nonce = (\<lambda>a n. ret 0)\<rparr>"

lemma ex_sys_ok: "host_ok (\<lambda>_. True) (=) ex_sys"
  by (simp add: host_ok_def ex_sys_def io_op_ok_def res_le_def)

text \<open>\<open>PUSH0 PUSH0 SSTORE\<close> in a static frame.\<close>

definition ex_static_code :: bytes where
  "ex_static_code = [OP_PUSH0, OP_PUSH0, OP_SSTORE]"

definition ex_static :: "ex_io machine" where
  "ex_static = (frame_new (\<lambda>_. 0))\<lparr>bytecode := ex_static_code, is_static := True,
     gas := \<lparr>gas_resources = \<lparr>ergs = 1000000, native = 1000\<rparr>, gas_paid_for_heap_growth = 0\<rparr>,
     heap := sv_new 64\<rparr>"

lemma ex_static_runnable: "runnable 32 (\<lambda>_. True) ex_static"
  by (simp add: runnable_def ex_static_def frame_new_def frame_ok_def stack_ok_new heap_ok_def sv_new_def
      mem_cost_def memory_len_def ex_static_code_def preprocessing_ok_def preprocessing_empty_def)

lemma ex_static_ready: "ready 32 (\<lambda>_. True) ex_static"
  using ex_static_runnable by (simp add: runnable_def ready_def)

lemmas step_eval = run_step_def and_then_def read_st_def modify_st_def usize_add_def ret_def throw_def
  get_bytecode_unchecked_def spend_def on_gas_def on_stack_def on_part_def spend_gas_and_native_def
  on_gas_resources_def ok_or_def checked_mul_def ERGS_PER_GAS_def from_ergs_and_native_def
  resources_charge_cases STEP_NATIVE_COST_def exec_opcode_def dispatch_def gas_schedule
  native_cost_def native_costs_def

definition ex_static_end :: "ex_io machine" where
  "ex_static_end = snd (the (run_within 3 32 ruint_ref ex_sys ex_static))"

lemma ex_static_run: "run_within 3 32 ruint_ref ex_sys ex_static =
    Some (Err StateChangeDuringStaticCall, ex_static_end)"
proof -
  have "fst (the (run_within 3 32 ruint_ref ex_sys ex_static)) = Err StateChangeDuringStaticCall
     \<and> run_within 3 32 ruint_ref ex_sys ex_static \<noteq> None"
    by (simp add: ex_static_def frame_new_def ex_static_code_def step_eval numeral_3_eq_3 instr_push0_def instr_sstore_def
        push_zero_def slot_write_def set_len_def STACK_SIZE_def stack_new_def)
  then show ?thesis by (auto simp: ex_static_end_def)
qed

lemma ex_static_run_loop: "run 32 ruint_ref ex_sys ex_static = Some (Err StateChangeDuringStaticCall, ex_static_end)"
  by (rule run_within_run [OF ex_static_run])






text \<open>\<open>CALL\<close> with all arguments zero.\<close>

definition ex_caller :: "ex_io machine" where
  "ex_caller = (frame_new (\<lambda>_. 0))\<lparr>bytecode := [OP_CALL],
     stack := \<lparr>stack_buffer = (\<lambda>i. if i < 7 then Some 0 else None), stack_len = 7\<rparr>,
     gas := \<lparr>gas_resources = \<lparr>ergs = 1000000, native = 5000\<rparr>, gas_paid_for_heap_growth = 0\<rparr>,
     heap := sv_new 64\<rparr>"

lemma ex_caller_ready: "ready 32 (\<lambda>_. True) ex_caller"
  by (simp add: ready_def ex_caller_def frame_new_def frame_ok_def stack_ok_def STACK_SIZE_def heap_ok_def
      sv_new_def mem_cost_def memory_len_def preprocessing_ok_def preprocessing_empty_def)

lemma ex_caller_step:
  "\<exists>m1 q. run_step 32 ruint_ref ex_sys ex_caller = (Inl (Err ExternalCall), m1) \<and>
     external_call_dest m1 = Some (CallRequest q)"
  by (simp add: ex_caller_def frame_new_def step_eval instr_call_def call_impl_def clear_last_returndata_def
      pop_2_def pop_1_def pop_4_def slot_ref_def STACK_SIZE_def set_len_def call_value_of_def Let_def
      cast_offset_and_len_def resize_heap_def resize_heap_implementation_def saturating_usize_add_def
      usize_max_def next_multiple_of_def expect_def sv_new_def)

lemma yield_call_shape:
  assumes "external_call_dest m = Some (CallRequest q)" and "yield_point ExternalCall m = (Inr p, m')"
  shows "\<exists>r h. p = Spawn (RequestedExternalCall r) h"
  using assms
  by (auto simp: yield_point_def and_then_def read_st_def assert_that_def slice_of_def ret_def panic_def
      on_gas_def on_part_def gas_take_resources_def take_resources_def case_prod_beta
      split: prod.splits sum.splits if_splits)

lemma ex_caller_spawns:
  "\<exists>r h m1. execute_till_yield_point 32 ruint_ref ex_sys ex_caller = Some (Inr (Spawn (RequestedExternalCall r) h), m1)"
proof -
  have m: "ex_caller\<lparr>external_call_dest := None\<rparr> = ex_caller" by (simp add: ex_caller_def frame_new_def)
  obtain m1 q where "run_step 32 ruint_ref ex_sys ex_caller = (Inl (Err ExternalCall), m1)"
    and q: "external_call_dest m1 = Some (CallRequest q)"
    using ex_caller_step by blast
  then have run: "run 32 ruint_ref ex_sys ex_caller = Some (Err ExternalCall, m1)" by (subst run.simps) simp
  have "exit_ok 32 (\<lambda>_. True) (=) ex_caller ExternalCall m1"
    using run_ok [OF ex_sys_ok ruint_ref_ok _ _ ready_runnable [OF ex_caller_ready]] run m by auto
  then obtain p m2 where "yield_point ExternalCall m1 = (Inr p, m2)"
    using wp_result [OF yield_point_ok] by fastforce
  with yield_call_shape [OF q] run m show ?thesis
    by (auto simp: execute_till_yield_point_def)
qed


end
