(* ===== verification/Spec2Isabelle.thy ===== *)
theory Spec2Isabelle
  imports Resources History_Map_Spec Frame_Store Pubdata_Compression Snapshot_Lists Logs_Storage Storage_Cache
    Io_Transactions Flat_Tree_Commitment Evm_Frames
begin

text \<open>
  A verification library for ZKsync OS, the state transition function of a ZKsync chain: an EVM interpreter, the system
  that it runs on, and the commitment to the state that a proof is made for. Paths are relative to
  \<^verbatim>\<open>src/\<close>; \<open>fsm\<close> stands for \<^verbatim>\<open>basic_system/src/system_implementation/flat_storage_model\<close>.

  \<^bold>\<open>The program and its parts.\<close> The interpreter executes one frame of one contract. It calls the IO
  subsystem for slots, accounts, code, events and logs, and yields when it needs another frame. The IO
  subsystem keeps a cache of everything that the block has touched, and can undo what a failed frame did. At
  the end of a block, the reads and writes that the cache has seen are checked against the old state
  root, and the new root is computed, from Merkle paths that an untrusted host provides; the diffs are compressed and
  published. Everything is paid for twice: in ergs (256 to one unit of EVM gas) and in a native resource that stands for
  the cost of proving.

  \<^bold>\<open>How code is modelled.\<close> \<open>Zk_Prelude\<close>: a method on \<open>&mut self\<close> is a function in the
  state-and-result monad \<open>rs\<close>. The result is a value, an error of the source's error type, or \<open>Panic\<close>:
  a failed \<open>assert!\<close>, \<open>unwrap\<close>, \<open>expect\<close>, index or checked addition of the source. The state after an error is the state that the
  source leaves behind. Structs are records, enums are datatypes, \<open>u64\<close>, \<open>U256\<close>, \<open>Bytes32\<close> and \<open>B160\<close> are
  words of 64, 256, 256 and 160 bits; \<open>usize\<close> is a natural number below \<open>2 ^ W\<close>, with the width \<open>W\<close> of the target (32 for the
  proving machine, 64 for the sequencer) as a parameter. Weakest preconditions
  (\<open>wp\<close>) exclude panics; \<open>returns\<close> and \<open>keeps\<close> state what holds whenever an operation returns.

  \<^bold>\<open>Resources.\<close> \<open>Resources\<close> models \<^verbatim>\<open>zk_ee/src/system/resources.rs\<close> and
  \<^verbatim>\<open>zk_ee/src/reference_implementations/mod.rs\<close>; the trait \<open>Resource\<close> is a locale, interpreted on ergs and on
  the native resource. Shown: what a charge does on each branch, that charging and giving back cancel.

  \<^bold>\<open>Structures with rollback.\<close> \<open>History_Map\<close> is the pointer program of \<^verbatim>\<open>zk_ee/src/common_structs/history_map/\<close>
  (element pool, element with history, map) over an explicit heap of cells. \<open>History_Map_Spec\<close> gives its specification by lists of versions per
  key, the refinement (\<open>hm_rel\<close>, one lemma per operation), and from it: no operation panics, a
  rollback restores, a commit keeps the values, every cell is freed once, iteration never aliases. \<open>Snapshot_Lists\<close> models the lists and counters
  that are cut back (\<^verbatim>\<open>history_list.rs\<close>, \<^verbatim>\<open>history_counter.rs\<close>, \<^verbatim>\<open>events_storage.rs\<close>, and the stacks of
  \<^verbatim>\<open>zk_ee/src/memory/\<close>); \<open>Logs_Storage\<close> the L2-to-L1 logs and their Merkle tree; \<open>Pubdata_Compression\<close> the
  compression of value diffs. \<open>Frame_Store\<close> states the contract of \<open>start_frame\<close> and \<open>finish_frame\<close> as a locale;
  it is interpreted on the map, the slots, the transient slots, the logs, the events, the flat storage and the whole IO subsystem, so that
  the lemma that a failed frame restores what was visible is proved once. \<open>Cache_View\<close> and \<open>Cache_Values\<close> hold the
  rules for a map in front of an oracle.

  \<^bold>\<open>Storage.\<close> \<open>Storage_Cache\<close> models the slot cache (\<^verbatim>\<open>cache_structs/storage_values.rs\<close>) with the EVM's
  access costs and refunds (\<^verbatim>\<open>system_implementation/system/mod.rs\<close>). \<open>Transient_Storage\<close>, \<open>Preimage_Cache\<close>,
  \<open>Account_Properties\<close>, \<open>Account_Diffs\<close>, \<open>Account_Cache\<close> and \<open>Flat_Storage\<close> follow the files of \<open>fsm\<close> of
  the same names; \<open>Io_Subsystem\<close> is \<^verbatim>\<open>basic_storage_model.rs\<close>, and \<open>io_system\<close> there plugs it into the
  interpreter. \<open>Io_Frames\<close> shows that every operation keeps what the open frames have to bring back;
  \<open>Io_Transactions\<close> goes over the transactions of a block (\<open>io_tx_begins\<close>, \<open>io_run\<close>), up to the deconstruction of
  accounts at the end of each.

  \<^bold>\<open>State commitment.\<close> \<open>Flat_Tree\<close> models the verifier's side of \<^verbatim>\<open>simple_growable_storage.rs\<close>: leaves linked in
  the order of their keys, in a Merkle tree of depth \<open>N\<close> (64 in the source, a parameter here). The oracle is a list of answers that nothing is assumed about.
  \<open>Flat_Tree_Paths\<close> and \<open>Flat_Tree_Roots\<close> treat the joining of the paths, before and after the writes;
  \<open>Flat_Tree_Gather\<close> what is recorded on the way; \<open>Flat_Tree_Batch\<close> and \<open>Flat_Tree_Links\<close> relate that to the committed
  leaves; \<open>Flat_Tree_Sound\<close> and \<open>Flat_Tree_Commitment\<close> conclude that, if the check returns and no collision of the hash
  function occurs among the nodes at hand, then every read was answered with the value of the committed state, and the new root commits to
  the state after the writes. The hash function is a parameter; its only hypothesis is \<open>collision_free\<close> on those nodes.

  \<^bold>\<open>Interpreter.\<close> \<open>Evm_Stack\<close>, \<open>Evm_Words\<close>, \<open>Evm_Gas\<close>, \<open>Evm_Bytecode\<close>, \<open>Evm_Opcodes\<close>, \<open>Evm_Errors\<close>,
  \<open>Evm_Machine\<close>, the three \<open>Evm_Instr\<close> theories, \<open>Evm_Calls\<close> and \<open>Evm_Run\<close> model
  \<^verbatim>\<open>evm_interpreter/src/\<close>, every instruction with its gas, its native cost and its errors, over the record \<open>evm_system\<close> of
  the operations of the host. \<open>Evm_Safety\<close> proves of each instruction what it keeps, given what is relied on of the host (\<open>host_ok\<close>);
  \<open>Evm_Frames\<close> lifts this to frames: the loop ends, a frame yields or finishes and never panics, a suspended frame can be
  resumed, static frames change nothing, an error consumes all gas. \<open>Bytes\<close> holds the big-endian encodings.

  \<^bold>\<open>Bounds and fuel.\<close> The loop of a frame is \<open>partial_function (option)\<close>; that it returns is proved, because every step charges
  native resource or ends the frame. The other loops are structural or have termination proofs. Where a counter could overflow
  (\<open>next_snapshot_id\<close>, the transaction number, the lengths of logs), the room that is needed is a hypothesis named in the statement.

  \<^bold>\<open>Not modelled.\<close> The rest of the bootloader (transaction formats, validation and fees, the block loop), the system hooks and the precompiles, the
  Ethereum storage model with its Patricia trie, the cryptographic primitives, the IWASM environment (excluded from the
  build), tracers and result keepers, the entry points of sequencer and prover. They are decoders of external formats, arithmetic
  on accelerator instructions of the proving machine, or glue to files, allocators and registers; hash functions, the oracle and the metadata of the block
  are parameters instead. The in-memory tree that answers the oracle in the sequencer is left out of the
  state commitment: the check of its answers does not rely on it.
\<close>

end
